(* ===== verification/Varint.thy ===== *)
theory Varint
  imports Prelude
begin

text \<open>
  The LEB128 varint codec of the \<open>ordinals\<close> crate (\<open>crates/ordinals/src/varint.rs\<close>),
  used by the index to prefix UTXO entries. \<open>encode_to_vec\<close> appends to the vector it
  is given; \<open>decode\<close> returns the value and the number of bytes it read. The lemmas
  show that decoding inverts encoding on every 128-bit value, whatever follows it in
  the buffer, and what decoding does outside the image of the encoder.
\<close>

section \<open>Encoder and decoder\<close>

datatype varint_error = Overlong

lemma unat_drop_bit_7_less:
  fixes n :: u128
  assumes "0 < drop_bit 7 n"
  shows "unat (drop_bit 7 n) < unat n"
proof -
  have "unat (drop_bit 7 n) = unat n div 128"
    by (simp add: drop_bit_eq_div unat_div)
  moreover have "0 < unat (drop_bit 7 n)"
    using assms by (simp add: word_less_nat_alt)
  ultimately show ?thesis by simp
qed

function encode_to_vec :: "u128 \<Rightarrow> bytes \<Rightarrow> bytes" where
  "encode_to_vec n v =
     (if 0 < drop_bit 7 n then encode_to_vec (drop_bit 7 n) (v @ [ucast n OR 128])
      else v @ [ucast n])"
  by pat_completeness auto
termination
  by (relation "measure (\<lambda>(n, v). unat n)") (use unat_drop_bit_7_less in auto)

declare encode_to_vec.simps [simp del]

fun decode_from :: "nat \<Rightarrow> u128 \<Rightarrow> bytes \<Rightarrow> (varint_error, u128 \<times> nat) result" where
  "decode_from i n [] = Err Overlong"
| "decode_from i n (byte # rest) =
     (if i > 18 then Err Overlong
      else
        let value = ucast byte AND 127;
            n' = n OR push_bit (7 * i) value
        in if byte AND 128 = 0 then Ok (n', i + 1) else decode_from (Suc i) n' rest)"

definition decode :: "bytes \<Rightarrow> (varint_error, u128 \<times> nat) result" where
  "decode buffer = decode_from 0 0 buffer"

section \<open>Lemmas\<close>

lemma encode_to_vec_append: "encode_to_vec n v = v @ encode_to_vec n []"
proof (induction "unat n" arbitrary: n v rule: less_induct)
  case less
  show ?case
  proof (cases "0 < drop_bit 7 n")
    case True
    have step: "encode_to_vec n v = encode_to_vec (drop_bit 7 n) (v @ [ucast n OR 128])" for v
      by (subst encode_to_vec.simps) (simp add: True)
    note IH = less [OF unat_drop_bit_7_less [OF True]]
    have "encode_to_vec n v = (v @ [ucast n OR 128]) @ encode_to_vec (drop_bit 7 n) []"
      by (rule trans [OF step IH])
    moreover have "encode_to_vec n [] = ([] @ [ucast n OR 128]) @ encode_to_vec (drop_bit 7 n) []"
      by (rule trans [OF step IH])
    ultimately show ?thesis by simp
  next
    case False
    then show ?thesis by (simp add: encode_to_vec.simps [of n])
  qed
qed

lemma encode_to_vec_more:
  assumes "0 < drop_bit 7 n"
  shows "encode_to_vec n [] = (ucast n OR 128) # encode_to_vec (drop_bit 7 n) []"
  by (subst encode_to_vec.simps) (simp add: assms encode_to_vec_append [of _ "[_]"])

lemma encode_to_vec_last:
  assumes "\<not> 0 < drop_bit 7 n"
  shows "encode_to_vec n [] = [ucast n]"
  by (subst encode_to_vec.simps) (simp add: assms)

lemma encode_to_vec_nonempty [simp]: "encode_to_vec n [] \<noteq> []"
  by (subst encode_to_vec.simps) (simp add: encode_to_vec_append [of _ "[_]"])

lemma and_127: "(x :: 'a::len word) AND 127 = take_bit 7 x"
  by (simp add: take_bit_eq_mask mask_eq_exp_minus_1)

lemma and_128_eq_0: "(b :: u8) AND 128 = 0 \<longleftrightarrow> \<not> bit b 7"
  using and_exp_eq_0_iff_not_bit [of b 7] by simp

lemma take_bit_7_byte: "take_bit 7 (ucast (ucast (n :: u128) :: u8)) = take_bit 7 n"
  by (rule bit_word_eqI) (auto simp: bit_simps)

lemma take_bit_7_byte_or: "take_bit 7 (ucast (ucast (n :: u128) OR 128 :: u8)) = take_bit 7 n"
proof (rule bit_word_eqI)
  fix k
  have "bit (128 :: u8) k \<longleftrightarrow> k = 7"
    using bit_exp_iff [of 7 k, where 'a = u8] by auto
  then show "bit (take_bit 7 (ucast (ucast n OR 128 :: u8)) :: u128) k = bit (take_bit 7 n) k"
    by (auto simp: bit_simps)
qed

lemma drop_bit_7_eq_0_bit: "drop_bit 7 (n :: u128) = 0 \<Longrightarrow> \<not> bit n 7"
proof -
  assume "drop_bit 7 n = 0"
  then have "\<not> bit (drop_bit 7 n) 0" by simp
  then show ?thesis by (simp only: bit_drop_bit_eq comp_apply) simp
qed

lemma split_7:
  "push_bit (7 * i) (take_bit 7 n) OR push_bit (7 * Suc i) (drop_bit 7 n) = push_bit (7 * i) (n :: u128)"
proof (rule bit_word_eqI)
  fix k assume "k < LENGTH(128)"
  then show "bit (push_bit (7 * i) (take_bit 7 n) OR push_bit (7 * Suc i) (drop_bit 7 n)) k
      = bit (push_bit (7 * i) n) k"
    by (cases "k < 7 * Suc i") (auto simp: bit_simps)
qed

lemma decode_from_encode:
  assumes "i \<le> 18" and "unat n < 2 ^ (128 - 7 * i)"
  shows "decode_from i acc (encode_to_vec n [] @ rest)
    = Ok (acc OR push_bit (7 * i) n, i + length (encode_to_vec n []))"
  using assms
proof (induction "unat n" arbitrary: n i acc rule: less_induct)
  case less
  show ?case
  proof (cases "0 < drop_bit 7 n")
    case True
    let ?b = "ucast n OR 128 :: u8"
    let ?m = "drop_bit 7 n"
    have dm: "unat ?m = unat n div 128"
      by (simp add: drop_bit_eq_div unat_div)
    have i17: "i < 18"
    proof (rule ccontr)
      assume "\<not> i < 18"
      with less.prems have "i = 18" by simp
      with less.prems have "unat ?m = 0" using dm by simp
      with True show False by (simp add: word_less_nat_alt)
    qed
    then have e: "128 - 7 * i = 7 + (128 - 7 * Suc i)" by simp
    have "(2 :: nat) ^ (128 - 7 * i) = 128 * 2 ^ (128 - 7 * Suc i)"
      by (subst e, subst power_add) simp
    then have "unat n < 128 * 2 ^ (128 - 7 * Suc i)"
      using less.prems(2) by linarith
    then have bound: "unat ?m < 2 ^ (128 - 7 * Suc i)"
      using dm by (simp add: less_mult_imp_div_less mult.commute)
    have IH: "decode_from (Suc i) acc' (encode_to_vec ?m [] @ rest)
        = Ok (acc' OR push_bit (7 * Suc i) ?m, Suc i + length (encode_to_vec ?m []))" for acc'
      by (rule less.hyps) (use unat_drop_bit_7_less [OF True] i17 bound in auto)
    have "?b AND 128 \<noteq> 0"
      using bit_exp_iff [of 7 7, where 'a = u8] by (simp add: and_128_eq_0 bit_or_iff)
    then have "decode_from i acc (encode_to_vec n [] @ rest)
        = decode_from (Suc i) (acc OR push_bit (7 * i) (take_bit 7 n)) (encode_to_vec ?m [] @ rest)"
      using i17 by (simp add: encode_to_vec_more [OF True] and_127 take_bit_7_byte_or)
    also have "\<dots> = Ok (acc OR push_bit (7 * i) n, i + length (encode_to_vec n []))"
      by (simp only: IH or.assoc split_7) (simp add: encode_to_vec_more [OF True])
    finally show ?thesis .
  next
    case False
    then have z: "drop_bit 7 n = 0"
      by (simp only: word_gt_0 not_not)
    have "take_bit 7 n = n"
      using z by (simp only: take_bit_eq_self_iff_drop_bit_eq_0)
    moreover have "\<not> bit (ucast n :: u8) 7"
      using drop_bit_7_eq_0_bit [OF z] by (simp add: bit_simps)
    ultimately show ?thesis
      using less.prems(1)
      by (simp add: encode_to_vec_last [OF False] and_127 and_128_eq_0 take_bit_7_byte)
  qed
qed

lemma encode_length_bound: "length (encode_to_vec n []) \<le> 19"
proof -
  have "length (encode_to_vec n []) \<le> Suc k" if "unat n < 128 ^ Suc k" for n k
    using that
  proof (induction k arbitrary: n)
    case 0
    then have "\<not> 0 < drop_bit 7 n"
      by (simp add: word_less_nat_alt drop_bit_eq_div unat_div)
    then show ?case by (simp add: encode_to_vec_last)
  next
    case (Suc k)
    show ?case
    proof (cases "0 < drop_bit 7 n")
      case True
      have "unat (drop_bit 7 n) < 128 ^ Suc k"
        using Suc.prems by (simp add: drop_bit_eq_div unat_div less_mult_imp_div_less mult.commute)
      with Suc.IH True show ?thesis by (simp add: encode_to_vec_more)
    next
      case False
      then show ?thesis by (simp add: encode_to_vec_last)
    qed
  qed
  moreover have "unat n < 128 ^ Suc 18"
    using unsigned_less [of n, where 'a = nat] by simp
  ultimately show ?thesis by fastforce
qed

text \<open>Decoding never reads more than nineteen bytes, nor past the buffer.\<close>

lemma decode_from_bounds:
  "decode_from i n buf = Ok (m, k) \<Longrightarrow> i < k \<and> k \<le> i + length buf \<and> k \<le> 19"
proof (induction i n buf rule: decode_from.induct)
  case (1 i n)
  then show ?case by simp
next
  case (2 i n byte rest)
  then show ?case by (fastforce simp: Let_def split: if_splits)
qed

section \<open>Properties\<close>

text \<open>C25: decoding a buffer that starts with the encoding of any 128-bit value gives back
  the value and the length of the encoding, whatever bytes follow.\<close>

theorem varint_roundtrip:
  "decode (encode_to_vec n [] @ rest) = Ok (n, length (encode_to_vec n []))"
  using decode_from_encode [of 0 n 0 rest] unsigned_less [of n, where 'a = nat]
  by (simp add: decode_def)

text \<open>the decoder is not the inverse of the encoder on all accepted input: the bits of a
  nineteenth byte above the two that fit in 128 bits are shifted out without an error, so
  two different nineteen-byte strings decode to the same value, and one of them is not an
  encoding of it.\<close>

theorem varint_decode_drops_high_bits:
  "decode ([128, 128, 128, 128, 128, 128, 128, 128, 128, 128, 128, 128, 128, 128, 128, 128, 128, 128, 4]) = Ok (0, 19)
    \<and> decode ([128, 128, 128, 128, 128, 128, 128, 128, 128, 128, 128, 128, 128, 128, 128, 128, 128, 128, 0]) = Ok (0, 19)
    \<and> encode_to_vec 0 [] = [0]"
  by (simp add: decode_def encode_to_vec.simps del: replicate.simps)

end
