(* ===== verification/Utxo.thy ===== *)
theory Utxo
  imports Varint
begin

text \<open>
  The serialised entry of an unspent output in the index
  (\<open>src/index/utxo_entry.rs\<close>, \<open>src/index/entry.rs\<close>): eleven-byte sat ranges, the entry's
  builder with the states it checks in debug builds, its parser, and the merge of two
  entries of a special outpoint. A panic (an assertion, a slice out of range, an
  \<open>unwrap\<close>) is \<open>None\<close>. The locale \<open>fixed_codec\<close> is the contract of the index's
  fixed-width records, and holds of sat ranges.
\<close>

section \<open>Fixed-width records\<close>

text \<open>\<open>chunks_exact\<close>: the leading chunks of the given width, the rest dropped.\<close>

fun chunks_exact_fuel :: "nat \<Rightarrow> nat \<Rightarrow> 'a list \<Rightarrow> 'a list list" where
  "chunks_exact_fuel 0 n xs = []"
| "chunks_exact_fuel (Suc k) n xs =
     (if length xs < n then [] else take n xs # chunks_exact_fuel k n (drop n xs))"

definition chunks_exact :: "nat \<Rightarrow> 'a list \<Rightarrow> 'a list list" where
  "chunks_exact n xs = chunks_exact_fuel (length xs div n) n xs"

lemma chunks_exact_Nil [simp]: "chunks_exact n [] = []"
  by (simp add: chunks_exact_def)

lemma chunks_exact_step:
  assumes "0 < n" "length c = n"
  shows "chunks_exact n (c @ xs) = c # chunks_exact n xs"
proof -
  have "length (c @ xs) div n = Suc (length xs div n)" using assms by (simp add: div_add_self1)
  then show ?thesis using assms(2) by (simp add: chunks_exact_def)
qed

lemma chunks_exact_concat:
  assumes "0 < n" "\<forall>c \<in> set cs. length c = n"
  shows "chunks_exact n (concat cs) = cs"
  using assms by (induction cs) (simp_all add: chunks_exact_step)

lemma concat_chunks_exact:
  assumes "0 < n" "n dvd length xs"
  shows "concat (chunks_exact n xs) = xs \<and> (\<forall>c \<in> set (chunks_exact n xs). length c = n)"
  using assms(2)
proof (induction "length xs div n" arbitrary: xs)
  case 0
  then have "length xs = 0" using assms(1) by (metis dvd_div_eq_0_iff)
  then show ?case by simp
next
  case (Suc k)
  have "length xs div n \<noteq> 0" using Suc.hyps(2) by (metis nat.distinct(1))
  then have le: "n \<le> length xs" by (metis div_less not_less)
  have "length xs div n = Suc ((length xs - n) div n)" by (rule le_div_geq [OF assms(1) le])
  then have k: "k = length (drop n xs) div n" using Suc.hyps(2) by (metis length_drop nat.inject)
  have d: "n dvd length (drop n xs)" using dvd_diff_nat [OF Suc.prems dvd_refl] by simp
  have ih: "concat (chunks_exact n (drop n xs)) = drop n xs"
    "\<forall>c \<in> set (chunks_exact n (drop n xs)). length c = n"
    using Suc.hyps(1) [OF k d] by simp_all
  have "chunks_exact n xs = take n xs # chunks_exact n (drop n xs)"
    using chunks_exact_step [of n "take n xs" "drop n xs"] assms(1) le by simp
  moreover have "length (take n xs) = n" using le by simp
  ultimately show ?case using ih by (metis append_take_drop_id concat.simps(2) set_ConsD)
qed

locale fixed_codec =
  fixes store :: "'a \<Rightarrow> bytes" and load :: "bytes \<Rightarrow> 'a" and width :: nat and ok :: "'a \<Rightarrow> bool"
  assumes width_pos: "0 < width"
    and length_store: "length (store x) = width"
    and load_store: "ok x \<Longrightarrow> load (store x) = x"
begin

lemma length_concat_store: "length (concat (map store xs)) = width * length xs"
  by (induction xs) (simp_all add: length_store)

lemma chunks_store: "chunks_exact width (concat (map store xs)) = map store xs"
  by (rule chunks_exact_concat) (auto simp: width_pos length_store)

lemma load_all:
  "(\<forall>x \<in> set xs. ok x) \<Longrightarrow> map load (chunks_exact width (concat (map store xs))) = xs"
  by (simp add: chunks_store map_idI load_store)

end

section \<open>Sat ranges\<close>

type_synonym sat_range = "u64 \<times> u64"

definition sat_range_load :: "bytes \<Rightarrow> sat_range" where
  "sat_range_load bs =
     (let raw_base = word_of_nat (le_val (take 7 bs)) :: u64;
          base = raw_base AND (push_bit 51 1 - 1);
          raw_delta = word_of_nat (le_val (take 5 (drop 6 bs))) :: u64;
          delta = drop_bit 3 raw_delta
      in (base, base + delta))"

definition sat_range_store :: "sat_range \<Rightarrow> bytes" where
  "sat_range_store r =
     (let base = fst r; delta = snd r - fst r;
          n = ucast base OR push_bit 51 (ucast delta) :: u128
      in take 11 (le_bytes 16 (unat n)))"

text \<open>The ranges the format can hold: the start below \<open>2^51\<close> and the size below \<open>2^37\<close>.\<close>

definition sat_range_ok :: "sat_range \<Rightarrow> bool" where
  "sat_range_ok r = (fst r \<le> snd r \<and> unat (fst r) < 2 ^ 51 \<and> unat (snd r - fst r) < 2 ^ 37)"

definition range_size :: "sat_range \<Rightarrow> nat" where
  "range_size r = unat (snd r) - unat (fst r)"

section \<open>Entries\<close>

text \<open>The index's settings, the build's \<open>sats\<close> feature and its debug assertions.\<close>

record index_flags =
  index_sats :: bool
  index_addresses :: bool
  feature_sats :: bool
  debug_assertions :: bool

datatype sats = Ranges bytes | Value u64

datatype buf_state = NeedSats | NeedScriptPubkey | Valid

record parsed_utxo_entry =
  pe_sats :: sats
  pe_script :: "bytes option"

record utxo_entry_buf =
  ub_vec :: bytes
  ub_state :: buf_state

definition slice :: "nat \<Rightarrow> nat \<Rightarrow> 'a list \<Rightarrow> 'a list option" where
  "slice a b xs = (if a \<le> b \<and> b \<le> length xs then Some (take (b - a) (drop a xs)) else None)"

definition assert_that :: "bool \<Rightarrow> unit option" where
  "assert_that b = (if b then Some () else None)"

text \<open>\<open>try_into().unwrap()\<close> of a 128-bit value to \<open>usize\<close> or \<open>u64\<close>.\<close>

definition narrow64 :: "u128 \<Rightarrow> u64 option" where
  "narrow64 n = (if unat n < 2 ^ 64 then Some (ucast n) else None)"

definition ok_value :: "('e, 'a) result \<Rightarrow> 'a option" where
  "ok_value r = (case r of Err _ \<Rightarrow> None | Ok x \<Rightarrow> Some x)"

definition entry_parse_sats :: "index_flags \<Rightarrow> bytes \<Rightarrow> (sats \<times> u64) option" where
  "entry_parse_sats ix bs =
     Option.bind (ok_value (decode bs)) (\<lambda>(n, varint_len).
     if index_sats ix then
       Option.bind (narrow64 n) (\<lambda>num_sat_ranges.
       let offset = word_of_nat varint_len :: u64; sat_ranges_len = num_sat_ranges * 11 in
       Option.bind (slice (unat offset) (unat (offset + sat_ranges_len)) bs) (\<lambda>ranges.
       Some (Ranges ranges, offset + sat_ranges_len)))
     else Option.bind (narrow64 n) (\<lambda>v. Some (Value v, word_of_nat varint_len)))"

definition entry_parse :: "index_flags \<Rightarrow> bytes \<Rightarrow> parsed_utxo_entry option" where
  "entry_parse ix bs =
     Option.bind (entry_parse_sats ix bs) (\<lambda>(sats, offset).
     if index_addresses ix then
       Option.bind (slice (unat offset) (length bs) bs) (\<lambda>rest.
       Option.bind (ok_value (decode rest)) (\<lambda>(n, varint_len).
       let offset = offset + word_of_nat varint_len in
       Option.bind (narrow64 n) (\<lambda>script_pubkey_len.
       Option.bind (slice (unat offset) (unat (offset + script_pubkey_len)) bs) (\<lambda>script.
       Some \<lparr>pe_sats = sats, pe_script = Some script\<rparr>))))
     else Some \<lparr>pe_sats = sats, pe_script = None\<rparr>)"

definition ranges_value :: "bytes \<Rightarrow> u64" where
  "ranges_value ranges =
     fold (\<lambda>chunk value. let range = sat_range_load chunk in value + (snd range - fst range))
       (chunks_exact 11 ranges) 0"

definition total_value :: "parsed_utxo_entry \<Rightarrow> u64" where
  "total_value p = (case pe_sats p of Value v \<Rightarrow> v | Ranges r \<Rightarrow> ranges_value r)"

definition entry_sat_ranges :: "parsed_utxo_entry \<Rightarrow> bytes option" where
  "entry_sat_ranges p = (case pe_sats p of Ranges r \<Rightarrow> Some r | Value _ \<Rightarrow> None)"

definition buf_new :: utxo_entry_buf where
  "buf_new = \<lparr>ub_vec = [], ub_state = NeedSats\<rparr>"

definition advance_state ::
  "index_flags \<Rightarrow> buf_state \<Rightarrow> buf_state \<Rightarrow> utxo_entry_buf \<Rightarrow> utxo_entry_buf option" where
  "advance_state ix expected new b =
     (if \<not> debug_assertions ix then Some b
      else Option.bind (assert_that (ub_state b = expected)) (\<lambda>_.
        Some (b\<lparr>ub_state :=
          if new = NeedScriptPubkey \<and> \<not> index_addresses ix then Valid else new\<rparr>)))"

definition push_value :: "index_flags \<Rightarrow> u64 \<Rightarrow> utxo_entry_buf \<Rightarrow> utxo_entry_buf option" where
  "push_value ix value b =
     Option.bind (assert_that (\<not> index_sats ix \<or> \<not> feature_sats ix)) (\<lambda>_.
     advance_state ix NeedSats NeedScriptPubkey
       (b\<lparr>ub_vec := encode_to_vec (ucast value) (ub_vec b)\<rparr>))"

definition push_sat_ranges :: "index_flags \<Rightarrow> bytes \<Rightarrow> utxo_entry_buf \<Rightarrow> utxo_entry_buf option" where
  "push_sat_ranges ix sat_ranges b =
     Option.bind (assert_that (index_sats ix)) (\<lambda>_.
     let num_sat_ranges = length sat_ranges div 11 in
     Option.bind (assert_that (num_sat_ranges * 11 = length sat_ranges)) (\<lambda>_.
     advance_state ix NeedSats NeedScriptPubkey
       (b\<lparr>ub_vec := encode_to_vec (word_of_nat num_sat_ranges) (ub_vec b) @ sat_ranges\<rparr>)))"

definition push_script_pubkey :: "index_flags \<Rightarrow> bytes \<Rightarrow> utxo_entry_buf \<Rightarrow> utxo_entry_buf option" where
  "push_script_pubkey ix script b =
     Option.bind (assert_that (index_addresses ix)) (\<lambda>_.
     advance_state ix NeedScriptPubkey Valid
       (b\<lparr>ub_vec := encode_to_vec (word_of_nat (length script)) (ub_vec b) @ script\<rparr>))"

text \<open>\<open>as_ref\<close>, and through it every read of a buffer, checks the state in debug builds.\<close>

definition buf_as_ref :: "index_flags \<Rightarrow> utxo_entry_buf \<Rightarrow> bytes option" where
  "buf_as_ref ix b =
     Option.bind (assert_that (debug_assertions ix \<longrightarrow> ub_state b = Valid)) (\<lambda>_. Some (ub_vec b))"

definition push_script_if :: "index_flags \<Rightarrow> bytes \<Rightarrow> utxo_entry_buf \<Rightarrow> utxo_entry_buf option" where
  "push_script_if ix script b =
     (if index_addresses ix then push_script_pubkey ix script b else Some b)"

definition buf_merged :: "index_flags \<Rightarrow> bytes \<Rightarrow> bytes \<Rightarrow> utxo_entry_buf option" where
  "buf_merged ix a b =
     Option.bind (entry_parse ix a) (\<lambda>pa.
     Option.bind (entry_parse ix b) (\<lambda>pb.
     Option.bind
       (if index_sats ix then
          Option.bind (entry_sat_ranges pa) (\<lambda>ra.
          Option.bind (entry_sat_ranges pb) (\<lambda>rb. push_sat_ranges ix (ra @ rb) buf_new))
        else
          Option.bind (assert_that (total_value pa = 0)) (\<lambda>_.
          Option.bind (assert_that (total_value pb = 0)) (\<lambda>_. push_value ix 0 buf_new)))
       (\<lambda>merged.
     if index_addresses ix then
       Option.bind (pe_script pa) (\<lambda>sa. Option.bind (assert_that (sa = [])) (\<lambda>_.
       Option.bind (pe_script pb) (\<lambda>sb. Option.bind (assert_that (sb = [])) (\<lambda>_.
       push_script_pubkey ix [] merged))))
     else Some merged)))"

definition buf_empty :: "index_flags \<Rightarrow> utxo_entry_buf option" where
  "buf_empty ix =
     Option.bind (if index_sats ix then push_sat_ranges ix [] buf_new else push_value ix 0 buf_new)
       (push_script_if ix [])"

section \<open>Round trips\<close>

lemma le_bytes_take: "k \<le> n \<Longrightarrow> take k (le_bytes n x) = le_bytes k x"
proof (induction n arbitrary: k x)
  case (Suc n)
  then show ?case by (cases k) simp_all
qed simp

lemma le_bytes_drop: "k \<le> n \<Longrightarrow> drop k (le_bytes n x) = le_bytes (n - k) (x div 256 ^ k)"
proof (induction n arbitrary: k x)
  case (Suc n)
  then show ?case by (cases k) (simp_all add: div_mult2_eq)
qed simp

lemma sat_range_bits:
  fixes base delta :: u64
  assumes "unat base < 2 ^ 51" "unat delta < 2 ^ 37"
  shows "unat (ucast base OR push_bit 51 (ucast delta) :: u128) = unat base + unat delta * 2 ^ 51"
proof -
  let ?b = "ucast base :: u128" and ?d = "push_bit 51 (ucast delta) :: u128"
  have ub: "unat ?b = unat base" using assms(1) by (simp add: unat_ucast_small)
  have "unat (ucast delta :: u128) = unat delta" using assms(2) by (simp add: unat_ucast_small)
  then have ud: "unat ?d = unat delta * 2 ^ 51"
    using assms(2) unfolding push_bit_eq_mult by (subst unat_mult_small) simp_all
  have "?b AND ?d = 0"
  proof (rule bit_eqI)
    fix n
    have "n < 51" if "bit base n"
    proof (rule ccontr)
      assume "\<not> n < 51"
      then have "(2 :: nat) ^ 51 \<le> 2 ^ n" by (intro power_increasing) simp_all
      with assms(1) have "unat base div 2 ^ n = 0" by simp
      then have "\<not> bit (unat base) n" by (simp add: bit_iff_odd)
      with that show False by (simp add: bit_unsigned_iff)
    qed
    then show "bit (?b AND ?d) n = bit 0 n"
      by (auto simp: bit_and_iff bit_push_bit_iff bit_ucast_iff)
  qed
  then have "?b OR ?d = ?b + ?d" by (simp add: disjunctive_add_eq_or)
  moreover have "unat (?b + ?d) = unat base + unat delta * 2 ^ 51"
    using assms by (subst unat_add_small) (simp_all add: ub ud)
  ultimately show ?thesis by simp
qed

lemma sat_range_load_nat:
  assumes "b < 2 ^ 51" "d < 2 ^ 37"
  shows "sat_range_load (take 11 (le_bytes 16 (b + d * 2 ^ 51)))
    = (word_of_nat b, word_of_nat b + word_of_nat d)"
proof -
  define N where "N = b + d * 2 ^ 51"
  have bytes: "take 7 (take 11 (le_bytes 16 N)) = le_bytes 7 N"
    "take 5 (drop 6 (take 11 (le_bytes 16 N))) = le_bytes 5 (N div 256 ^ 6)"
    by (simp_all add: le_bytes_take le_bytes_drop)
  let ?lo = "N mod 256 ^ 7" and ?hi = "N div 256 ^ 6 mod 256 ^ 5"
  have lo: "?lo mod 2 ^ 51 = b"
  proof -
    have "?lo mod 2 ^ 51 = N mod 2 ^ 51" by (rule mod_mod_cancel) (simp add: dvd_def)
    also have "\<dots> = b" using assms(1) by (simp only: N_def mod_mult_self1 mod_less)
    finally show ?thesis .
  qed
  have "N div 2 ^ 51 = d" using assms(1) by (simp add: N_def)
  then have "N div 256 ^ 6 div 8 = d" by (simp add: div_mult2_eq [symmetric])
  moreover have "N div 256 ^ 6 < 256 ^ 5"
  proof -
    have "N < 2 ^ 51 + d * 2 ^ 51" using assms(1) by (simp only: N_def add_strict_right_mono)
    also have "\<dots> \<le> 2 ^ 37 * 2 ^ 51" using assms(2) by simp
    finally show ?thesis by (simp add: less_mult_imp_div_less)
  qed
  ultimately have hi: "?hi div 8 = d" by simp
  have lo_word: "word_of_nat ?lo AND (push_bit 51 1 - 1) = (word_of_nat b :: u64)"
  proof -
    have "?lo < 2 ^ LENGTH(64)" by (rule less_trans [of _ "256 ^ 7"]) simp_all
    then have "unat (word_of_nat ?lo :: u64) = ?lo" by (simp only: unat_of_nat mod_less)
    then have "unat (take_bit 51 (word_of_nat ?lo :: u64)) = take_bit 51 ?lo"
      by (simp only: unsigned_take_bit_eq)
    also have "\<dots> = b" by (simp only: take_bit_eq_mod lo)
    finally have "unat (take_bit 51 (word_of_nat ?lo :: u64)) = b" .
    moreover have "unat (word_of_nat b :: u64) = b"
      using assms(1) by (simp add: unat_of_nat)
    ultimately have "take_bit 51 (word_of_nat ?lo :: u64) = word_of_nat b"
      by (simp only: word_unat_eq_iff)
    moreover have "(push_bit 51 1 - 1 :: u64) = mask 51" by (simp add: mask_eq_exp_minus_1)
    ultimately show ?thesis by (simp only: take_bit_eq_mask)
  qed
  have hi_word: "drop_bit 3 (word_of_nat ?hi :: u64) = word_of_nat d"
  proof -
    have "?hi < 2 ^ LENGTH(64)" by (rule less_trans [of _ "256 ^ 5"]) simp_all
    then have "unat (word_of_nat ?hi :: u64) = ?hi" by (simp only: unat_of_nat mod_less)
    then have "unat (drop_bit 3 (word_of_nat ?hi :: u64)) = drop_bit 3 ?hi"
      by (simp only: unat_drop_bit_eq)
    also have "\<dots> = ?hi div 2 ^ 3" by (rule drop_bit_eq_div)
    finally have "unat (drop_bit 3 (word_of_nat ?hi :: u64)) = ?hi div 2 ^ 3" .
    moreover have "unat (word_of_nat d :: u64) = d" using assms(2) by (simp add: unat_of_nat)
    ultimately show ?thesis using hi by (simp add: word_unat_eq_iff)
  qed
  show ?thesis
    unfolding N_def [symmetric] sat_range_load_def Let_def bytes le_val_le_bytes lo_word hi_word ..
qed

lemma sat_range_load_store: "sat_range_ok r \<Longrightarrow> sat_range_load (sat_range_store r) = r"
proof -
  assume ok: "sat_range_ok r"
  let ?d = "snd r - fst r"
  have "unat (ucast (fst r) OR push_bit 51 (ucast ?d) :: u128) = unat (fst r) + unat ?d * 2 ^ 51"
    using ok by (intro sat_range_bits) (simp_all add: sat_range_ok_def)
  then have "sat_range_load (sat_range_store r)
      = (word_of_nat (unat (fst r)), word_of_nat (unat (fst r)) + word_of_nat (unat ?d))"
    unfolding sat_range_store_def Let_def
    using ok by (simp only: sat_range_load_nat sat_range_ok_def)
  then show ?thesis by simp
qed

lemma length_sat_range_store [simp]: "length (sat_range_store r) = 11"
  by (simp add: sat_range_store_def)

interpretation sr: fixed_codec sat_range_store sat_range_load 11 sat_range_ok
  by unfold_locales (simp_all add: sat_range_load_store)

section \<open>Entries round trip\<close>

text \<open>The bytes an entry has, and the entries the settings allow. A script of \<open>2^32\<close> bytes does not
  fit in a block, and a list of nonempty ranges of distinct sats is below \<open>2^62\<close> bytes.\<close>

definition sats_bytes :: "sats \<Rightarrow> bytes" where
  "sats_bytes s =
     (case s of Ranges r \<Rightarrow> encode_to_vec (word_of_nat (length r div 11)) [] @ r
              | Value v \<Rightarrow> encode_to_vec (ucast v) [])"

definition script_bytes :: "index_flags \<Rightarrow> bytes \<Rightarrow> bytes" where
  "script_bytes ix script =
     (if index_addresses ix then encode_to_vec (word_of_nat (length script)) [] @ script else [])"

definition entry_bytes :: "index_flags \<Rightarrow> sats \<Rightarrow> bytes \<Rightarrow> bytes" where
  "entry_bytes ix s script = sats_bytes s @ script_bytes ix script"

definition entry_ok :: "index_flags \<Rightarrow> sats \<Rightarrow> bytes \<Rightarrow> bool" where
  "entry_ok ix s script =
     (length script < 2 ^ 32 \<and>
      (case s of Ranges r \<Rightarrow> index_sats ix \<and> 11 dvd length r \<and> length r < 2 ^ 62
               | Value v \<Rightarrow> \<not> index_sats ix))"

definition parsed_of :: "index_flags \<Rightarrow> sats \<Rightarrow> bytes \<Rightarrow> parsed_utxo_entry" where
  "parsed_of ix s script =
     \<lparr>pe_sats = s, pe_script = if index_addresses ix then Some script else None\<rparr>"

definition push_sats :: "index_flags \<Rightarrow> sats \<Rightarrow> utxo_entry_buf \<Rightarrow> utxo_entry_buf option" where
  "push_sats ix s b = (case s of Ranges r \<Rightarrow> push_sat_ranges ix r b | Value v \<Rightarrow> push_value ix v b)"

lemma assert_that_simps [simp]: "assert_that True = Some ()" "assert_that False = None"
  by (simp_all add: assert_that_def)

lemma assert_that_eq: "assert_that b = Some u \<longleftrightarrow> b"
  by (simp add: assert_that_def)

lemma slice_exact: "slice (length a) (length a + length b) (a @ b @ c) = Some b"
  by (simp add: slice_def)

lemma narrow64_of_nat: "n < 2 ^ 64 \<Longrightarrow> narrow64 (word_of_nat n) = Some (word_of_nat n)"
proof -
  assume n: "n < 2 ^ 64"
  then have u: "unat (word_of_nat n :: u128) = n" by (simp add: unat_of_nat)
  have "unat (ucast (word_of_nat n :: u128) :: u64) = n"
    using n by (simp add: unat_ucast_small u)
  moreover have "unat (word_of_nat n :: u64) = n" using n by (simp add: unat_of_nat)
  ultimately have "(ucast (word_of_nat n :: u128) :: u64) = word_of_nat n"
    by (simp only: word_unat_eq_iff)
  with n u show ?thesis by (simp add: narrow64_def)
qed

lemma narrow64_ucast [simp]: "narrow64 (ucast (v :: u64)) = Some v"
proof -
  have "unat v < 2 ^ 64" using unsigned_less [of v, where 'a = nat] by simp
  then have "unat (ucast v :: u128) = unat v" by (simp add: unat_ucast_small)
  moreover from this have "unat (ucast (ucast v :: u128) :: u64) = unat v"
    using \<open>unat v < 2 ^ 64\<close> by (simp add: unat_ucast_small)
  then have "ucast (ucast v :: u128) = v" by (simp only: word_unat_eq_iff)
  ultimately show ?thesis using \<open>unat v < 2 ^ 64\<close> by (simp add: narrow64_def)
qed

lemma decode_encode:
  "decode (encode_to_vec n [] @ rest) = Ok (n, length (encode_to_vec n []))"
  using decode_from_encode [of 0 n 0 rest] unsigned_less [of n, where 'a = nat]
  by (simp add: decode_def)

lemma ok_value_simps [simp]: "ok_value (Ok x) = Some x" "ok_value (Err e) = None"
  by (simp_all add: ok_value_def)

lemma unat_small_sum:
  assumes "a + b < 2 ^ 64"
  shows "unat (word_of_nat a + word_of_nat b :: u64) = a + b"
proof -
  have "a + b < 2 ^ LENGTH(64)" using assms by simp
  then have "unat (word_of_nat (a + b) :: u64) = a + b" by (simp only: unat_of_nat mod_less)
  then show ?thesis by simp
qed

lemma entry_parse_sats_bytes:
  assumes "entry_ok ix s script"
  shows "entry_parse_sats ix (sats_bytes s @ rest) = Some (s, word_of_nat (length (sats_bytes s)))"
proof (cases s)
  case (Value v)
  with assms have "\<not> index_sats ix" by (simp add: entry_ok_def)
  with Value show ?thesis by (simp add: entry_parse_sats_def sats_bytes_def decode_encode)
next
  case (Ranges r)
  with assms obtain k where k: "index_sats ix" "length r = 11 * k" "length r < 2 ^ 62"
    by (auto simp: entry_ok_def)
  let ?e = "encode_to_vec (word_of_nat k) []"
  have e: "length ?e \<le> 19" by (rule encode_length_bound)
  have len: "unat (word_of_nat (length ?e) :: u64) = length ?e"
    using e unat_small_sum [of "length ?e" 0] by simp
  have sum: "unat (word_of_nat (length ?e) + word_of_nat (length r) :: u64) = length ?e + length r"
    using e k(3) by (intro unat_small_sum) simp
  have narrow: "narrow64 (word_of_nat k) = Some (word_of_nat k)"
    using k(2,3) by (intro narrow64_of_nat) simp
  have prod: "(word_of_nat k * 11 :: u64) = word_of_nat (length r)"
    by (simp add: k(2))
  have cut: "slice (length ?e) (length ?e + length r) (?e @ r @ rest) = Some r"
    by (rule slice_exact)
  have "length r div 11 = k" by (simp add: k(2))
  then show ?thesis
    unfolding Ranges sats_bytes_def entry_parse_sats_def
    by (simp add: decode_encode k(1) narrow prod len sum cut Let_def)
qed

lemma entry_parse_bytes:
  assumes "entry_ok ix s script"
  shows "entry_parse ix (entry_bytes ix s script) = Some (parsed_of ix s script)"
proof (cases "index_addresses ix")
  case False
  then show ?thesis
    using entry_parse_sats_bytes [OF assms, of "[]"]
    by (simp add: entry_parse_def entry_bytes_def script_bytes_def parsed_of_def)
next
  case True
  let ?s = "sats_bytes s" and ?e = "encode_to_vec (word_of_nat (length script)) []"
  have e: "length ?e \<le> 19" by (rule encode_length_bound)
  have s: "length ?s \<le> 19 + 2 ^ 62"
  proof (cases s)
    case (Ranges r)
    with assms encode_length_bound [of "word_of_nat (length r div 11)"] show ?thesis
      by (simp add: sats_bytes_def entry_ok_def)
  next
    case (Value v)
    with encode_length_bound [of "ucast v"] show ?thesis by (simp add: sats_bytes_def)
  qed
  have script: "length script < 2 ^ 32" using assms by (simp add: entry_ok_def)
  have u1: "unat (word_of_nat (length ?s) :: u64) = length ?s"
    using s unat_small_sum [of "length ?s" 0] by simp
  have u2: "unat (word_of_nat (length ?s) + word_of_nat (length ?e) :: u64) = length ?s + length ?e"
    using s e by (intro unat_small_sum) simp
  have u3: "unat (word_of_nat (length ?s) + word_of_nat (length ?e) + word_of_nat (length script) :: u64)
      = length ?s + length ?e + length script"
    using unat_small_sum [of "length ?s + length ?e" "length script"] s e script by simp
  have narrow: "narrow64 (word_of_nat (length script)) = Some (word_of_nat (length script))"
    using script by (intro narrow64_of_nat) simp
  have rest: "slice (length ?s) (length (?s @ ?e @ script)) (?s @ ?e @ script) = Some (?e @ script)"
    using slice_exact [of ?s "?e @ script" "[]"] by simp
  have cut: "slice (length ?s + length ?e) (length ?s + length ?e + length script) (?s @ ?e @ script)
      = Some script"
    using slice_exact [of "?s @ ?e" script "[]"] by simp
  show ?thesis
    unfolding entry_bytes_def script_bytes_def entry_parse_def parsed_of_def
    using True
    by (simp add: entry_parse_sats_bytes [OF assms] decode_encode u1 u2 u3 rest [simplified] cut narrow Let_def)
qed

lemma push_entry:
  assumes "entry_ok ix s script"
  shows "\<exists>b. Option.bind (push_sats ix s buf_new) (push_script_if ix script) = Some b
    \<and> buf_as_ref ix b = Some (entry_bytes ix s script)"
  using assms
  by (cases s; cases "index_addresses ix"; cases "debug_assertions ix")
    (auto simp: push_sats_def push_sat_ranges_def push_value_def push_script_if_def buf_new_def
      push_script_pubkey_def advance_state_def buf_as_ref_def entry_bytes_def sats_bytes_def
      script_bytes_def entry_ok_def Let_def dvd_eq_mod_eq_0 encode_to_vec_append [of _ "_ @ _"]
      encode_to_vec_append [of _ "encode_to_vec _ []"])

lemma merged_ranges:
  assumes a: "entry_ok ix (Ranges ra) []" and b: "entry_ok ix (Ranges rb) []"
    and ab: "entry_ok ix (Ranges (ra @ rb)) []"
  shows "\<exists>m. buf_merged ix (entry_bytes ix (Ranges ra) []) (entry_bytes ix (Ranges rb) []) = Some m
    \<and> buf_as_ref ix m = Some (entry_bytes ix (Ranges (ra @ rb)) [])"
proof -
  have ix: "index_sats ix" using a by (simp add: entry_ok_def)
  obtain m where m: "Option.bind (push_sat_ranges ix (ra @ rb) buf_new) (push_script_if ix []) = Some m"
    "buf_as_ref ix m = Some (entry_bytes ix (Ranges (ra @ rb)) [])"
    using push_entry [OF ab] by (auto simp: push_sats_def)
  have "buf_merged ix (entry_bytes ix (Ranges ra) []) (entry_bytes ix (Ranges rb) []) = Some m"
    using m(1) ix unfolding buf_merged_def push_script_if_def
    by (cases "index_addresses ix")
      (simp_all add: entry_parse_bytes [OF a] entry_parse_bytes [OF b] parsed_of_def entry_sat_ranges_def)
  with m(2) show ?thesis by blast
qed

lemma fold_add_ranges:
  "(\<forall>r \<in> set rs. sat_range_ok r) \<Longrightarrow>
   fold (\<lambda>chunk value. let range = sat_range_load chunk in value + (snd range - fst range))
     (map sat_range_store rs) v = v + (\<Sum>r \<leftarrow> rs. snd r - fst r)"
  by (induction rs arbitrary: v) (simp_all add: sat_range_load_store Let_def algebra_simps)

lemma ranges_value_store:
  "(\<forall>r \<in> set rs. sat_range_ok r) \<Longrightarrow>
   ranges_value (concat (map sat_range_store rs)) = (\<Sum>r \<leftarrow> rs. snd r - fst r)"
  unfolding ranges_value_def sr.chunks_store using fold_add_ranges [of rs 0] by simp

lemma buf_empty_ok:
  "\<exists>b. buf_empty ix = Some b
    \<and> buf_as_ref ix b = Some (entry_bytes ix (if index_sats ix then Ranges [] else Value 0) [])"
  using push_entry [of ix "if index_sats ix then Ranges [] else Value 0" "[]"]
  by (auto simp: buf_empty_def push_sats_def entry_ok_def)

section \<open>Properties\<close>

text \<open>an entry built from any list of sat ranges, or any value, and any script parses back to
  them, in debug and release builds and for every combination of the index's settings.\<close>

theorem utxo_entry_roundtrip:
  assumes "entry_ok ix s script"
  shows "\<exists>b bytes. Option.bind (push_sats ix s buf_new) (push_script_if ix script) = Some b
    \<and> buf_as_ref ix b = Some bytes \<and> entry_parse ix bytes = Some (parsed_of ix s script)"
  using push_entry [OF assms] entry_parse_bytes [OF assms] by blast

theorem utxo_entry_roundtrip_witness:
  "\<exists>b bytes. Option.bind
      (push_sats \<lparr>index_sats = True, index_addresses = True, feature_sats = True, debug_assertions = True\<rparr>
        (Ranges (sat_range_store (5, 9))) buf_new)
      (push_script_if \<lparr>index_sats = True, index_addresses = True, feature_sats = True, debug_assertions = True\<rparr> [81])
      = Some b
    \<and> buf_as_ref \<lparr>index_sats = True, index_addresses = True, feature_sats = True, debug_assertions = True\<rparr> b
      = Some bytes
    \<and> entry_parse \<lparr>index_sats = True, index_addresses = True, feature_sats = True, debug_assertions = True\<rparr> bytes
      = Some (parsed_of \<lparr>index_sats = True, index_addresses = True, feature_sats = True, debug_assertions = True\<rparr>
          (Ranges (sat_range_store (5, 9))) [81])"
  by (rule utxo_entry_roundtrip) (simp add: entry_ok_def)

text \<open>C27: the eleven-byte encoding of a sat range is exact for starts below \<open>2^51\<close>, which covers
  the supply, and sizes below \<open>2^37\<close>, which covers a block subsidy, and so is the
  concatenation of such encodings, cut in chunks of eleven.\<close>

theorem sat_ranges_roundtrip:
  assumes "\<forall>r \<in> set rs. sat_range_ok r"
  shows "map sat_range_load (chunks_exact 11 (concat (map sat_range_store rs))) = rs"
  using assms by (rule sr.load_all)

theorem sat_ranges_roundtrip_witness:
  "map sat_range_load (chunks_exact 11 (concat (map sat_range_store [(0, 5000000000), (7, 7)])))
   = [(0, 5000000000), (7, 7)]"
  by (rule sat_ranges_roundtrip) (simp add: sat_range_ok_def word_le_nat_alt)

end
