(* ===== verification/Sat.thy ===== *)
theory Sat
  imports Prelude
begin

text \<open>
  The numbering of satoshis: heights, epochs and sats of the \<open>ordinals\<close> crate
  (\<open>crates/ordinals/src/{lib,height,epoch,sat,degree,decimal_sat,rarity,charm}.rs\<close>). A
  height and an epoch are 32-bit, a sat is 64-bit, as in the code, with the arithmetic at
  that width. A division that the code would abort on (the subsidy of a sat past the
  supply is zero) is the value \<open>None\<close>. The two intervals are constants of the
  \<open>bitcoin\<close> crate, fixed by Bitcoin's consensus rules.
\<close>

section \<open>Constants\<close>

type_synonym height = u32
type_synonym epoch = u32
type_synonym sat = u64

definition SUBSIDY_HALVING_INTERVAL :: u32 where
  "SUBSIDY_HALVING_INTERVAL = 210000"

definition DIFFCHANGE_INTERVAL :: u32 where
  "DIFFCHANGE_INTERVAL = 2016"

definition COIN_VALUE :: u64 where
  "COIN_VALUE = 100000000"

definition CYCLE_EPOCHS :: u32 where
  "CYCLE_EPOCHS = 6"

definition SUPPLY :: u64 where
  "SUPPLY = 2099999997690000"

definition STARTING_SATS :: "sat list" where
  "STARTING_SATS =
    [0, 1050000000000000, 1575000000000000, 1837500000000000, 1968750000000000,
     2034375000000000, 2067187500000000, 2083593750000000, 2091796875000000,
     2095898437500000, 2097949218750000, 2098974609270000, 2099487304530000,
     2099743652160000, 2099871825870000, 2099935912620000, 2099967955890000,
     2099983977420000, 2099991988080000, 2099995993410000, 2099997995970000,
     2099998997250000, 2099999497890000, 2099999748210000, 2099999873370000,
     2099999935950000, 2099999967240000, 2099999982780000, 2099999990550000,
     2099999994330000, 2099999996220000, 2099999997060000, 2099999997480000,
     SUPPLY]"

definition FIRST_POST_SUBSIDY :: epoch where
  "FIRST_POST_SUBSIDY = 33"

section \<open>Epochs and heights\<close>

definition epoch_subsidy :: "epoch \<Rightarrow> u64" where
  "epoch_subsidy e = (if e < FIRST_POST_SUBSIDY then drop_bit (unat e) (50 * COIN_VALUE) else 0)"

definition epoch_starting_sat :: "epoch \<Rightarrow> sat" where
  "epoch_starting_sat e =
     (if unat e < length STARTING_SATS then STARTING_SATS ! unat e else last STARTING_SATS)"

definition epoch_starting_height :: "epoch \<Rightarrow> height" where
  "epoch_starting_height e = e * SUBSIDY_HALVING_INTERVAL"

text \<open>\<open>From<Sat> for Epoch\<close>: the chain of comparisons with the table, from its second entry on.\<close>

definition epoch_of_sat :: "sat \<Rightarrow> epoch" where
  "epoch_of_sat s =
     (case position (\<lambda>b. s < b) (drop 1 STARTING_SATS) of
        Some i \<Rightarrow> word_of_nat i
      | None \<Rightarrow> 33)"

definition epoch_of_height :: "height \<Rightarrow> epoch" where
  "epoch_of_height h = h div SUBSIDY_HALVING_INTERVAL"

definition height_subsidy :: "height \<Rightarrow> u64" where
  "height_subsidy h = epoch_subsidy (epoch_of_height h)"

definition height_starting_sat :: "height \<Rightarrow> sat" where
  "height_starting_sat h =
     (let epoch = epoch_of_height h;
          epoch_sat = epoch_starting_sat epoch;
          epoch_height = epoch_starting_height epoch
      in epoch_sat + ucast (h - epoch_height) * epoch_subsidy epoch)"

definition period_offset :: "height \<Rightarrow> u32" where
  "period_offset h = h mod DIFFCHANGE_INTERVAL"

section \<open>Sats\<close>

definition epoch_position :: "sat \<Rightarrow> u64" where
  "epoch_position s = s - epoch_starting_sat (epoch_of_sat s)"

definition sat_height :: "sat \<Rightarrow> height option" where
  "sat_height s =
     (let e = epoch_of_sat s; subsidy = epoch_subsidy e in
      if subsidy = 0 then None
      else let q = epoch_position s div subsidy in
        if unat q < 2 ^ 32 then Some (epoch_starting_height e + ucast q) else None)"

definition sat_third :: "sat \<Rightarrow> u64 option" where
  "sat_third s =
     (let subsidy = epoch_subsidy (epoch_of_sat s) in
      if subsidy = 0 then None else Some (epoch_position s mod subsidy))"

definition sat_cycle :: "sat \<Rightarrow> u32" where
  "sat_cycle s = epoch_of_sat s div CYCLE_EPOCHS"

definition sat_period :: "sat \<Rightarrow> u32 option" where
  "sat_period s = map_option (\<lambda>h. h div DIFFCHANGE_INTERVAL) (sat_height s)"

definition nineball :: "sat \<Rightarrow> bool" where
  "nineball s \<longleftrightarrow> 50 * COIN_VALUE * 9 \<le> s \<and> s < 50 * COIN_VALUE * 10"

definition is_multiple_of :: "u64 \<Rightarrow> u64 \<Rightarrow> bool" where
  "is_multiple_of a b = (if b = 0 then a = 0 else a mod b = 0)"

definition coin :: "sat \<Rightarrow> bool" where
  "coin s = is_multiple_of s COIN_VALUE"

definition common :: "sat \<Rightarrow> bool" where
  "common s =
     (if s < epoch_starting_sat 10 \<and> \<not> is_multiple_of s (epoch_subsidy 9) then True
      else let e = epoch_of_sat s in
        \<not> is_multiple_of (s - epoch_starting_sat e) (epoch_subsidy e))"

function reverse_digits :: "u64 \<Rightarrow> u64 \<Rightarrow> u64" where
  "reverse_digits n reversed =
     (if 0 < n then reverse_digits (n div 10) (reversed * 10 + n mod 10) else reversed)"
  by pat_completeness auto
termination
  by (relation "measure (\<lambda>(n, r). unat n)") (auto simp: unat_div word_less_nat_alt)

declare reverse_digits.simps [simp del]

definition palindrome :: "sat \<Rightarrow> bool" where
  "palindrome s = (s = reverse_digits s 0)"

section \<open>Degrees, decimals and rarity\<close>

record degree =
  hour :: u32
  minute :: u32
  second :: u32
  third :: u64

record decimal_sat =
  ds_height :: height
  ds_offset :: u64

definition degree_of_sat :: "sat \<Rightarrow> degree option" where
  "degree_of_sat s =
     (case (sat_height s, sat_third s) of
        (Some h, Some t) \<Rightarrow>
          Some \<lparr>hour = h div (CYCLE_EPOCHS * SUBSIDY_HALVING_INTERVAL),
                minute = h mod SUBSIDY_HALVING_INTERVAL,
                second = h mod DIFFCHANGE_INTERVAL,
                third = t\<rparr>
      | _ \<Rightarrow> None)"

definition decimal_of_sat :: "sat \<Rightarrow> decimal_sat option" where
  "decimal_of_sat s =
     (case (sat_height s, sat_third s) of
        (Some h, Some t) \<Rightarrow> Some \<lparr>ds_height = h, ds_offset = t\<rparr>
      | _ \<Rightarrow> None)"

datatype rarity = Common | Uncommon | Rare | Epic | Legendary | Mythic

definition rarity_of_sat :: "sat \<Rightarrow> rarity option" where
  "rarity_of_sat s =
     map_option (\<lambda>d.
       if hour d = 0 \<and> minute d = 0 \<and> second d = 0 \<and> third d = 0 then Mythic
       else if minute d = 0 \<and> second d = 0 \<and> third d = 0 then Legendary
       else if minute d = 0 \<and> third d = 0 then Epic
       else if second d = 0 \<and> third d = 0 then Rare
       else if third d = 0 then Uncommon
       else Common) (degree_of_sat s)"

fun rarity_supply :: "rarity \<Rightarrow> u64" where
  "rarity_supply Common = 2099999990760000"
| "rarity_supply Uncommon = 6926535"
| "rarity_supply Rare = 3432"
| "rarity_supply Epic = 27"
| "rarity_supply Legendary = 5"
| "rarity_supply Mythic = 1"

fun u8_of_rarity :: "rarity \<Rightarrow> u8" where
  "u8_of_rarity Common = 0"
| "u8_of_rarity Uncommon = 1"
| "u8_of_rarity Rare = 2"
| "u8_of_rarity Epic = 3"
| "u8_of_rarity Legendary = 4"
| "u8_of_rarity Mythic = 5"

definition rarity_of_u8 :: "u8 \<Rightarrow> (u8, rarity) result" where
  "rarity_of_u8 n =
     (if n = 0 then Ok Common else if n = 1 then Ok Uncommon else if n = 2 then Ok Rare
      else if n = 3 then Ok Epic else if n = 4 then Ok Legendary else if n = 5 then Ok Mythic
      else Err n)"

section \<open>Charms\<close>

datatype charm = Coin | Cursed | EpicCharm | LegendaryCharm | Lost | Nineball | RareCharm
  | Reinscription | Unbound | UncommonCharm | Vindicated | MythicCharm | Burned | Palindrome

fun charm_index :: "charm \<Rightarrow> nat" where
  "charm_index Coin = 0"
| "charm_index Cursed = 1"
| "charm_index EpicCharm = 2"
| "charm_index LegendaryCharm = 3"
| "charm_index Lost = 4"
| "charm_index Nineball = 5"
| "charm_index RareCharm = 6"
| "charm_index Reinscription = 7"
| "charm_index Unbound = 8"
| "charm_index UncommonCharm = 9"
| "charm_index Vindicated = 10"
| "charm_index MythicCharm = 11"
| "charm_index Burned = 12"
| "charm_index Palindrome = 13"

definition ALL_CHARMS :: "charm list" where
  "ALL_CHARMS = [Coin, UncommonCharm, RareCharm, EpicCharm, LegendaryCharm, MythicCharm,
     Nineball, Palindrome, Reinscription, Cursed, Unbound, Lost, Vindicated, Burned]"

definition charm_flag :: "charm \<Rightarrow> u16" where
  "charm_flag c = push_bit (charm_index c) 1"

definition charm_set :: "charm \<Rightarrow> u16 \<Rightarrow> u16" where
  "charm_set c charms = charms OR charm_flag c"

definition charm_is_set :: "charm \<Rightarrow> u16 \<Rightarrow> bool" where
  "charm_is_set c charms = (charms AND charm_flag c \<noteq> 0)"

definition charm_unset :: "charm \<Rightarrow> u16 \<Rightarrow> u16" where
  "charm_unset c charms = charms AND NOT (charm_flag c)"

definition charms_of :: "u16 \<Rightarrow> charm list" where
  "charms_of charms = filter (\<lambda>c. charm_is_set c charms) ALL_CHARMS"

definition rarity_charm :: "rarity \<Rightarrow> charm option" where
  "rarity_charm r = (case r of Common \<Rightarrow> None | Epic \<Rightarrow> Some EpicCharm
     | Legendary \<Rightarrow> Some LegendaryCharm | Mythic \<Rightarrow> Some MythicCharm
     | Rare \<Rightarrow> Some RareCharm | Uncommon \<Rightarrow> Some UncommonCharm)"

definition sat_charms :: "sat \<Rightarrow> u16 option" where
  "sat_charms s =
     (let c0 = 0;
          c1 = (if nineball s then charm_set Nineball c0 else c0);
          c2 = (if palindrome s then charm_set Palindrome c1 else c1);
          c3 = (if coin s then charm_set Coin c2 else c2)
      in map_option (\<lambda>r. case rarity_charm r of None \<Rightarrow> c3 | Some c \<Rightarrow> charm_set c c3)
           (rarity_of_sat s))"

section \<open>The table of starting sats\<close>

text \<open>The reward of a block of epoch \<open>i\<close>, and the first sat of the epoch, as numbers.\<close>

abbreviation reward :: "nat \<Rightarrow> nat" where "reward i \<equiv> 5000000000 div 2 ^ i"
abbreviation first_sat :: "nat \<Rightarrow> nat" where "first_sat i \<equiv> unat (STARTING_SATS ! i)"

lemma length_STARTING_SATS [simp]: "length STARTING_SATS = 34"
  by (simp add: STARTING_SATS_def)

lemma table_step_all:
  "\<forall>i \<in> set [0..<33]. first_sat (Suc i) = first_sat i + 210000 * reward i"
  by (simp add: STARTING_SATS_def SUPPLY_def upt_rec)

lemma table_step: "i < 33 \<Longrightarrow> first_sat (Suc i) = first_sat i + 210000 * reward i"
  using table_step_all by auto

lemma first_sat_0 [simp]: "first_sat 0 = 0"
  by (simp add: STARTING_SATS_def)

lemma first_sat_33: "first_sat 33 = 2099999997690000"
  by (simp add: STARTING_SATS_def SUPPLY_def)

lemma unat_SUPPLY: "unat SUPPLY = 2099999997690000"
  by (simp add: SUPPLY_def)

lemma first_sat_mono: "i \<le> j \<Longrightarrow> j \<le> 33 \<Longrightarrow> first_sat i \<le> first_sat j"
proof (induction j)
  case 0
  then show ?case by simp
next
  case (Suc j)
  show ?case
  proof (cases "i = Suc j")
    case False
    with Suc have "first_sat i \<le> first_sat j" by simp
    also have "\<dots> \<le> first_sat (Suc j)" using table_step [of j] Suc.prems by simp
    finally show ?thesis .
  qed simp
qed

lemma first_sat_le_supply: "i \<le> 33 \<Longrightarrow> first_sat i \<le> 2099999997690000"
  using first_sat_mono [of i 33] first_sat_33 by simp

lemma reward_pos: "i < 33 \<Longrightarrow> 0 < reward i"
proof -
  assume "i < 33"
  then have "(2::nat) ^ i \<le> 2 ^ 32" by (intro power_increasing) auto
  then have "(2::nat) ^ i \<le> 5000000000" by simp
  then show ?thesis by (simp add: div_greater_zero_iff)
qed

lemma unat_epoch [simp]: "i < 2 ^ 32 \<Longrightarrow> unat (word_of_nat i :: u32) = i"
  by (simp add: unat_of_nat)

lemma epoch_subsidy_nat:
  assumes "i < 33"
  shows "unat (epoch_subsidy (word_of_nat i)) = reward i"
proof -
  have "(word_of_nat i :: u32) < 33"
    using assms by (simp add: word_less_nat_alt)
  moreover have "unat (drop_bit i (50 * COIN_VALUE)) = unat (50 * COIN_VALUE) div 2 ^ i"
    by (subst unat_drop_bit_eq) (rule drop_bit_eq_div)
  moreover have "unat (50 * COIN_VALUE) = 5000000000"
    by (simp add: COIN_VALUE_def)
  moreover have "unat (word_of_nat i :: u32) = i"
    using assms by simp
  ultimately show ?thesis
    by (simp only: epoch_subsidy_def FIRST_POST_SUBSIDY_def if_True)
qed

lemma epoch_subsidy_post: "33 \<le> e \<Longrightarrow> epoch_subsidy e = 0"
  by (simp add: epoch_subsidy_def FIRST_POST_SUBSIDY_def)

lemma epoch_starting_sat_nat:
  "i < 34 \<Longrightarrow> unat (epoch_starting_sat (word_of_nat i)) = first_sat i"
  by (simp add: epoch_starting_sat_def)

section \<open>Sats by epoch\<close>

lemma epoch_of_sat_cases:
  assumes "unat s < 2099999997690000"
  obtains i where "i < 33" "epoch_of_sat s = word_of_nat i"
    "first_sat i \<le> unat s" "unat s < first_sat i + 210000 * reward i"
proof -
  let ?p = "position (\<lambda>b. s < b) (drop 1 STARTING_SATS)"
  have last: "SUPPLY \<in> set (drop 1 STARTING_SATS)" by (simp add: STARTING_SATS_def)
  have "?p \<noteq> None"
  proof
    assume "?p = None"
    with last have "\<not> s < SUPPLY" by (simp only: position_None) blast
    with assms show False by (simp add: word_less_nat_alt unat_SUPPLY)
  qed
  then obtain i where i: "?p = Some i" by blast
  from position_Some [OF i] have bounds: "i < 33" "s < STARTING_SATS ! Suc i"
    and before: "\<And>j. j < i \<Longrightarrow> \<not> s < STARTING_SATS ! Suc j" by auto
  have lower: "first_sat i \<le> unat s"
  proof (cases i)
    case 0
    then show ?thesis by simp
  next
    case (Suc j)
    with before [of j] show ?thesis by (simp add: word_less_nat_alt)
  qed
  have upper: "unat s < first_sat i + 210000 * reward i"
    using bounds table_step [of i] by (simp add: word_less_nat_alt)
  have "epoch_of_sat s = word_of_nat i" by (simp only: epoch_of_sat_def i option.simps)
  with that bounds lower upper show ?thesis by blast
qed

lemma epoch_of_sat_unique:
  assumes "i < 33" "first_sat i \<le> unat s" "unat s < first_sat i + 210000 * reward i"
  shows "epoch_of_sat s = word_of_nat i"
proof -
  have "first_sat (Suc i) \<le> 2099999997690000"
    using assms(1) by (intro first_sat_le_supply) simp
  then have "unat s < 2099999997690000"
    using assms table_step [of i] by simp
  then obtain k where k: "k < 33" "epoch_of_sat s = word_of_nat k"
    "first_sat k \<le> unat s" "unat s < first_sat k + 210000 * reward k"
    by (rule epoch_of_sat_cases)
  have "k = i"
  proof (rule antisym)
    show "k \<le> i"
    proof (rule ccontr)
      assume "\<not> k \<le> i"
      then have "first_sat (Suc i) \<le> first_sat k" using k(1) by (intro first_sat_mono) auto
      with assms k table_step [of i] show False by simp
    qed
    show "i \<le> k"
    proof (rule ccontr)
      assume "\<not> i \<le> k"
      then have "first_sat (Suc k) \<le> first_sat i" using assms(1) by (intro first_sat_mono) auto
      with assms k table_step [of k] show False by simp
    qed
  qed
  with k show ?thesis by simp
qed

lemma epoch_of_sat_post:
  assumes "2099999997690000 \<le> unat s"
  shows "epoch_of_sat s = 33"
proof -
  have "\<not> s < b" if "b \<in> set (drop 1 STARTING_SATS)" for b
  proof -
    from that obtain k where "k < 33" "b = STARTING_SATS ! Suc k"
      by (auto simp: in_set_conv_nth)
    then have "unat b \<le> 2099999997690000" using first_sat_le_supply [of "Suc k"] by simp
    with assms show ?thesis by (simp add: word_less_nat_alt)
  qed
  then have "position (\<lambda>b. s < b) (drop 1 STARTING_SATS) = None"
    by (simp only: position_None) blast
  then show ?thesis by (simp only: epoch_of_sat_def option.simps)
qed

text \<open>Height and offset of a sat in terms of its epoch.\<close>

lemma sat_position:
  assumes "i < 33" "first_sat i \<le> unat s" "unat s < first_sat i + 210000 * reward i"
  shows "unat (epoch_position s) = unat s - first_sat i"
    and "sat_height s = Some (word_of_nat (210000 * i + (unat s - first_sat i) div reward i))"
    and "map_option unat (sat_third s) = Some ((unat s - first_sat i) mod reward i)"
proof -
  note e = epoch_of_sat_unique [OF assms]
  have start: "unat (epoch_starting_sat (word_of_nat i)) = first_sat i"
    using assms(1) by (simp add: epoch_starting_sat_nat)
  have le: "epoch_starting_sat (word_of_nat i) \<le> s"
    using assms(2) start by (simp add: word_le_nat_alt)
  show pos: "unat (epoch_position s) = unat s - first_sat i"
    unfolding epoch_position_def e by (simp add: unat_sub [OF le] start)
  have sub: "unat (epoch_subsidy (word_of_nat i)) = reward i"
    by (rule epoch_subsidy_nat [OF assms(1)])
  then have nz: "epoch_subsidy (word_of_nat i) \<noteq> 0"
    using reward_pos [OF assms(1)] by (metis unat_0 less_irrefl)
  let ?q = "epoch_position s div epoch_subsidy (word_of_nat i)"
  have q: "unat ?q = (unat s - first_sat i) div reward i"
    by (simp add: unat_div pos sub)
  have "(unat s - first_sat i) div reward i < 210000"
    using assms reward_pos [OF assms(1)] by (simp add: less_mult_imp_div_less mult.commute)
  moreover have "(ucast ?q :: u32) = word_of_nat (unat ?q)"
    by (simp add: word_of_nat_eq_iff)
  ultimately show "sat_height s = Some (word_of_nat (210000 * i + (unat s - first_sat i) div reward i))"
    by (simp add: sat_height_def e Let_def nz q epoch_starting_height_def
        SUBSIDY_HALVING_INTERVAL_def mult.commute)
  show "map_option unat (sat_third s) = Some ((unat s - first_sat i) mod reward i)"
    by (simp add: sat_third_def e Let_def nz unat_mod pos sub)
qed

lemma sat_panics: "2099999997690000 \<le> unat s \<Longrightarrow> sat_height s = None \<and> sat_third s = None"
  by (simp add: sat_height_def sat_third_def epoch_of_sat_post epoch_subsidy_post)

text \<open>The first sat of a block in terms of its epoch and offset.\<close>

lemma epoch_of_height_nat: "epoch_of_height h = word_of_nat (unat h div 210000)"
proof -
  have "unat (h div 210000) = unat h div 210000" by (simp add: unat_div)
  then have "h div 210000 = word_of_nat (unat h div 210000)"
    by (metis of_nat_unat ucast_id)
  then show ?thesis by (simp only: epoch_of_height_def SUBSIDY_HALVING_INTERVAL_def)
qed

lemma height_starting_sat_nat:
  assumes "i < 33" "m < 210000" "unat h = 210000 * i + m"
  shows "unat (height_starting_sat h) = first_sat i + m * reward i"
    and "unat (height_subsidy h) = reward i"
proof -
  have div: "unat h div 210000 = i" using assms by simp
  have e: "epoch_of_height h = word_of_nat i"
    by (simp only: epoch_of_height_nat div)
  show "unat (height_subsidy h) = reward i"
    by (simp only: height_subsidy_def e epoch_subsidy_nat [OF assms(1)])
  have sh: "unat (epoch_starting_height (word_of_nat i)) = 210000 * i"
    using assms(1) unat_mult_small [of "word_of_nat i" "210000 :: u32"]
    by (simp add: epoch_starting_height_def SUBSIDY_HALVING_INTERVAL_def)
  have le: "epoch_starting_height (word_of_nat i) \<le> h"
    using assms sh by (simp add: word_le_nat_alt)
  let ?d = "h - epoch_starting_height (word_of_nat i)"
  have d: "unat ?d = m" using unat_sub [OF le] sh assms by simp
  then have ud: "unat (ucast ?d :: u64) = m"
    using assms(2) by (simp add: unat_ucast_small)
  have sub: "unat (epoch_subsidy (word_of_nat i)) = reward i"
    by (rule epoch_subsidy_nat [OF assms(1)])
  have "m * reward i \<le> 210000 * reward i" using assms by simp
  moreover have "first_sat i + 210000 * reward i \<le> 2099999997690000"
    using table_step [OF assms(1)] first_sat_le_supply [of "Suc i"] assms(1) by simp
  ultimately have bound: "first_sat i + m * reward i \<le> 2099999997690000" by linarith
  have prod: "unat ((ucast ?d :: u64) * epoch_subsidy (word_of_nat i)) = m * reward i"
    using bound by (subst unat_mult_small) (simp_all add: ud sub)
  show "unat (height_starting_sat h) = first_sat i + m * reward i"
    unfolding height_starting_sat_def Let_def e
    using bound assms(1) by (subst unat_add_small) (simp_all add: prod epoch_starting_sat_nat)
qed

section \<open>Shared facts about coordinates\<close>

lemma sat_cases:
  assumes "s < SUPPLY"
  obtains i m t where "i < 33" "m < 210000" "t < reward i"
    "unat s = first_sat i + m * reward i + t"
    "sat_height s = Some (word_of_nat (210000 * i + m))"
    "sat_third s = Some (word_of_nat t)"
proof -
  from assms have "unat s < 2099999997690000"
    by (simp add: word_less_nat_alt unat_SUPPLY)
  then obtain i where i: "i < 33" "first_sat i \<le> unat s"
    "unat s < first_sat i + 210000 * reward i"
    by (rule epoch_of_sat_cases)
  note r = reward_pos [OF i(1)]
  let ?p = "unat s - first_sat i"
  have "?p div reward i < 210000"
    using i r by (simp add: less_mult_imp_div_less mult.commute)
  moreover have "?p mod reward i < reward i" using r by simp
  moreover have "unat s = first_sat i + ?p div reward i * reward i + ?p mod reward i"
    using i(2) div_mult_mod_eq [of ?p "reward i"] by linarith
  moreover from sat_position(3) [OF i] obtain w where "sat_third s = Some w"
    "unat w = ?p mod reward i" by auto
  then have "sat_third s = Some (word_of_nat (?p mod reward i))"
    by (metis of_nat_unat ucast_id)
  ultimately show ?thesis using that i(1) sat_position(2) [OF i] by blast
qed

lemma sat_of_coordinates:
  assumes "i < 33" "m < 210000" "t < reward i" "unat s = first_sat i + m * reward i + t"
  shows "sat_height s = Some (word_of_nat (210000 * i + m))"
    and "map_option unat (sat_third s) = Some t"
proof -
  note r = reward_pos [OF assms(1)]
  have "m * reward i + t < (m + 1) * reward i" using assms(3) by simp
  also have "\<dots> \<le> 210000 * reward i" using assms(2) by (intro mult_le_mono) auto
  finally have i: "first_sat i \<le> unat s" "unat s < first_sat i + 210000 * reward i"
    using assms(4) by simp_all
  have d: "(unat s - first_sat i) div reward i = m" "(unat s - first_sat i) mod reward i = t"
    using assms r by simp_all
  show "sat_height s = Some (word_of_nat (210000 * i + m))"
    using sat_position(2) [OF assms(1) i] d by simp
  show "map_option unat (sat_third s) = Some t"
    using sat_position(3) [OF assms(1) i] d by simp
qed

lemma height_split:
  assumes "(h :: height) < 6930000"
  obtains i m where "i < 33" "m < 210000" "unat h = 210000 * i + m"
proof (rule that [of "unat h div 210000" "unat h mod 210000"])
  have "unat h < 6930000" using assms by (simp add: word_less_nat_alt)
  then show "unat h div 210000 < 33" by simp
qed simp_all

lemma unat_height [simp]: "i < 33 \<Longrightarrow> m < 210000 \<Longrightarrow>
    unat (word_of_nat (210000 * i + m) :: u32) = 210000 * i + m"
  by (rule unat_epoch) simp

lemma unat_offset: "t < reward i \<Longrightarrow> unat (word_of_nat t :: u64) = t"
proof -
  assume "t < reward i"
  also have "reward i \<le> 5000000000" by (rule div_le_dividend)
  finally have "t < 2 ^ LENGTH(64)" by simp
  then show ?thesis by (simp only: unat_of_nat mod_less)
qed

lemma sat_coordinates:
  assumes "s < SUPPLY"
  obtains h t where "sat_height s = Some h" "sat_third s = Some t" "h < 6930000"
    "t < height_subsidy h" "unat (height_starting_sat h) + unat t = unat s"
proof -
  obtain i m t where c: "i < 33" "m < 210000" "t < reward i"
    "unat s = first_sat i + m * reward i + t"
    "sat_height s = Some (word_of_nat (210000 * i + m))" "sat_third s = Some (word_of_nat t)"
    using assms by (rule sat_cases)
  define h where "h = (word_of_nat (210000 * i + m) :: u32)"
  define w where "w = (word_of_nat t :: u64)"
  have h: "unat h = 210000 * i + m" unfolding h_def by (rule unat_height [OF c(1,2)])
  have w: "unat w = t" unfolding w_def by (rule unat_offset [OF c(3)])
  note starts = height_starting_sat_nat [OF c(1,2) h]
  have "h < 6930000" using h c(1,2) by (simp add: word_less_nat_alt)
  moreover have "w < height_subsidy h" using starts(2) w c(3) by (simp add: word_less_nat_alt)
  moreover have "unat (height_starting_sat h) + unat w = unat s" using starts(1) w c(4) by simp
  ultimately show ?thesis using that c(5,6) unfolding h_def [symmetric] w_def [symmetric] by blast
qed

lemma block_coordinates:
  assumes "h < 6930000" "t < height_subsidy h"
  shows "sat_height (height_starting_sat h + t) = Some h"
    and "sat_third (height_starting_sat h + t) = Some t"
proof -
  obtain i m where h: "i < 33" "m < 210000" "unat h = 210000 * i + m"
    using assms(1) by (rule height_split)
  note starts = height_starting_sat_nat [OF h]
  have t: "unat t < reward i" using assms(2) starts(2) by (simp add: word_less_nat_alt)
  have "(m + 1) * reward i \<le> 210000 * reward i" using h(2) by (intro mult_le_mono) auto
  then have "m * reward i + reward i \<le> 210000 * reward i" by (simp only: add_mult_distrib mult_1)
  moreover have "first_sat i + 210000 * reward i \<le> 2099999997690000"
    using table_step [OF h(1)] first_sat_le_supply [of "Suc i"] h(1) by simp
  ultimately have "unat (height_starting_sat h) + unat t < 18446744073709551616"
    using starts(1) t by linarith
  then have s: "unat (height_starting_sat h + t) = first_sat i + m * reward i + unat t"
    using starts(1) by (subst unat_add_small) simp_all
  have "word_of_nat (210000 * i + m) = h" by (simp only: h(3) [symmetric] of_nat_unat ucast_id)
  with sat_of_coordinates [OF h(1,2) t s] show
    "sat_height (height_starting_sat h + t) = Some h" "sat_third (height_starting_sat h + t) = Some t"
    by (simp_all only: map_option_eq_Some) (metis word_unat_eq_iff)
qed

lemma height_subsidy_zero: "6930000 \<le> h \<Longrightarrow> height_subsidy h = 0"
proof -
  assume "6930000 \<le> h"
  then have "33 \<le> unat h div 210000" by (simp add: word_le_nat_alt)
  then have "33 \<le> epoch_of_height h"
    by (simp add: epoch_of_height_def SUBSIDY_HALVING_INTERVAL_def word_le_nat_alt unat_div)
  then show ?thesis by (simp add: height_subsidy_def epoch_subsidy_post)
qed

lemma add_of_unat_add:
  fixes a b s :: "'a::len word"
  assumes "unat a + unat b = unat s"
  shows "a + b = s"
proof -
  have "unat a + unat b < 2 ^ LENGTH('a)" using unsigned_less [of s, where 'a = nat] assms by simp
  with assms show ?thesis by (simp only: word_unat_eq_iff unat_add_small)
qed

lemma rarity_Common_iff:
  assumes "sat_height s = Some h" "sat_third s = Some t"
  shows "rarity_of_sat s = Some Common \<longleftrightarrow> t \<noteq> 0"
  using assms by (auto simp: rarity_of_sat_def degree_of_sat_def)

lemma is_multiple_of_dvd: "is_multiple_of a b \<longleftrightarrow> unat b dvd unat a"
proof (cases "b = 0")
  case True
  then show ?thesis by (simp add: is_multiple_of_def unat_eq_0)
next
  case False
  have "a mod b = 0 \<longleftrightarrow> unat (a mod b) = 0" by (simp add: unat_eq_0)
  with False show ?thesis by (simp add: is_multiple_of_def unat_mod dvd_eq_mod_eq_0)
qed

lemma early_rewards:
  "\<forall>i \<in> set [0..<10]. 9765625 dvd first_sat i \<and> 9765625 dvd reward i"
  by (simp add: STARTING_SATS_def upt_rec)

section \<open>Properties\<close>

text \<open>C26: every sat below the supply has a block height and an offset in that block, and the
  first sat of the block plus the offset is the sat: the decomposition the code computes from
  the epoch table is a position in the sequence of block rewards, without wrap-around.\<close>

theorem sat_block_coordinates:
  assumes "s < SUPPLY"
  shows "\<exists>h t. sat_height s = Some h \<and> sat_third s = Some t \<and> h < 6930000
    \<and> t < height_subsidy h \<and> unat (height_starting_sat h) + unat t = unat s"
  using assms by (elim sat_coordinates) auto

text \<open>conversely, the height and the offset of the sat at a given offset of a given block
  are that block and that offset, for every offset below the block's subsidy; with the previous
  property, sats below the supply and pairs of a block and an offset correspond one to one.\<close>

theorem coordinates_of_block_offset:
  assumes "h < 6930000" "t < height_subsidy h"
  shows "sat_height (height_starting_sat h + t) = Some h
    \<and> sat_third (height_starting_sat h + t) = Some t"
  using block_coordinates [OF assms] by simp

theorem coordinates_of_block_offset_witness:
  "sat_height (height_starting_sat 840000 + 7) = Some 840000
    \<and> sat_third (height_starting_sat 840000 + 7) = Some 7"
  by (rule coordinates_of_block_offset)
    (simp_all add: height_subsidy_def epoch_of_height_def SUBSIDY_HALVING_INTERVAL_def
      epoch_subsidy_def FIRST_POST_SUBSIDY_def COIN_VALUE_def)

theorem sat_block_coordinates_witness:
  "\<exists>h t. sat_height 5000000001 = Some h \<and> sat_third 5000000001 = Some t \<and> h < 6930000
    \<and> t < height_subsidy h \<and> unat (height_starting_sat h) + unat t = unat (5000000001 :: u64)"
  by (rule sat_block_coordinates) (simp add: SUPPLY_def)

text \<open>the fast test \<open>Sat::common\<close>, with its shortcut for the first ten epochs, agrees with the
  full rarity computation on every sat of the supply.\<close>

theorem common_eq_rarity:
  assumes "s < SUPPLY"
  shows "common s \<longleftrightarrow> rarity_of_sat s = Some Common"
proof -
  obtain i m t where c: "i < 33" "m < 210000" "t < reward i"
    "unat s = first_sat i + m * reward i + t"
    "sat_height s = Some (word_of_nat (210000 * i + m))" "sat_third s = Some (word_of_nat t)"
    using assms by (rule sat_cases)
  note t = unat_offset [OF c(3)]
  have rarity: "rarity_of_sat s = Some Common \<longleftrightarrow> t \<noteq> 0"
  proof -
    have "(word_of_nat t :: u64) = 0 \<longleftrightarrow> unat (word_of_nat t :: u64) = 0" by (rule unat_eq_0 [symmetric])
    then have "(word_of_nat t :: u64) = 0 \<longleftrightarrow> t = 0" by (simp only: t)
    then show ?thesis by (simp only: rarity_Common_iff [OF c(5,6)])
  qed
  have below: "m * reward i + t < 210000 * reward i"
  proof -
    have "m * reward i + t < (m + 1) * reward i" using c(3) by simp
    also have "\<dots> \<le> 210000 * reward i" using c(2) by (intro mult_le_mono) auto
    finally show ?thesis .
  qed
  then have e: "epoch_of_sat s = word_of_nat i"
    using c by (intro epoch_of_sat_unique) simp_all
  have "unat (s - epoch_starting_sat (epoch_of_sat s)) = m * reward i + t"
    using c below sat_position(1) [of i s] by (simp add: epoch_position_def)
  then have full: "is_multiple_of (s - epoch_starting_sat (epoch_of_sat s))
      (epoch_subsidy (epoch_of_sat s)) \<longleftrightarrow> t = 0"
    using c(1,3) by (simp add: is_multiple_of_dvd e epoch_subsidy_nat dvd_eq_mod_eq_0)
  have fast: "t \<noteq> 0" if "s < epoch_starting_sat 10" "\<not> is_multiple_of s (epoch_subsidy 9)"
  proof
    assume "t = 0"
    have "unat (epoch_starting_sat 10) = first_sat 10"
      using epoch_starting_sat_nat [of 10] by simp
    with that(1) have "unat s < first_sat 10" by (simp add: word_less_nat_alt)
    moreover have "first_sat i \<le> unat s" using c(4) by simp
    moreover have "10 \<le> i \<Longrightarrow> first_sat 10 \<le> first_sat i"
      using c(1) by (intro first_sat_mono) auto
    ultimately have "i < 10" by linarith
    then have "9765625 dvd first_sat i" "9765625 dvd reward i" using early_rewards by auto
    with \<open>t = 0\<close> c(4) have "9765625 dvd unat s" by simp
    moreover have "unat (epoch_subsidy 9) = 9765625" using epoch_subsidy_nat [of 9] by simp
    ultimately show False using that(2) by (simp add: is_multiple_of_dvd)
  qed
  show ?thesis
    unfolding common_def Let_def using rarity full fast by auto
qed

theorem common_eq_rarity_witness:
  "common 9765625 \<longleftrightarrow> rarity_of_sat 9765625 = Some Common"
  by (rule common_eq_rarity) (simp add: SUPPLY_def)

text \<open>The height and the offset of a sat are undefined (the code divides by zero) exactly at and
  past the supply.\<close>

theorem sat_height_panics_iff: "sat_height s = None \<and> sat_third s = None \<longleftrightarrow> SUPPLY \<le> s"
proof
  assume none: "sat_height s = None \<and> sat_third s = None"
  show "SUPPLY \<le> s"
  proof (rule ccontr)
    assume "\<not> SUPPLY \<le> s"
    then have "s < SUPPLY" by simp
    then obtain h where "sat_height s = Some h" by (rule sat_cases)
    with none show False by simp
  qed
next
  assume "SUPPLY \<le> s"
  then show "sat_height s = None \<and> sat_third s = None"
    by (intro sat_panics) (simp add: word_le_nat_alt unat_SUPPLY)
qed

end
