(* ===== verification/SatIndex.thy ===== *)
theory SatIndex
  imports Utxo Sat
begin

text \<open>
  The updater of the index (\<open>src/index/updater.rs\<close>): how the sats of the inputs of a
  transaction are handed to its outputs, first in first out, how a block's entries go
  through the cache of unspent outputs, and how a commit writes the cache to the database.
  The databases are maps; the channel that fetches outputs from the node is the list of
  what it delivers and the list of what was asked. Panics and errors are values. A
  transaction's identifier is its bytes as the caller computed them.
\<close>

section \<open>Data\<close>

type_synonym txid = bytes
type_synonym outpoint = "txid \<times> u32"
type_synonym satpoint = "outpoint \<times> u64"

record txout =
  to_value :: u64
  to_script :: bytes

record transaction =
  tx_inputs :: "outpoint list"
  tx_outputs :: "txout list"

definition null_outpoint :: outpoint where
  "null_outpoint = (replicate 32 0, 0xFFFFFFFF)"

definition unbound_outpoint :: outpoint where
  "unbound_outpoint = (replicate 32 0, 0)"

definition is_special_outpoint :: "outpoint \<Rightarrow> bool" where
  "is_special_outpoint p = (p = null_outpoint \<or> p = unbound_outpoint)"

section \<open>The sats of one transaction\<close>

text \<open>What the loop over the outputs updates: the split range left pending, the chunks of the
  inputs not read yet, the database of rare sats and the counters.\<close>

record sat_walk =
  w_pending :: "sat_range option"
  w_iter :: "bytes list"
  w_satpoints :: "u64 \<rightharpoonup> satpoint"
  w_since_flush :: u64
  w_written :: u64
  w_traversed :: u64

definition next_range :: "sat_walk \<Rightarrow> (sat_range \<times> sat_walk) option" where
  "next_range w =
     (case w_pending w of
        Some r \<Rightarrow> Some (r, w\<lparr>w_pending := None\<rparr>)
      | None \<Rightarrow> (case w_iter w of
            [] \<Rightarrow> None
          | c # cs \<Rightarrow> Some (sat_range_load c, w\<lparr>w_iter := cs\<rparr>)))"

definition note_rare :: "outpoint \<Rightarrow> u64 \<Rightarrow> sat_range \<Rightarrow> sat_walk \<Rightarrow> sat_walk" where
  "note_rare p off r w =
     (if common (fst r) then w
      else w\<lparr>w_satpoints := (w_satpoints w)(fst r \<mapsto> (p, off))\<rparr>)"

definition split_range :: "u64 \<Rightarrow> sat_range \<Rightarrow> sat_walk \<Rightarrow> sat_range \<times> sat_walk" where
  "split_range remaining r w =
     (if snd r - fst r > remaining then
        let middle = fst r + remaining in
        ((fst r, middle),
         w\<lparr>w_since_flush := w_since_flush w + 1, w_pending := Some (middle, snd r)\<rparr>)
      else (r, w))"

definition walk_size :: "sat_walk \<Rightarrow> nat" where
  "walk_size w = 2 * length (w_iter w) + (if w_pending w = None then 0 else 1)"

lemma next_range_size:
  "next_range w = Some (r, w') \<Longrightarrow> w_pending w' = None \<and> walk_size w' < walk_size w"
  by (auto simp: next_range_def walk_size_def split: option.splits list.splits)

function assign_output ::
  "outpoint \<Rightarrow> u64 \<Rightarrow> u64 \<Rightarrow> bytes \<Rightarrow> sat_walk \<Rightarrow> (bytes \<times> sat_walk) option" where
  "assign_output p value remaining sats w =
     (if remaining > 0 then
        (case next_range w of
           None \<Rightarrow> None
         | Some (rng, w1) \<Rightarrow>
             (let w2 = note_rare p (value - remaining) rng w1;
                  (assigned, w3) = split_range remaining rng w2
              in assign_output p value (remaining - (snd assigned - fst assigned))
                   (sats @ sat_range_store assigned) (w3\<lparr>w_written := w_written w3 + 1\<rparr>)))
      else Some (sats, w))"
  by pat_completeness auto
termination
proof (relation "measures [\<lambda>(p, v, r, s, w). walk_size w, \<lambda>(p, v, r, s, w). unat r]", goal_cases)
  case 1
  then show ?case by simp
next
  case (2 p val remaining sats w x rng w1 w2 y assigned w3)
  from 2(2,3) have w1: "w_pending w1 = None" "walk_size w1 < walk_size w"
    using next_range_size [of w rng w1] by simp_all
  have size2: "walk_size w2 = walk_size w1"
    by (simp add: 2(4) note_rare_def walk_size_def)
  have "walk_size w3 \<le> walk_size w \<and>
    (walk_size w3 < walk_size w \<or> remaining - (snd assigned - fst assigned) < remaining)"
  proof (cases "snd rng - fst rng > remaining")
    case True
    then have "assigned = (fst rng, fst rng + remaining)"
      "w3 = w2\<lparr>w_since_flush := w_since_flush w2 + 1, w_pending := Some (fst rng + remaining, snd rng)\<rparr>"
      using 2(5,6) by (simp_all add: split_range_def Let_def)
    moreover have "walk_size w3 \<le> Suc (walk_size w1)"
      using calculation(2) size2 w1(1) by (simp add: walk_size_def note_rare_def 2(4))
    ultimately show ?thesis using w1(2) 2(1) by simp
  next
    case False
    then have "w3 = w2" using 2(5,6) by (simp add: split_range_def)
    with size2 w1(2) show ?thesis by simp
  qed
  then show ?case by (auto simp: walk_size_def word_less_nat_alt)
qed

declare assign_output.simps [simp del]

fun assign_outputs ::
  "index_flags \<Rightarrow> txid \<Rightarrow> nat \<Rightarrow> txout list \<Rightarrow> utxo_entry_buf list \<Rightarrow> sat_walk
     \<Rightarrow> (utxo_entry_buf list \<times> sat_walk) option" where
  "assign_outputs ix txid vout [] bufs w = Some (bufs, w)"
| "assign_outputs ix txid vout (out # outs) bufs w =
     Option.bind (assert_that (vout < 2 ^ 32)) (\<lambda>_.
     Option.bind (assign_output (txid, word_of_nat vout) (to_value out) (to_value out) [] w) (\<lambda>(sats, w1).
     let w2 = w1\<lparr>w_traversed := w_traversed w1 + 1\<rparr> in
     Option.bind (assert_that (vout < length bufs)) (\<lambda>_.
     Option.bind (push_sat_ranges ix sats (bufs ! vout)) (\<lambda>b.
     assign_outputs ix txid (Suc vout) outs (bufs[vout := b]) w2))))"

definition leftover_of :: "sat_walk \<Rightarrow> bytes" where
  "leftover_of w =
     (case w_pending w of Some r \<Rightarrow> sat_range_store r | None \<Rightarrow> []) @ concat (w_iter w)"

definition index_transaction_sats ::
  "index_flags \<Rightarrow> transaction \<Rightarrow> txid \<Rightarrow> utxo_entry_buf list \<Rightarrow> bytes list \<Rightarrow> bytes
     \<Rightarrow> sat_walk \<Rightarrow> (utxo_entry_buf list \<times> bytes \<times> sat_walk) option" where
  "index_transaction_sats ix tx txid bufs input_sat_ranges leftover w0 =
     Option.bind
       (assign_outputs ix txid 0 (tx_outputs tx) bufs
          (w0\<lparr>w_pending := None, w_iter := concat (map (chunks_exact 11) input_sat_ranges)\<rparr>))
       (\<lambda>(bufs', w). Some (bufs', leftover @ leftover_of w, w\<lparr>w_pending := None, w_iter := []\<rparr>))"

section \<open>First in, first out\<close>

text \<open>The sats of a range in order, and those a walk still has to hand out.\<close>

definition sats_of :: "sat_range \<Rightarrow> nat list" where
  "sats_of r = [unat (fst r) ..< unat (snd r)]"

definition walk_content :: "sat_walk \<Rightarrow> nat list" where
  "walk_content w = (case w_pending w of Some r \<Rightarrow> sats_of r | None \<Rightarrow> [])
     @ concat (map (\<lambda>c. sats_of (sat_range_load c)) (w_iter w))"

text \<open>The ranges that splitting keeps in the format: the end is below \<open>2^51\<close> as well.\<close>

definition walk_range :: "sat_range \<Rightarrow> bool" where
  "walk_range r = (sat_range_ok r \<and> unat (snd r) < 2 ^ 51)"

definition stored_range :: "bytes \<Rightarrow> bool" where
  "stored_range c = (\<exists>r. walk_range r \<and> c = sat_range_store r)"

definition walk_ok :: "sat_walk \<Rightarrow> bool" where
  "walk_ok w = (pred_option walk_range (w_pending w) \<and> (\<forall>c \<in> set (w_iter w). stored_range c))"

lemma stored_range_load:
  "stored_range c \<Longrightarrow> walk_range (sat_range_load c) \<and> sat_range_store (sat_range_load c) = c"
  by (auto simp: stored_range_def walk_range_def sat_range_load_store)

lemma length_sats_of: "walk_range r \<Longrightarrow> length (sats_of r) = unat (snd r - fst r)"
  by (simp add: sats_of_def sat_range_ok_def walk_range_def unat_sub)

lemma next_range_content:
  assumes "walk_ok w" "next_range w = Some (r, w1)"
  shows "walk_range r \<and> walk_content w = sats_of r @ walk_content w1 \<and> walk_ok w1
    \<and> w_pending w1 = None"
proof (cases "w_pending w")
  case (Some r')
  with assms show ?thesis by (auto simp: next_range_def walk_ok_def walk_content_def)
next
  case None
  with assms(2) obtain c cs where "w_iter w = c # cs" "r = sat_range_load c" "w1 = w\<lparr>w_iter := cs\<rparr>"
    by (auto simp: next_range_def split: list.splits)
  with None assms(1) show ?thesis
    by (simp add: walk_ok_def walk_content_def stored_range_load)
qed

lemma next_range_None: "next_range w = None \<Longrightarrow> walk_content w = []"
  by (auto simp: next_range_def walk_content_def split: option.splits list.splits)

lemma note_rare_content [simp]:
  "walk_content (note_rare p off r w) = walk_content w"
  "walk_ok (note_rare p off r w) = walk_ok w"
  "w_pending (note_rare p off r w) = w_pending w"
  by (simp_all add: note_rare_def walk_content_def walk_ok_def)

lemma counters_content [simp]:
  "walk_content (w\<lparr>w_written := n\<rparr>) = walk_content w" "walk_ok (w\<lparr>w_written := n\<rparr>) = walk_ok w"
  "walk_content (w\<lparr>w_traversed := n\<rparr>) = walk_content w" "walk_ok (w\<lparr>w_traversed := n\<rparr>) = walk_ok w"
  by (simp_all add: walk_content_def walk_ok_def)

lemma cut_range:
  assumes "walk_range r" "m < snd r - fst r"
  shows "walk_range (fst r, fst r + m)" "walk_range (fst r + m, snd r)"
    "sats_of (fst r, fst r + m) = take (unat m) (sats_of r)"
    "sats_of (fst r + m, snd r) = drop (unat m) (sats_of r)"
proof -
  have m: "unat m < unat (snd r - fst r)" using assms(2) by (simp add: word_less_nat_alt)
  have le: "fst r \<le> snd r" and ok: "unat (fst r) < 2 ^ 51" "unat (snd r) < 2 ^ 51"
    and size: "unat (snd r - fst r) < 2 ^ 37"
    using assms(1) by (simp_all add: walk_range_def sat_range_ok_def)
  have diff: "unat (snd r - fst r) = unat (snd r) - unat (fst r)" using le by (rule unat_sub)
  have sum: "unat (fst r + m) = unat (fst r) + unat m"
    using m ok size by (intro unat_add_small) simp
  have mid: "fst r \<le> fst r + m" "fst r + m \<le> snd r"
    using m diff sum by (simp_all add: word_le_nat_alt)
  have "unat (snd r - (fst r + m)) = unat (snd r) - (unat (fst r) + unat m)"
    using mid(2) by (simp only: unat_sub sum)
  then have d: "unat (snd r - (fst r + m)) < 2 ^ 37" using diff size by linarith
  have s: "unat (fst r) + unat m < 2 ^ 51" using m diff ok(2) by linarith
  show "walk_range (fst r, fst r + m)"
    using mid(1) ok s m size by (simp add: walk_range_def sat_range_ok_def sum)
  show "walk_range (fst r + m, snd r)"
    using mid(2) ok s d by (simp add: walk_range_def sat_range_ok_def sum)
  show "sats_of (fst r, fst r + m) = take (unat m) (sats_of r)"
    using m diff by (simp add: sats_of_def sum take_upt)
  show "sats_of (fst r + m, snd r) = drop (unat m) (sats_of r)"
    by (simp add: sats_of_def sum drop_upt)
qed

lemma split_range_content:
  assumes "walk_range r" "walk_ok w" "w_pending w = None" "split_range m r w = (a, w')"
  shows "walk_range a \<and> sats_of a = take (unat m) (sats_of r)
    \<and> walk_content w' = drop (unat m) (sats_of r) @ walk_content w \<and> walk_ok w'
    \<and> unat (snd a - fst a) = min (unat m) (length (sats_of r))"
proof (cases "snd r - fst r > m")
  case False
  then have "unat (snd r - fst r) \<le> unat m" by (simp add: word_le_nat_alt not_less)
  with False assms length_sats_of [OF assms(1)] show ?thesis by (auto simp: split_range_def)
next
  case True
  then have a: "a = (fst r, fst r + m)"
    and w': "w' = w\<lparr>w_since_flush := w_since_flush w + 1, w_pending := Some (fst r + m, snd r)\<rparr>"
    using assms(4) by (simp_all add: split_range_def Let_def)
  have "unat m < length (sats_of r)"
    using True length_sats_of [OF assms(1)] by (simp add: word_less_nat_alt)
  with cut_range [OF assms(1) True] assms(2,3) show ?thesis
    by (simp add: a w' walk_content_def walk_ok_def)
qed

text \<open>A condition on ranges that cutting keeps, over all the ranges a walk has left.\<close>

definition cut_closed :: "(sat_range \<Rightarrow> bool) \<Rightarrow> bool" where
  "cut_closed P = (\<forall>r m. walk_range r \<and> P r \<and> 0 < m \<and> m < snd r - fst r
     \<longrightarrow> P (fst r, fst r + m) \<and> P (fst r + m, snd r))"

definition walk_all :: "(sat_range \<Rightarrow> bool) \<Rightarrow> sat_walk \<Rightarrow> bool" where
  "walk_all P w = (pred_option P (w_pending w) \<and> (\<forall>c \<in> set (w_iter w). P (sat_range_load c)))"

lemma cut_closed_True [simp]: "cut_closed (\<lambda>_. True)"
  by (simp add: cut_closed_def)

lemma walk_all_True [simp]: "walk_all (\<lambda>_. True) w"
  by (cases "w_pending w") (simp_all add: walk_all_def)

lemma walk_all_counters [simp]:
  "walk_all P (w\<lparr>w_written := n\<rparr>) = walk_all P w" "walk_all P (w\<lparr>w_traversed := n\<rparr>) = walk_all P w"
  "walk_all P (note_rare p off r w) = walk_all P w"
  by (simp_all add: walk_all_def note_rare_def)

lemma next_range_all:
  "walk_all P w \<Longrightarrow> next_range w = Some (r, w1) \<Longrightarrow> P r \<and> walk_all P w1"
  by (cases "w_pending w"; cases "w_iter w") (auto simp: next_range_def walk_all_def)

lemma split_range_all:
  assumes "cut_closed P" "walk_range r" "P r" "walk_all P w" "0 < m" "split_range m r w = (a, w')"
  shows "P a \<and> walk_all P w'"
proof (cases "snd r - fst r > m")
  case True
  then have "P (fst r, fst r + m) \<and> P (fst r + m, snd r)"
    using assms(1-3,5) unfolding cut_closed_def by blast
  with True assms(4,6) show ?thesis by (auto simp: split_range_def Let_def walk_all_def)
next
  case False
  with assms(3,4,6) show ?thesis by (auto simp: split_range_def)
qed

lemma assign_output_content:
  assumes "walk_ok w" "assign_output p v m acc w = Some (sats, w')" "cut_closed P" "walk_all P w"
  shows "walk_ok w' \<and> walk_content w' = drop (unat m) (walk_content w) \<and> unat m \<le> length (walk_content w)
    \<and> walk_all P w'
    \<and> (\<exists>rs. sats = acc @ concat (map sat_range_store rs) \<and> (\<forall>r \<in> set rs. walk_range r \<and> P r)
        \<and> concat (map sats_of rs) = take (unat m) (walk_content w))"
  using assms(1,2,4)
proof (induction p v m acc w rule: assign_output.induct)
  case (1 p v m acc w)
  show ?case
  proof (cases "m > 0")
    case False
    then have "m = 0" by (simp add: word_gt_0)
    with "1.prems" show ?thesis
      by (auto simp: assign_output.simps [of p v 0] intro!: exI [of _ "[]"])
  next
    case True
    with "1.prems"(2) obtain r w1 where n: "next_range w = Some (r, w1)"
      by (auto simp: assign_output.simps [of p v m] split: option.splits)
    obtain a w3 where sp: "split_range m r (note_rare p (v - m) r w1) = (a, w3)" by (rule prod.exhaust)
    let ?w4 = "w3\<lparr>w_written := w_written w3 + 1\<rparr>"
    have rec: "assign_output p v (m - (snd a - fst a)) (acc @ sat_range_store a) ?w4 = Some (sats, w')"
      using "1.prems"(2) True n sp by (simp add: assign_output.simps [of p v m] Let_def)
    from next_range_content [OF "1.prems"(1) n]
    have c: "walk_range r" "walk_content w = sats_of r @ walk_content w1" "walk_ok w1" "w_pending w1 = None"
      by simp_all
    have s: "walk_range a" "sats_of a = take (unat m) (sats_of r)"
      "walk_content w3 = drop (unat m) (sats_of r) @ walk_content w1" "walk_ok w3"
      "unat (snd a - fst a) = min (unat m) (length (sats_of r))"
      using split_range_content [OF c(1) _ _ sp] c(3,4) by simp_all
    have "snd a - fst a \<le> m" using s(5) by (simp add: word_le_nat_alt)
    then have left: "unat (m - (snd a - fst a)) = unat m - length (sats_of r)"
      by (simp add: unat_sub s(5))
    have "walk_ok ?w4" using s(4) by simp
    have n_all: "P r" "walk_all P w1" using next_range_all [OF "1.prems"(3) n] by simp_all
    then have all: "P a" "walk_all P ?w4"
      using split_range_all [OF assms(3) c(1) n_all(1) _ True sp] by simp_all
    from "1.IH" [OF True n refl refl sp [symmetric] refl \<open>walk_ok ?w4\<close> rec all(2)]
    obtain rs where ih: "walk_ok w'" "walk_content w' = drop (unat m - length (sats_of r)) (walk_content w3)"
      "unat m - length (sats_of r) \<le> length (walk_content w3)" "walk_all P w'"
      "sats = acc @ sat_range_store a @ concat (map sat_range_store rs)" "\<forall>r \<in> set rs. walk_range r \<and> P r"
      "concat (map sats_of rs) = take (unat m - length (sats_of r)) (walk_content w3)"
      by (auto simp: left)
    have "drop (unat m - length (sats_of r)) (walk_content w3) = drop (unat m) (walk_content w)"
      "take (unat m) (sats_of r) @ take (unat m - length (sats_of r)) (walk_content w3) = take (unat m) (walk_content w)"
      by (cases "unat m \<le> length (sats_of r)"; simp add: s(3) c(2))+
    moreover have "unat m \<le> length (walk_content w)"
      using ih(3) by (cases "unat m \<le> length (sats_of r)") (simp_all add: s(3) c(2))
    ultimately show ?thesis
      using ih s(1,2) all(1) by (intro conjI exI [of _ "a # rs"]) simp_all
  qed
qed

text \<open>Success: enough sats in the inputs is all an output needs.\<close>

lemma assign_output_total:
  assumes "walk_ok w" "unat m \<le> length (walk_content w)"
  shows "assign_output p v m acc w \<noteq> None"
  using assms
proof (induction p v m acc w rule: assign_output.induct)
  case (1 p v m acc w)
  show ?case
  proof (cases "m > 0")
    case False
    then show ?thesis by (simp add: assign_output.simps [of p v m])
  next
    case True
    then have "walk_content w \<noteq> []" using "1.prems"(2) by (auto simp: word_less_nat_alt)
    then obtain r w1 where n: "next_range w = Some (r, w1)"
      using next_range_None by (cases "next_range w") auto
    obtain a w3 where sp: "split_range m r (note_rare p (v - m) r w1) = (a, w3)" by (rule prod.exhaust)
    let ?w4 = "w3\<lparr>w_written := w_written w3 + 1\<rparr>"
    from next_range_content [OF "1.prems"(1) n]
    have c: "walk_range r" "walk_content w = sats_of r @ walk_content w1" "walk_ok w1" "w_pending w1 = None"
      by simp_all
    have s: "walk_content w3 = drop (unat m) (sats_of r) @ walk_content w1" "walk_ok w3"
      "unat (snd a - fst a) = min (unat m) (length (sats_of r))"
      using split_range_content [OF c(1) _ _ sp] c(3,4) by simp_all
    have "snd a - fst a \<le> m" using s(3) by (simp add: word_le_nat_alt)
    then have "unat (m - (snd a - fst a)) = unat m - length (sats_of r)"
      by (simp add: unat_sub s(3))
    then have "unat (m - (snd a - fst a)) \<le> length (walk_content ?w4)"
      using "1.prems"(2) c(2) by (simp add: s(1))
    moreover have "walk_ok ?w4" using s(2) by simp
    ultimately have "assign_output p v (m - (snd a - fst a)) (acc @ sat_range_store a) ?w4 \<noteq> None"
      using "1.IH" [OF True n refl refl sp [symmetric] refl] by blast
    then show ?thesis using True n sp by (simp add: assign_output.simps [of p v m] Let_def)
  qed
qed

text \<open>The outputs of a transaction cut the sats of its inputs in consecutive pieces.\<close>

fun cuts :: "nat list \<Rightarrow> 'a list \<Rightarrow> 'a list list" where
  "cuts [] xs = []"
| "cuts (n # ns) xs = take n xs # cuts ns (drop n xs)"

lemma length_cuts [simp]: "length (cuts ns xs) = length ns"
  by (induction ns arbitrary: xs) simp_all

lemma concat_cuts: "concat (cuts ns xs) = take (sum_list ns) xs"
  by (induction ns arbitrary: xs) (simp_all add: take_add)

lemma length_nth_cuts:
  "i < length ns \<Longrightarrow> sum_list ns \<le> length xs \<Longrightarrow> length (cuts ns xs ! i) = ns ! i"
proof (induction ns arbitrary: xs i)
  case (Cons n ns)
  then show ?case by (cases i) simp_all
qed simp

abbreviation out_values :: "txout list \<Rightarrow> nat list" where
  "out_values outs \<equiv> map (\<lambda>out. unat (to_value out)) outs"

definition filled_with ::
  "index_flags \<Rightarrow> nat list \<Rightarrow> utxo_entry_buf \<Rightarrow> utxo_entry_buf \<Rightarrow> bool" where
  "filled_with ix sats b b' =
     (\<exists>rs. (\<forall>r \<in> set rs. walk_range r) \<and> concat (map sats_of rs) = sats
       \<and> push_sat_ranges ix (concat (map sat_range_store rs)) b = Some b')"

definition filled_by ::
  "(sat_range \<Rightarrow> bool) \<Rightarrow> index_flags \<Rightarrow> nat list \<Rightarrow> utxo_entry_buf \<Rightarrow> utxo_entry_buf \<Rightarrow> bool" where
  "filled_by P ix sats b b' =
     (\<exists>rs. (\<forall>r \<in> set rs. walk_range r \<and> P r) \<and> concat (map sats_of rs) = sats
       \<and> push_sat_ranges ix (concat (map sat_range_store rs)) b = Some b')"

lemma filled_by_True: "filled_by (\<lambda>_. True) = filled_with"
  by (intro ext) (simp add: filled_by_def filled_with_def)

lemma assign_outputs_content:
  assumes "assign_outputs ix txid vout outs bufs w = Some (bufs', w')" "walk_ok w" "cut_closed P" "walk_all P w"
  shows "walk_ok w' \<and> walk_all P w' \<and> walk_content w' = drop (sum_list (out_values outs)) (walk_content w)
    \<and> sum_list (out_values outs) \<le> length (walk_content w) \<and> length bufs' = length bufs
    \<and> (\<forall>i < vout. bufs' ! i = bufs ! i)
    \<and> (\<forall>i < length outs. filled_by P ix (cuts (out_values outs) (walk_content w) ! i)
          (bufs ! (vout + i)) (bufs' ! (vout + i)))"
  using assms(1,2,4)
proof (induction outs arbitrary: vout bufs w)
  case Nil
  then show ?case by simp
next
  case (Cons out outs)
  from Cons.prems(1) obtain sats w1 b where step:
    "assign_output (txid, word_of_nat vout) (to_value out) (to_value out) [] w = Some (sats, w1)"
    "vout < length bufs" "push_sat_ranges ix sats (bufs ! vout) = Some b"
    and rest: "assign_outputs ix txid (Suc vout) outs (bufs[vout := b])
      (w1\<lparr>w_traversed := w_traversed w1 + 1\<rparr>) = Some (bufs', w')"
    by (auto simp: bind_eq_Some_conv assert_that_eq Let_def)
  let ?n = "unat (to_value out)"
  from assign_output_content [OF Cons.prems(2) step(1) assms(3) Cons.prems(3)]
  obtain rs where c: "walk_ok w1" "walk_all P w1" "walk_content w1 = drop ?n (walk_content w)"
    "?n \<le> length (walk_content w)" "sats = concat (map sat_range_store rs)"
    "\<forall>r \<in> set rs. walk_range r \<and> P r" "concat (map sats_of rs) = take ?n (walk_content w)"
    by auto
  have "walk_ok (w1\<lparr>w_traversed := w_traversed w1 + 1\<rparr>)" "walk_all P (w1\<lparr>w_traversed := w_traversed w1 + 1\<rparr>)"
    using c(1,2) by simp_all
  from Cons.IH [OF rest this] have ih: "walk_ok w'" "walk_all P w'"
    "walk_content w' = drop (sum_list (out_values outs)) (drop ?n (walk_content w))"
    "sum_list (out_values outs) \<le> length (drop ?n (walk_content w))" "length bufs' = length bufs"
    "\<forall>i < Suc vout. bufs' ! i = bufs[vout := b] ! i"
    "\<forall>i < length outs. filled_by P ix (cuts (out_values outs) (drop ?n (walk_content w)) ! i)
          (bufs[vout := b] ! (Suc vout + i)) (bufs' ! (Suc vout + i))"
    by (simp_all add: c(3))
  have first: "filled_by P ix (take ?n (walk_content w)) (bufs ! vout) (bufs' ! vout)"
    using c step ih(6) unfolding filled_by_def by auto
  have "filled_by P ix (cuts (out_values (out # outs)) (walk_content w) ! i)
      (bufs ! (vout + i)) (bufs' ! (vout + i))" if "i < length (out # outs)" for i
    using that first ih(7) by (cases i) auto
  moreover have "drop (sum_list (out_values outs)) (drop ?n (walk_content w))
      = drop (sum_list (out_values (out # outs))) (walk_content w)" by (simp add: add.commute)
  ultimately show ?case using ih c(4) by auto
qed

lemma push_sat_ranges_total:
  assumes "index_sats ix" "ub_state b = NeedSats"
  shows "push_sat_ranges ix (concat (map sat_range_store rs)) b \<noteq> None"
  using assms by (simp add: push_sat_ranges_def Let_def sr.length_concat_store advance_state_def)

lemma assign_outputs_total:
  assumes "walk_ok w" "sum_list (out_values outs) \<le> length (walk_content w)" "index_sats ix"
    "vout + length outs \<le> length bufs" "length bufs \<le> 2 ^ 32"
    "\<forall>i. vout \<le> i \<and> i < length bufs \<longrightarrow> ub_state (bufs ! i) = NeedSats"
  shows "assign_outputs ix txid vout outs bufs w \<noteq> None"
  using assms
proof (induction outs arbitrary: vout bufs w)
  case Nil
  then show ?case by simp
next
  case (Cons out outs)
  let ?p = "(txid, word_of_nat vout)" and ?m = "to_value out"
  have "unat ?m \<le> length (walk_content w)" using Cons.prems(2) by simp
  from assign_output_total [OF Cons.prems(1) this] obtain sats w1 where
    step: "assign_output ?p ?m ?m [] w = Some (sats, w1)" by fastforce
  from assign_output_content [OF Cons.prems(1) step cut_closed_True walk_all_True] obtain rs where
    c: "walk_ok w1" "walk_content w1 = drop (unat ?m) (walk_content w)"
    "sats = concat (map sat_range_store rs)" by auto
  have "ub_state (bufs ! vout) = NeedSats" using Cons.prems(4,6) by simp
  then obtain b where b: "push_sat_ranges ix sats (bufs ! vout) = Some b"
    using push_sat_ranges_total [OF Cons.prems(3)] c(3) by fastforce
  have "assign_outputs ix txid (Suc vout) outs (bufs[vout := b])
      (w1\<lparr>w_traversed := w_traversed w1 + 1\<rparr>) \<noteq> None"
    by (rule Cons.IH) (use Cons.prems c in \<open>simp_all add: le_diff_conv2\<close>)
  then show ?case using step b Cons.prems(4,5) by (simp add: Let_def)
qed

lemma leftover_content:
  assumes "walk_ok w" "walk_all P w"
  shows "\<exists>ls. leftover_of w = concat (map sat_range_store ls) \<and> (\<forall>r \<in> set ls. walk_range r \<and> P r)
    \<and> concat (map sats_of ls) = walk_content w"
proof -
  define ps where "ps = (case w_pending w of Some r \<Rightarrow> [r] | None \<Rightarrow> [])"
  define qs where "qs = map sat_range_load (w_iter w)"
  have "map sat_range_store qs = w_iter w" "\<forall>r \<in> set qs. walk_range r \<and> P r"
    using assms stored_range_load by (auto simp: qs_def walk_ok_def walk_all_def map_idI)
  moreover have "\<forall>r \<in> set ps. walk_range r \<and> P r"
    using assms by (cases "w_pending w") (simp_all add: ps_def walk_ok_def walk_all_def)
  moreover have "leftover_of w = concat (map sat_range_store ps) @ concat (w_iter w)"
    "walk_content w = concat (map sats_of ps) @ concat (map sats_of qs)"
    by (simp_all add: ps_def qs_def leftover_of_def walk_content_def comp_def split: option.splits)
  ultimately show ?thesis by (intro exI [of _ "ps @ qs"]) auto
qed

lemma chunks_of_inputs:
  "concat (map (chunks_exact 11) (map (\<lambda>rs. concat (map sat_range_store rs)) rss))
   = map sat_range_store (concat rss)"
  by (induction rss) (simp_all add: sr.chunks_store)

lemma sats_of_stored:
  "\<forall>r \<in> set rs. walk_range r \<Longrightarrow>
   concat (map (\<lambda>c. sats_of (sat_range_load c)) (map sat_range_store rs)) = concat (map sats_of rs)"
  by (induction rs) (simp_all add: sat_range_load_store walk_range_def)

lemma start_walk:
  fixes w0 :: sat_walk
  assumes "\<forall>rs \<in> set rss. \<forall>r \<in> set rs. walk_range r"
  defines "w \<equiv> w0\<lparr>w_pending := None,
      w_iter := concat (map (chunks_exact 11) (map (\<lambda>rs. concat (map sat_range_store rs)) rss))\<rparr>"
  shows "walk_ok w" "walk_content w = concat (map sats_of (concat rss))"
proof -
  have "\<forall>r \<in> set (concat rss). walk_range r" using assms(1) by auto
  from sats_of_stored [OF this] show "walk_content w = concat (map sats_of (concat rss))"
    unfolding w_def walk_content_def chunks_of_inputs by (simp del: map_concat map_map)
  show "walk_ok w"
    unfolding w_def walk_ok_def chunks_of_inputs using assms(1) by (auto simp: stored_range_def)
qed

section \<open>Rare sats\<close>

text \<open>A range of a single block: nonempty, and only its first sat may be other than common.\<close>

definition rare_range :: "sat_range \<Rightarrow> bool" where
  "rare_range r = (fst r < snd r \<and> (\<forall>s. fst r < s \<and> s < snd r \<longrightarrow> common s))"

definition walk_rare :: "sat_walk \<Rightarrow> bool" where
  "walk_rare w = (pred_option rare_range (w_pending w)
     \<and> (\<forall>c \<in> set (w_iter w). rare_range (sat_range_load c)))"

lemma next_range_rare:
  "walk_rare w \<Longrightarrow> next_range w = Some (r, w1) \<Longrightarrow>
   rare_range r \<and> walk_rare w1 \<and> w_satpoints w1 = w_satpoints w"
  by (cases "w_pending w"; cases "w_iter w") (auto simp: next_range_def walk_rare_def)

lemma cut_range_rare:
  assumes "rare_range r" "m < snd r - fst r" "fst r \<le> snd r" "0 < m"
  shows "rare_range (fst r + m, snd r)"
proof -
  have m: "unat m < unat (snd r) - unat (fst r)"
    using assms(2,3) by (simp add: word_less_nat_alt unat_sub)
  moreover have "unat (snd r) < 2 ^ 64" using unsigned_less [of "snd r", where 'a = nat] by simp
  ultimately have sum: "unat (fst r + m) = unat (fst r) + unat m" by (intro unat_add_small) simp
  have "fst r + m < snd r" "fst r < fst r + m"
    using m sum assms(4) by (simp_all add: word_less_nat_alt)
  with assms(1) show ?thesis by (auto simp: rare_range_def)
qed

lemma split_range_rare:
  assumes "rare_range r" "walk_rare w" "0 < m" "split_range m r w = (a, w')"
  shows "walk_rare w' \<and> w_satpoints w' = w_satpoints w"
proof (cases "snd r - fst r > m")
  case False
  with assms show ?thesis by (auto simp: split_range_def)
next
  case True
  have "fst r \<le> snd r" using assms(1) by (auto simp: rare_range_def)
  from cut_range_rare [OF assms(1) True this assms(3)] True assms(2,4) show ?thesis
    by (auto simp: split_range_def Let_def walk_rare_def)
qed

text \<open>The database after an output: the rare sats handed out point at their place in it, and
  nothing else has changed, not even at a common sat handed out.\<close>

lemma assign_output_rare:
  assumes "walk_ok w" "walk_rare w" "distinct (walk_content w)"
    "assign_output p v m acc w = Some (sats, w')"
  shows "walk_rare w' \<and> distinct (walk_content w')
    \<and> (\<forall>k s. k < unat m \<and> unat s = walk_content w ! k \<and> \<not> common s
        \<longrightarrow> w_satpoints w' s = Some (p, v - m + word_of_nat k))
    \<and> (\<forall>s. common s \<or> unat s \<notin> set (take (unat m) (walk_content w)) \<longrightarrow> w_satpoints w' s = w_satpoints w s)"
  using assms
proof (induction p v m acc w rule: assign_output.induct)
  case (1 p v m acc w)
  show ?case
  proof (cases "m > 0")
    case False
    then have "m = 0" by (simp add: word_gt_0)
    with "1.prems" show ?thesis by (auto simp: assign_output.simps [of p v 0])
  next
    case True
    with "1.prems"(4) obtain r w1 where n: "next_range w = Some (r, w1)"
      by (auto simp: assign_output.simps [of p v m] split: option.splits)
    obtain a w3 where sp: "split_range m r (note_rare p (v - m) r w1) = (a, w3)" by (rule prod.exhaust)
    let ?w4 = "w3\<lparr>w_written := w_written w3 + 1\<rparr>"
    have rec: "assign_output p v (m - (snd a - fst a)) (acc @ sat_range_store a) ?w4 = Some (sats, w')"
      using "1.prems"(4) True n sp by (simp add: assign_output.simps [of p v m] Let_def)
    from next_range_content [OF "1.prems"(1) n]
    have c: "walk_range r" "walk_content w = sats_of r @ walk_content w1" "walk_ok w1" "w_pending w1 = None"
      by simp_all
    have s: "walk_content w3 = drop (unat m) (sats_of r) @ walk_content w1" "walk_ok w3"
      "unat (snd a - fst a) = min (unat m) (length (sats_of r))"
      using split_range_content [OF c(1) _ _ sp] c(3,4) by simp_all
    from next_range_rare [OF "1.prems"(2) n]
    have rare: "rare_range r" "walk_rare w1" "w_satpoints w1 = w_satpoints w" by simp_all
    have "walk_rare (note_rare p (v - m) r w1)" using rare(2) by (simp add: note_rare_def walk_rare_def)
    from split_range_rare [OF rare(1) this True sp]
    have r3: "walk_rare ?w4" "w_satpoints w3 = w_satpoints (note_rare p (v - m) r w1)"
      by (simp_all add: walk_rare_def)
    let ?l = "length (sats_of r)" and ?c = "snd a - fst a"
    have "?c \<le> m" using s(3) by (simp add: word_le_nat_alt)
    then have left: "unat (m - ?c) = unat m - ?l" by (simp add: unat_sub s(3))
    have l: "0 < ?l" using rare(1) by (simp add: rare_range_def sats_of_def word_less_nat_alt)
    then have head: "sats_of r ! 0 = unat (fst r)" "unat (fst r) \<in> set (sats_of r)"
      by (auto simp: sats_of_def)
    have d3: "distinct (walk_content ?w4)" using "1.prems"(3) by (auto simp: s(1) c(2) dest: in_set_dropD)
    have "walk_ok ?w4" using s(2) by simp
    from "1.IH" [OF True n refl refl sp [symmetric] refl this r3(1) d3 rec]
    have ih: "walk_rare w'" "distinct (walk_content w')"
      "\<And>k s. k < unat m - ?l \<Longrightarrow> unat s = walk_content w3 ! k \<Longrightarrow> \<not> common s
        \<Longrightarrow> w_satpoints w' s = Some (p, v - (m - ?c) + word_of_nat k)"
      "\<And>s. common s \<or> unat s \<notin> set (take (unat m - ?l) (walk_content w3)) \<Longrightarrow> w_satpoints w' s = w_satpoints w3 s"
      by (simp_all add: left) blast
    have part: "take (unat m - ?l) (walk_content w3) = take (unat m - ?l) (walk_content w1)"
      by (cases "unat m \<le> ?l") (simp_all add: s(1))
    have found: "w_satpoints w' s = Some (p, v - m + word_of_nat k)"
      if k: "k < unat m" "unat s = walk_content w ! k" "\<not> common s" for k s
    proof (cases "k < ?l")
      case True
      then have s_in: "unat s = unat (fst r) + k" "unat s < unat (snd r)"
        using k(2) by (simp_all add: c(2) nth_append sats_of_def)
      have "k = 0"
      proof (rule ccontr)
        assume "k \<noteq> 0"
        then have "fst r < s" "s < snd r" using s_in by (simp_all add: word_less_nat_alt)
        with rare(1) k(3) show False by (simp add: rare_range_def)
      qed
      with s_in have s_eq: "s = fst r" by (simp add: word_unat_eq_iff)
      have "unat s \<notin> set (take (unat m - ?l) (walk_content w3))"
        using "1.prems"(3) head(2) by (auto simp: part c(2) s_eq dest: in_set_takeD)
      then have "w_satpoints w' s = w_satpoints w3 s" by (intro ih(4) disjI2)
      with k(3) show ?thesis by (simp add: r3(2) note_rare_def s_eq \<open>k = 0\<close>)
    next
      case False
      then have "k - ?l < unat m - ?l" "unat s = walk_content w3 ! (k - ?l)"
        using k(1,2) by (simp_all add: s(1) c(2) nth_append)
      from ih(3) [OF this k(3)]
      have "w_satpoints w' s = Some (p, v - (m - ?c) + word_of_nat (k - ?l))" .
      moreover have "?c = word_of_nat ?l"
      proof -
        have "unat ?c = ?l" using False k(1) by (simp add: s(3))
        then show ?thesis by (metis of_nat_unat ucast_id)
      qed
      then have "v - (m - ?c) + word_of_nat (k - ?l) = v - m + word_of_nat k"
        using False by (simp add: of_nat_diff)
      ultimately show ?thesis by simp
    qed
    have same: "w_satpoints w' s = w_satpoints w s"
      if s: "common s \<or> unat s \<notin> set (take (unat m) (walk_content w))" for s
    proof (cases "common s")
      case True
      then show ?thesis using ih(4) [of s] by (auto simp: r3(2) note_rare_def rare(3))
    next
      case False
      with s have that: "unat s \<notin> set (take (unat m) (walk_content w))" by simp
      have "unat (fst r) \<in> set (take (unat m) (sats_of r))"
        using \<open>0 < m\<close> l by (cases "unat m") (auto simp: sats_of_def upt_conv_Cons word_less_nat_alt)
      then have "s \<noteq> fst r" using that by (auto simp: c(2))
      moreover have "unat s \<notin> set (take (unat m - ?l) (walk_content w3))"
        using that by (simp add: part c(2))
      ultimately show ?thesis using ih(4) by (simp add: r3(2) note_rare_def rare(3))
    qed
    show ?thesis using ih(1,2) found same by blast
  qed
qed

lemma assign_outputs_rare:
  assumes "assign_outputs ix txid vout outs bufs w = Some (bufs', w')" "walk_ok w" "walk_rare w"
    "distinct (walk_content w)"
  shows "(\<forall>i k s. i < length outs \<and> k < out_values outs ! i
        \<and> unat s = cuts (out_values outs) (walk_content w) ! i ! k \<and> \<not> common s
        \<longrightarrow> w_satpoints w' s = Some ((txid, word_of_nat (vout + i)), word_of_nat k))
    \<and> (\<forall>s. common s \<or> unat s \<notin> set (take (sum_list (out_values outs)) (walk_content w))
        \<longrightarrow> w_satpoints w' s = w_satpoints w s)"
  using assms
proof (induction outs arbitrary: vout bufs w)
  case Nil
  then show ?case by simp
next
  case (Cons out outs)
  let ?v = "to_value out" and ?S = "walk_content w"
  let ?n = "unat ?v"
  from Cons.prems(1) obtain sats w1 b where
    step: "assign_output (txid, word_of_nat vout) ?v ?v [] w = Some (sats, w1)"
    and rest: "assign_outputs ix txid (Suc vout) outs (bufs[vout := b])
      (w1\<lparr>w_traversed := w_traversed w1 + 1\<rparr>) = Some (bufs', w')"
    by (auto simp: bind_eq_Some_conv assert_that_eq Let_def)
  let ?w2 = "w1\<lparr>w_traversed := w_traversed w1 + 1\<rparr>"
  from assign_output_content [OF Cons.prems(2) step cut_closed_True walk_all_True]
  have c: "walk_ok ?w2" "walk_content ?w2 = drop ?n ?S" "?n \<le> length ?S" by auto
  from assign_output_rare [OF Cons.prems(2-4) step]
  have r: "walk_rare ?w2" "distinct (walk_content ?w2)"
    "\<And>k s. k < ?n \<Longrightarrow> unat s = ?S ! k \<Longrightarrow> \<not> common s
      \<Longrightarrow> w_satpoints w1 s = Some ((txid, word_of_nat vout), word_of_nat k)"
    "\<And>s. common s \<or> unat s \<notin> set (take ?n ?S) \<Longrightarrow> w_satpoints w1 s = w_satpoints w s"
    by (auto simp: walk_rare_def)
  let ?vs = "out_values outs"
  from Cons.IH [OF rest c(1) r(1,2)]
  have ih: "\<And>i k s. i < length outs \<Longrightarrow> k < ?vs ! i \<Longrightarrow> unat s = cuts ?vs (drop ?n ?S) ! i ! k
      \<Longrightarrow> \<not> common s \<Longrightarrow> w_satpoints w' s = Some ((txid, word_of_nat (Suc vout + i)), word_of_nat k)"
    "\<And>s. common s \<or> unat s \<notin> set (take (sum_list ?vs) (drop ?n ?S)) \<Longrightarrow> w_satpoints w' s = w_satpoints w1 s"
    unfolding c(2) by (simp_all del: of_nat_Suc) blast
  have here: "w_satpoints w' s = Some ((txid, word_of_nat vout), word_of_nat k)"
    if "k < ?n" "unat s = ?S ! k" "\<not> common s" for k s
  proof -
    have "unat s \<in> set (take ?n ?S)"
      using that(1,2) c(3) by (auto simp: in_set_conv_nth intro!: exI [of _ k])
    then have "unat s \<notin> set (take (sum_list ?vs) (drop ?n ?S))"
      using set_take_disj_set_drop_if_distinct [OF Cons.prems(4) le_refl, of ?n]
      by (auto dest: in_set_takeD)
    with ih(2) r(3) [OF that] show ?thesis by simp
  qed
  have found: "w_satpoints w' s = Some ((txid, word_of_nat (vout + i)), word_of_nat k)"
    if i: "i < length (out # outs)" "k < out_values (out # outs) ! i"
      "unat s = cuts (out_values (out # outs)) ?S ! i ! k" "\<not> common s" for i k s
  proof (cases i)
    case 0
    with i here show ?thesis by simp
  next
    case (Suc j)
    with i ih(1) [of j k s] show ?thesis by simp
  qed
  have "w_satpoints w' s = w_satpoints w s"
    if "common s \<or> unat s \<notin> set (take (sum_list (out_values (out # outs))) ?S)" for s
    using that ih(2) [of s] r(4) [of s] by (auto simp: take_add)
  with found show ?case by blast
qed

lemma index_transaction_sats_total:
  assumes ranges: "\<forall>rs \<in> set rss. \<forall>r \<in> set rs. walk_range r"
    and ix: "index_sats ix" and len: "length (tx_outputs tx) \<le> 2 ^ 32"
    and enough: "sum_list (out_values (tx_outputs tx)) \<le> length (concat (map sats_of (concat rss)))"
  obtains bufs w where "index_transaction_sats ix tx txid (map (\<lambda>_. buf_new) (tx_outputs tx))
        (map (\<lambda>rs. concat (map sat_range_store rs)) rss) fees w0
      = Some (bufs, fees @ leftover_of w, w\<lparr>w_pending := None, w_iter := []\<rparr>)"
    "assign_outputs ix txid 0 (tx_outputs tx) (map (\<lambda>_. buf_new) (tx_outputs tx))
      (w0\<lparr>w_pending := None,
        w_iter := concat (map (chunks_exact 11) (map (\<lambda>rs. concat (map sat_range_store rs)) rss))\<rparr>)
      = Some (bufs, w)"
proof -
  let ?w = "w0\<lparr>w_pending := None,
      w_iter := concat (map (chunks_exact 11) (map (\<lambda>rs. concat (map sat_range_store rs)) rss))\<rparr>"
  note start = start_walk [OF ranges, of w0]
  have "assign_outputs ix txid 0 (tx_outputs tx) (map (\<lambda>_. buf_new) (tx_outputs tx)) ?w \<noteq> None"
    using enough start len ix by (intro assign_outputs_total) (simp_all add: buf_new_def)
  then obtain bufs w where
    "assign_outputs ix txid 0 (tx_outputs tx) (map (\<lambda>_. buf_new) (tx_outputs tx)) ?w = Some (bufs, w)"
    by fastforce
  with that show ?thesis by (simp add: index_transaction_sats_def)
qed

text \<open>C22: the database of rare sats: after a transaction is indexed, every sat of its outputs that is
  not common points at its output and its offset there, and the database has changed nowhere else: common sats are
  never written, and the sats outside the outputs have not moved. The ranges of the inputs are ranges of single
  blocks, as the index stores them: nonempty, with no rare sat after the first of a range, and no sat twice.\<close>

theorem rare_sats_located:
  assumes ranges: "\<forall>rs \<in> set rss. \<forall>r \<in> set rs. walk_range r \<and> rare_range r"
    and dist: "distinct (concat (map sats_of (concat rss)))"
    and run: "index_transaction_sats ix tx txid bufs
      (map (\<lambda>rs. concat (map sat_range_store rs)) rss) fees w0 = Some (bufs', fees', w)"
  shows "(\<forall>i k s. i < length (tx_outputs tx) \<and> k < out_values (tx_outputs tx) ! i
      \<and> unat s = cuts (out_values (tx_outputs tx)) (concat (map sats_of (concat rss))) ! i ! k
      \<and> \<not> common s \<longrightarrow> w_satpoints w s = Some ((txid, word_of_nat i), word_of_nat k))
    \<and> (\<forall>s. common s \<or> unat s \<notin> set (take (sum_list (out_values (tx_outputs tx))) (concat (map sats_of (concat rss))))
      \<longrightarrow> w_satpoints w s = w_satpoints w0 s)"
proof -
  let ?w = "w0\<lparr>w_pending := None,
      w_iter := concat (map (chunks_exact 11) (map (\<lambda>rs. concat (map sat_range_store rs)) rss))\<rparr>"
  have "\<forall>rs \<in> set rss. \<forall>r \<in> set rs. walk_range r" using ranges by blast
  note start = start_walk [OF this, of w0]
  have rare: "walk_rare ?w"
    unfolding walk_rare_def chunks_of_inputs using ranges
    by (auto simp: sat_range_load_store walk_range_def)
  from run obtain w' where w': "assign_outputs ix txid 0 (tx_outputs tx) bufs ?w = Some (bufs', w')"
    "w = w'\<lparr>w_pending := None, w_iter := []\<rparr>"
    by (auto simp: index_transaction_sats_def bind_eq_Some_conv)
  have "distinct (walk_content ?w)" using dist by (simp only: start(2))
  note located = assign_outputs_rare [OF w'(1) start(1) rare this]
  have "w_satpoints w = w_satpoints w'" "w_satpoints ?w = w_satpoints w0" by (simp_all add: w'(2))
  with located show ?thesis by (simp only: start(2) add_0)
qed

text \<open>C3: a transaction whose outputs are worth no more than its inputs is indexed without a panic,
  and its outputs get the sats of its inputs first in first out: read in order, the outputs
  hold the first sats of the inputs, each output as many as its value, and the rest, in
  order, is appended to the fees.\<close>

theorem transaction_sats_fifo:
  assumes ranges: "\<forall>rs \<in> set rss. \<forall>r \<in> set rs. walk_range r"
    and ix: "index_sats ix" and len: "length (tx_outputs tx) \<le> 2 ^ 32"
    and enough: "sum_list (out_values (tx_outputs tx)) \<le> length (concat (map sats_of (concat rss)))"
  shows "\<exists>bufs w ls. index_transaction_sats ix tx txid (map (\<lambda>_. buf_new) (tx_outputs tx))
        (map (\<lambda>rs. concat (map sat_range_store rs)) rss) fees w0
      = Some (bufs, fees @ concat (map sat_range_store ls), w)
    \<and> concat (cuts (out_values (tx_outputs tx)) (concat (map sats_of (concat rss))))
        @ concat (map sats_of ls) = concat (map sats_of (concat rss))
    \<and> (\<forall>i < length (tx_outputs tx). filled_with ix
        (cuts (out_values (tx_outputs tx)) (concat (map sats_of (concat rss))) ! i) buf_new (bufs ! i))"
proof -
  let ?S = "concat (map sats_of (concat rss))" and ?outs = "tx_outputs tx"
  obtain bufs w where run: "index_transaction_sats ix tx txid (map (\<lambda>_. buf_new) ?outs)
        (map (\<lambda>rs. concat (map sat_range_store rs)) rss) fees w0
      = Some (bufs, fees @ leftover_of w, w\<lparr>w_pending := None, w_iter := []\<rparr>)"
    "assign_outputs ix txid 0 ?outs (map (\<lambda>_. buf_new) ?outs)
      (w0\<lparr>w_pending := None,
        w_iter := concat (map (chunks_exact 11) (map (\<lambda>rs. concat (map sat_range_store rs)) rss))\<rparr>)
      = Some (bufs, w)"
    using ranges ix len enough by (rule index_transaction_sats_total)
  from assign_outputs_content [OF run(2) start_walk(1) [OF ranges] cut_closed_True walk_all_True] start_walk(2) [OF ranges, of w0]
  have c: "walk_ok w" "walk_content w = drop (sum_list (out_values ?outs)) ?S"
    "\<forall>i < length ?outs. filled_with ix (cuts (out_values ?outs) ?S ! i) buf_new (bufs ! i)"
    by (auto simp: filled_by_True)
  obtain ls where "leftover_of w = concat (map sat_range_store ls)" "concat (map sats_of ls) = walk_content w"
    using leftover_content [OF c(1) walk_all_True] by blast
  with run(1) c show ?thesis by (auto simp: concat_cuts)
qed

text \<open>A transaction that splits ten sats in four, five and a fee of one.\<close>

definition sample_flags :: index_flags where
  "sample_flags = \<lparr>index_sats = True, index_addresses = True, feature_sats = True,
     debug_assertions = False\<rparr>"

definition sample_tx :: transaction where
  "sample_tx = \<lparr>tx_inputs = [], tx_outputs = [\<lparr>to_value = 4, to_script = []\<rparr>, \<lparr>to_value = 5, to_script = []\<rparr>]\<rparr>"

definition sample_walk :: sat_walk where
  "sample_walk = \<lparr>w_pending = None, w_iter = [], w_satpoints = Map.empty, w_since_flush = 0,
     w_written = 0, w_traversed = 0\<rparr>"

lemma sample_range: "walk_range (0, 10)" "sats_of (0, 10) = [0 ..< 10]"
  by (simp_all add: walk_range_def sat_range_ok_def sats_of_def)

theorem transaction_sats_fifo_witness:
  "\<exists>bufs w ls. index_transaction_sats sample_flags sample_tx [] (map (\<lambda>_. buf_new) (tx_outputs sample_tx))
        (map (\<lambda>rs. concat (map sat_range_store rs)) [[(0, 10)]]) [] sample_walk
      = Some (bufs, [] @ concat (map sat_range_store ls), w)
    \<and> concat (cuts [4, 5] [0 ..< 10]) @ concat (map sats_of ls) = [0 ..< 10]
    \<and> filled_with sample_flags (cuts [4, 5] [0 ..< 10] ! 0) buf_new (bufs ! 0)
    \<and> filled_with sample_flags (cuts [4, 5] [0 ..< 10] ! 1) buf_new (bufs ! 1)"
proof -
  have full: "\<exists>bufs w ls. index_transaction_sats sample_flags sample_tx [] (map (\<lambda>_. buf_new) (tx_outputs sample_tx))
        (map (\<lambda>rs. concat (map sat_range_store rs)) [[(0, 10)]]) [] sample_walk
      = Some (bufs, [] @ concat (map sat_range_store ls), w)
    \<and> concat (cuts (out_values (tx_outputs sample_tx)) (concat (map sats_of (concat [[(0, 10)]]))))
        @ concat (map sats_of ls) = concat (map sats_of (concat [[(0, 10)]]))
    \<and> (\<forall>i < length (tx_outputs sample_tx). filled_with sample_flags
        (cuts (out_values (tx_outputs sample_tx)) (concat (map sats_of (concat [[(0, 10)]]))) ! i)
        buf_new (bufs ! i))"
    by (rule transaction_sats_fifo)
      (simp_all add: sample_range sample_flags_def sample_tx_def)
  have v: "out_values (tx_outputs sample_tx) = [4, 5]" "length (tx_outputs sample_tx) = 2"
    by (simp_all add: sample_tx_def)
  have c: "concat (map sats_of (concat [[(0, 10)]])) = [0 ..< 10]"
    by (simp add: sample_range)
  from full [unfolded v c] obtain bufs w ls where
    1: "index_transaction_sats sample_flags sample_tx [] (map (\<lambda>_. buf_new) (tx_outputs sample_tx))
        (map (\<lambda>rs. concat (map sat_range_store rs)) [[(0, 10)]]) [] sample_walk
      = Some (bufs, [] @ concat (map sat_range_store ls), w)"
    and 2: "concat (cuts [4, 5] [0 ..< 10]) @ concat (map sats_of ls) = [0 ..< 10]"
    and 3: "\<forall>i < 2. filled_with sample_flags (cuts [4, 5] [0 ..< 10] ! i) buf_new (bufs ! i)"
    by blast
  have "filled_with sample_flags (cuts [4, 5] [0 ..< 10] ! 0) buf_new (bufs ! 0)"
    "filled_with sample_flags (cuts [4, 5] [0 ..< 10] ! 1) buf_new (bufs ! 1)"
    using 3 [rule_format, of 0] 3 [rule_format, of 1] by simp_all
  with 1 2 show ?thesis by blast
qed

lemma sample_rare: "rare_range (0, 10)"
proof -
  have "common s" if "0 < s" "s < 10" for s :: u64
  proof -
    have u: "0 < unat s" "unat s < 10" using that by (simp_all add: word_less_nat_alt)
    have "unat (epoch_subsidy 9) = 9765625" using epoch_subsidy_nat [of 9] by simp
    moreover have "\<not> 9765625 dvd unat s" using u by (auto dest: dvd_imp_le)
    ultimately have "\<not> is_multiple_of s (epoch_subsidy 9)" by (simp add: is_multiple_of_dvd)
    moreover have "unat (epoch_starting_sat 10) = first_sat 10"
      using epoch_starting_sat_nat [of 10] by simp
    then have "s < epoch_starting_sat 10" using u by (simp add: word_less_nat_alt STARTING_SATS_def)
    ultimately show ?thesis by (simp add: common_def)
  qed
  then show ?thesis by (simp add: rare_range_def)
qed

theorem rare_sats_located_witness:
  "\<exists>bufs' fees' w. index_transaction_sats sample_flags sample_tx [] (map (\<lambda>_. buf_new) (tx_outputs sample_tx))
      (map (\<lambda>rs. concat (map sat_range_store rs)) [[(0, 10)]]) [] sample_walk = Some (bufs', fees', w)
    \<and> w_satpoints w 0 = Some (([], 0), 0)"
proof -
  obtain bufs w where run: "index_transaction_sats sample_flags sample_tx [] (map (\<lambda>_. buf_new) (tx_outputs sample_tx))
      (map (\<lambda>rs. concat (map sat_range_store rs)) [[(0, 10)]]) [] sample_walk
      = Some (bufs, [] @ leftover_of w, w\<lparr>w_pending := None, w_iter := []\<rparr>)"
    by (rule index_transaction_sats_total [where rss = "[[(0, 10)]]" and ix = sample_flags
          and tx = sample_tx and txid = "[]" and fees = "[]" and ?w0.0 = sample_walk])
      (simp_all add: sample_range sample_flags_def sample_tx_def)
  have "\<forall>rs \<in> set [[(0, 10)]]. \<forall>r \<in> set rs. walk_range r \<and> rare_range r"
    "distinct (concat (map sats_of (concat [[(0, 10)]])))"
    by (simp_all add: sample_range sample_rare)
  note located = rare_sats_located [OF this run]
  have v: "out_values (tx_outputs sample_tx) = [4, 5]" "length (tx_outputs sample_tx) = 2"
    by (simp_all add: sample_tx_def)
  have c: "concat (map sats_of (concat [[(0, 10)]])) = [0 ..< 10]"
    by (simp add: sample_range)
  have first: "cuts [4, 5] [0 ..< 10] ! 0 ! 0 = 0" by (simp add: upt_conv_Cons)
  have "0 < epoch_starting_sat 10"
    using epoch_starting_sat_nat [of 10] by (simp add: word_less_nat_alt STARTING_SATS_def)
  moreover have "epoch_of_sat 0 = 0" using epoch_of_sat_unique [of 0 0] by simp
  moreover have "epoch_starting_sat 0 = 0"
    using epoch_starting_sat_nat [of 0] by (simp add: unat_eq_zero)
  ultimately have "\<not> common 0" by (simp add: common_def is_multiple_of_dvd Let_def)
  with first have "w_satpoints (w\<lparr>w_pending := None, w_iter := []\<rparr>) 0 =
      Some (([], word_of_nat 0), word_of_nat 0)"
    by (intro located [unfolded v c, THEN conjunct1, rule_format, of 0 0 0]) simp
  with run show ?thesis by auto
qed

end
