(* ===== verification/BlockIndex.thy ===== *)
theory BlockIndex
  imports SatIndex "HOL-Library.Multiset"
begin

text \<open>
  Indexing a block and committing the cache (\<open>src/index/updater.rs\<close>): the outputs asked
  from the node, the entries of the inputs taken from the cache, the database or the node, the
  fees of the block collected in the coinbase's inputs, the outputs put in the cache, the
  sats a coinbase leaves lost, the statistics, and the flush of the cache in a commit. Writes to
  LMDB are updates of maps (its own failures are not modelled); the order in which a commit
  walks the hash map of the cache is a parameter, and the lemmas hold for every order.
\<close>

section \<open>State\<close>

datatype index_error = Panic | RecvFailed outpoint

datatype statistic = LostSats | OutputsTraversed | SatRangesStat | Commits | OtherStat u64

record index_db =
  db_utxo :: "outpoint \<rightharpoonup> bytes"
  db_script :: "(bytes \<times> outpoint) set"
  db_satpoints :: "u64 \<rightharpoonup> satpoint"
  db_stats :: "statistic \<rightharpoonup> u64"
  db_headers :: "u32 \<rightharpoonup> bytes"

record updater =
  up_height :: u32
  up_outputs_cached :: u64
  up_outputs_traversed :: u64
  up_sat_ranges_since_flush :: u64

text \<open>\<open>ix_full\<close> is \<open>have_full_utxo_index\<close>: the index started at the genesis block.\<close>

record index_config =
  ix_flags :: index_flags
  ix_full :: bool

record block_data =
  bd_header :: bytes
  bd_txdata :: "(transaction \<times> txid) list"

record block_state =
  bs_up :: updater
  bs_db :: index_db
  bs_cache :: "outpoint \<rightharpoonup> utxo_entry_buf"
  bs_sent :: "outpoint list"
  bs_recv :: "txout list"
  bs_coinbase :: bytes
  bs_lost :: bytes
  bs_written :: u64
  bs_outputs :: u64

definition stat_of :: "index_db \<Rightarrow> statistic \<Rightarrow> u64" where
  "stat_of db k = (case db_stats db k of Some n \<Rightarrow> n | None \<Rightarrow> 0)"

definition set_statistic :: "statistic \<Rightarrow> u64 \<Rightarrow> index_db \<Rightarrow> index_db" where
  "set_statistic k n db = db\<lparr>db_stats := (db_stats db)(k \<mapsto> n)\<rparr>"

definition increment_statistic :: "statistic \<Rightarrow> u64 \<Rightarrow> index_db \<Rightarrow> index_db" where
  "increment_statistic k n db = set_statistic k (stat_of db k + n) db"

section \<open>Outputs asked from the node\<close>

definition wanted_outpoint :: "txid list \<Rightarrow> block_state \<Rightarrow> outpoint \<Rightarrow> bool" where
  "wanted_outpoint txids bs p =
     (p \<noteq> null_outpoint \<and> fst p \<notin> set txids \<and> bs_cache bs p = None \<and> db_utxo (bs_db bs) p = None)"

definition send_outpoints :: "index_config \<Rightarrow> block_data \<Rightarrow> block_state \<Rightarrow> block_state" where
  "send_outpoints cfg block bs =
     (if ix_full cfg then bs
      else bs\<lparr>bs_sent := bs_sent bs @
        filter (wanted_outpoint (map snd (bd_txdata block)) bs)
          (concat (map (\<lambda>(tx, _). tx_inputs tx) (bd_txdata block)))\<rparr>)"

section \<open>The entries of the inputs\<close>

definition take_from_db ::
  "index_config \<Rightarrow> outpoint \<Rightarrow> bytes \<Rightarrow> block_state
     \<Rightarrow> (index_error, utxo_entry_buf \<times> block_state) result" where
  "take_from_db cfg p entry bs =
     (let db = bs_db bs in
      and_then
        (if index_addresses (ix_flags cfg) then
           and_then (ok_or (Option.bind (entry_parse (ix_flags cfg) entry) pe_script) Panic) (\<lambda>script.
             if (script, p) \<in> db_script db
             then Ok (db\<lparr>db_script := db_script db - {(script, p)}\<rparr>)
             else Err Panic)
         else Ok db)
        (\<lambda>db'. Ok (\<lparr>ub_vec = entry, ub_state = Valid\<rparr>,
                   bs\<lparr>bs_db := db'\<lparr>db_utxo := (db_utxo db')(p := None)\<rparr>\<rparr>)))"

definition take_from_node ::
  "index_config \<Rightarrow> outpoint \<Rightarrow> block_state \<Rightarrow> (index_error, utxo_entry_buf \<times> block_state) result" where
  "take_from_node cfg p bs =
     (if ix_full cfg then Err Panic
      else case bs_recv bs of
        [] \<Rightarrow> Err (RecvFailed p)
      | out # outs \<Rightarrow>
          and_then (ok_or (Option.bind (push_value (ix_flags cfg) (to_value out) buf_new)
                      (push_script_if (ix_flags cfg) (to_script out))) Panic)
            (\<lambda>entry. Ok (entry, bs\<lparr>bs_recv := outs\<rparr>)))"

definition take_input ::
  "index_config \<Rightarrow> outpoint \<Rightarrow> block_state \<Rightarrow> (index_error, utxo_entry_buf \<times> block_state) result" where
  "take_input cfg p bs =
     (case bs_cache bs p of
        Some entry \<Rightarrow>
          Ok (entry, bs\<lparr>bs_cache := (bs_cache bs)(p := None),
            bs_up := (bs_up bs)\<lparr>up_outputs_cached := up_outputs_cached (bs_up bs) + 1\<rparr>\<rparr>)
      | None \<Rightarrow>
          (case db_utxo (bs_db bs) p of
             Some entry \<Rightarrow> take_from_db cfg p entry bs
           | None \<Rightarrow> take_from_node cfg p bs))"

fun take_inputs ::
  "index_config \<Rightarrow> outpoint list \<Rightarrow> block_state
     \<Rightarrow> (index_error, utxo_entry_buf list \<times> block_state) result" where
  "take_inputs cfg [] bs = Ok ([], bs)"
| "take_inputs cfg (p # ps) bs =
     and_then (take_input cfg p bs) (\<lambda>(e, bs1).
     and_then (take_inputs cfg ps bs1) (\<lambda>(es, bs2). Ok (e # es, bs2)))"

text \<open>Reading an entry goes through \<open>as_ref\<close> and \<open>parse\<close>.\<close>

definition parse_entries :: "index_flags \<Rightarrow> utxo_entry_buf list \<Rightarrow> parsed_utxo_entry list option" where
  "parse_entries ix es = those (map (\<lambda>e. Option.bind (buf_as_ref ix e) (entry_parse ix)) es)"

section \<open>One transaction\<close>

fun push_values :: "index_flags \<Rightarrow> txout list \<Rightarrow> utxo_entry_buf list \<Rightarrow> utxo_entry_buf list option" where
  "push_values ix (out # outs) (b # bs) =
     Option.bind (push_value ix (to_value out) b) (\<lambda>b'.
     Option.bind (push_values ix outs bs) (\<lambda>bs'. Some (b' # bs')))"
| "push_values ix outs bs = (if outs = [] then Some bs else None)"

fun push_scripts :: "index_flags \<Rightarrow> txout list \<Rightarrow> utxo_entry_buf list \<Rightarrow> utxo_entry_buf list option" where
  "push_scripts ix (out # outs) (b # bs) =
     Option.bind (push_script_pubkey ix (to_script out) b) (\<lambda>b'.
     Option.bind (push_scripts ix outs bs) (\<lambda>bs'. Some (b' # bs')))"
| "push_scripts ix outs bs = (if outs = [] then Some bs else None)"

definition walk_of :: "block_state \<Rightarrow> sat_walk" where
  "walk_of bs = \<lparr>w_pending = None, w_iter = [], w_satpoints = db_satpoints (bs_db bs),
     w_since_flush = up_sat_ranges_since_flush (bs_up bs), w_written = bs_written bs,
     w_traversed = bs_outputs bs\<rparr>"

definition put_walk :: "sat_walk \<Rightarrow> block_state \<Rightarrow> block_state" where
  "put_walk w bs = bs\<lparr>bs_db := (bs_db bs)\<lparr>db_satpoints := w_satpoints w\<rparr>,
     bs_up := (bs_up bs)\<lparr>up_sat_ranges_since_flush := w_since_flush w\<rparr>,
     bs_written := w_written w, bs_outputs := w_traversed w\<rparr>"

definition fill_outputs ::
  "index_flags \<Rightarrow> bool \<Rightarrow> transaction \<Rightarrow> txid \<Rightarrow> parsed_utxo_entry list \<Rightarrow> utxo_entry_buf list
     \<Rightarrow> block_state \<Rightarrow> (utxo_entry_buf list \<times> block_state) option" where
  "fill_outputs ix coinbase tx txid inputs bufs bs =
     (if feature_sats ix \<and> index_sats ix then
        if coinbase then
          Option.bind (index_transaction_sats ix tx txid bufs [bs_coinbase bs] (bs_lost bs) (walk_of bs))
            (\<lambda>(bufs', lost, w). Some (bufs', (put_walk w bs)\<lparr>bs_lost := lost\<rparr>))
        else
          Option.bind (those (map entry_sat_ranges inputs)) (\<lambda>ranges.
          Option.bind (index_transaction_sats ix tx txid bufs ranges (bs_coinbase bs) (walk_of bs))
            (\<lambda>(bufs', fees, w). Some (bufs', (put_walk w bs)\<lparr>bs_coinbase := fees\<rparr>)))
      else Option.bind (push_values ix (tx_outputs tx) bufs) (\<lambda>bufs'. Some (bufs', bs)))"

fun cache_outputs ::
  "txid \<Rightarrow> nat \<Rightarrow> utxo_entry_buf list \<Rightarrow> (outpoint \<rightharpoonup> utxo_entry_buf)
     \<Rightarrow> (outpoint \<rightharpoonup> utxo_entry_buf) option" where
  "cache_outputs txid vout [] m = Some m"
| "cache_outputs txid vout (b # bs) m =
     Option.bind (assert_that (vout < 2 ^ 32)) (\<lambda>_.
     cache_outputs txid (Suc vout) bs (m((txid, word_of_nat vout) \<mapsto> b)))"

definition index_transaction ::
  "index_config \<Rightarrow> bool \<Rightarrow> transaction \<Rightarrow> txid \<Rightarrow> block_state \<Rightarrow> (index_error, block_state) result" where
  "index_transaction cfg coinbase tx txid bs =
     (let ix = ix_flags cfg in
      and_then (if coinbase then Ok ([], bs) else take_inputs cfg (tx_inputs tx) bs) (\<lambda>(entries, bs1).
      and_then (ok_or (if feature_sats ix then parse_entries ix entries else Some []) Panic) (\<lambda>inputs.
      and_then (ok_or (fill_outputs ix coinbase tx txid inputs (map (\<lambda>_. buf_new) (tx_outputs tx)) bs1) Panic)
        (\<lambda>(bufs, bs2).
      and_then (ok_or (if index_addresses ix then push_scripts ix (tx_outputs tx) bufs else Some bufs) Panic)
        (\<lambda>bufs'.
      and_then (ok_or (cache_outputs txid 0 bufs' (bs_cache bs2)) Panic) (\<lambda>cache.
      Ok (bs2\<lparr>bs_cache := cache\<rparr>)))))))"

fun index_transactions ::
  "index_config \<Rightarrow> (bool \<times> transaction \<times> txid) list \<Rightarrow> block_state \<Rightarrow> (index_error, block_state) result" where
  "index_transactions cfg [] bs = Ok bs"
| "index_transactions cfg ((coinbase, tx, txid) # txs) bs =
     and_then (index_transaction cfg coinbase tx txid bs) (index_transactions cfg txs)"

section \<open>One block\<close>

definition coinbase_reward :: "index_config \<Rightarrow> block_state \<Rightarrow> block_state" where
  "coinbase_reward cfg bs =
     (let h = up_height (bs_up bs) in
      if feature_sats (ix_flags cfg) \<and> index_sats (ix_flags cfg) \<and> height_subsidy h > 0 then
        let start = height_starting_sat h in
        bs\<lparr>bs_coinbase := sat_range_store (start, start + height_subsidy h),
           bs_up := (bs_up bs)\<lparr>up_sat_ranges_since_flush := up_sat_ranges_since_flush (bs_up bs) + 1\<rparr>\<rparr>
      else bs)"

fun note_lost :: "bytes list \<Rightarrow> u64 \<Rightarrow> index_db \<Rightarrow> u64 \<times> index_db" where
  "note_lost [] lost_sats db = (lost_sats, db)"
| "note_lost (chunk # chunks) lost_sats db =
     (let r = sat_range_load chunk;
          db' = (if common (fst r) then db
                 else db\<lparr>db_satpoints := (db_satpoints db)(fst r \<mapsto> (null_outpoint, lost_sats))\<rparr>)
      in note_lost chunks (lost_sats + (snd r - fst r)) db')"

definition merge_lost :: "index_flags \<Rightarrow> bytes \<Rightarrow> (outpoint \<rightharpoonup> utxo_entry_buf)
     \<Rightarrow> (outpoint \<rightharpoonup> utxo_entry_buf) option" where
  "merge_lost ix lost cache =
     Option.bind (case cache null_outpoint of Some e \<Rightarrow> Some e | None \<Rightarrow> buf_empty ix) (\<lambda>old.
     Option.bind (Option.bind (push_sat_ranges ix lost buf_new) (push_script_if ix [])) (\<lambda>new.
     Option.bind (buf_as_ref ix old) (\<lambda>old_bytes.
     Option.bind (buf_as_ref ix new) (\<lambda>new_bytes.
     Option.bind (buf_merged ix old_bytes new_bytes) (\<lambda>merged.
     Some (cache(null_outpoint \<mapsto> merged)))))))"

definition lose_sats :: "index_config \<Rightarrow> block_state \<Rightarrow> (index_error, block_state) result" where
  "lose_sats cfg bs =
     (let ix = ix_flags cfg; lost_sats = stat_of (bs_db bs) LostSats in
      if \<not> feature_sats ix then Ok bs
      else
        and_then
          (if bs_lost bs = [] then Ok (lost_sats, bs)
           else
             let (lost_sats', db') = note_lost (chunks_exact 11 (bs_lost bs)) lost_sats (bs_db bs) in
             and_then (ok_or (merge_lost ix (bs_lost bs) (bs_cache bs)) Panic) (\<lambda>cache.
             Ok (lost_sats', bs\<lparr>bs_db := db', bs_cache := cache\<rparr>)))
          (\<lambda>(lost_sats', bs'). Ok
             (if index_sats ix then bs'\<lparr>bs_db := set_statistic LostSats lost_sats' (bs_db bs')\<rparr>
              else bs')))"

text \<open>Every transaction but the coinbase, then the coinbase, which gets the fees.\<close>

definition transaction_order :: "(transaction \<times> txid) list \<Rightarrow> (bool \<times> transaction \<times> txid) list" where
  "transaction_order txs =
     map (\<lambda>(tx, txid). (False, tx, txid)) (drop 1 txs) @ map (\<lambda>(tx, txid). (True, tx, txid)) (take 1 txs)"

definition index_utxo_entries ::
  "index_config \<Rightarrow> block_data \<Rightarrow> block_state \<Rightarrow> (index_error, block_state) result" where
  "index_utxo_entries cfg block bs =
     (let bs1 = coinbase_reward cfg ((send_outpoints cfg block bs)\<lparr>bs_coinbase := [], bs_lost := []\<rparr>) in
      and_then (index_transactions cfg (transaction_order (bd_txdata block)) bs1) (lose_sats cfg))"

definition index_block ::
  "index_config \<Rightarrow> (index_error, unit) result \<Rightarrow> block_data \<Rightarrow> block_state
     \<Rightarrow> (index_error, block_state) result" where
  "index_block cfg reorg block bs =
     and_then reorg (\<lambda>_.
     let bs0 = bs\<lparr>bs_written := 0, bs_outputs := 0\<rparr>; ix = ix_flags cfg in
     and_then (if index_addresses ix \<or> index_sats ix then index_utxo_entries cfg block bs0 else Ok bs0)
       (\<lambda>bs1.
     let up = bs_up bs1; db = bs_db bs1 in
     Ok (bs1\<lparr>bs_db := db\<lparr>db_headers := (db_headers db)(up_height up \<mapsto> bd_header block)\<rparr>,
             bs_up := up\<lparr>up_height := up_height up + 1,
                        up_outputs_traversed := up_outputs_traversed up + bs_outputs bs1\<rparr>\<rparr>)))"

section \<open>Commit\<close>

definition flush_entry ::
  "index_flags \<Rightarrow> outpoint \<times> utxo_entry_buf \<Rightarrow> index_db \<Rightarrow> (index_error, index_db) result" where
  "flush_entry ix entry db =
     (let (p, e) = entry in
      and_then
        (case (if is_special_outpoint p then db_utxo db p else None) of
           Some old \<Rightarrow>
             and_then (ok_or (buf_as_ref ix e) Panic) (\<lambda>new. ok_or (buf_merged ix old new) Panic)
         | None \<Rightarrow> Ok e)
        (\<lambda>e'.
         let db1 = db\<lparr>db_utxo := (db_utxo db)(p \<mapsto> ub_vec e')\<rparr> in
         and_then (ok_or (Option.bind (buf_as_ref ix e') (entry_parse ix)) Panic) (\<lambda>parsed.
         if index_addresses ix then
           and_then (ok_or (pe_script parsed) Panic) (\<lambda>script.
           Ok (db1\<lparr>db_script := insert (script, p) (db_script db1)\<rparr>))
         else Ok db1)))"

fun flush_cache ::
  "index_flags \<Rightarrow> (outpoint \<times> utxo_entry_buf) list \<Rightarrow> index_db \<Rightarrow> (index_error, index_db) result" where
  "flush_cache ix [] db = Ok db"
| "flush_cache ix (e # es) db = and_then (flush_entry ix e db) (flush_cache ix es)"

definition commit ::
  "index_config \<Rightarrow> (outpoint \<times> utxo_entry_buf) list \<Rightarrow> updater \<Rightarrow> index_db
     \<Rightarrow> (index_error, updater \<times> index_db) result" where
  "commit cfg cache up db =
     and_then (flush_cache (ix_flags cfg) cache db) (\<lambda>db1.
     let db2 = increment_statistic OutputsTraversed (up_outputs_traversed up) db1;
         db3 = increment_statistic SatRangesStat (up_sat_ranges_since_flush up) db2;
         db4 = increment_statistic Commits 1 db3
     in Ok (up\<lparr>up_outputs_traversed := 0, up_sat_ranges_since_flush := 0\<rparr>, db4))"

section \<open>A commit does not depend on the order of the cache\<close>

text \<open>What an entry writes depends on the database at its own outpoint only.\<close>

definition entry_write ::
  "index_flags \<Rightarrow> bytes option \<Rightarrow> utxo_entry_buf \<Rightarrow> (index_error, bytes \<times> bytes set) result" where
  "entry_write ix old e =
     and_then
       (case old of
          Some old \<Rightarrow> and_then (ok_or (buf_as_ref ix e) Panic) (\<lambda>new. ok_or (buf_merged ix old new) Panic)
        | None \<Rightarrow> Ok e)
       (\<lambda>e'. and_then (ok_or (Option.bind (buf_as_ref ix e') (entry_parse ix)) Panic) (\<lambda>parsed.
        if index_addresses ix then
          and_then (ok_or (pe_script parsed) Panic) (\<lambda>script. Ok (ub_vec e', {script}))
        else Ok (ub_vec e', {})))"

definition special_old :: "outpoint \<Rightarrow> index_db \<Rightarrow> bytes option" where
  "special_old p db = (if is_special_outpoint p then db_utxo db p else None)"

definition write_entry :: "outpoint \<Rightarrow> bytes \<times> bytes set \<Rightarrow> index_db \<Rightarrow> index_db" where
  "write_entry p bs db = db\<lparr>db_utxo := (db_utxo db)(p \<mapsto> fst bs),
     db_script := (\<lambda>script. (script, p)) ` snd bs \<union> db_script db\<rparr>"

lemma flush_entry_alt:
  "flush_entry ix (p, e) db =
     and_then (entry_write ix (special_old p db) e) (\<lambda>bs. Ok (write_entry p bs db))"
  unfolding flush_entry_def entry_write_def special_old_def write_entry_def
  by (cases "(case (if is_special_outpoint p then db_utxo db p else None) of
           Some old \<Rightarrow>
             and_then (ok_or (buf_as_ref ix e) Panic) (\<lambda>new. ok_or (buf_merged ix old new) Panic)
         | None \<Rightarrow> Ok e)")
    (auto simp: Let_def ok_or_def split: option.splits)

lemma entry_write_error: "entry_write ix old e = Err x \<Longrightarrow> x = Panic"
  by (auto simp: entry_write_def and_then_eq_Err ok_or_eq split: option.splits if_splits)

lemma write_entry_commute:
  "p \<noteq> q \<Longrightarrow> write_entry q b (write_entry p a db) = write_entry p a (write_entry q b db)"
  by (simp add: write_entry_def fun_upd_twist Un_left_commute)

lemma special_old_other: "p \<noteq> q \<Longrightarrow> special_old q (write_entry p a db) = special_old q db"
  by (simp add: special_old_def write_entry_def)

lemma flush_entry_commute:
  assumes "fst x \<noteq> fst y"
  shows "and_then (flush_entry ix x db) (flush_entry ix y) = and_then (flush_entry ix y db) (flush_entry ix x)"
proof -
  obtain p e q f where xy: "x = (p, e)" "y = (q, f)" by (cases x; cases y) auto
  then have ne: "p \<noteq> q" using assms by simp
  then show ?thesis
    by (cases "entry_write ix (special_old p db) e"; cases "entry_write ix (special_old q db) f")
      (auto simp: xy flush_entry_alt special_old_other [OF ne] special_old_other [OF ne [symmetric]]
        write_entry_commute [OF ne] dest!: entry_write_error)
qed

lemma and_then_assoc: "and_then (and_then r f) g = and_then r (\<lambda>x. and_then (f x) g)"
  by (cases r) simp_all

lemma flush_cache_Cons:
  "flush_cache ix (e # es) = (\<lambda>db. and_then (flush_entry ix e db) (flush_cache ix es))"
  by (intro ext) simp

lemma flush_cache_front:
  "fst y \<notin> fst ` set xs \<Longrightarrow> flush_cache ix (xs @ y # ys) db = flush_cache ix (y # xs @ ys) db"
proof (induction xs arbitrary: db)
  case Nil
  then show ?case by simp
next
  case (Cons x xs)
  have "flush_cache ix (xs @ y # ys) = (\<lambda>d. and_then (flush_entry ix y d) (flush_cache ix (xs @ ys)))"
    using Cons by (intro ext) simp
  then have "flush_cache ix ((x # xs) @ y # ys) db
      = and_then (and_then (flush_entry ix x db) (flush_entry ix y)) (flush_cache ix (xs @ ys))"
    by (simp add: and_then_assoc)
  also have "\<dots> = and_then (and_then (flush_entry ix y db) (flush_entry ix x)) (flush_cache ix (xs @ ys))"
    using Cons.prems by (subst flush_entry_commute) auto
  finally show ?case by (simp add: and_then_assoc flush_cache_Cons)
qed

lemma flush_cache_perm:
  "mset es = mset es' \<Longrightarrow> distinct (map fst es) \<Longrightarrow> flush_cache ix es db = flush_cache ix es' db"
proof (induction es arbitrary: es' db)
  case Nil
  then show ?case by simp
next
  case (Cons e es)
  then have "e \<in> set es'" by (metis list.set_intros(1) set_mset_mset)
  then obtain xs ys where split: "es' = xs @ e # ys" by (meson split_list)
  with Cons.prems(1) have m: "mset es = mset (xs @ ys)" by simp
  then have "fst e \<notin> fst ` set (xs @ ys)"
    using Cons.prems(2) by (metis distinct.simps(2) list.simps(9) set_map set_mset_mset)
  then have "flush_cache ix es' db = flush_cache ix (e # xs @ ys) db"
    unfolding split by (intro flush_cache_front) auto
  moreover have "flush_cache ix es = flush_cache ix (xs @ ys)"
    using Cons.IH [OF m] Cons.prems(2) by (intro ext) simp
  ultimately have "flush_cache ix es' db = flush_cache ix (e # es) db" by simp
  then show ?case by (rule sym)
qed

text \<open>C20: a commit writes the same databases in whatever order the hash map yields the cache, and
  fails in the same cases.\<close>

theorem commit_order_irrelevant:
  assumes "mset es = mset es'" "distinct (map fst es)"
  shows "commit cfg es up db = commit cfg es' up db"
  using flush_cache_perm [OF assms] by (simp add: commit_def)

theorem commit_order_irrelevant_witness:
  "\<forall>up db. commit \<lparr>ix_flags = sample_flags, ix_full = True\<rparr>
     [(null_outpoint, buf_new), (([], 0), buf_new)] up db
   = commit \<lparr>ix_flags = sample_flags, ix_full = True\<rparr>
     [(([], 0), buf_new), (null_outpoint, buf_new)] up db"
  by (intro allI commit_order_irrelevant) (simp_all add: null_outpoint_def add_mset_commute)

end
