(* ===== verification/BlockSats.thy ===== *)
theory BlockSats
  imports BlockIndex
begin

text \<open>
  The sats of the index (\<open>src/index/updater.rs\<close>) across blocks and commits: what an
  entry, the database and the cache hold, the well-formed states of the updater, and the
  conservation of sats by every step of a block. With the sat index on, each sat mined so far
  is held by exactly one entry of the database or the cache, in every state the updater
  reaches by indexing blocks and committing.
\<close>

section \<open>What entries hold\<close>

text \<open>Stored ranges are nonempty, so an entry has no more ranges than sats.\<close>

definition live_range :: "sat_range \<Rightarrow> bool" where
  "live_range r = (walk_range r \<and> fst r < snd r)"

abbreviation range_bytes :: "sat_range list \<Rightarrow> bytes" where
  "range_bytes rs \<equiv> concat (map sat_range_store rs)"

abbreviation range_sats :: "sat_range list \<Rightarrow> nat list" where
  "range_sats rs \<equiv> concat (map sats_of rs)"

definition bytes_sats :: "bytes \<Rightarrow> nat list" where
  "bytes_sats bs = range_sats (map sat_range_load (chunks_exact 11 bs))"

definition entry_sats :: "index_flags \<Rightarrow> bytes \<Rightarrow> nat list" where
  "entry_sats ix e = (case Option.bind (entry_parse ix e) entry_sat_ranges of
     Some ranges \<Rightarrow> bytes_sats ranges | None \<Rightarrow> [])"

definition live_bytes :: "bytes \<Rightarrow> bool" where
  "live_bytes bs = (\<exists>rs. (\<forall>r \<in> set rs. live_range r) \<and> bs = range_bytes rs)"

definition live_entry :: "index_flags \<Rightarrow> bytes \<Rightarrow> bool" where
  "live_entry ix e = (\<exists>rs script. (\<forall>r \<in> set rs. live_range r)
     \<and> entry_ok ix (Ranges (range_bytes rs)) script \<and> e = entry_bytes ix (Ranges (range_bytes rs)) script)"

definition live_buf :: "index_flags \<Rightarrow> utxo_entry_buf \<Rightarrow> bool" where
  "live_buf ix b = (buf_as_ref ix b = Some (ub_vec b) \<and> live_entry ix (ub_vec b))"

lemma cut_closed_live: "cut_closed (\<lambda>r. fst r < snd r)"
proof -
  have "fst r < fst r + m \<and> fst r + m < snd r"
    if r: "walk_range r" "fst r < snd r" "0 < m" "m < snd r - fst r" for r :: sat_range and m
  proof -
    have m: "unat m < unat (snd r) - unat (fst r)"
      using r(4) unat_sub [OF order_less_imp_le [OF r(2)]] by (simp add: word_less_nat_alt)
    moreover have "unat (snd r) < 2 ^ 64" using unsigned_less [of "snd r", where 'a = nat] by simp
    ultimately have "unat (fst r + m) = unat (fst r) + unat m" by (intro unat_add_small) simp
    with m r(3) show ?thesis by (simp add: word_less_nat_alt)
  qed
  then show ?thesis by (simp add: cut_closed_def)
qed

lemma live_ok: "live_range r \<Longrightarrow> sat_range_ok r"
  by (simp add: live_range_def walk_range_def)

lemma bytes_sats_ranges: "\<forall>r \<in> set rs. live_range r \<Longrightarrow> bytes_sats (range_bytes rs) = range_sats rs"
  unfolding bytes_sats_def by (subst sr.load_all) (auto dest: live_ok)

lemma bytes_sats_Nil [simp]: "bytes_sats [] = []"
  by (simp add: bytes_sats_def)

lemma live_bytes_Nil [simp]: "live_bytes []"
  unfolding live_bytes_def by (intro exI [of _ "[]"]) simp

lemma live_bytes_append:
  assumes "live_bytes a" "live_bytes b"
  shows "live_bytes (a @ b) \<and> bytes_sats (a @ b) = bytes_sats a @ bytes_sats b"
proof -
  obtain rs qs where r: "\<forall>r \<in> set rs. live_range r" "a = range_bytes rs"
    and q: "\<forall>r \<in> set qs. live_range r" "b = range_bytes qs"
    using assms unfolding live_bytes_def by blast
  have all: "\<forall>r \<in> set (rs @ qs). live_range r" "a @ b = range_bytes (rs @ qs)"
    using r q by auto
  then have "live_bytes (a @ b)" unfolding live_bytes_def by blast
  moreover have "bytes_sats (a @ b) = bytes_sats a @ bytes_sats b"
    unfolding all(2) bytes_sats_ranges [OF all(1)] unfolding r(2) q(2)
    unfolding bytes_sats_ranges [OF r(1)] bytes_sats_ranges [OF q(1)] by simp
  ultimately show ?thesis by simp
qed

lemma live_range_count: "\<forall>r \<in> set rs. live_range r \<Longrightarrow> length rs \<le> length (range_sats rs)"
proof (induction rs)
  case (Cons r rs)
  then have "unat (fst r) < unat (snd r)" by (simp add: live_range_def word_less_nat_alt)
  then have "1 \<le> length (sats_of r)" unfolding sats_of_def length_upt by linarith
  with Cons show ?case by simp
qed simp

text \<open>No list of ranges of the supply is too long for an entry.\<close>

lemma live_entry_ok:
  assumes "\<forall>r \<in> set rs. live_range r" "length (range_sats rs) < 2 ^ 52" "index_sats ix"
    "length script < 2 ^ 32"
  shows "entry_ok ix (Ranges (range_bytes rs)) script"
  using live_range_count [OF assms(1)] assms(2-4) by (simp add: entry_ok_def sr.length_concat_store)

lemma entry_sats_bytes:
  assumes "\<forall>r \<in> set rs. live_range r" "entry_ok ix (Ranges (range_bytes rs)) script"
  shows "entry_sats ix (entry_bytes ix (Ranges (range_bytes rs)) script) = range_sats rs"
  using entry_parse_bytes [OF assms(2)] bytes_sats_ranges [OF assms(1)]
  by (simp add: entry_sats_def parsed_of_def entry_sat_ranges_def)

lemma buf_as_ref_vec: "buf_as_ref ix b = Some v \<Longrightarrow> v = ub_vec b"
  by (auto simp: buf_as_ref_def bind_eq_Some_conv)

lemma live_buf_bytes:
  assumes "\<forall>r \<in> set rs. live_range r" "entry_ok ix (Ranges (range_bytes rs)) script"
    "buf_as_ref ix b = Some (entry_bytes ix (Ranges (range_bytes rs)) script)"
  shows "live_buf ix b \<and> entry_sats ix (ub_vec b) = range_sats rs"
proof -
  have v: "ub_vec b = entry_bytes ix (Ranges (range_bytes rs)) script"
    using buf_as_ref_vec [OF assms(3)] by simp
  have "live_entry ix (ub_vec b)" unfolding live_entry_def v using assms(1,2) by blast
  with assms v entry_sats_bytes [OF assms(1,2)] show ?thesis by (simp add: live_buf_def)
qed

text \<open>What parsing a live entry gives.\<close>

lemma live_entry_parse:
  assumes "live_entry ix e"
  obtains p rs where "entry_parse ix e = Some p" "entry_sat_ranges p = Some (range_bytes rs)"
    "\<forall>r \<in> set rs. live_range r" "entry_sats ix e = range_sats rs"
proof -
  from assms obtain rs script where e: "\<forall>r \<in> set rs. live_range r"
    "entry_ok ix (Ranges (range_bytes rs)) script" "e = entry_bytes ix (Ranges (range_bytes rs)) script"
    unfolding live_entry_def by blast
  show ?thesis
    by (rule that [of "parsed_of ix (Ranges (range_bytes rs)) script" rs])
      (use e(1) entry_parse_bytes [OF e(2)] entry_sats_bytes [OF e(1,2)]
        in \<open>simp_all add: e(3) parsed_of_def entry_sat_ranges_def\<close>)
qed

section \<open>What a state holds\<close>

definition held :: "index_flags \<Rightarrow> (outpoint \<rightharpoonup> bytes) \<Rightarrow> nat multiset" where
  "held ix m = (\<Sum>p \<in> dom m. mset (entry_sats ix (the (m p))))"

definition cached :: "(outpoint \<rightharpoonup> utxo_entry_buf) \<Rightarrow> outpoint \<rightharpoonup> bytes" where
  "cached m p = map_option ub_vec (m p)"

definition state_sats :: "index_config \<Rightarrow> block_state \<Rightarrow> nat multiset" where
  "state_sats cfg bs = held (ix_flags cfg) (db_utxo (bs_db bs)) + held (ix_flags cfg) (cached (bs_cache bs))"

lemma held_empty [simp]: "held ix Map.empty = {#}"
  by (simp add: held_def)

lemma held_insert:
  assumes "finite (dom m)" "m p = None"
  shows "held ix (m(p \<mapsto> e)) = mset (entry_sats ix e) + held ix m"
proof -
  have p: "p \<notin> dom m" using assms(2) by auto
  have "held ix (m(p \<mapsto> e)) = mset (entry_sats ix e) + (\<Sum>q \<in> dom m. mset (entry_sats ix (the ((m(p \<mapsto> e)) q))))"
    unfolding held_def by (simp add: sum.insert [OF assms(1) p] insert_absorb)
  also have "(\<Sum>q \<in> dom m. mset (entry_sats ix (the ((m(p \<mapsto> e)) q)))) = held ix m"
    unfolding held_def using p by (intro sum.cong) auto
  finally show ?thesis .
qed

lemma held_remove:
  assumes "finite (dom m)" "m p = Some e"
  shows "held ix m = mset (entry_sats ix e) + held ix (m(p := None))"
proof -
  have "m = (m(p := None))(p \<mapsto> e)" using assms(2) by auto
  then have "held ix m = held ix ((m(p := None))(p \<mapsto> e))" by simp
  also have "\<dots> = mset (entry_sats ix e) + held ix (m(p := None))"
    using assms(1) by (intro held_insert) simp_all
  finally show ?thesis .
qed

lemma held_update:
  assumes "finite (dom m)"
  shows "held ix (m(p \<mapsto> e)) + (case m p of Some d \<Rightarrow> mset (entry_sats ix d) | None \<Rightarrow> {#})
    = mset (entry_sats ix e) + held ix m"
proof (cases "m p")
  case None
  with held_insert [OF assms] show ?thesis by simp
next
  case (Some d)
  have "held ix (m(p \<mapsto> e)) = held ix ((m(p := None))(p \<mapsto> e))" by simp
  also have "\<dots> = mset (entry_sats ix e) + held ix (m(p := None))"
    using assms by (intro held_insert) simp_all
  finally show ?thesis using Some held_remove [OF assms Some] by simp
qed

lemma cached_update: "cached (m(p \<mapsto> b)) = (cached m)(p \<mapsto> ub_vec b)" "cached (m(p := None)) = (cached m)(p := None)"
  by (auto simp: cached_def)

lemma cached_dom [simp]: "dom (cached m) = dom m"
  by (auto simp: cached_def)

lemma cached_None [simp]: "cached m p = None \<longleftrightarrow> m p = None"
  by (simp add: cached_def)

lemma cached_empty [simp]: "cached Map.empty = Map.empty"
  by (simp add: cached_def fun_eq_iff)

section \<open>Well-formed states\<close>

text \<open>Every entry is live, and an outpoint is both in the cache and in the database only if a
  commit merges its entries.\<close>

definition entries_ok :: "index_flags \<Rightarrow> (outpoint \<rightharpoonup> bytes) \<Rightarrow> bool" where
  "entries_ok ix m = (finite (dom m) \<and> (\<forall>p e. m p = Some e \<longrightarrow> live_entry ix e))"

definition state_ok :: "index_config \<Rightarrow> block_state \<Rightarrow> bool" where
  "state_ok cfg bs = (entries_ok (ix_flags cfg) (db_utxo (bs_db bs)) \<and> finite (dom (bs_cache bs))
     \<and> (\<forall>p b. bs_cache bs p = Some b \<longrightarrow> live_buf (ix_flags cfg) b)
     \<and> (\<forall>p. bs_cache bs p \<noteq> None \<longrightarrow> db_utxo (bs_db bs) p \<noteq> None \<longrightarrow> is_special_outpoint p))"

lemma state_okD:
  assumes "state_ok cfg bs"
  shows "bs_cache bs p = Some b \<Longrightarrow> live_buf (ix_flags cfg) b"
    and "db_utxo (bs_db bs) p = Some e \<Longrightarrow> live_entry (ix_flags cfg) e"
    and "finite (dom (bs_cache bs))" "finite (dom (db_utxo (bs_db bs)))"
  using assms unfolding state_ok_def entries_ok_def by blast+

text \<open>The settings of an index with the sat index on, which has every output.\<close>

definition sat_config :: "index_config \<Rightarrow> bool" where
  "sat_config cfg = (index_sats (ix_flags cfg) \<and> feature_sats (ix_flags cfg) \<and> ix_full cfg)"

text \<open>What taking inputs leaves alone, and that it only removes entries.\<close>

definition only_taken :: "block_state \<Rightarrow> block_state \<Rightarrow> bool" where
  "only_taken bs bs' = (bs_coinbase bs' = bs_coinbase bs \<and> bs_lost bs' = bs_lost bs
     \<and> up_height (bs_up bs') = up_height (bs_up bs)
     \<and> bs_cache bs' \<subseteq>\<^sub>m bs_cache bs \<and> db_utxo (bs_db bs') \<subseteq>\<^sub>m db_utxo (bs_db bs))"

lemma only_taken_refl: "only_taken bs bs"
  by (simp add: only_taken_def)

lemma only_taken_trans: "only_taken a b \<Longrightarrow> only_taken b c \<Longrightarrow> only_taken a c"
  by (auto simp: only_taken_def intro: map_le_trans)

lemma map_le_remove: "m(p := None) \<subseteq>\<^sub>m m"
  by (simp add: map_le_def)

lemma take_input_sats:
  assumes "state_ok cfg bs" "sat_config cfg" "take_input cfg p bs = Ok (b, bs')"
  shows "state_ok cfg bs' \<and> live_buf (ix_flags cfg) b \<and> only_taken bs bs'
    \<and> state_sats cfg bs = mset (entry_sats (ix_flags cfg) (ub_vec b)) + state_sats cfg bs'"
proof (cases "bs_cache bs p")
  case (Some e)
  have b: "b = e" "bs_cache bs' = (bs_cache bs)(p := None)" "bs_db bs' = bs_db bs"
    "bs_coinbase bs' = bs_coinbase bs" "bs_lost bs' = bs_lost bs"
    "up_height (bs_up bs') = up_height (bs_up bs)"
    using assms(3) Some by (auto simp: take_input_def)
  have fin: "finite (dom (cached (bs_cache bs)))" using assms(1) by (simp add: state_ok_def)
  have "held (ix_flags cfg) (cached (bs_cache bs))
      = mset (entry_sats (ix_flags cfg) (ub_vec e)) + held (ix_flags cfg) (cached (bs_cache bs'))"
    unfolding b(2) cached_update using fin Some by (intro held_remove) (simp_all add: cached_def)
  moreover have "state_ok cfg bs'" "live_buf (ix_flags cfg) b"
    using assms(1) Some state_okD(1) [OF assms(1)] by (auto simp: state_ok_def b(1-3) split: if_splits)
  moreover have "only_taken bs bs'" by (simp add: only_taken_def b map_le_remove)
  ultimately show ?thesis by (simp add: state_sats_def b)
next
  case None
  show ?thesis
  proof (cases "db_utxo (bs_db bs) p")
    case None
    with \<open>bs_cache bs p = None\<close> assms(2,3) show ?thesis
      by (simp add: take_input_def take_from_node_def sat_config_def)
  next
    case (Some e)
    with None assms(3) have "take_from_db cfg p e bs = Ok (b, bs')" by (simp add: take_input_def)
    then have b: "b = \<lparr>ub_vec = e, ub_state = Valid\<rparr>" "bs_cache bs' = bs_cache bs"
      "db_utxo (bs_db bs') = (db_utxo (bs_db bs))(p := None)"
      "bs_coinbase bs' = bs_coinbase bs" "bs_lost bs' = bs_lost bs"
      "up_height (bs_up bs') = up_height (bs_up bs)"
      by (auto simp: take_from_db_def Let_def ok_elims split: if_splits)
    have fin: "finite (dom (db_utxo (bs_db bs)))" using assms(1) by (simp add: state_ok_def entries_ok_def)
    have "live_entry (ix_flags cfg) e" by (rule state_okD(2) [OF assms(1) Some])
    then have live_b: "live_buf (ix_flags cfg) b" by (simp add: live_buf_def b(1) buf_as_ref_def)
    moreover have "state_ok cfg bs'"
      using assms(1) Some state_okD(2) [OF assms(1)]
      by (auto simp: state_ok_def entries_ok_def b(2,3) split: if_splits)
    moreover have "held (ix_flags cfg) (db_utxo (bs_db bs))
        = mset (entry_sats (ix_flags cfg) e) + held (ix_flags cfg) (db_utxo (bs_db bs'))"
      unfolding b(3) using fin Some by (rule held_remove)
    moreover have "only_taken bs bs'" by (simp add: only_taken_def b map_le_remove)
    ultimately show ?thesis by (simp add: state_sats_def b)
  qed
qed

lemma take_inputs_sats:
  assumes "take_inputs cfg ps bs = Ok (es, bs')" "state_ok cfg bs" "sat_config cfg"
  shows "state_ok cfg bs' \<and> (\<forall>b \<in> set es. live_buf (ix_flags cfg) b) \<and> only_taken bs bs'
    \<and> state_sats cfg bs
      = mset (concat (map (\<lambda>b. entry_sats (ix_flags cfg) (ub_vec b)) es)) + state_sats cfg bs'"
  using assms
proof (induction ps arbitrary: bs es)
  case Nil
  then show ?case by (simp add: only_taken_refl)
next
  case (Cons p ps)
  from Cons.prems(1) obtain b bs1 es' where step: "take_input cfg p bs = Ok (b, bs1)"
    "take_inputs cfg ps bs1 = Ok (es', bs')" "es = b # es'"
    by (auto simp: ok_elims)
  from take_input_sats [OF Cons.prems(2,3) step(1)]
  have 1: "state_ok cfg bs1" "live_buf (ix_flags cfg) b" "only_taken bs bs1"
    "state_sats cfg bs = mset (entry_sats (ix_flags cfg) (ub_vec b)) + state_sats cfg bs1" by simp_all
  from Cons.IH [OF step(2) 1(1) Cons.prems(3)] 1 step(3) only_taken_trans [OF 1(3)]
  show ?case by auto
qed

section \<open>The outputs of a transaction\<close>

lemma parse_entries_live:
  assumes "parse_entries ix es = Some ps" "\<forall>b \<in> set es. live_buf ix b"
  shows "\<exists>rss. those (map entry_sat_ranges ps) = Some (map range_bytes rss)
    \<and> (\<forall>rs \<in> set rss. \<forall>r \<in> set rs. live_range r)
    \<and> range_sats (concat rss) = concat (map (\<lambda>b. entry_sats ix (ub_vec b)) es)"
  using assms
proof (induction es arbitrary: ps)
  case Nil
  then show ?case by (intro exI [of _ "[]"]) (simp add: parse_entries_def)
next
  case (Cons b es)
  then have b: "buf_as_ref ix b = Some (ub_vec b)" "live_entry ix (ub_vec b)" by (simp_all add: live_buf_def)
  obtain q rs where q: "entry_parse ix (ub_vec b) = Some q" "entry_sat_ranges q = Some (range_bytes rs)"
    "\<forall>r \<in> set rs. live_range r" "entry_sats ix (ub_vec b) = range_sats rs"
    using b(2) by (rule live_entry_parse)
  from Cons.prems(1) b(1) q(1) obtain ps' where ps: "ps = q # ps'" "parse_entries ix es = Some ps'"
    by (auto simp: parse_entries_def)
  from Cons.IH [OF ps(2)] Cons.prems(2) obtain rss where rss:
    "those (map entry_sat_ranges ps') = Some (map range_bytes rss)"
    "\<forall>rs \<in> set rss. \<forall>r \<in> set rs. live_range r"
    "range_sats (concat rss) = concat (map (\<lambda>b. entry_sats ix (ub_vec b)) es)" by auto
  show ?case by (intro exI [of _ "rs # rss"]) (use q rss in \<open>simp add: ps(1)\<close>)
qed

text \<open>The sats of the inputs are those of the outputs and of what is left, in order.\<close>

lemma transaction_sats_split:
  assumes "index_transaction_sats ix tx txid (map (\<lambda>_. buf_new) (tx_outputs tx)) (map range_bytes rss) fees w0
      = Some (bufs, fees', w)"
    and live: "\<forall>rs \<in> set rss. \<forall>r \<in> set rs. live_range r"
  obtains ls where "fees' = fees @ range_bytes ls" "\<forall>r \<in> set ls. live_range r"
    "length bufs = length (tx_outputs tx)"
    "\<forall>i < length (tx_outputs tx). filled_by (\<lambda>r. fst r < snd r) ix
        (cuts (out_values (tx_outputs tx)) (range_sats (concat rss)) ! i) buf_new (bufs ! i)"
    "concat (cuts (out_values (tx_outputs tx)) (range_sats (concat rss))) @ range_sats ls
      = range_sats (concat rss)"
proof -
  let ?w = "w0\<lparr>w_pending := None, w_iter := concat (map (chunks_exact 11) (map range_bytes rss))\<rparr>"
  let ?P = "\<lambda>r :: sat_range. fst r < snd r"
  from assms(1) obtain w1 where run:
    "assign_outputs ix txid 0 (tx_outputs tx) (map (\<lambda>_. buf_new) (tx_outputs tx)) ?w = Some (bufs, w1)"
    "fees' = fees @ leftover_of w1"
    by (auto simp: index_transaction_sats_def bind_eq_Some_conv)
  have ranges: "\<forall>rs \<in> set rss. \<forall>r \<in> set rs. walk_range r" using live by (simp add: live_range_def)
  have "walk_all ?P ?w"
    unfolding walk_all_def chunks_of_inputs using live
    by (auto simp: live_range_def walk_range_def sat_range_load_store)
  note out = assign_outputs_content [OF run(1) start_walk(1) [OF ranges] cut_closed_live this]
  have ok: "walk_ok w1" "walk_all ?P w1"
    and content: "walk_content w1 = drop (sum_list (out_values (tx_outputs tx))) (range_sats (concat rss))"
    and len: "length bufs = length (tx_outputs tx)"
    and filled: "\<forall>i < length (tx_outputs tx). filled_by ?P ix
        (cuts (out_values (tx_outputs tx)) (range_sats (concat rss)) ! i) buf_new (bufs ! i)"
    using out unfolding start_walk(2) [OF ranges] by auto
  obtain ls where ls: "leftover_of w1 = range_bytes ls" "\<forall>r \<in> set ls. walk_range r \<and> ?P r"
    "range_sats ls = walk_content w1"
    using leftover_content [OF ok] by blast
  show ?thesis
  proof (rule that)
    show "fees' = fees @ range_bytes ls" using run(2) ls(1) by simp
    show "\<forall>r \<in> set ls. live_range r" using ls(2) by (simp add: live_range_def)
    show "concat (cuts (out_values (tx_outputs tx)) (range_sats (concat rss))) @ range_sats ls
      = range_sats (concat rss)" unfolding ls(3) content concat_cuts by (rule append_take_drop_id)
  qed (fact len filled)+
qed

lemma push_scripts_nth:
  "push_scripts ix outs bufs = Some bufs' \<Longrightarrow> length bufs = length outs \<Longrightarrow>
   length bufs' = length outs
     \<and> (\<forall>i < length outs. push_script_pubkey ix (to_script (outs ! i)) (bufs ! i) = Some (bufs' ! i))"
proof (induction ix outs bufs arbitrary: bufs' rule: push_scripts.induct)
  case (1 ix out outs b bs)
  then obtain b' bs' where b: "push_script_pubkey ix (to_script out) b = Some b'"
    "push_scripts ix outs bs = Some bs'" "bufs' = b' # bs'"
    by (auto simp: bind_eq_Some_conv)
  from "1.IH" [OF b(1,2)] "1.prems"(2) b show ?case by (auto simp: less_Suc_eq_0_disj)
qed auto

lemma finished_entry:
  assumes "filled_by (\<lambda>r. fst r < snd r) ix sats buf_new b" "index_sats ix"
    "if index_addresses ix then push_script_pubkey ix script b = Some b' else b' = b"
    "length sats < 2 ^ 52" "length script < 2 ^ 32"
  shows "live_buf ix b' \<and> entry_sats ix (ub_vec b') = sats"
proof -
  from assms(1) obtain rs where rs: "\<forall>r \<in> set rs. live_range r" "range_sats rs = sats"
    "push_sat_ranges ix (range_bytes rs) buf_new = Some b"
    by (auto simp: filled_by_def live_range_def)
  have ok: "entry_ok ix (Ranges (range_bytes rs)) script"
    using rs(1,2) assms(2,4,5) by (intro live_entry_ok) simp_all
  have "Option.bind (push_sats ix (Ranges (range_bytes rs)) buf_new) (push_script_if ix script) = Some b'"
    using rs(3) assms(3) by (simp add: push_sats_def push_script_if_def split: if_splits)
  with push_entry [OF ok] have "buf_as_ref ix b' = Some (entry_bytes ix (Ranges (range_bytes rs)) script)"
    by auto
  from live_buf_bytes [OF rs(1) ok this] rs(2) show ?thesis by simp
qed

lemma word_of_nat_below: "a < 2 ^ 32 \<Longrightarrow> b < 2 ^ 32 \<Longrightarrow> (word_of_nat a :: u32) = word_of_nat b \<Longrightarrow> a = b"
  by (metis unat_epoch)

lemma cache_outputs_held:
  assumes "cache_outputs txid vout bufs m = Some m'" "finite (dom m)"
    "\<forall>v. vout \<le> v \<longrightarrow> v < 2 ^ 32 \<longrightarrow> m (txid, word_of_nat v) = None"
  shows "finite (dom m')
    \<and> held ix (cached m') = mset (concat (map (\<lambda>b. entry_sats ix (ub_vec b)) bufs)) + held ix (cached m)
    \<and> (\<forall>p b. m' p = Some b \<longrightarrow> m p = Some b \<or> fst p = txid \<and> b \<in> set bufs)"
  using assms
proof (induction bufs arbitrary: vout m)
  case Nil
  then show ?case by simp
next
  case (Cons b bufs)
  let ?p = "(txid, word_of_nat vout :: u32)"
  have v: "vout < 2 ^ 32" and rest: "cache_outputs txid (Suc vout) bufs (m(?p \<mapsto> b)) = Some m'"
    using Cons.prems(1) by (simp_all add: bind_eq_Some_conv assert_that_eq)
  have fin: "finite (dom (m(?p \<mapsto> b)))" using Cons.prems(2) by simp
  have fresh: "\<forall>u. Suc vout \<le> u \<longrightarrow> u < 2 ^ 32 \<longrightarrow> (m(?p \<mapsto> b)) (txid, word_of_nat u) = None"
    using Cons.prems(3) word_of_nat_below [OF _ v] by fastforce
  have "cached m ?p = None" using Cons.prems(3) v by simp
  then have "held ix (cached (m(?p \<mapsto> b))) = mset (entry_sats ix (ub_vec b)) + held ix (cached m)"
    unfolding cached_update using Cons.prems(2) by (intro held_insert) simp_all
  moreover note ih = Cons.IH [OF rest fin fresh]
  moreover have "m p = Some b' \<or> fst p = txid \<and> b' \<in> set (b # bufs)" if "m' p = Some b'" for p b'
    using ih that by (cases "p = ?p") (fastforce simp del: split_paired_All)+
  ultimately show ?case by (simp del: fun_upd_apply split_paired_All)
qed

lemma length_cut: "i < length ns \<Longrightarrow> length (cuts ns xs ! i) \<le> length xs"
proof (induction ns arbitrary: xs i)
  case (Cons n ns)
  show ?case
  proof (cases i)
    case (Suc j)
    with Cons.IH [of j "drop n xs"] Cons.prems show ?thesis by simp
  qed simp
qed simp

lemma outputs_finished:
  assumes filled: "\<forall>i < length outs. filled_by (\<lambda>r. fst r < snd r) ix (cuts (out_values outs) S ! i) buf_new (bufs ! i)"
    and len: "length bufs = length outs"
    and scripts: "(if index_addresses ix then push_scripts ix outs bufs else Some bufs) = Some bufs'"
    and small: "index_sats ix" "length S < 2 ^ 52" "\<forall>out \<in> set outs. length (to_script out) < 2 ^ 32"
  shows "(\<forall>b \<in> set bufs'. live_buf ix b) \<and> map (\<lambda>b. entry_sats ix (ub_vec b)) bufs' = cuts (out_values outs) S"
proof -
  have len': "length bufs' = length outs"
    using scripts len push_scripts_nth [of ix outs bufs bufs'] by (auto split: if_splits)
  have each: "live_buf ix (bufs' ! i) \<and> entry_sats ix (ub_vec (bufs' ! i)) = cuts (out_values outs) S ! i"
    if i: "i < length outs" for i
  proof (rule finished_entry)
    show "filled_by (\<lambda>r. fst r < snd r) ix (cuts (out_values outs) S ! i) buf_new (bufs ! i)"
      using filled i by blast
    show "if index_addresses ix then push_script_pubkey ix (to_script (outs ! i)) (bufs ! i) = Some (bufs' ! i)
        else bufs' ! i = bufs ! i"
      using scripts push_scripts_nth [OF _ len, of ix bufs'] i by (auto split: if_splits)
    show "length (cuts (out_values outs) S ! i) < 2 ^ 52"
      using length_cut [of i "out_values outs" S] i small(2) by simp
  qed (use small(1,3) i in simp_all)
  have "\<forall>b \<in> set bufs'. live_buf ix b" using each len' by (auto simp: in_set_conv_nth)
  moreover have "map (\<lambda>b. entry_sats ix (ub_vec b)) bufs' = cuts (out_values outs) S"
    using each len' by (intro nth_equalityI) simp_all
  ultimately show ?thesis by simp
qed

text \<open>New outputs go to outpoints that hold nothing.\<close>

definition fresh_txid :: "txid \<Rightarrow> block_state \<Rightarrow> bool" where
  "fresh_txid txid bs = (\<forall>v. bs_cache bs (txid, v) = None \<and> db_utxo (bs_db bs) (txid, v) = None)"

definition short_scripts :: "transaction \<Rightarrow> bool" where
  "short_scripts tx = (\<forall>out \<in> set (tx_outputs tx). length (to_script out) < 2 ^ 32)"

text \<open>What a transaction changes of the outpoints: it spends, and it creates its own.\<close>

definition only_creates :: "txid \<Rightarrow> block_state \<Rightarrow> block_state \<Rightarrow> bool" where
  "only_creates txid bs bs' = (db_utxo (bs_db bs') \<subseteq>\<^sub>m db_utxo (bs_db bs)
     \<and> (\<forall>p. bs_cache bs p = None \<longrightarrow> fst p \<noteq> txid \<longrightarrow> bs_cache bs' p = None)
     \<and> up_height (bs_up bs') = up_height (bs_up bs))"

lemma map_le_None: "m \<subseteq>\<^sub>m n \<Longrightarrow> n p = None \<Longrightarrow> m p = None"
  by (metis domIff map_le_def)

lemma fresh_txid_taken: "fresh_txid txid bs \<Longrightarrow> only_taken bs bs' \<Longrightarrow> fresh_txid txid bs'"
  by (simp add: fresh_txid_def only_taken_def) (metis map_le_None)

lemma fresh_txid_other: "fresh_txid t bs \<Longrightarrow> only_creates txid bs bs' \<Longrightarrow> t \<noteq> txid \<Longrightarrow> fresh_txid t bs'"
  unfolding fresh_txid_def only_creates_def using map_le_None by fastforce

lemma put_walk_simps [simp]:
  "bs_cache (put_walk w bs) = bs_cache bs" "db_utxo (bs_db (put_walk w bs)) = db_utxo (bs_db bs)"
  "bs_coinbase (put_walk w bs) = bs_coinbase bs" "bs_lost (put_walk w bs) = bs_lost bs"
  "up_height (bs_up (put_walk w bs)) = up_height (bs_up bs)"
  by (simp_all add: put_walk_def)

text \<open>The outputs of a transaction enter the cache with the sats of the inputs.\<close>

lemma outputs_cached:
  assumes run: "index_transaction_sats (ix_flags cfg) tx txid (map (\<lambda>_. buf_new) (tx_outputs tx))
      (map range_bytes rss) fees w0 = Some (bufs, fees', w)"
    and scripts: "(if index_addresses (ix_flags cfg) then push_scripts (ix_flags cfg) (tx_outputs tx) bufs
      else Some bufs) = Some bufs'"
    and cache: "cache_outputs txid 0 bufs' (bs_cache bs) = Some cache"
    and bs: "state_ok cfg bs" "sat_config cfg" "fresh_txid txid bs" "short_scripts tx"
    and live: "\<forall>rs \<in> set rss. \<forall>r \<in> set rs. live_range r" "live_bytes fees"
    and small: "length (range_sats (concat rss)) < 2 ^ 52"
    and bs': "bs_cache bs' = cache" "db_utxo (bs_db bs') = db_utxo (bs_db bs)"
  shows "state_ok cfg bs' \<and> live_bytes fees'
    \<and> (\<forall>p. bs_cache bs p = None \<longrightarrow> fst p \<noteq> txid \<longrightarrow> cache p = None)
    \<and> state_sats cfg bs' + mset (bytes_sats fees')
      = state_sats cfg bs + mset (range_sats (concat rss)) + mset (bytes_sats fees)"
proof -
  let ?ix = "ix_flags cfg" and ?outs = "tx_outputs tx"
  have ix: "index_sats ?ix" using bs(2) by (simp add: sat_config_def)
  obtain ls where ls: "fees' = fees @ range_bytes ls" "\<forall>r \<in> set ls. live_range r"
    "length bufs = length ?outs"
    "\<forall>i < length ?outs. filled_by (\<lambda>r. fst r < snd r) ?ix
        (cuts (out_values ?outs) (range_sats (concat rss)) ! i) buf_new (bufs ! i)"
    "concat (cuts (out_values ?outs) (range_sats (concat rss))) @ range_sats ls = range_sats (concat rss)"
    using run live(1) by (rule transaction_sats_split)
  have short: "\<forall>out \<in> set ?outs. length (to_script out) < 2 ^ 32" using bs(4) by (simp add: short_scripts_def)
  from outputs_finished [OF ls(4,3) scripts ix small short]
  have ready: "\<forall>b \<in> set bufs'. live_buf ?ix b"
    "map (\<lambda>b. entry_sats ?ix (ub_vec b)) bufs' = cuts (out_values ?outs) (range_sats (concat rss))" by simp_all
  have fresh: "\<forall>v. 0 \<le> v \<longrightarrow> v < 2 ^ 32 \<longrightarrow> bs_cache bs (txid, word_of_nat v) = None"
    using bs(3) by (simp add: fresh_txid_def)
  from cache_outputs_held [OF cache state_okD(3) [OF bs(1)] fresh, where ix = ?ix]
  have c: "finite (dom cache)"
    "held ?ix (cached cache) = mset (concat (cuts (out_values ?outs) (range_sats (concat rss)))) + held ?ix (cached (bs_cache bs))"
    "\<And>p b. cache p = Some b \<Longrightarrow> bs_cache bs p = Some b \<or> fst p = txid \<and> b \<in> set bufs'"
    unfolding ready(2) by blast+
  have "state_ok cfg bs'"
    unfolding state_ok_def bs'
  proof (intro conjI allI impI)
    show "entries_ok ?ix (db_utxo (bs_db bs))" using bs(1) by (simp add: state_ok_def)
    show "finite (dom cache)" by (rule c(1))
    show "live_buf ?ix b" if "cache p = Some b" for p b
      using c(3) [OF that] ready(1) state_okD(1) [OF bs(1)] by blast
    show "is_special_outpoint p" if "cache p \<noteq> None" "db_utxo (bs_db bs) p \<noteq> None" for p
    proof -
      from that(1) obtain b where "cache p = Some b" by blast
      from c(3) [OF this] consider "bs_cache bs p \<noteq> None" | "fst p = txid" by auto
      then show ?thesis
      proof cases
        case 1
        with that(2) bs(1) show ?thesis unfolding state_ok_def by blast
      next
        case 2
        then have "db_utxo (bs_db bs) p = None" using bs(3) by (cases p) (simp add: fresh_txid_def)
        with that(2) show ?thesis by simp
      qed
    qed
  qed
  moreover have "live_bytes (range_bytes ls)" using ls(2) unfolding live_bytes_def by blast
  with live_bytes_append [OF live(2)] have "live_bytes fees'"
    "bytes_sats fees' = bytes_sats fees @ range_sats ls"
    using bytes_sats_ranges [OF ls(2)] by (simp_all add: ls(1))
  moreover have "cache p = None" if "bs_cache bs p = None" "fst p \<noteq> txid" for p
    using c(3) [of p] that by (cases "cache p") auto
  moreover have "mset (range_sats (concat rss))
      = mset (concat (cuts (out_values ?outs) (range_sats (concat rss)))) + mset (range_sats ls)"
    using arg_cong [OF ls(5), of mset] by simp
  ultimately show ?thesis by (simp add: state_sats_def bs' c(2))
qed

section \<open>One transaction\<close>

lemma spending_transaction_sats:
  assumes run: "index_transaction cfg False tx txid bs = Ok bs'"
    and bs: "state_ok cfg bs" "sat_config cfg" "fresh_txid txid bs" "short_scripts tx"
    and live: "live_bytes (bs_coinbase bs)"
    and small: "size (state_sats cfg bs) < 2 ^ 52"
  shows "state_ok cfg bs' \<and> only_creates txid bs bs' \<and> live_bytes (bs_coinbase bs') \<and> bs_lost bs' = bs_lost bs
    \<and> state_sats cfg bs' + mset (bytes_sats (bs_coinbase bs'))
      = state_sats cfg bs + mset (bytes_sats (bs_coinbase bs))"
proof -
  let ?ix = "ix_flags cfg" and ?outs = "tx_outputs tx"
  have ix: "index_sats ?ix" "feature_sats ?ix" using bs(2) by (simp_all add: sat_config_def)
  from run ix obtain es bs1 ps ranges bufs fees w bufs' cache where step:
    "take_inputs cfg (tx_inputs tx) bs = Ok (es, bs1)" "parse_entries ?ix es = Some ps"
    "those (map entry_sat_ranges ps) = Some ranges"
    "index_transaction_sats ?ix tx txid (map (\<lambda>_. buf_new) ?outs) ranges (bs_coinbase bs1) (walk_of bs1)
      = Some (bufs, fees, w)"
    "(if index_addresses ?ix then push_scripts ?ix ?outs bufs else Some bufs) = Some bufs'"
    "cache_outputs txid 0 bufs' (bs_cache bs1) = Some cache"
    "bs' = (put_walk w bs1)\<lparr>bs_coinbase := fees, bs_cache := cache\<rparr>"
    unfolding index_transaction_def Let_def fill_outputs_def
    by (auto simp: ok_elims bind_eq_Some_conv simp del: take_inputs.simps)
  from take_inputs_sats [OF step(1) bs(1,2)]
  have 1: "state_ok cfg bs1" "\<forall>b \<in> set es. live_buf ?ix b" "only_taken bs bs1"
    "state_sats cfg bs = mset (concat (map (\<lambda>b. entry_sats ?ix (ub_vec b)) es)) + state_sats cfg bs1"
    by simp_all
  obtain rss where rss: "ranges = map range_bytes rss" "\<forall>rs \<in> set rss. \<forall>r \<in> set rs. live_range r"
    "range_sats (concat rss) = concat (map (\<lambda>b. entry_sats ?ix (ub_vec b)) es)"
    using parse_entries_live [OF step(2) 1(2)] step(3) by auto
  have size: "length (range_sats (concat rss)) < 2 ^ 52"
    using small unfolding 1(4) rss(3) by simp
  have same: "bs_coinbase bs1 = bs_coinbase bs" "bs_lost bs1 = bs_lost bs"
    "up_height (bs_up bs1) = up_height (bs_up bs)" using 1(3) by (simp_all add: only_taken_def)
  have bs': "bs_cache bs' = cache" "db_utxo (bs_db bs') = db_utxo (bs_db bs1)" by (simp_all add: step(7))
  have "live_bytes (bs_coinbase bs1)" using live same(1) by simp
  note out = outputs_cached [OF step(4) [unfolded rss(1)] step(5,6) 1(1) bs(2)
      fresh_txid_taken [OF bs(3) 1(3)] bs(4) rss(2) this size bs']
  have "cache p = None" if "bs_cache bs p = None" "fst p \<noteq> txid" for p
    using out 1(3) that map_le_None [of "bs_cache bs1" "bs_cache bs" p] by (cases p) (simp add: only_taken_def)
  then have "only_creates txid bs bs'"
    using 1(3) unfolding only_creates_def only_taken_def bs' by (simp add: step(7))
  then show ?thesis using out 1(4) by (simp add: step(7) same rss(3) ac_simps)
qed

lemma coinbase_transaction_sats:
  assumes run: "index_transaction cfg True tx txid bs = Ok bs'"
    and bs: "state_ok cfg bs" "sat_config cfg" "fresh_txid txid bs" "short_scripts tx"
    and live: "live_bytes (bs_coinbase bs)" "live_bytes (bs_lost bs)"
    and small: "length (bytes_sats (bs_coinbase bs)) < 2 ^ 52"
  shows "state_ok cfg bs' \<and> only_creates txid bs bs' \<and> live_bytes (bs_lost bs')
    \<and> state_sats cfg bs' + mset (bytes_sats (bs_lost bs'))
      = state_sats cfg bs + mset (bytes_sats (bs_coinbase bs)) + mset (bytes_sats (bs_lost bs))"
proof -
  let ?ix = "ix_flags cfg" and ?outs = "tx_outputs tx"
  have ix: "index_sats ?ix" "feature_sats ?ix" using bs(2) by (simp_all add: sat_config_def)
  from run ix obtain bufs lost w bufs' cache where step:
    "index_transaction_sats ?ix tx txid (map (\<lambda>_. buf_new) ?outs) [bs_coinbase bs] (bs_lost bs) (walk_of bs)
      = Some (bufs, lost, w)"
    "(if index_addresses ?ix then push_scripts ?ix ?outs bufs else Some bufs) = Some bufs'"
    "cache_outputs txid 0 bufs' (bs_cache bs) = Some cache"
    "bs' = (put_walk w bs)\<lparr>bs_lost := lost, bs_cache := cache\<rparr>"
    unfolding index_transaction_def Let_def fill_outputs_def
    by (auto simp: ok_elims bind_eq_Some_conv parse_entries_def)
  obtain rs where rs: "bs_coinbase bs = range_bytes rs" "\<forall>r \<in> set rs. live_range r"
    using live(1) unfolding live_bytes_def by blast
  have coins: "bytes_sats (bs_coinbase bs) = range_sats (concat [rs])"
    using bytes_sats_ranges [OF rs(2)] by (simp add: rs(1))
  have rss: "[bs_coinbase bs] = map range_bytes [rs]" "\<forall>qs \<in> set [rs]. \<forall>r \<in> set qs. live_range r"
    using rs by simp_all
  have bs': "bs_cache bs' = cache" "db_utxo (bs_db bs') = db_utxo (bs_db bs)" by (simp_all add: step(4))
  note out = outputs_cached [OF step(1) [unfolded rss(1)] step(2,3) bs rss(2) live(2)
      small [unfolded coins] bs']
  have "only_creates txid bs bs'" using out unfolding only_creates_def bs' by (simp add: step(4))
  then show ?thesis using out by (simp add: step(4) coins)
qed

section \<open>One block\<close>

lemma index_transactions_append:
  "index_transactions cfg (xs @ ys) bs = and_then (index_transactions cfg xs bs) (index_transactions cfg ys)"
proof (induction xs arbitrary: bs)
  case (Cons x xs)
  obtain c tx txid where x: "x = (c, tx, txid)" by (rule prod_cases3)
  show ?case by (cases "index_transaction cfg c tx txid bs") (simp_all add: x Cons.IH)
qed simp

definition pool_sats :: "index_config \<Rightarrow> block_state \<Rightarrow> nat multiset" where
  "pool_sats cfg bs = state_sats cfg bs + mset (bytes_sats (bs_coinbase bs))"

lemma spending_transactions_sats:
  assumes "index_transactions cfg (map (\<lambda>(tx, txid). (False, tx, txid)) txs) bs = Ok bs'"
    "state_ok cfg bs" "sat_config cfg" "live_bytes (bs_coinbase bs)" "size (pool_sats cfg bs) < 2 ^ 52"
    "distinct (map snd txs)" "\<forall>txid \<in> snd ` set txs. fresh_txid txid bs" "\<forall>tx \<in> fst ` set txs. short_scripts tx"
  shows "state_ok cfg bs' \<and> live_bytes (bs_coinbase bs') \<and> bs_lost bs' = bs_lost bs
    \<and> up_height (bs_up bs') = up_height (bs_up bs) \<and> pool_sats cfg bs' = pool_sats cfg bs
    \<and> (\<forall>t. fresh_txid t bs \<longrightarrow> t \<notin> snd ` set txs \<longrightarrow> fresh_txid t bs')"
  using assms
proof (induction txs arbitrary: bs)
  case Nil
  then show ?case by simp
next
  case (Cons x txs)
  obtain tx txid where x: "x = (tx, txid)" by (rule prod.exhaust)
  from Cons.prems(1) obtain bs1 where step: "index_transaction cfg False tx txid bs = Ok bs1"
    "index_transactions cfg (map (\<lambda>(tx, txid). (False, tx, txid)) txs) bs1 = Ok bs'"
    by (auto simp: x ok_elims)
  have pre: "fresh_txid txid bs" "short_scripts tx" "size (state_sats cfg bs) < 2 ^ 52"
    using Cons.prems(5,7,8) by (simp_all add: x pool_sats_def)
  note one = spending_transaction_sats [OF step(1) Cons.prems(2,3) pre(1,2) Cons.prems(4) pre(3)]
  have same: "pool_sats cfg bs1 = pool_sats cfg bs" using one by (simp add: pool_sats_def)
  have other: "fresh_txid t bs1" if "fresh_txid t bs" "t \<noteq> txid" for t
    using fresh_txid_other [OF that(1) _ that(2)] one by blast
  have "\<forall>t \<in> snd ` set txs. fresh_txid t bs1"
    using Cons.prems(6,7) other by (auto simp: x)
  with Cons.IH [OF step(2)] Cons.prems(3,5,6,8) one same
  have ih: "state_ok cfg bs' \<and> live_bytes (bs_coinbase bs') \<and> bs_lost bs' = bs_lost bs1
    \<and> up_height (bs_up bs') = up_height (bs_up bs1) \<and> pool_sats cfg bs' = pool_sats cfg bs1
    \<and> (\<forall>t. fresh_txid t bs1 \<longrightarrow> t \<notin> snd ` set txs \<longrightarrow> fresh_txid t bs')" by simp
  moreover have "up_height (bs_up bs1) = up_height (bs_up bs)" using one by (simp add: only_creates_def)
  ultimately show ?case using one same other by (simp add: x)
qed

text \<open>Merging the entries of an outpoint joins their sats.\<close>

lemma merged_live:
  assumes "buf_merged ix a b = Some m" "live_entry ix a" "live_entry ix b" "index_sats ix"
    "length (entry_sats ix a) + length (entry_sats ix b) < 2 ^ 52"
  shows "live_buf ix m \<and> entry_sats ix (ub_vec m) = entry_sats ix a @ entry_sats ix b"
proof -
  have norm: "\<exists>rs. (\<forall>r \<in> set rs. live_range r) \<and> entry_ok ix (Ranges (range_bytes rs)) []
      \<and> e = entry_bytes ix (Ranges (range_bytes rs)) []"
    if e: "live_entry ix e" "\<forall>p s. entry_parse ix e = Some p \<longrightarrow> pe_script p = Some s \<longrightarrow> s = []" for e
  proof -
    from e(1) obtain rs script where r: "\<forall>r \<in> set rs. live_range r"
      "entry_ok ix (Ranges (range_bytes rs)) script" "e = entry_bytes ix (Ranges (range_bytes rs)) script"
      unfolding live_entry_def by blast
    have "entry_bytes ix (Ranges (range_bytes rs)) script = entry_bytes ix (Ranges (range_bytes rs)) []"
      using e(2) entry_parse_bytes [OF r(2)]
      by (cases "index_addresses ix") (auto simp: r(3) parsed_of_def entry_bytes_def script_bytes_def)
    moreover have "entry_ok ix (Ranges (range_bytes rs)) []" using r(2) by (simp add: entry_ok_def)
    ultimately show ?thesis using r by metis
  qed
  obtain p q where pq: "entry_parse ix a = Some p" "entry_parse ix b = Some q"
    using assms(1) by (auto simp: buf_merged_def bind_eq_Some_conv)
  have scripts: "\<forall>s. pe_script p = Some s \<longrightarrow> s = []" "\<forall>s. pe_script q = Some s \<longrightarrow> s = []"
  proof -
    have "pe_script p = None \<and> pe_script q = None" if "\<not> index_addresses ix"
      using pq that by (auto simp: entry_parse_def bind_eq_Some_conv)
    then show "\<forall>s. pe_script p = Some s \<longrightarrow> s = []" "\<forall>s. pe_script q = Some s \<longrightarrow> s = []"
      using assms(1) pq by (cases "index_addresses ix"; auto simp: buf_merged_def bind_eq_Some_conv assert_that_eq)+
  qed
  obtain ra where ra: "\<forall>r \<in> set ra. live_range r" "entry_ok ix (Ranges (range_bytes ra)) []"
    "a = entry_bytes ix (Ranges (range_bytes ra)) []" using norm [OF assms(2)] pq(1) scripts(1) by auto
  obtain rb where rb: "\<forall>r \<in> set rb. live_range r" "entry_ok ix (Ranges (range_bytes rb)) []"
    "b = entry_bytes ix (Ranges (range_bytes rb)) []" using norm [OF assms(3)] pq(2) scripts(2) by auto
  have sats: "entry_sats ix a = range_sats ra" "entry_sats ix b = range_sats rb"
    using entry_sats_bytes [OF ra(1,2)] entry_sats_bytes [OF rb(1,2)] by (simp_all add: ra(3) rb(3))
  have all: "\<forall>r \<in> set (ra @ rb). live_range r" using ra(1) rb(1) by auto
  have ok: "entry_ok ix (Ranges (range_bytes (ra @ rb))) []"
    using assms(4,5) all by (intro live_entry_ok) (simp_all add: sats)
  have ok': "entry_ok ix (Ranges (range_bytes ra @ range_bytes rb)) []" using ok by simp
  from merged_ranges [OF ra(2) rb(2) ok'] assms(1)
  have "buf_as_ref ix m = Some (entry_bytes ix (Ranges (range_bytes (ra @ rb))) [])"
    by (auto simp: ra(3) rb(3))
  from live_buf_bytes [OF all ok this] show ?thesis by (simp add: sats)
qed

lemma live_empty:
  assumes "buf_empty ix = Some b" "index_sats ix"
  shows "live_buf ix b \<and> entry_sats ix (ub_vec b) = []"
proof -
  have "buf_as_ref ix b = Some (entry_bytes ix (Ranges (range_bytes [])) [])"
    using buf_empty_ok [of ix] assms by auto
  from live_buf_bytes [OF _ _ this] show ?thesis using assms(2) by (simp add: entry_ok_def)
qed

lemma live_pushed:
  assumes "Option.bind (push_sat_ranges ix lost buf_new) (push_script_if ix []) = Some b"
    "live_bytes lost" "index_sats ix" "length (bytes_sats lost) < 2 ^ 52"
  shows "live_buf ix b \<and> entry_sats ix (ub_vec b) = bytes_sats lost"
proof -
  obtain rs where rs: "\<forall>r \<in> set rs. live_range r" "lost = range_bytes rs"
    using assms(2) unfolding live_bytes_def by blast
  have sats: "bytes_sats lost = range_sats rs" unfolding rs(2) by (rule bytes_sats_ranges [OF rs(1)])
  have ok: "entry_ok ix (Ranges (range_bytes rs)) []"
    using assms(3,4) rs(1) by (intro live_entry_ok) (simp_all add: sats)
  have "buf_as_ref ix b = Some (entry_bytes ix (Ranges (range_bytes rs)) [])"
    using push_entry [OF ok] assms(1) by (auto simp: push_sats_def rs(2))
  from live_buf_bytes [OF rs(1) ok this] show ?thesis by (simp add: sats)
qed

lemma merge_lost_sats:
  assumes "merge_lost ix lost cache = Some cache'" "live_bytes lost" "index_sats ix"
    "\<forall>b. cache null_outpoint = Some b \<longrightarrow> live_buf ix b" "finite (dom cache)"
    "size (held ix (cached cache)) + length (bytes_sats lost) < 2 ^ 52"
  shows "\<exists>m. cache' = cache(null_outpoint \<mapsto> m) \<and> live_buf ix m
    \<and> held ix (cached cache') = held ix (cached cache) + mset (bytes_sats lost)"
proof -
  from assms(1) obtain old new old_bytes new_bytes m where step:
    "(case cache null_outpoint of Some e \<Rightarrow> Some e | None \<Rightarrow> buf_empty ix) = Some old"
    "Option.bind (push_sat_ranges ix lost buf_new) (push_script_if ix []) = Some new"
    "buf_as_ref ix old = Some old_bytes" "buf_as_ref ix new = Some new_bytes"
    "buf_merged ix old_bytes new_bytes = Some m" "cache' = cache(null_outpoint \<mapsto> m)"
    unfolding merge_lost_def by (auto simp: bind_eq_Some_conv simp del: fun_upd_apply)
  define before where "before = (case cache null_outpoint of Some e \<Rightarrow> entry_sats ix (ub_vec e) | None \<Rightarrow> [])"
  have old: "live_buf ix old" "entry_sats ix (ub_vec old) = before"
    using step(1) assms(3,4) live_empty [of ix old] by (auto simp: before_def split: option.splits)
  have fin: "finite (dom (cached cache))" using assms(5) by simp
  have sub: "length before \<le> size (held ix (cached cache))"
  proof (cases "cache null_outpoint")
    case (Some e)
    then have "cached cache null_outpoint = Some (ub_vec e)" by (simp add: cached_def)
    from held_remove [OF fin this] Some show ?thesis by (simp add: before_def)
  qed (simp add: before_def)
  have new: "live_buf ix new \<and> entry_sats ix (ub_vec new) = bytes_sats lost"
    using assms(6) by (intro live_pushed [OF step(2) assms(2,3)]) simp
  have bytes: "old_bytes = ub_vec old" "new_bytes = ub_vec new"
    using step(3,4) by (simp_all add: buf_as_ref_vec)
  have merged: "live_buf ix m \<and> entry_sats ix (ub_vec m) = entry_sats ix old_bytes @ entry_sats ix new_bytes"
    using old new sub assms(3,6) step(5) by (intro merged_live) (simp_all add: bytes live_buf_def)
  have "held ix ((cached cache)(null_outpoint \<mapsto> ub_vec m))
      + (case cached cache null_outpoint of Some d \<Rightarrow> mset (entry_sats ix d) | None \<Rightarrow> {#})
      = mset (entry_sats ix (ub_vec m)) + held ix (cached cache)"
    by (rule held_update [OF fin])
  moreover have "(case cached cache null_outpoint of Some d \<Rightarrow> mset (entry_sats ix d) | None \<Rightarrow> {#}) = mset before"
    by (cases "cache null_outpoint") (simp_all add: before_def cached_def)
  moreover have "mset (entry_sats ix (ub_vec m)) = mset before + mset (bytes_sats lost)"
    using merged old(2) new by (simp add: bytes)
  ultimately have "held ix (cached cache') = held ix (cached cache) + mset (bytes_sats lost)"
    unfolding step(6) cached_update by (simp add: ac_simps)
  with merged step(6) show ?thesis by blast
qed

lemma note_lost_utxo: "note_lost cs n db = (n', db') \<Longrightarrow> db_utxo db' = db_utxo db"
  by (induction cs n db rule: note_lost.induct) (auto simp: Let_def split: if_splits)

lemma lose_sats_sats:
  assumes "lose_sats cfg bs = Ok bs'" "state_ok cfg bs" "sat_config cfg" "live_bytes (bs_lost bs)"
    "size (state_sats cfg bs) + length (bytes_sats (bs_lost bs)) < 2 ^ 52"
  shows "state_ok cfg bs' \<and> up_height (bs_up bs') = up_height (bs_up bs)
    \<and> state_sats cfg bs' = state_sats cfg bs + mset (bytes_sats (bs_lost bs))"
proof (cases "bs_lost bs = []")
  case True
  with assms(1-3) have "bs_cache bs' = bs_cache bs" "db_utxo (bs_db bs') = db_utxo (bs_db bs)"
    "up_height (bs_up bs') = up_height (bs_up bs)"
    by (auto simp: lose_sats_def sat_config_def Let_def set_statistic_def)
  with True assms(2) show ?thesis by (simp add: state_ok_def state_sats_def)
next
  case False
  let ?ix = "ix_flags cfg"
  have ix: "index_sats ?ix" using assms(3) by (simp add: sat_config_def)
  from False assms(1,3) obtain n db cache where step:
    "note_lost (chunks_exact 11 (bs_lost bs)) (stat_of (bs_db bs) LostSats) (bs_db bs) = (n, db)"
    "merge_lost ?ix (bs_lost bs) (bs_cache bs) = Some cache"
    "bs_cache bs' = cache" "db_utxo (bs_db bs') = db_utxo db" "up_height (bs_up bs') = up_height (bs_up bs)"
    by (auto simp: lose_sats_def sat_config_def Let_def set_statistic_def ok_elims split: prod.splits)
  have db: "db_utxo (bs_db bs') = db_utxo (bs_db bs)" using note_lost_utxo [OF step(1)] step(4) by simp
  have small: "size (held ?ix (cached (bs_cache bs))) + length (bytes_sats (bs_lost bs)) < 2 ^ 52"
    using assms(5) by (simp add: state_sats_def)
  have "\<forall>b. bs_cache bs null_outpoint = Some b \<longrightarrow> live_buf ?ix b" using state_okD(1) [OF assms(2)] by blast
  from merge_lost_sats [OF step(2) assms(4) ix this state_okD(3) [OF assms(2)] small]
  obtain m where m: "cache = (bs_cache bs)(null_outpoint \<mapsto> m)" "live_buf ?ix m"
    "held ?ix (cached cache) = held ?ix (cached (bs_cache bs)) + mset (bytes_sats (bs_lost bs))" by blast
  have "state_ok cfg bs'"
    unfolding state_ok_def step(3) db
  proof (intro conjI allI impI)
    show "entries_ok ?ix (db_utxo (bs_db bs))" using assms(2) by (simp add: state_ok_def)
    show "finite (dom cache)" using state_okD(3) [OF assms(2)] by (simp add: m(1))
    show "live_buf ?ix b" if "cache p = Some b" for p b
      using that m(2) state_okD(1) [OF assms(2), of p b] by (auto simp: m(1) split: if_splits)
    show "is_special_outpoint p" if "cache p \<noteq> None" "db_utxo (bs_db bs) p \<noteq> None" for p
      using that assms(2) unfolding m(1) state_ok_def
      by (cases "p = null_outpoint") (auto simp: is_special_outpoint_def simp del: split_paired_All)
  qed
  with m(3) step(5) show ?thesis by (simp add: state_sats_def step(3) db ac_simps)
qed

text \<open>The reward of a block is the range of its sats.\<close>

lemma height_starting_sat_post: "6930000 \<le> h \<Longrightarrow> unat (height_starting_sat h) = 2099999997690000"
proof -
  assume h: "6930000 \<le> h"
  then have "33 \<le> unat h div 210000" by (simp add: word_le_nat_alt)
  moreover have u: "unat (epoch_of_height h) = unat h div 210000"
    by (simp add: epoch_of_height_def SUBSIDY_HALVING_INTERVAL_def unat_div)
  ultimately have "unat (epoch_starting_sat (epoch_of_height h)) = 2099999997690000"
    by (cases "unat h div 210000 = 33")
      (simp_all add: epoch_starting_sat_def STARTING_SATS_def SUPPLY_def)
  moreover have "epoch_subsidy (epoch_of_height h) = 0"
    using height_subsidy_zero [OF h] by (simp add: height_subsidy_def)
  ultimately show ?thesis by (simp add: height_starting_sat_def Let_def)
qed

lemma height_starting_sat_Suc:
  assumes "h + 1 \<noteq> 0"
  shows "unat (height_starting_sat (h + 1)) = unat (height_starting_sat h) + unat (height_subsidy h)"
proof -
  have "unat (h + 1) = Suc (unat h)"
    using assms unatSuc [of h] by (simp add: add.commute)
  show ?thesis
  proof (cases "h < 6930000")
    case False
    then have "6930000 \<le> h" "6930000 \<le> h + 1"
      using \<open>unat (h + 1) = Suc (unat h)\<close> by (simp_all add: word_le_nat_alt word_less_nat_alt)
    then show ?thesis by (simp add: height_starting_sat_post height_subsidy_zero)
  next
    case True
    then obtain i m where im: "i < 33" "m < 210000" "unat h = 210000 * i + m" by (rule height_split)
    show ?thesis
    proof (cases "Suc m < 210000")
      case True
      have "unat (h + 1) = 210000 * i + Suc m" using im(3) \<open>unat (h + 1) = Suc (unat h)\<close> by simp
      with height_starting_sat_nat [OF im(1) True] height_starting_sat_nat [OF im] show ?thesis by simp
    next
      case False
      then have m: "m = 209999" using im(2) by simp
      then have after: "unat (h + 1) = 210000 * Suc i + 0"
        using im(3) \<open>unat (h + 1) = Suc (unat h)\<close> by simp
      have "unat (height_starting_sat (h + 1)) = first_sat (Suc i)"
      proof (cases "Suc i < 33")
        case True
        with height_starting_sat_nat(1) [OF True _ after] show ?thesis by simp
      next
        case False
        then have "i = 32" using im(1) by simp
        moreover from this after have "6930000 \<le> h + 1" by (simp add: word_le_nat_alt)
        ultimately show ?thesis using height_starting_sat_post first_sat_33 by simp
      qed
      with height_starting_sat_nat [OF im] table_step [OF im(1)] show ?thesis by (simp add: m)
    qed
  qed
qed

lemma height_starting_sat_bound: "unat (height_starting_sat h) \<le> 2099999997690000"
proof (cases "h < 6930000")
  case True
  then obtain i m where im: "i < 33" "m < 210000" "unat h = 210000 * i + m" by (rule height_split)
  have "m * reward i \<le> 210000 * reward i" using im by simp
  moreover have "first_sat (Suc i) \<le> 2099999997690000" using im by (intro first_sat_le_supply) simp
  ultimately show ?thesis using height_starting_sat_nat [OF im] table_step [OF im(1)] by linarith
qed (simp add: height_starting_sat_post)

definition fresh_block :: "block_data \<Rightarrow> block_state \<Rightarrow> bool" where
  "fresh_block block bs = (bd_txdata block \<noteq> [] \<and> distinct (map snd (bd_txdata block))
     \<and> (\<forall>txid \<in> snd ` set (bd_txdata block). fresh_txid txid bs)
     \<and> (\<forall>tx \<in> fst ` set (bd_txdata block). short_scripts tx))"

text \<open>The sats mined below a height, and the states that hold each of them once.\<close>

definition mined :: "u32 \<Rightarrow> nat" where
  "mined h = unat (height_starting_sat h)"

definition holds_mined :: "index_config \<Rightarrow> block_state \<Rightarrow> bool" where
  "holds_mined cfg bs = (state_ok cfg bs \<and> state_sats cfg bs = mset [0 ..< mined (up_height (bs_up bs))])"

lemma state_ok_cong:
  assumes "bs_cache a = bs_cache b" "db_utxo (bs_db a) = db_utxo (bs_db b)"
  shows "state_ok cfg a = state_ok cfg b" "state_sats cfg a = state_sats cfg b" "fresh_txid t a = fresh_txid t b"
  using assms by (simp_all add: state_ok_def state_sats_def fresh_txid_def)

lemma coinbase_reward_sats:
  assumes "sat_config cfg" "bs_coinbase bs = []" "up_height (bs_up bs) + 1 \<noteq> 0"
  defines "bs' \<equiv> coinbase_reward cfg bs"
  shows "bs_cache bs' = bs_cache bs" "db_utxo (bs_db bs') = db_utxo (bs_db bs)" "bs_lost bs' = bs_lost bs"
    "up_height (bs_up bs') = up_height (bs_up bs)" "live_bytes (bs_coinbase bs')"
    "bytes_sats (bs_coinbase bs') = [mined (up_height (bs_up bs)) ..< mined (up_height (bs_up bs) + 1)]"
proof -
  let ?h = "up_height (bs_up bs)"
  let ?s = "height_starting_sat ?h" and ?n = "height_subsidy ?h"
  show "bs_cache bs' = bs_cache bs" "db_utxo (bs_db bs') = db_utxo (bs_db bs)" "bs_lost bs' = bs_lost bs"
    "up_height (bs_up bs') = up_height (bs_up bs)"
    unfolding bs'_def coinbase_reward_def by (simp_all add: Let_def)
  have next_height: "mined (?h + 1) = unat ?s + unat ?n"
    using height_starting_sat_Suc [OF assms(3)] by (simp add: mined_def)
  have "live_bytes (bs_coinbase bs') \<and> bytes_sats (bs_coinbase bs') = [mined ?h ..< mined (?h + 1)]"
  proof (cases "?n > 0")
    case False
    then have "bs_coinbase bs' = []" "unat ?n = 0"
      using assms(2) by (simp_all add: bs'_def coinbase_reward_def word_less_nat_alt)
    then show ?thesis by (simp only: next_height) (simp add: mined_def)
  next
    case True
    have small: "unat ?s + unat ?n \<le> 2099999997690000"
      using height_starting_sat_bound [of "?h + 1"] next_height by (simp add: mined_def)
    then have sum: "unat (?s + ?n) = unat ?s + unat ?n" by (intro unat_add_small) simp
    have "?h < 6930000" using True height_subsidy_zero [of ?h] by (cases "?h < 6930000") simp_all
    then obtain i m where im: "i < 33" "m < 210000" "unat ?h = 210000 * i + m" by (rule height_split)
    have "unat ?n \<le> 5000000000" using height_starting_sat_nat(2) [OF im] by (simp add: div_le_dividend)
    then have live: "\<forall>r \<in> set [(?s, ?s + ?n)]. live_range r"
      using True sum small
      by (simp add: live_range_def walk_range_def sat_range_ok_def word_less_nat_alt word_le_nat_alt)
    have "bs_coinbase bs' = range_bytes [(?s, ?s + ?n)]"
      using True assms(1) by (simp add: bs'_def coinbase_reward_def sat_config_def Let_def)
    moreover have "range_sats [(?s, ?s + ?n)] = [mined ?h ..< mined (?h + 1)]"
      by (simp add: sats_of_def sum next_height) (simp add: mined_def)
    ultimately show ?thesis using bytes_sats_ranges [OF live] live unfolding live_bytes_def by metis
  qed
  then show "live_bytes (bs_coinbase bs')" "bytes_sats (bs_coinbase bs') = [mined ?h ..< mined (?h + 1)]"
    by simp_all
qed

lemma mined_small: "mined h < 2 ^ 52"
  using height_starting_sat_bound [of h] by (simp add: mined_def)

lemma mined_step: "h + 1 \<noteq> 0 \<Longrightarrow> mined h \<le> mined (h + 1)"
  using height_starting_sat_Suc [of h] by (simp add: mined_def)

lemma mset_upt_join: "a \<le> b \<Longrightarrow> mset [0 ..< a] + mset [a ..< b] = mset [0 ..< b]"
  using upt_add_eq_append [of 0 a "b - a"] by (metis le_add_diff_inverse mset_append zero_le)

lemma index_utxo_entries_sats:
  assumes run: "index_utxo_entries cfg block bs = Ok bs'"
    and bs: "holds_mined cfg bs" "sat_config cfg" "fresh_block block bs" "up_height (bs_up bs) + 1 \<noteq> 0"
  shows "state_ok cfg bs' \<and> up_height (bs_up bs') = up_height (bs_up bs)
    \<and> state_sats cfg bs' = mset [0 ..< mined (up_height (bs_up bs) + 1)]"
proof -
  let ?h = "up_height (bs_up bs)"
  define bs0 where "bs0 = (send_outpoints cfg block bs)\<lparr>bs_coinbase := [], bs_lost := []\<rparr>"
  define bs1 where "bs1 = coinbase_reward cfg bs0"
  have full: "ix_full cfg" using bs(2) by (simp add: sat_config_def)
  have bs0: "bs_cache bs0 = bs_cache bs" "db_utxo (bs_db bs0) = db_utxo (bs_db bs)" "bs_coinbase bs0 = []"
    "bs_lost bs0 = []" "up_height (bs_up bs0) = ?h"
    using full by (simp_all add: bs0_def send_outpoints_def)
  note reward = coinbase_reward_sats [OF bs(2) bs0(3), folded bs1_def, unfolded bs0(5), OF bs(4)]
  note same = state_ok_cong [of bs1 bs, unfolded reward(1,2) bs0(1,2), OF refl refl]
  obtain tx txid txs where block: "bd_txdata block = (tx, txid) # txs"
    using bs(3) by (cases "bd_txdata block") (auto simp: fresh_block_def)
  from run obtain bs2 bs3 where step:
    "index_transactions cfg (map (\<lambda>(tx, txid). (False, tx, txid)) txs) bs1 = Ok bs2"
    "index_transaction cfg True tx txid bs2 = Ok bs3" "lose_sats cfg bs3 = Ok bs'"
    unfolding index_utxo_entries_def Let_def bs0_def [symmetric] bs1_def [symmetric]
    by (auto simp: block transaction_order_def index_transactions_append ok_elims)
  have ok1: "state_ok cfg bs1" using bs(1) same(1) by (simp add: holds_mined_def)
  have pool: "pool_sats cfg bs1 = mset [0 ..< mined (?h + 1)]"
    using bs(1) same(2) reward(6) mset_upt_join [OF mined_step [OF bs(4)]]
    by (simp add: pool_sats_def holds_mined_def)
  have size: "size (pool_sats cfg bs1) < 2 ^ 52" using mined_small by (simp add: pool)
  have txs: "distinct (map snd txs)" "\<forall>t \<in> snd ` set txs. fresh_txid t bs1"
    "\<forall>tx \<in> fst ` set txs. short_scripts tx" "fresh_txid txid bs1" "txid \<notin> snd ` set txs" "short_scripts tx"
    using bs(3) same(3) by (auto simp: fresh_block_def block)
  from spending_transactions_sats [OF step(1) ok1 bs(2) reward(5) size txs(1-3)]
  have 2: "state_ok cfg bs2" "live_bytes (bs_coinbase bs2)" "bs_lost bs2 = []" "up_height (bs_up bs2) = ?h"
    "pool_sats cfg bs2 = mset [0 ..< mined (?h + 1)]" "fresh_txid txid bs2"
    using txs(4,5) by (simp_all add: reward bs0 pool)
  have "size (pool_sats cfg bs2) < 2 ^ 52" using mined_small by (simp add: 2(5))
  then have small: "length (bytes_sats (bs_coinbase bs2)) < 2 ^ 52" by (simp add: pool_sats_def)
  have "live_bytes (bs_lost bs2)" by (simp add: 2(3))
  from coinbase_transaction_sats [OF step(2) 2(1) bs(2) 2(6) txs(6) 2(2) this small]
  have 3: "state_ok cfg bs3" "up_height (bs_up bs3) = ?h" "live_bytes (bs_lost bs3)"
    "state_sats cfg bs3 + mset (bytes_sats (bs_lost bs3)) = mset [0 ..< mined (?h + 1)]"
    using 2(4,5) by (simp_all add: only_creates_def pool_sats_def 2(3))
  have "size (state_sats cfg bs3) + length (bytes_sats (bs_lost bs3)) = mined (?h + 1)"
    using arg_cong [OF 3(4), of size] by simp
  then have "size (state_sats cfg bs3) + length (bytes_sats (bs_lost bs3)) < 2 ^ 52"
    using mined_small by simp
  from lose_sats_sats [OF step(3) 3(1) bs(2) 3(3) this] 3(2,4) show ?thesis by simp
qed

lemma index_block_sats:
  assumes run: "index_block cfg reorg block bs = Ok bs'"
    and bs: "holds_mined cfg bs" "sat_config cfg" "fresh_block block bs" "up_height (bs_up bs) + 1 \<noteq> 0"
  shows "holds_mined cfg bs' \<and> up_height (bs_up bs') = up_height (bs_up bs) + 1"
proof -
  let ?bs0 = "bs\<lparr>bs_written := 0, bs_outputs := 0\<rparr>"
  have ix: "index_sats (ix_flags cfg)" using bs(2) by (simp add: sat_config_def)
  from run ix obtain bs1 where step: "index_utxo_entries cfg block ?bs0 = Ok bs1"
    "bs_cache bs' = bs_cache bs1" "db_utxo (bs_db bs') = db_utxo (bs_db bs1)"
    "up_height (bs_up bs') = up_height (bs_up bs1) + 1"
    by (auto simp: index_block_def Let_def ok_elims)
  note same = state_ok_cong [of ?bs0 bs, simplified]
  have pre: "holds_mined cfg ?bs0" "fresh_block block ?bs0" "up_height (bs_up ?bs0) + 1 \<noteq> 0"
    using bs same by (simp_all add: holds_mined_def fresh_block_def)
  from index_utxo_entries_sats [OF step(1) pre(1) bs(2) pre(2,3)]
  show ?thesis by (simp add: holds_mined_def step(4) state_ok_cong [OF step(2,3)])
qed

section \<open>A commit\<close>

lemma flush_entry_sats:
  assumes "flush_entry ix (p, b) db = Ok db'" "live_buf ix b" "entries_ok ix (db_utxo db)" "index_sats ix"
    "db_utxo db p \<noteq> None \<longrightarrow> is_special_outpoint p"
    "size (held ix (db_utxo db)) + length (entry_sats ix (ub_vec b)) < 2 ^ 52"
  shows "entries_ok ix (db_utxo db') \<and> (\<forall>q. q \<noteq> p \<longrightarrow> db_utxo db' q = db_utxo db q)
    \<and> held ix (db_utxo db') = held ix (db_utxo db) + mset (entry_sats ix (ub_vec b))"
proof -
  have fin: "finite (dom (db_utxo db))" using assms(3) by (simp add: entries_ok_def)
  obtain m :: utxo_entry_buf where m: "db_utxo db' = (db_utxo db)(p \<mapsto> ub_vec m)" "live_entry ix (ub_vec m)"
    "entry_sats ix (ub_vec m)
      = (case db_utxo db p of Some d \<Rightarrow> entry_sats ix d | None \<Rightarrow> []) @ entry_sats ix (ub_vec b)"
  proof (cases "db_utxo db p")
    case None
    with assms(1) have "db_utxo db' = (db_utxo db)(p \<mapsto> ub_vec b)"
      by (auto simp: flush_entry_def Let_def ok_elims split: if_splits)
    with None assms(2) that [of b] show ?thesis by (simp add: live_buf_def)
  next
    case (Some d)
    with assms(5) have special: "is_special_outpoint p" by simp
    with Some assms(1) obtain new m where step: "buf_as_ref ix b = Some new" "buf_merged ix d new = Some m"
      "db_utxo db' = (db_utxo db)(p \<mapsto> ub_vec m)"
      by (auto simp: flush_entry_def Let_def ok_elims split: if_splits)
    have new: "new = ub_vec b" using step(1) by (rule buf_as_ref_vec)
    have d: "live_entry ix d" using assms(3) Some unfolding entries_ok_def by blast
    have "length (entry_sats ix d) \<le> size (held ix (db_utxo db))"
      using held_remove [OF fin Some, of ix] by simp
    with merged_live [OF step(2) d _ assms(4)] assms(2,6) new
    have "live_buf ix m \<and> entry_sats ix (ub_vec m) = entry_sats ix d @ entry_sats ix (ub_vec b)"
      by (simp add: live_buf_def)
    with step(3) Some that [of m] show ?thesis by (simp add: live_buf_def)
  qed
  have "entries_ok ix (db_utxo db')"
    using assms(3) m(2) unfolding entries_ok_def m(1) by (auto split: if_splits simp del: split_paired_All)
  moreover have "held ix (db_utxo db') = held ix (db_utxo db) + mset (entry_sats ix (ub_vec b))"
    using held_update [OF fin, of ix p "ub_vec m"] unfolding m(1)
    by (cases "db_utxo db p") (simp_all add: m(3) ac_simps)
  ultimately show ?thesis by (simp add: m(1))
qed

text \<open>The entries of the cache, listed in whatever order.\<close>

definition lists_cache :: "(outpoint \<times> utxo_entry_buf) list \<Rightarrow> (outpoint \<rightharpoonup> utxo_entry_buf) \<Rightarrow> bool" where
  "lists_cache es cache = (distinct (map fst es) \<and> map_of es = cache)"

lemma flush_cache_sats:
  assumes "flush_cache ix es db = Ok db'" "distinct (map fst es)" "\<forall>(p, b) \<in> set es. live_buf ix b"
    "entries_ok ix (db_utxo db)" "index_sats ix"
    "\<forall>p \<in> fst ` set es. db_utxo db p \<noteq> None \<longrightarrow> is_special_outpoint p"
    "size (held ix (db_utxo db)) + size (held ix (cached (map_of es))) < 2 ^ 52"
  shows "entries_ok ix (db_utxo db') \<and> held ix (db_utxo db') = held ix (db_utxo db) + held ix (cached (map_of es))"
  using assms
proof (induction es arbitrary: db)
  case Nil
  then show ?case by simp
next
  case (Cons x es)
  obtain p b where x: "x = (p, b)" by (rule prod.exhaust)
  from Cons.prems(1) obtain db1 where step: "flush_entry ix (p, b) db = Ok db1" "flush_cache ix es db1 = Ok db'"
    by (auto simp: x ok_elims)
  have p: "p \<notin> fst ` set es" using Cons.prems(2) by (simp add: x)
  then have "cached (map_of es) p = None" by (simp add: map_of_eq_None_iff)
  moreover have "finite (dom (cached (map_of es)))" by (simp add: finite_dom_map_of)
  ultimately have held: "held ix (cached (map_of (x # es)))
      = mset (entry_sats ix (ub_vec b)) + held ix (cached (map_of es))"
    by (simp add: x cached_update held_insert del: fun_upd_apply)
  have "live_buf ix b" using Cons.prems(3) by (simp add: x)
  moreover have "db_utxo db p \<noteq> None \<longrightarrow> is_special_outpoint p" using Cons.prems(6) by (simp add: x)
  moreover have "size (held ix (db_utxo db)) + length (entry_sats ix (ub_vec b)) < 2 ^ 52"
    using Cons.prems(7) unfolding held by simp
  ultimately have one: "entries_ok ix (db_utxo db1)" "\<And>q. q \<noteq> p \<Longrightarrow> db_utxo db1 q = db_utxo db q"
    "held ix (db_utxo db1) = held ix (db_utxo db) + mset (entry_sats ix (ub_vec b))"
    using flush_entry_sats [OF step(1) _ Cons.prems(4,5)] by blast+
  have "\<forall>q \<in> fst ` set es. db_utxo db1 q \<noteq> None \<longrightarrow> is_special_outpoint q"
  proof (intro ballI impI)
    fix q
    assume q: "q \<in> fst ` set es" "db_utxo db1 q \<noteq> None"
    then have "q \<noteq> p" using p by blast
    with q one(2) have "db_utxo db q \<noteq> None" by simp
    moreover have "q \<in> fst ` set (x # es)" using q(1) by simp
    ultimately show "is_special_outpoint q" using Cons.prems(6) by blast
  qed
  moreover have "size (held ix (db_utxo db1)) + size (held ix (cached (map_of es))) < 2 ^ 52"
    using Cons.prems(7) unfolding held one(3) by simp
  ultimately have "entries_ok ix (db_utxo db')
      \<and> held ix (db_utxo db') = held ix (db_utxo db1) + held ix (cached (map_of es))"
    using Cons.IH [OF step(2)] Cons.prems(2,3,5) one(1) by simp
  then show ?case unfolding held one(3) by (simp add: ac_simps)
qed

lemma commit_sats:
  assumes "commit cfg es (bs_up bs) (bs_db bs) = Ok (up, db)" "lists_cache es (bs_cache bs)"
    "holds_mined cfg bs" "sat_config cfg"
  shows "holds_mined cfg (bs\<lparr>bs_up := up, bs_db := db, bs_cache := Map.empty\<rparr>)"
    and "up_height up = up_height (bs_up bs)"
proof -
  let ?ix = "ix_flags cfg"
  from assms(1) obtain db1 where step: "flush_cache ?ix es (bs_db bs) = Ok db1"
    "db_utxo db = db_utxo db1" "up_height up = up_height (bs_up bs)"
    by (auto simp: commit_def Let_def ok_elims increment_statistic_def set_statistic_def)
  show "up_height up = up_height (bs_up bs)" by (rule step(3))
  have ok: "state_ok cfg bs" "state_sats cfg bs = mset [0 ..< mined (up_height (bs_up bs))]"
    using assms(3) by (simp_all add: holds_mined_def)
  have es: "distinct (map fst es)" "map_of es = bs_cache bs" using assms(2) by (simp_all add: lists_cache_def)
  have cached_es: "bs_cache bs p = Some b" if "(p, b) \<in> set es" for p b
    using es(1) that unfolding es(2) [symmetric] by (rule map_of_is_SomeI)
  have bufs: "\<forall>(p, b) \<in> set es. live_buf ?ix b" using cached_es state_okD(1) [OF ok(1)] by blast
  have special: "\<forall>p \<in> fst ` set es. db_utxo (bs_db bs) p \<noteq> None \<longrightarrow> is_special_outpoint p"
  proof (intro ballI impI)
    fix p
    assume p: "p \<in> fst ` set es" "db_utxo (bs_db bs) p \<noteq> None"
    from p(1) obtain b where "(p, b) \<in> set es" by force
    then have "bs_cache bs p \<noteq> None" using cached_es by simp
    with p(2) ok(1) show "is_special_outpoint p" unfolding state_ok_def by blast
  qed
  have "size (state_sats cfg bs) < 2 ^ 52" using mined_small by (simp add: ok(2))
  then have "size (held ?ix (db_utxo (bs_db bs))) + size (held ?ix (cached (map_of es))) < 2 ^ 52"
    by (simp add: state_sats_def es(2))
  moreover have "entries_ok ?ix (db_utxo (bs_db bs))" "index_sats ?ix"
    using ok(1) assms(4) by (simp_all add: state_ok_def sat_config_def)
  ultimately have "entries_ok ?ix (db_utxo db1)
      \<and> held ?ix (db_utxo db1) = held ?ix (db_utxo (bs_db bs)) + held ?ix (cached (bs_cache bs))"
    using flush_cache_sats [OF step(1) es(1) bufs _ _ special] by (simp add: es(2))
  then show "holds_mined cfg (bs\<lparr>bs_up := up, bs_db := db, bs_cache := Map.empty\<rparr>)"
    using ok(2) by (simp add: holds_mined_def state_ok_def state_sats_def step(2,3))
qed

end
