(* ===== verification/IndexRun.thy ===== *)
theory IndexRun
  imports BlockSats
begin

text \<open>
  The index as a state machine (\<open>Updater::update_index\<close> in \<open>src/index/updater.rs\<close> and
  \<open>Index::update\<close> in \<open>src/index.rs\<close>): a committed database, its savepoints, and the
  updater at work on a write transaction. The steps begin an update at the height after the last header,
  index a block, commit, copy or delete a savepoint, drop the write transaction on an error, and
  restore a savepoint after a reorganisation. In every reachable state the committed
  database holds each sat mined so far exactly once.
\<close>

section \<open>The machine\<close>

definition db_block_count :: "index_db \<Rightarrow> u32" where
  "db_block_count db = (if db_headers db = Map.empty then 0 else Max (dom (db_headers db)) + 1)"

definition empty_db :: index_db where
  "empty_db = \<lparr>db_utxo = Map.empty, db_script = {}, db_satpoints = Map.empty, db_stats = Map.empty,
     db_headers = Map.empty\<rparr>"

text \<open>An update starts with an empty cache and the counters of a new updater.\<close>

definition begin_update :: "index_db \<Rightarrow> block_state" where
  "begin_update db = \<lparr>bs_up = \<lparr>up_height = db_block_count db, up_outputs_cached = 0,
       up_outputs_traversed = 0, up_sat_ranges_since_flush = 0\<rparr>,
     bs_db = db, bs_cache = Map.empty, bs_sent = [], bs_recv = [], bs_coinbase = [], bs_lost = [],
     bs_written = 0, bs_outputs = 0\<rparr>"

record run_state =
  rs_db :: index_db
  rs_saved :: "(u32 \<times> index_db) list"
  rs_work :: "block_state option"

inductive index_reach :: "index_config \<Rightarrow> run_state \<Rightarrow> bool" for cfg where
  reach_new: "index_reach cfg \<lparr>rs_db = empty_db, rs_saved = [], rs_work = None\<rparr>"
| reach_begin: "index_reach cfg st \<Longrightarrow> bs_db bs = rs_db st \<Longrightarrow> bs_cache bs = Map.empty \<Longrightarrow>
    up_height (bs_up bs) = db_block_count (rs_db st) \<Longrightarrow> index_reach cfg (st\<lparr>rs_work := Some bs\<rparr>)"
| reach_block: "index_reach cfg st \<Longrightarrow> rs_work st = Some bs \<Longrightarrow> fresh_block block bs \<Longrightarrow>
    up_height (bs_up bs) + 1 \<noteq> 0 \<Longrightarrow> index_block cfg reorg block bs = Ok bs' \<Longrightarrow>
    index_reach cfg (st\<lparr>rs_work := Some bs'\<rparr>)"
| reach_commit: "index_reach cfg st \<Longrightarrow> rs_work st = Some bs \<Longrightarrow> lists_cache es (bs_cache bs) \<Longrightarrow>
    commit cfg es (bs_up bs) (bs_db bs) = Ok (up, db) \<Longrightarrow>
    index_reach cfg (st\<lparr>rs_db := db, rs_work := Some (bs\<lparr>bs_up := up, bs_db := db, bs_cache := Map.empty\<rparr>)\<rparr>)"
| reach_drop: "index_reach cfg st \<Longrightarrow> index_reach cfg (st\<lparr>rs_work := None\<rparr>)"
| reach_statistic: "index_reach cfg st \<Longrightarrow>
    index_reach cfg (st\<lparr>rs_db := set_statistic k n (rs_db st), rs_work := None\<rparr>)"
| reach_work_statistic: "index_reach cfg st \<Longrightarrow> rs_work st = Some bs \<Longrightarrow>
    index_reach cfg (st\<lparr>rs_work := Some (bs\<lparr>bs_db := set_statistic k n (bs_db bs)\<rparr>)\<rparr>)"
| reach_savepoint: "index_reach cfg st \<Longrightarrow> set saved \<subseteq> insert (h, rs_db st) (set (rs_saved st)) \<Longrightarrow>
    index_reach cfg (st\<lparr>rs_saved := saved\<rparr>)"
| reach_restore: "index_reach cfg st \<Longrightarrow> (h, db) \<in> set (rs_saved st) \<Longrightarrow>
    index_reach cfg (st\<lparr>rs_db := db, rs_work := None\<rparr>)"

section \<open>The invariant\<close>

definition headers_below :: "u32 \<Rightarrow> index_db \<Rightarrow> bool" where
  "headers_below h db = (dom (db_headers db) = {k. k < h})"

definition db_complete :: "index_config \<Rightarrow> index_db \<Rightarrow> bool" where
  "db_complete cfg db = (entries_ok (ix_flags cfg) (db_utxo db)
     \<and> held (ix_flags cfg) (db_utxo db) = mset [0 ..< mined (db_block_count db)]
     \<and> headers_below (db_block_count db) db)"

definition work_complete :: "index_config \<Rightarrow> block_state \<Rightarrow> bool" where
  "work_complete cfg bs = (holds_mined cfg bs \<and> headers_below (up_height (bs_up bs)) (bs_db bs))"

lemma headers_below_count: "headers_below h db \<Longrightarrow> db_block_count db = h"
proof -
  assume h: "headers_below h db"
  show ?thesis
  proof (cases "h = 0")
    case True
    with h have "db_headers db = Map.empty" by (simp add: headers_below_def)
    with True show ?thesis by (simp add: db_block_count_def)
  next
    case False
    then have u: "unat (h - 1) = unat h - 1" "0 < unat h" by (simp_all add: unat_minus_one unat_gt_0)
    then have le: "k \<le> h - 1" if "k < h" for k :: u32
      using that by (simp add: word_less_nat_alt word_le_nat_alt)
    have "h - 1 < h" using u by (simp add: word_less_nat_alt)
    then have "Max (dom (db_headers db)) = h - 1"
      using h le by (intro Max_eqI) (auto simp: headers_below_def)
    moreover have "db_headers db \<noteq> Map.empty"
      using h \<open>h - 1 < h\<close> by (auto simp: headers_below_def)
    ultimately show ?thesis by (simp add: db_block_count_def)
  qed
qed

lemma mined_0 [simp]: "mined 0 = 0"
  using height_starting_sat_nat(1) [of 0 0 0] by (simp add: mined_def)

lemma headers_below_insert:
  assumes "headers_below h db" "h + 1 \<noteq> 0" "db_headers db' = (db_headers db)(h \<mapsto> x)"
  shows "headers_below (h + 1) db'"
proof -
  have u: "unat (h + 1) = Suc (unat h)" using assms(2) unatSuc [of h] by (simp add: add.commute)
  have "k < h + 1 \<longleftrightarrow> k = h \<or> k < h" for k
    by (auto simp: word_less_nat_alt u word_unat_eq_iff)
  then show ?thesis using assms(1,3) by (auto simp: headers_below_def)
qed

text \<open>Indexing a block stores its header and no other.\<close>

lemma take_input_headers: "take_input cfg p bs = Ok (b, bs') \<Longrightarrow> db_headers (bs_db bs') = db_headers (bs_db bs)"
  by (auto simp: take_input_def take_from_db_def take_from_node_def Let_def ok_elims
      split: option.splits list.splits if_splits)

lemma take_inputs_headers:
  "take_inputs cfg ps bs = Ok (es, bs') \<Longrightarrow> db_headers (bs_db bs') = db_headers (bs_db bs)"
proof (induction ps arbitrary: bs es)
  case (Cons p ps)
  then obtain b bs1 es' where "take_input cfg p bs = Ok (b, bs1)" "take_inputs cfg ps bs1 = Ok (es', bs')"
    by (auto simp: ok_elims)
  with Cons.IH take_input_headers show ?case by metis
qed simp

lemma fill_outputs_headers:
  "fill_outputs ix c tx txid inputs bufs bs = Some (bufs', bs') \<Longrightarrow> db_headers (bs_db bs') = db_headers (bs_db bs)"
  by (auto simp: fill_outputs_def put_walk_def bind_eq_Some_conv split: if_splits)

lemma index_transaction_headers:
  assumes "index_transaction cfg c tx txid bs = Ok bs'"
  shows "db_headers (bs_db bs') = db_headers (bs_db bs)"
proof -
  from assms obtain es bs1 inputs bufs bs2 where
    "(if c then Ok ([], bs) else take_inputs cfg (tx_inputs tx) bs) = Ok (es, bs1)"
    "fill_outputs (ix_flags cfg) c tx txid inputs (map (\<lambda>_. buf_new) (tx_outputs tx)) bs1 = Some (bufs, bs2)"
    "bs_db bs' = bs_db bs2"
    unfolding index_transaction_def Let_def
    by (clarsimp simp: and_then_eq_Ok ok_or_eq split del: if_split)
  then show ?thesis using fill_outputs_headers take_inputs_headers by (metis prod.inject result.inject(2))
qed

lemma index_transactions_headers:
  "index_transactions cfg txs bs = Ok bs' \<Longrightarrow> db_headers (bs_db bs') = db_headers (bs_db bs)"
proof (induction cfg txs bs rule: index_transactions.induct)
  case (2 cfg c tx txid txs bs)
  then obtain bs1 where "index_transaction cfg c tx txid bs = Ok bs1" "index_transactions cfg txs bs1 = Ok bs'"
    by (auto simp: ok_elims)
  with 2 index_transaction_headers show ?case by metis
qed simp

lemma note_lost_headers: "note_lost cs n db = (n', db') \<Longrightarrow> db_headers db' = db_headers db"
  by (induction cs n db rule: note_lost.induct) (auto simp: Let_def split: if_splits)

lemma lose_sats_headers: "lose_sats cfg bs = Ok bs' \<Longrightarrow> db_headers (bs_db bs') = db_headers (bs_db bs)"
  by (auto simp: lose_sats_def Let_def ok_elims set_statistic_def dest: note_lost_headers
      split: if_splits prod.splits)

lemma index_block_headers:
  assumes "index_block cfg reorg block bs = Ok bs'" "sat_config cfg"
  shows "\<exists>h. db_headers (bs_db bs') = (db_headers (bs_db bs))(h \<mapsto> bd_header block) \<and> up_height (bs_up bs') = h + 1"
proof -
  let ?bs0 = "bs\<lparr>bs_written := 0, bs_outputs := 0\<rparr>"
  have ix: "index_sats (ix_flags cfg)" using assms(2) by (simp add: sat_config_def)
  from assms(1) ix obtain bs1 where step: "index_utxo_entries cfg block ?bs0 = Ok bs1"
    "db_headers (bs_db bs') = (db_headers (bs_db bs1))(up_height (bs_up bs1) \<mapsto> bd_header block)"
    "up_height (bs_up bs') = up_height (bs_up bs1) + 1"
    unfolding index_block_def Let_def by (clarsimp simp: ok_elims)
  from step(1) obtain bs2 where "index_transactions cfg (transaction_order (bd_txdata block))
      (coinbase_reward cfg ((send_outpoints cfg block ?bs0)\<lparr>bs_coinbase := [], bs_lost := []\<rparr>)) = Ok bs2"
    "lose_sats cfg bs2 = Ok bs1"
    unfolding index_utxo_entries_def Let_def and_then_eq_Ok by blast
  then have "db_headers (bs_db bs1)
      = db_headers (bs_db (coinbase_reward cfg ((send_outpoints cfg block ?bs0)\<lparr>bs_coinbase := [], bs_lost := []\<rparr>)))"
    using index_transactions_headers lose_sats_headers by metis
  also have "\<dots> = db_headers (bs_db bs)"
    by (simp add: coinbase_reward_def send_outpoints_def Let_def)
  finally show ?thesis using step(2,3) by auto
qed

lemma work_complete_block:
  assumes "work_complete cfg bs" "sat_config cfg" "fresh_block block bs" "up_height (bs_up bs) + 1 \<noteq> 0"
    "index_block cfg reorg block bs = Ok bs'"
  shows "work_complete cfg bs'"
proof -
  from index_block_sats [OF assms(5) _ assms(2-4)] assms(1)
  have "holds_mined cfg bs'" "up_height (bs_up bs') = up_height (bs_up bs) + 1"
    by (simp_all add: work_complete_def)
  moreover from index_block_headers [OF assms(5,2)] calculation(2)
  have "db_headers (bs_db bs') = (db_headers (bs_db bs))(up_height (bs_up bs) \<mapsto> bd_header block)" by auto
  moreover have "headers_below (up_height (bs_up bs)) (bs_db bs)" using assms(1) by (simp add: work_complete_def)
  ultimately show ?thesis
    using headers_below_insert [OF _ assms(4)] unfolding work_complete_def by metis
qed

lemma flush_cache_headers: "flush_cache ix es db = Ok db' \<Longrightarrow> db_headers db' = db_headers db"
proof (induction es arbitrary: db)
  case (Cons e es)
  then obtain db1 where "flush_entry ix e db = Ok db1" "flush_cache ix es db1 = Ok db'" by (auto simp: ok_elims)
  moreover have "db_headers db1 = db_headers db"
    using calculation(1) by (auto simp: flush_entry_def Let_def ok_elims split: prod.splits if_splits)
  ultimately show ?case using Cons.IH by simp
qed simp

lemma commit_headers: "commit cfg es up0 db0 = Ok (up, db) \<Longrightarrow> db_headers db = db_headers db0"
  using flush_cache_headers by (auto simp: commit_def Let_def ok_elims increment_statistic_def set_statistic_def)

lemma work_complete_commit:
  assumes "work_complete cfg bs" "sat_config cfg" "lists_cache es (bs_cache bs)"
    "commit cfg es (bs_up bs) (bs_db bs) = Ok (up, db)"
  shows "work_complete cfg (bs\<lparr>bs_up := up, bs_db := db, bs_cache := Map.empty\<rparr>) \<and> db_complete cfg db"
proof -
  let ?bs = "bs\<lparr>bs_up := up, bs_db := db, bs_cache := Map.empty\<rparr>"
  have "holds_mined cfg bs" using assms(1) by (simp add: work_complete_def)
  note c = commit_sats [OF assms(4,3) this assms(2)]
  have "db_headers db = db_headers (bs_db bs)" using assms(4) by (rule commit_headers)
  then have h: "headers_below (up_height up) db"
    using assms(1) c(2) by (simp add: work_complete_def headers_below_def)
  with c(1) have "work_complete cfg ?bs" by (simp add: work_complete_def)
  moreover have "db_complete cfg db"
    using c(1) h headers_below_count [OF h]
    by (simp add: db_complete_def holds_mined_def state_ok_def state_sats_def)
  ultimately show ?thesis ..
qed

lemma begin_update_complete:
  assumes "db_complete cfg (bs_db bs)" "bs_cache bs = Map.empty" "up_height (bs_up bs) = db_block_count (bs_db bs)"
  shows "work_complete cfg bs"
  using assms by (simp add: db_complete_def work_complete_def holds_mined_def state_ok_def
      state_sats_def entries_ok_def)

lemma set_statistic_simps [simp]:
  "db_utxo (set_statistic k n db) = db_utxo db" "db_headers (set_statistic k n db) = db_headers db"
  "db_block_count (set_statistic k n db) = db_block_count db"
  by (simp_all add: set_statistic_def db_block_count_def)

lemma statistic_complete: "db_complete cfg db \<Longrightarrow> db_complete cfg (set_statistic k n db)"
  unfolding db_complete_def headers_below_def by simp

lemma empty_complete: "db_complete cfg empty_db"
  by (simp add: db_complete_def empty_db_def db_block_count_def headers_below_def entries_ok_def)

lemma reach_complete:
  assumes "index_reach cfg st" "sat_config cfg"
  shows "db_complete cfg (rs_db st) \<and> (\<forall>s \<in> set (rs_saved st). db_complete cfg (snd s))
    \<and> pred_option (work_complete cfg) (rs_work st)"
  using assms
proof (induction rule: index_reach.induct)
  case (reach_block st bs block reorg bs')
  then show ?case using work_complete_block [of cfg bs block reorg bs'] by simp
next
  case (reach_commit st bs es up db)
  then show ?case using work_complete_commit [of cfg bs es up db] by simp
next
  case (reach_restore st h db)
  then show ?case by (auto dest: bspec)
next
  case (reach_begin st bs)
  then show ?case using begin_update_complete [of cfg bs] by simp
next
  case (reach_savepoint st saved h)
  then show ?case by auto
next
  case (reach_work_statistic st bs k n)
  then show ?case
    by (simp add: work_complete_def holds_mined_def state_ok_def state_sats_def headers_below_def)
qed (simp_all add: empty_complete statistic_complete)

section \<open>A first block\<close>

text \<open>The genesis block, whose only transaction spends the whole subsidy, on an index of sats.\<close>

definition genesis_config :: index_config where
  "genesis_config = \<lparr>ix_flags = \<lparr>index_sats = True, index_addresses = False, feature_sats = True,
     debug_assertions = False\<rparr>, ix_full = True\<rparr>"

definition genesis_tx :: transaction where
  "genesis_tx = \<lparr>tx_inputs = [null_outpoint], tx_outputs = [\<lparr>to_value = 5000000000, to_script = [81]\<rparr>]\<rparr>"

definition genesis_block :: block_data where
  "genesis_block = \<lparr>bd_header = [1], bd_txdata = [(genesis_tx, [7])]\<rparr>"

lemma genesis_reward: "height_subsidy 0 = 5000000000" "height_starting_sat 0 = 0"
proof -
  have "unat (height_subsidy 0) = 5000000000" "unat (height_starting_sat 0) = 0"
    using height_starting_sat_nat [of 0 0 0] by simp_all
  then show "height_subsidy 0 = 5000000000" "height_starting_sat 0 = 0"
    by (simp_all add: word_unat_eq_iff)
qed

lemma genesis_transaction:
  assumes "bs_coinbase bs = range_bytes [(0, 5000000000)]" "bs_lost bs = []" "bs_cache bs = Map.empty"
  obtains b bs' where "index_transaction genesis_config True genesis_tx [7] bs = Ok bs'"
    "bs_cache bs' = [([7], 0) \<mapsto> b]" "bs_lost bs' = []" "live_buf (ix_flags genesis_config) b"
    "bs_db bs' = (bs_db bs)\<lparr>db_satpoints := db_satpoints (bs_db bs')\<rparr>" "up_height (bs_up bs') = up_height (bs_up bs)"
proof -
  let ?ix = "ix_flags genesis_config"
  let ?rss = "[[(0, 5000000000)]] :: sat_range list list"
  have live: "\<forall>rs \<in> set ?rss. \<forall>r \<in> set rs. live_range r"
    by (simp add: live_range_def walk_range_def sat_range_ok_def)
  then have ranges: "\<forall>rs \<in> set ?rss. \<forall>r \<in> set rs. walk_range r" by (simp add: live_range_def)
  have ix: "index_sats ?ix" "\<not> index_addresses ?ix" "feature_sats ?ix" by (simp_all add: genesis_config_def)
  have len: "length (concat (map sats_of (concat ?rss))) = 5000000000" by (simp add: sats_of_def)
  have tx: "length (tx_outputs genesis_tx) \<le> 2 ^ 32" by (simp add: genesis_tx_def)
  have enough: "sum_list (out_values (tx_outputs genesis_tx)) \<le> length (concat (map sats_of (concat ?rss)))"
    unfolding len by (simp add: genesis_tx_def)
  obtain bufs w where run: "index_transaction_sats ?ix genesis_tx [7] (map (\<lambda>_. buf_new) (tx_outputs genesis_tx))
      (map range_bytes ?rss) [] (walk_of bs) = Some (bufs, [] @ leftover_of w, w\<lparr>w_pending := None, w_iter := []\<rparr>)"
    by (rule index_transaction_sats_total [OF ranges ix(1) tx enough, of "[7]" "[]" "walk_of bs"])
  obtain ls where ls: "[] @ leftover_of w = [] @ range_bytes ls" "\<forall>r \<in> set ls. live_range r"
    "length bufs = length (tx_outputs genesis_tx)"
    "\<forall>i < length (tx_outputs genesis_tx). filled_by (\<lambda>r. fst r < snd r) ?ix
        (cuts (out_values (tx_outputs genesis_tx)) (range_sats (concat ?rss)) ! i) buf_new (bufs ! i)"
    "concat (cuts (out_values (tx_outputs genesis_tx)) (range_sats (concat ?rss))) @ range_sats ls
      = range_sats (concat ?rss)"
    using run live by (rule transaction_sats_split)
  have empty: "length (range_sats ls) = 0"
    using arg_cong [OF ls(5), of length] len by (simp add: concat_cuts genesis_tx_def)
  have "ls = []" using live_range_count [OF ls(2)] unfolding empty by simp
  then have left: "leftover_of w = []" using ls(1) by simp
  have "length bufs = 1" using ls(3) by (simp add: genesis_tx_def)
  then obtain b where b: "bufs = [b]" by (cases bufs) auto
  have small: "length (range_sats (concat ?rss)) < 2 ^ 52" unfolding len by simp
  have ready: "\<forall>x \<in> set bufs. live_buf ?ix x"
    using outputs_finished [OF ls(4,3) _ ix(1) small, of bufs] ix(2) by (simp add: genesis_tx_def)
  let ?bs = "(put_walk (w\<lparr>w_pending := None, w_iter := []\<rparr>) bs)\<lparr>bs_lost := [], bs_cache := [([7], 0) \<mapsto> b]\<rparr>"
  have "index_transaction genesis_config True genesis_tx [7] bs = Ok ?bs"
    using run ix assms unfolding index_transaction_def fill_outputs_def Let_def
    by (simp add: left b parse_entries_def)
  then show ?thesis by (rule that) (use ready b in \<open>simp_all add: put_walk_def assms(2)\<close>)
qed

lemma genesis_indexed:
  obtains b bs' where "index_block genesis_config (Ok ()) genesis_block (begin_update empty_db) = Ok bs'"
    "bs_cache bs' = [([7], 0) \<mapsto> b]" "live_buf (ix_flags genesis_config) b" "db_utxo (bs_db bs') = Map.empty"
    "up_height (bs_up bs') = 1"
proof -
  define bs1 where "bs1 = coinbase_reward genesis_config
      ((send_outpoints genesis_config genesis_block ((begin_update empty_db)\<lparr>bs_written := 0, bs_outputs := 0\<rparr>))
        \<lparr>bs_coinbase := [], bs_lost := []\<rparr>)"
  have bs1: "bs_coinbase bs1 = range_bytes [(0, 5000000000)]" "bs_lost bs1 = []" "bs_cache bs1 = Map.empty"
    "db_utxo (bs_db bs1) = Map.empty" "up_height (bs_up bs1) = 0"
    by (simp_all add: bs1_def coinbase_reward_def send_outpoints_def genesis_config_def begin_update_def
        empty_db_def db_block_count_def genesis_reward Let_def)
  from bs1(1-3) obtain b bs2 where tx: "index_transaction genesis_config True genesis_tx [7] bs1 = Ok bs2"
    "bs_cache bs2 = [([7], 0) \<mapsto> b]" "bs_lost bs2 = []" "live_buf (ix_flags genesis_config) b"
    "bs_db bs2 = (bs_db bs1)\<lparr>db_satpoints := db_satpoints (bs_db bs2)\<rparr>" "up_height (bs_up bs2) = up_height (bs_up bs1)"
    by (rule genesis_transaction)
  have db: "db_utxo (bs_db bs2) = Map.empty" using arg_cong [OF tx(5), of db_utxo] bs1(4) by simp
  have lose: "lose_sats genesis_config bs2
      = Ok (bs2\<lparr>bs_db := set_statistic LostSats (stat_of (bs_db bs2) LostSats) (bs_db bs2)\<rparr>)"
    using tx(3) by (simp add: lose_sats_def genesis_config_def Let_def)
  have "index_utxo_entries genesis_config genesis_block ((begin_update empty_db)\<lparr>bs_written := 0, bs_outputs := 0\<rparr>)
      = lose_sats genesis_config bs2"
    unfolding index_utxo_entries_def Let_def bs1_def [symmetric]
    by (simp add: genesis_block_def transaction_order_def tx(1))
  with lose show ?thesis
    by (intro that [of _ b], simp add: index_block_def genesis_config_def Let_def)
      (simp_all add: tx(2,4,6) db bs1(5))
qed

lemma genesis_not_special: "\<not> is_special_outpoint ([7], 0)"
  by (auto simp: is_special_outpoint_def null_outpoint_def unbound_outpoint_def dest: arg_cong [of _ _ length])

lemma genesis_commits:
  assumes "live_buf (ix_flags genesis_config) b"
  obtains up' db' where "commit genesis_config [(([7], 0), b)] up db = Ok (up', db')"
proof -
  obtain p rs where p: "entry_parse (ix_flags genesis_config) (ub_vec b) = Some p"
    using assms live_entry_parse unfolding live_buf_def by blast
  have "buf_as_ref (ix_flags genesis_config) b = Some (ub_vec b)" using assms by (simp add: live_buf_def)
  moreover have "\<not> index_addresses (ix_flags genesis_config)" by (simp add: genesis_config_def)
  ultimately show ?thesis using p genesis_not_special by (intro that) (simp add: commit_def flush_entry_def Let_def)
qed

lemma genesis_sat_config: "sat_config genesis_config"
  by (simp add: sat_config_def genesis_config_def)

lemma genesis_committed:
  obtains db e where "index_reach genesis_config \<lparr>rs_db = db, rs_saved = [], rs_work = None\<rparr>"
    "db_block_count db = 1" "db_utxo db = [([7], 0) \<mapsto> e]" "dom (db_headers db) = {0}"
proof -
  let ?st = "\<lparr>rs_db = empty_db, rs_saved = [], rs_work = Some (begin_update empty_db)\<rparr>"
  obtain b bs' where run: "index_block genesis_config (Ok ()) genesis_block (begin_update empty_db) = Ok bs'"
    "bs_cache bs' = [([7], 0) \<mapsto> b]" "live_buf (ix_flags genesis_config) b" "db_utxo (bs_db bs') = Map.empty"
    "up_height (bs_up bs') = 1" by (rule genesis_indexed)
  have "index_reach genesis_config ?st"
    using reach_begin [OF reach_new [of genesis_config], of "begin_update empty_db"]
    by (simp add: begin_update_def)
  moreover have "fresh_block genesis_block (begin_update empty_db)"
    by (simp add: fresh_block_def genesis_block_def fresh_txid_def begin_update_def empty_db_def
        short_scripts_def genesis_tx_def)
  moreover have "up_height (bs_up (begin_update empty_db)) + 1 \<noteq> 0"
    by (simp add: begin_update_def empty_db_def db_block_count_def)
  ultimately have reach: "index_reach genesis_config
      \<lparr>rs_db = empty_db, rs_saved = [], rs_work = Some bs'\<rparr>"
    using reach_block [OF _ _ _ _ run(1), of ?st] by simp
  have "lists_cache [(([7], 0), b)] (bs_cache bs')" by (simp add: lists_cache_def run(2))
  moreover obtain up db where com: "commit genesis_config [(([7], 0), b)] (bs_up bs') (bs_db bs') = Ok (up, db)"
    using run(3) by (rule genesis_commits)
  ultimately have reach2: "index_reach genesis_config
      \<lparr>rs_db = db, rs_saved = [], rs_work = Some (bs'\<lparr>bs_up := up, bs_db := db, bs_cache := Map.empty\<rparr>)\<rparr>"
    using reach_commit [OF reach _ _ com] by simp
  have "work_complete genesis_config bs'" using reach_complete [OF reach genesis_sat_config] by simp
  then have "headers_below 1 (bs_db bs')" by (simp add: work_complete_def run(5))
  moreover have "db_headers db = db_headers (bs_db bs')" using com by (rule commit_headers)
  ultimately have h: "headers_below 1 db" by (simp add: headers_below_def)
  then have "dom (db_headers db) = {0}" by (auto simp: headers_below_def word_less_nat_alt word_unat_eq_iff)
  moreover have "db_utxo db = [([7], 0) \<mapsto> ub_vec b]"
    using com run(4) genesis_not_special
    by (auto simp: commit_def flush_entry_def Let_def ok_elims increment_statistic_def genesis_config_def)
  ultimately show ?thesis using that [of db "ub_vec b"] reach_drop [OF reach2] headers_below_count [OF h] by simp
qed

section \<open>Properties\<close>

text \<open>C2: whatever blocks are indexed, whenever the cache is committed, the transaction dropped or a
  savepoint restored, the committed database of an index with the sat index on holds each sat
  mined up to its last block exactly once, and nothing else. The blocks are those of the step
  \<open>reach_block\<close>: none repeats the id of a transaction whose outputs the index still has
  (\<open>fresh_block\<close>; BIP 30 demands it, and two pairs of coinbase transactions from before it destroy the
  sats of the first of each pair), scripts keep below the limit of their length, and the
  height below the limit of its type.\<close>

theorem sats_conserved:
  assumes "index_reach cfg st" "sat_config cfg"
  shows "held (ix_flags cfg) (db_utxo (rs_db st)) = mset [0 ..< mined (db_block_count (rs_db st))]"
  using reach_complete [OF assms] by (simp add: db_complete_def)

theorem sats_conserved_witness:
  "\<exists>db. db_block_count db = 1
    \<and> held (ix_flags genesis_config) (db_utxo db) = mset [0 ..< mined 1]"
proof -
  obtain db e where db: "index_reach genesis_config \<lparr>rs_db = db, rs_saved = [], rs_work = None\<rparr>"
    "db_block_count db = 1" "db_utxo db = [([7], 0) \<mapsto> e]" "dom (db_headers db) = {0}"
    by (rule genesis_committed)
  from sats_conserved [OF db(1) genesis_sat_config] db(2) show ?thesis by auto
qed

end
