(* ===== verification/Text.thy ===== *)
theory Text
  imports Prelude
begin

text \<open>
  The parts of Rust's \<open>str\<close> and integer formatting that the crates use. A string is the
  list of its UTF-8 bytes, so \<open>length\<close> is \<open>str::len\<close>; splitting on a multi-byte character
  is splitting on its bytes, which UTF-8 allows because no encoding of a character occurs
  inside another. \<open>parse_uint\<close> is \<open>str::parse\<close> at an unsigned type with the given largest
  value, with the errors of \<open>ParseIntError\<close>.
\<close>

named_theorems text_simps \<open>rewrites for splitting, printing and parsing\<close>

section \<open>Splitting\<close>

definition starts_with :: "string \<Rightarrow> string \<Rightarrow> bool" where
  "starts_with p s = (take (length p) s = p)"

fun split_once :: "string \<Rightarrow> string \<Rightarrow> (string \<times> string) option" where
  "split_once p [] = (if p = [] then Some ([], []) else None)"
| "split_once p (c # cs) =
     (if starts_with p (c # cs) then Some ([], drop (length p) (c # cs))
      else map_option (\<lambda>(a, b). (c # a, b)) (split_once p cs))"

fun split_on :: "char \<Rightarrow> string \<Rightarrow> string list" where
  "split_on c [] = [[]]"
| "split_on c (x # xs) =
     (if x = c then [] # split_on c xs
      else case split_on c xs of [] \<Rightarrow> [[x]] | w # ws \<Rightarrow> (x # w) # ws)"

text \<open>What \<open>split\<close> undoes: the words with the separator between them.\<close>

fun join_on :: "char \<Rightarrow> string list \<Rightarrow> string" where
  "join_on c [] = []"
| "join_on c [w] = w"
| "join_on c (w # ws) = w @ c # join_on c ws"

lemma split_on_nonempty [simp]: "split_on c s \<noteq> []"
  by (cases "(c, s)" rule: split_on.cases) (auto split: list.splits)

lemma join_split_on: "join_on c (split_on c s) = s"
proof (induction c s rule: split_on.induct)
  case (2 c x xs)
  then show ?case by (cases "split_on c xs" rule: list.exhaust [case_names Nil Cons]; cases "tl (split_on c xs)") auto
qed simp

lemma split_on_parts: "w \<in> set (split_on c s) \<Longrightarrow> c \<notin> set w"
proof (induction c s arbitrary: w rule: split_on.induct)
  case (2 c x xs)
  then show ?case by (auto split: if_splits list.splits)
qed simp

definition rsplit_once :: "string \<Rightarrow> string \<Rightarrow> (string \<times> string) option" where
  "rsplit_once p s = map_option (\<lambda>(a, b). (rev b, rev a)) (split_once (rev p) (rev s))"

definition contains :: "string \<Rightarrow> string \<Rightarrow> bool" where
  "contains p s = (split_once p s \<noteq> None)"

definition strip_prefix :: "string \<Rightarrow> string \<Rightarrow> string option" where
  "strip_prefix p s = (if starts_with p s then Some (drop (length p) s) else None)"

definition strip_suffix :: "string \<Rightarrow> string \<Rightarrow> string option" where
  "strip_suffix p s = map_option rev (strip_prefix (rev p) (rev s))"

definition trim_end_matches :: "char \<Rightarrow> string \<Rightarrow> string" where
  "trim_end_matches c s = rev (dropWhile ((=) c) (rev s))"

lemma starts_with_append [simp]: "starts_with p (p @ s)"
  by (simp add: starts_with_def)

lemma starts_with_Cons [text_simps]:
  "starts_with (p # ps) [] = False"
  "starts_with (p # ps) (c # cs) \<longleftrightarrow> p = c \<and> starts_with ps cs"
  "starts_with [] s"
  by (auto simp: starts_with_def)

lemma split_once_hit [text_simps]: "split_once (p # ps) ((p # ps) @ s) = Some ([], s)"
  using starts_with_append [of "p # ps" s] by simp

lemma split_once_skip [text_simps]:
  "p \<notin> set xs \<Longrightarrow>
   split_once (p # ps) (xs @ s) = map_option (\<lambda>(a, b). (xs @ a, b)) (split_once (p # ps) s)"
proof (induction xs)
  case Nil
  then show ?case by (simp add: option.map_ident case_prod_beta)
next
  case (Cons x xs)
  then show ?case
    by (auto simp: starts_with_Cons option.map_comp comp_def case_prod_beta)
qed

lemma split_once_found:
  "p \<notin> set xs \<Longrightarrow> split_once (p # ps) (xs @ p # ps @ s) = Some (xs, s)"
  using split_once_skip [of p xs ps "p # ps @ s"] split_once_hit [of p ps s] by simp

lemma split_once_absent [text_simps]: "p \<notin> set s \<Longrightarrow> split_once (p # ps) s = None"
  by (induction s) (auto simp: starts_with_Cons)

lemma split_once_Some_append: "split_once p s = Some (a, b) \<Longrightarrow> s = a @ p @ b"
proof (induction s arbitrary: a)
  case Nil
  then show ?case by (auto split: if_splits)
next
  case (Cons c cs)
  then show ?case
    by (auto split: if_splits simp: starts_with_def) (metis append_take_drop_id)
qed

section \<open>Printing and parsing integers\<close>

datatype parse_int_error = Empty | InvalidDigit | PosOverflow

definition digit_char :: "nat \<Rightarrow> char" where
  "digit_char d = char_of (48 + d)"

definition digit_of :: "char \<Rightarrow> nat option" where
  "digit_of c = (let k = of_char c :: nat in if 48 \<le> k \<and> k \<le> 57 then Some (k - 48) else None)"

function show_nat :: "nat \<Rightarrow> string" where
  "show_nat n =
     (if n < 10 then [digit_char n] else show_nat (n div 10) @ [digit_char (n mod 10)])"
  by pat_completeness auto
termination
  by (relation "measure id") auto

declare show_nat.simps [simp del]

fun parse_digits :: "nat \<Rightarrow> nat \<Rightarrow> string \<Rightarrow> (parse_int_error, nat) result" where
  "parse_digits mx acc [] = Ok acc"
| "parse_digits mx acc (c # cs) =
     (case digit_of c of
        None \<Rightarrow> Err InvalidDigit
      | Some d \<Rightarrow> if acc * 10 + d > mx then Err PosOverflow
                  else parse_digits mx (acc * 10 + d) cs)"

fun parse_uint :: "nat \<Rightarrow> string \<Rightarrow> (parse_int_error, nat) result" where
  "parse_uint mx [] = Err Empty"
| "parse_uint mx [c] =
     (if c = CHR ''+'' \<or> c = CHR ''-'' then Err InvalidDigit else parse_digits mx 0 [c])"
| "parse_uint mx (c # cs) =
     (if c = CHR ''+'' then parse_digits mx 0 cs else parse_digits mx 0 (c # cs))"

abbreviation u64_max :: nat where "u64_max \<equiv> 18446744073709551615"
abbreviation u32_max :: nat where "u32_max \<equiv> 4294967295"

definition parse_u64 :: "string \<Rightarrow> (parse_int_error, u64) result" where
  "parse_u64 s = (case parse_uint u64_max s of Err e \<Rightarrow> Err e | Ok n \<Rightarrow> Ok (word_of_nat n))"

definition parse_u32 :: "string \<Rightarrow> (parse_int_error, u32) result" where
  "parse_u32 s = (case parse_uint u32_max s of Err e \<Rightarrow> Err e | Ok n \<Rightarrow> Ok (word_of_nat n))"

definition show_word :: "'a::len word \<Rightarrow> string" where
  "show_word w = show_nat (unat w)"

lemma of_char_digit_char: "d < 10 \<Longrightarrow> of_char (digit_char d) = 48 + d"
  by (simp add: digit_char_def)

lemma digit_of_digit_char [simp]: "d < 10 \<Longrightarrow> digit_of (digit_char d) = Some d"
  by (simp add: digit_of_def of_char_digit_char Let_def)

lemma show_nat_digits: "c \<in> set (show_nat n) \<Longrightarrow> \<exists>d < 10. c = digit_char d"
proof (induction n rule: show_nat.induct)
  case (1 n)
  show ?case
  proof (cases "n < 10")
    case True
    with "1.prems" show ?thesis by (auto simp: show_nat.simps [of n])
  next
    case False
    with "1.prems" consider "c \<in> set (show_nat (n div 10))" | "c = digit_char (n mod 10)"
      by (auto simp: show_nat.simps [of n])
    then show ?thesis
    proof cases
      case 1
      then show ?thesis by (rule "1.IH" [OF False])
    next
      case 2
      then show ?thesis by (intro exI [of _ "n mod 10"]) simp
    qed
  qed
qed

lemma show_nat_nonempty [simp]: "show_nat n \<noteq> []"
  by (simp add: show_nat.simps [of n])

lemma not_digit_not_in_show:
  assumes "digit_of c = None"
  shows "c \<notin> set (show_nat n)"
proof
  assume "c \<in> set (show_nat n)"
  then obtain d where "d < 10" "c = digit_char d" using show_nat_digits by blast
  with assms show False by simp
qed

lemma show_nat_mult: "0 < n \<Longrightarrow> d < 10 \<Longrightarrow> show_nat (n * 10 + d) = show_nat n @ [digit_char d]"
  by (subst show_nat.simps) simp

lemma parse_digits_append:
  "parse_digits mx acc (xs @ ys) =
     (case parse_digits mx acc xs of Err e \<Rightarrow> Err e | Ok n \<Rightarrow> parse_digits mx n ys)"
  by (induction xs arbitrary: acc) (auto split: option.splits)

lemma parse_digits_show: "n \<le> mx \<Longrightarrow> parse_digits mx 0 (show_nat n) = Ok n"
proof (induction n rule: show_nat.induct)
  case (1 n)
  show ?case
  proof (cases "n < 10")
    case True
    with "1.prems" show ?thesis by (simp add: show_nat.simps [of n])
  next
    case False
    have "parse_digits mx 0 (show_nat (n div 10)) = Ok (n div 10)"
      by (rule "1.IH" [OF False]) (use "1.prems" in \<open>simp add: div_le_dividend le_trans\<close>)
    with False "1.prems" show ?thesis
      by (simp add: show_nat.simps [of n] parse_digits_append)
  qed
qed

lemma digit_of_sign [simp]: "digit_of CHR ''+'' = None" "digit_of CHR ''-'' = None"
  by (simp_all add: digit_of_def)

lemma digit_char_not_sign [simp]:
  assumes "d < 10"
  shows "digit_char d \<noteq> CHR ''+''" "digit_char d \<noteq> CHR ''-''"
  using digit_of_digit_char [OF assms] by force+

lemma parse_uint_show [text_simps]:
  assumes "n \<le> mx"
  shows "parse_uint mx (show_nat n) = Ok n"
proof -
  obtain c cs where s: "show_nat n = c # cs"
    by (cases "show_nat n") auto
  then obtain d where "d < 10" "c = digit_char d"
    using show_nat_digits [of c n] by auto
  then have "c \<noteq> CHR ''+''" "c \<noteq> CHR ''-''" by auto
  then have "parse_uint mx (show_nat n) = parse_digits mx 0 (show_nat n)"
    by (cases cs) (simp_all add: s)
  with assms show ?thesis by (simp add: parse_digits_show)
qed

lemma parse_u64_show [text_simps]: "parse_u64 (show_word w) = Ok w"
  using unsigned_less [of w, where 'a = nat]
  by (simp add: parse_u64_def show_word_def parse_uint_show)

lemma parse_u32_show [text_simps]: "parse_u32 (show_word w) = Ok w"
  using unsigned_less [of w, where 'a = nat]
  by (simp add: parse_u32_def show_word_def parse_uint_show)

end
