(* ===== verification/Rpc.thy ===== *)
theory Rpc
  imports Text
begin

text \<open>
  The answers of the Bitcoin node (\<open>BitcoinCoreRpcResultExt\<close> in \<open>src/index.rs\<close>): a call succeeds or
  fails with an error, and some errors only say that what was asked for does not exist.
\<close>

datatype rpc_error = JsonRpcError int string | OtherRpcError string

definition into_option :: "(rpc_error, 'a) result \<Rightarrow> (rpc_error, 'a option) result" where
  "into_option r =
     (case r of
        Ok x \<Rightarrow> Ok (Some x)
      | Err (JsonRpcError code message) \<Rightarrow>
          if code = - 8 then Ok None
          else if code = - 5 \<and> starts_with ''No such mempool or blockchain transaction'' message then Ok None
          else if strip_suffix ''not found'' message \<noteq> None then Ok None
          else Err (JsonRpcError code message)
      | Err e \<Rightarrow> Err e)"

lemma into_option_Ok [simp]: "into_option (Ok x) = Ok (Some x)"
  by (simp add: into_option_def)

lemma into_option_missing [simp]: "into_option (Err (JsonRpcError (- 8) message)) = Ok None"
  by (simp add: into_option_def)

end
