(* ===== verification/IndexQuery.thy ===== *)
theory IndexQuery
  imports IndexRun Rpc
begin

text \<open>
  The queries of the index (\<open>src/index.rs\<close>): opening it, its blocks, where a sat or a range
  of sats is, what an output holds, and what the node says of outputs and transactions. The
  databases are association lists in key order. Every query takes the mutex around the store,
  which is not reentrant: a query is a function of whether the caller holds it already. The
  node's answers, the hash and the time of a stored header, and the clock are
  parameters.
\<close>

section \<open>Outcomes\<close>

text \<open>A query returns, fails with an error, panics, or waits for ever for a mutex its own thread holds.\<close>

datatype ('e, 'a) outcome = Returned 'a | Failed 'e | Panicked | Blocked

definition outcome_then :: "('e, 'a) outcome \<Rightarrow> ('a \<Rightarrow> ('e, 'b) outcome) \<Rightarrow> ('e, 'b) outcome" where
  "outcome_then r f = (case r of Returned x \<Rightarrow> f x | Failed e \<Rightarrow> Failed e | Panicked \<Rightarrow> Panicked | Blocked \<Rightarrow> Blocked)"

definition of_result :: "('e, 'a) result \<Rightarrow> ('e, 'a) outcome" where
  "of_result r = (case r of Ok x \<Rightarrow> Returned x | Err e \<Rightarrow> Failed e)"

definition unwrapped :: "'a option \<Rightarrow> ('e, 'a) outcome" where
  "unwrapped x = (case x of Some y \<Rightarrow> Returned y | None \<Rightarrow> Panicked)"

definition lock_store :: "bool \<Rightarrow> ('e, 'a) outcome \<Rightarrow> ('e, 'a) outcome" where
  "lock_store locked query = (if locked then Blocked else query)"

lemma outcome_then_simps [simp]:
  "outcome_then (Returned x) f = f x" "outcome_then (Failed e) f = Failed e"
  "outcome_then Panicked f = Panicked" "outcome_then Blocked f = Blocked"
  by (simp_all add: outcome_then_def)

lemma of_result_simps [simp]: "of_result (Ok x) = Returned x" "of_result (Err e) = Failed e"
  by (simp_all add: of_result_def)

lemma unwrapped_simps [simp]: "unwrapped (Some x) = Returned x" "unwrapped None = Panicked"
  by (simp_all add: unwrapped_def)

lemma lock_store_simps [simp]: "lock_store False r = r" "lock_store True r = Blocked"
  by (simp_all add: lock_store_def)

section \<open>The answers of the node\<close>

datatype txindex_status = TxAvailable | TxSyncing | TxDisabled | TxUnknown

fun allows_raw_transaction_lookup :: "txindex_status \<Rightarrow> bool" where
  "allows_raw_transaction_lookup TxAvailable = True"
| "allows_raw_transaction_lookup _ = False"

fun txindex_label :: "txindex_status \<Rightarrow> string" where
  "txindex_label TxAvailable = ''available''"
| "txindex_label TxSyncing = ''syncing''"
| "txindex_label TxDisabled = ''disabled''"
| "txindex_label TxUnknown = ''unknown''"

text \<open>\<open>getindexinfo\<close> answers with whether the transaction index is synced, if there is one.\<close>

definition detect_txindex_status :: "(rpc_error, bool option) result \<Rightarrow> txindex_status" where
  "detect_txindex_status r =
     (case r of
        Ok (Some synced) \<Rightarrow> if synced then TxAvailable else TxSyncing
      | Ok None \<Rightarrow> TxDisabled
      | Err _ \<Rightarrow> TxUnknown)"

definition is_txindex_disabled_rpc_error :: "rpc_error \<Rightarrow> bool" where
  "is_txindex_disabled_rpc_error e =
     (case e of JsonRpcError _ message \<Rightarrow>
          contains ''not indexed'' message \<or> contains ''Blockchain transactions are not indexed'' message
      | OtherRpcError _ \<Rightarrow> False)"

section \<open>The index\<close>

datatype index_statistic = StatSchema | StatBlessedInscriptions | StatCommits | StatCursedInscriptions
  | StatIndexAddresses | StatIndexInscriptions | StatIndexRunes | StatIndexSats | StatIndexTransactions
  | StatInitialSyncTime | StatLostSats | StatOutputsTraversed | StatReservedRunes | StatRunes
  | StatSatRanges | StatUnboundInscriptions | StatLastSavepointHeight

fun statistic_key :: "index_statistic \<Rightarrow> u64" where
  "statistic_key StatSchema = 0"
| "statistic_key StatBlessedInscriptions = 1"
| "statistic_key StatCommits = 2"
| "statistic_key StatCursedInscriptions = 3"
| "statistic_key StatIndexAddresses = 4"
| "statistic_key StatIndexInscriptions = 5"
| "statistic_key StatIndexRunes = 6"
| "statistic_key StatIndexSats = 7"
| "statistic_key StatIndexTransactions = 8"
| "statistic_key StatInitialSyncTime = 9"
| "statistic_key StatLostSats = 10"
| "statistic_key StatOutputsTraversed = 11"
| "statistic_key StatReservedRunes = 12"
| "statistic_key StatRunes = 13"
| "statistic_key StatSatRanges = 14"
| "statistic_key StatUnboundInscriptions = 16"
| "statistic_key StatLastSavepointHeight = 17"

definition INDEX_SCHEMA_VERSION :: u64 where
  "INDEX_SCHEMA_VERSION = 35"

text \<open>The databases a query reads, in key order.\<close>

record query_db =
  qd_headers :: "(u32 \<times> bytes) list"
  qd_utxos :: "(outpoint \<times> bytes) list"
  qd_satpoints :: "(u64 \<times> satpoint) list"
  qd_scripts :: "(bytes \<times> outpoint) list"
  qd_stats :: "(u64 \<times> u64) list"

definition query_statistic :: "query_db \<Rightarrow> u64 \<Rightarrow> u64" where
  "query_statistic q key = (case map_of (qd_stats q) key of Some n \<Rightarrow> n | None \<Rightarrow> 0)"

datatype open_error = OlderSchema u64 | NewerSchema u64 | RequiresTxindex txindex_status

record open_index =
  oi_flags :: index_flags
  oi_first_index_height :: u32
  oi_txindex :: txindex_status

definition index_open :: "bool \<Rightarrow> bool \<Rightarrow> txindex_status \<Rightarrow> query_db \<Rightarrow> (open_error, open_index) result" where
  "index_open sats_feature debug txindex q =
     (let schema = query_statistic q (statistic_key StatSchema) in
      if schema < INDEX_SCHEMA_VERSION then Err (OlderSchema schema)
      else if INDEX_SCHEMA_VERSION < schema then Err (NewerSchema schema)
      else
        let addresses = query_statistic q (statistic_key StatIndexAddresses) \<noteq> 0;
            sats = query_statistic q (statistic_key StatIndexSats) \<noteq> 0
        in if (sats \<or> addresses) \<and> \<not> allows_raw_transaction_lookup txindex then Err (RequiresTxindex txindex)
           else Ok \<lparr>oi_flags = \<lparr>index_sats = sats, index_addresses = addresses, feature_sats = sats_feature,
                       debug_assertions = debug\<rparr>,
                     oi_first_index_height = (if sats \<or> addresses then 0 else - 1), oi_txindex = txindex\<rparr>)"

definition have_full_utxo_index :: "open_index \<Rightarrow> bool" where
  "have_full_utxo_index oi = (oi_first_index_height oi = 0)"

section \<open>Blocks\<close>

definition last_entry :: "'a list \<Rightarrow> 'a option" where
  "last_entry xs = (if xs = [] then None else Some (last xs))"

definition query_block_height :: "query_db \<Rightarrow> u32 option" where
  "query_block_height q = map_option fst (last_entry (qd_headers q))"

definition query_block_count :: "query_db \<Rightarrow> u32" where
  "query_block_count q = (case query_block_height q of Some h \<Rightarrow> h + 1 | None \<Rightarrow> 0)"

definition query_block_hash :: "(bytes \<Rightarrow> bytes) \<Rightarrow> query_db \<Rightarrow> u32 option \<Rightarrow> bytes option" where
  "query_block_hash header_hash q height =
     (case height of
        Some h \<Rightarrow> map_option header_hash (map_of (qd_headers q) h)
      | None \<Rightarrow> map_option (\<lambda>(_, header). header_hash header) (last_entry (qd_headers q)))"

definition query_blocks :: "(bytes \<Rightarrow> bytes) \<Rightarrow> query_db \<Rightarrow> nat \<Rightarrow> (u32 \<times> bytes) list" where
  "query_blocks header_hash q n =
     map (\<lambda>(h, header). (h, header_hash header))
       (take n (rev (filter (\<lambda>(h, _). h < query_block_count q) (qd_headers q))))"

datatype blocktime = Confirmed_at int | Expected_at int

datatype query_error = RangeEndBeforeStart | SatHeightAhead u32 u32 | TimestampOutOfRange | NodeError rpc_error

text \<open>Seconds since the epoch; the addition of the clock's library gives nothing out of its range.\<close>

definition query_block_time ::
  "(bytes \<Rightarrow> u32) \<Rightarrow> (int \<Rightarrow> int \<Rightarrow> int option) \<Rightarrow> bool \<Rightarrow> int \<Rightarrow> query_db \<Rightarrow> u32 \<Rightarrow> (query_error, blocktime) result" where
  "query_block_time header_time add_seconds regtest now q height =
     (case map_of (qd_headers q) height of
        Some header \<Rightarrow> Ok (Confirmed_at (int (unat (header_time header))))
      | None \<Rightarrow>
          let current = (case query_block_height q of Some h \<Rightarrow> h | None \<Rightarrow> 0) in
          and_then (ok_or (checked_sub height current) (SatHeightAhead current height)) (\<lambda>expected.
          and_then (ok_or (add_seconds (if regtest then 0 else now) (10 * 60 * int (unat expected))) TimestampOutOfRange)
            (\<lambda>t. Ok (Expected_at t))))"

section \<open>Sats\<close>

definition rare_sat_satpoints :: "query_db \<Rightarrow> (u64 \<times> satpoint) list" where
  "rare_sat_satpoints q = qd_satpoints q"

definition rare_sat_satpoint :: "query_db \<Rightarrow> u64 \<Rightarrow> satpoint option" where
  "rare_sat_satpoint q s = map_of (qd_satpoints q) s"

definition stored_ranges :: "index_flags \<Rightarrow> bytes \<Rightarrow> sat_range list option" where
  "stored_ranges ix e =
     map_option (\<lambda>ranges. map sat_range_load (chunks_exact 11 ranges))
       (Option.bind (entry_parse ix e) entry_sat_ranges)"

fun find_in_ranges :: "u64 \<Rightarrow> u64 \<Rightarrow> sat_range list \<Rightarrow> u64 option" where
  "find_in_ranges s offset [] = None"
| "find_in_ranges s offset ((start, stop) # ranges) =
     (if start \<le> s \<and> s < stop then Some (offset + s - start)
      else find_in_ranges s (offset + (stop - start)) ranges)"

fun find_in_utxos ::
  "index_flags \<Rightarrow> u64 \<Rightarrow> (outpoint \<times> bytes) list \<Rightarrow> (query_error, satpoint option) outcome" where
  "find_in_utxos ix s [] = Returned None"
| "find_in_utxos ix s ((p, e) # utxos) =
     outcome_then (unwrapped (stored_ranges ix e)) (\<lambda>ranges.
     case find_in_ranges s 0 ranges of
       Some offset \<Rightarrow> Returned (Some (p, offset))
     | None \<Rightarrow> find_in_utxos ix s utxos)"

definition find_sat :: "index_flags \<Rightarrow> bool \<Rightarrow> query_db \<Rightarrow> u64 \<Rightarrow> (query_error, satpoint option) outcome" where
  "find_sat ix locked q s =
     lock_store locked
       (outcome_then (unwrapped (sat_height s)) (\<lambda>height.
        if query_block_count q \<le> height then Returned None
        else find_in_utxos ix s (qd_utxos q)))"

record find_range_output =
  fr_start :: u64
  fr_size :: u64
  fr_satpoint :: satpoint

text \<open>The loop over the ranges of an entry stops when no sats remain; that over the entries goes on.\<close>

fun overlaps_in_ranges ::
  "u64 \<Rightarrow> u64 \<Rightarrow> outpoint \<Rightarrow> u64 \<Rightarrow> sat_range list \<Rightarrow> u64 \<Rightarrow> find_range_output list
     \<Rightarrow> u64 \<times> find_range_output list" where
  "overlaps_in_ranges rs re p offset [] remaining out = (remaining, out)"
| "overlaps_in_ranges rs re p offset ((start, stop) # ranges) remaining out =
     (if stop > rs \<and> start < re then
        let overlap_start = max start rs; overlap_end = min stop re;
            out' = out @ [\<lparr>fr_start = overlap_start, fr_size = overlap_end - overlap_start,
              fr_satpoint = (p, offset + overlap_start - start)\<rparr>];
            remaining' = remaining - (overlap_end - overlap_start)
        in if remaining' = 0 then (remaining', out')
           else overlaps_in_ranges rs re p (offset + (stop - start)) ranges remaining' out'
      else overlaps_in_ranges rs re p (offset + (stop - start)) ranges remaining out)"

fun overlaps_in_utxos ::
  "index_flags \<Rightarrow> u64 \<Rightarrow> u64 \<Rightarrow> (outpoint \<times> bytes) list \<Rightarrow> u64 \<Rightarrow> find_range_output list
     \<Rightarrow> (query_error, find_range_output list) outcome" where
  "overlaps_in_utxos ix rs re [] remaining out = Returned out"
| "overlaps_in_utxos ix rs re ((p, e) # utxos) remaining out =
     outcome_then (unwrapped (stored_ranges ix e)) (\<lambda>ranges.
     case overlaps_in_ranges rs re p 0 ranges remaining out of
       (remaining', out') \<Rightarrow> overlaps_in_utxos ix rs re utxos remaining' out')"

definition find_range ::
  "index_flags \<Rightarrow> bool \<Rightarrow> query_db \<Rightarrow> u64 \<Rightarrow> u64 \<Rightarrow> (query_error, find_range_output list option) outcome" where
  "find_range ix locked q rs re =
     lock_store locked
       (outcome_then (unwrapped (sat_height (re - 1))) (\<lambda>height.
        if query_block_count q < height + 1 then Returned None
        else
          outcome_then (of_result (ok_or (checked_sub re rs) RangeEndBeforeStart)) (\<lambda>remaining.
          outcome_then (overlaps_in_utxos ix rs re (qd_utxos q) remaining []) (\<lambda>out. Returned (Some out)))))"

section \<open>Outputs\<close>

definition contains_output :: "bool \<Rightarrow> query_db \<Rightarrow> outpoint \<Rightarrow> (query_error, bool) outcome" where
  "contains_output locked q p = lock_store locked (Returned (map_of (qd_utxos q) p \<noteq> None))"

definition list_output ::
  "index_flags \<Rightarrow> bool \<Rightarrow> query_db \<Rightarrow> outpoint \<Rightarrow> (query_error, sat_range list option) outcome" where
  "list_output ix locked q p =
     (if \<not> index_sats ix then Returned None
      else lock_store locked
        (case map_of (qd_utxos q) p of
           None \<Rightarrow> Returned None
         | Some e \<Rightarrow> outcome_then (unwrapped (stored_ranges ix e)) (\<lambda>ranges. Returned (Some ranges))))"

definition get_address_info :: "bool \<Rightarrow> query_db \<Rightarrow> bytes \<Rightarrow> (query_error, outpoint list) outcome" where
  "get_address_info locked q script =
     lock_store locked (Returned (map snd (filter (\<lambda>(k, _). k = script) (qd_scripts q))))"

fun sum_values :: "index_flags \<Rightarrow> query_db \<Rightarrow> outpoint list \<Rightarrow> u64 \<Rightarrow> (query_error, u64) outcome" where
  "sum_values ix q [] acc = Returned acc"
| "sum_values ix q (p # ps) acc =
     (case map_of (qd_utxos q) p of
        None \<Rightarrow> sum_values ix q ps acc
      | Some e \<Rightarrow> outcome_then (unwrapped (entry_parse ix e)) (\<lambda>parsed.
          sum_values ix q ps (acc + total_value parsed)))"

definition get_sat_balances_for_outputs ::
  "index_flags \<Rightarrow> bool \<Rightarrow> query_db \<Rightarrow> outpoint list \<Rightarrow> (query_error, u64) outcome" where
  "get_sat_balances_for_outputs ix locked q ps = lock_store locked (sum_values ix q ps 0)"

record utxo_recursive =
  ur_sat_ranges :: "sat_range list option"
  ur_value :: u64

text \<open>The call of \<open>list\<close> is made while the guard of the store is alive.\<close>

definition get_utxo_recursive ::
  "index_flags \<Rightarrow> bool \<Rightarrow> query_db \<Rightarrow> outpoint \<Rightarrow> (query_error, utxo_recursive option) outcome" where
  "get_utxo_recursive ix locked q p =
     lock_store locked
       (case map_of (qd_utxos q) p of
          None \<Rightarrow> Returned None
        | Some e \<Rightarrow>
            outcome_then (list_output ix True q p) (\<lambda>ranges.
            outcome_then (unwrapped (entry_parse ix e)) (\<lambda>parsed.
            Returned (Some \<lparr>ur_sat_ranges = ranges, ur_value = total_value parsed\<rparr>))))"

section \<open>What the node says of outputs\<close>

text \<open>The calls of the node: unspent outputs, with the mempool, and information on transactions.\<close>

record 'o node_calls =
  nc_tx_out :: "txid \<Rightarrow> u32 \<Rightarrow> (rpc_error, 'o option) result"
  nc_tx_info :: "txid \<Rightarrow> (rpc_error, bool \<times> nat) result"

definition is_output_spent ::
  "'o node_calls \<Rightarrow> open_index \<Rightarrow> outpoint \<Rightarrow> bool \<Rightarrow> query_db \<Rightarrow> outpoint \<Rightarrow> (query_error, bool) outcome" where
  "is_output_spent node oi genesis_outpoint locked q p =
     (if p = null_outpoint \<or> p = genesis_outpoint then Returned False
      else if have_full_utxo_index oi then
        outcome_then (contains_output locked q p) (\<lambda>found. Returned (\<not> found))
      else
        case nc_tx_out node (fst p) (snd p) of
          Ok out \<Rightarrow> Returned (out = None) | Err e \<Rightarrow> Failed (NodeError e))"

text \<open>The information on a transaction is whether it is in a block and how many outputs it has.\<close>

definition is_output_in_active_chain ::
  "'o node_calls \<Rightarrow> open_index \<Rightarrow> outpoint \<Rightarrow> outpoint \<Rightarrow> (query_error, bool) outcome" where
  "is_output_in_active_chain node oi genesis_outpoint p =
     (if p = null_outpoint \<or> p = genesis_outpoint then Returned True
      else if \<not> allows_raw_transaction_lookup (oi_txindex oi) then
        (case nc_tx_out node (fst p) (snd p) of
           Ok out \<Rightarrow> Returned (out \<noteq> None) | Err e \<Rightarrow> Failed (NodeError e))
      else
        case into_option (nc_tx_info node (fst p)) of
          Err e \<Rightarrow> Failed (NodeError e)
        | Ok None \<Rightarrow> Returned False
        | Ok (Some (in_block, outputs)) \<Rightarrow> Returned (in_block \<and> unat (snd p) < outputs))"

section \<open>What the databases stand for\<close>

definition represents :: "query_db \<Rightarrow> index_db \<Rightarrow> bool" where
  "represents q db = (sorted (map fst (qd_headers q)) \<and> distinct (map fst (qd_headers q))
     \<and> map_of (qd_headers q) = db_headers db
     \<and> distinct (map fst (qd_utxos q)) \<and> map_of (qd_utxos q) = db_utxo db)"

lemma represents_block_count:
  assumes "represents q db"
  shows "query_block_count q = db_block_count db"
proof (cases "qd_headers q = []")
  case True
  with assms have "db_headers db = Map.empty" by (simp add: represents_def)
  with True show ?thesis
    by (simp add: query_block_count_def query_block_height_def last_entry_def db_block_count_def)
next
  case False
  let ?ks = "map fst (qd_headers q)"
  have dom: "dom (db_headers db) = set ?ks"
    using assms dom_map_of_conv_image_fst [of "qd_headers q"] by (simp add: represents_def)
  obtain ys z where ys: "qd_headers q = ys @ [z]" using False by (cases "qd_headers q" rule: rev_cases) auto
  then have "\<forall>k \<in> set ?ks. k \<le> fst z" using assms by (auto simp: represents_def sorted_append)
  then have "Max (set ?ks) = last ?ks" by (intro Max_eqI) (auto simp: ys)
  then have "fst (last (qd_headers q)) = Max (dom (db_headers db))" using False by (simp add: dom last_map)
  moreover have "db_headers db \<noteq> Map.empty" using False dom by auto
  ultimately show ?thesis using False
    by (simp add: query_block_count_def query_block_height_def last_entry_def db_block_count_def)
qed

lemma held_list:
  assumes "distinct (map fst es)"
  shows "held ix (map_of es) = mset (concat (map (\<lambda>(_, e). entry_sats ix e) es))"
  using assms
proof (induction es)
  case (Cons x es)
  obtain p e where x: "x = (p, e)" by (rule prod.exhaust)
  have "map_of es p = None" using Cons.prems by (simp add: x map_of_eq_None_iff)
  with Cons show ?case by (simp add: x held_insert finite_dom_map_of del: fun_upd_apply)
qed simp

text \<open>A live entry has live ranges, whose sats are those of the entry.\<close>

lemma stored_ranges_live:
  assumes "live_entry ix e"
  obtains rs where "stored_ranges ix e = Some rs" "\<forall>r \<in> set rs. live_range r" "range_sats rs = entry_sats ix e"
proof -
  obtain p rs where p: "entry_parse ix e = Some p" "entry_sat_ranges p = Some (range_bytes rs)"
    "\<forall>r \<in> set rs. live_range r" "entry_sats ix e = range_sats rs"
    using assms by (rule live_entry_parse)
  have "map sat_range_load (chunks_exact 11 (range_bytes rs)) = rs"
    using p(3) by (intro sr.load_all) (auto dest: live_ok)
  with p that [of rs] show ?thesis by (simp add: stored_ranges_def)
qed

lemma mined_mono: "h \<le> k \<Longrightarrow> mined h \<le> mined k"
proof (induction "unat k - unat h" arbitrary: k)
  case 0
  then have "h = k" by (simp add: word_le_nat_alt word_unat_eq_iff)
  then show ?case by simp
next
  case (Suc n)
  then have "k \<noteq> 0" by auto
  then have k: "k \<noteq> 0" "unat (k - 1) = unat k - 1" by (simp_all add: unat_minus_one)
  have "n = unat (k - 1) - unat h" "h \<le> k - 1" using Suc.hyps(2) k(2) by (simp_all add: word_le_nat_alt)
  then have "mined h \<le> mined (k - 1)" by (rule Suc.hyps(1))
  also have "\<dots> \<le> mined (k - 1 + 1)" using k(1) by (intro mined_step) simp
  finally show ?case by simp
qed

text \<open>The height of a sat is that of the block that mined it.\<close>

lemma sat_height_mined:
  assumes "s < SUPPLY"
  obtains h where "sat_height s = Some h" "mined h \<le> unat s" "unat s < mined (h + 1)" "h + 1 \<noteq> 0"
proof -
  obtain h t where h: "sat_height s = Some h" "h < 6930000" "t < height_subsidy h"
    "unat (height_starting_sat h) + unat t = unat s"
    using assms by (rule sat_coordinates)
  have "unat h + 1 < 2 ^ 32" using h(2) by (simp add: word_less_nat_alt)
  then have ne: "h + 1 \<noteq> 0" using unat_add_small [of h 1] by (auto simp: word_unat_eq_iff)
  have "unat t < unat (height_subsidy h)" using h(3) by (simp add: word_less_nat_alt)
  with h(4) height_starting_sat_Suc [OF ne] that [OF h(1)] ne show ?thesis by (simp add: mined_def)
qed

lemma sat_height_count:
  assumes "s < SUPPLY" "sat_height s = Some h"
  shows "n \<le> h \<longleftrightarrow> mined n \<le> unat s"
proof -
  obtain k where k: "sat_height s = Some k" "mined k \<le> unat s" "unat s < mined (k + 1)" "k + 1 \<noteq> 0"
    using assms(1) by (rule sat_height_mined)
  then have kh: "k = h" using assms(2) by simp
  show ?thesis
  proof
    assume "n \<le> h"
    with mined_mono [of n h] k(2) kh show "mined n \<le> unat s" by simp
  next
    assume m: "mined n \<le> unat s"
    show "n \<le> h"
    proof (rule ccontr)
      assume "\<not> n \<le> h"
      then have "h + 1 \<le> n" using k(4) by (simp add: kh inc_le not_le)
      with mined_mono [of "h + 1" n] k(3) kh m show False by simp
    qed
  qed
qed

section \<open>Finding a sat\<close>

lemma find_in_ranges_content:
  assumes "\<forall>r \<in> set rs. live_range r" "unat off + length (range_sats rs) < 2 ^ 64"
  shows "(find_in_ranges s off rs = None \<longrightarrow> unat s \<notin> set (range_sats rs))
    \<and> (\<forall>x. find_in_ranges s off rs = Some x \<longrightarrow> unat off \<le> unat x
        \<and> unat x - unat off < length (range_sats rs) \<and> range_sats rs ! (unat x - unat off) = unat s)"
  using assms
proof (induction rs arbitrary: off)
  case Nil
  then show ?case by simp
next
  case (Cons r rs)
  obtain a b where r: "r = (a, b)" by (rule prod.exhaust)
  have live: "a < b" "walk_range (a, b)" using Cons.prems(1) by (simp_all add: r live_range_def)
  let ?n = "unat (b - a)"
  have len: "length (sats_of (a, b)) = ?n" using length_sats_of [OF live(2)] by simp
  have n: "?n = unat b - unat a" using live(1) by (simp add: unat_sub less_imp_le)
  show ?case
  proof (cases "a \<le> s \<and> s < b")
    case True
    have s: "unat a \<le> unat s" "unat s < unat b" using True by (simp_all add: word_le_nat_alt word_less_nat_alt)
    have sum: "unat off + (unat s - unat a) < 2 ^ 64" using Cons.prems(2) s n len by (simp add: r)
    have assoc: "off + s - a = off + (s - a)" by simp
    have x: "unat (off + s - a) = unat off + (unat s - unat a)"
      unfolding assoc using unat_add_small [of off "s - a"] sum True by (simp add: unat_sub)
    have "sats_of (a, b) ! (unat s - unat a) = unat s" using s by (simp add: sats_of_def)
    moreover have "unat s - unat a < length (sats_of (a, b))" using s len n by simp
    ultimately show ?thesis using True x by (simp add: r nth_append)
  next
    case False
    then have "unat s \<notin> set (sats_of (a, b))" by (auto simp: sats_of_def word_le_nat_alt word_less_nat_alt)
    moreover have off: "unat (off + (b - a)) = unat off + ?n"
      using Cons.prems(2) len by (intro unat_add_small) (simp add: r)
    moreover have "unat (off + (b - a)) + length (range_sats rs) < 2 ^ 64"
      using Cons.prems(2) len off by (simp add: r)
    note ih = Cons.IH [OF _ this, of] Cons.prems(1)
    ultimately show ?thesis using ih False len
      by (auto simp: r nth_append add.commute)
  qed
qed

lemma find_in_utxos_located:
  assumes "\<forall>(p, e) \<in> set utxos. live_entry ix e" "\<forall>(p, e) \<in> set utxos. length (entry_sats ix e) < 2 ^ 52"
  shows "(unat s \<notin> set (concat (map (\<lambda>(_, e). entry_sats ix e) utxos)) \<longrightarrow> find_in_utxos ix s utxos = Returned None)
    \<and> (unat s \<in> set (concat (map (\<lambda>(_, e). entry_sats ix e) utxos)) \<longrightarrow>
       (\<exists>p off e. find_in_utxos ix s utxos = Returned (Some (p, off)) \<and> (p, e) \<in> set utxos
         \<and> unat off < length (entry_sats ix e) \<and> entry_sats ix e ! unat off = unat s))"
  using assms
proof (induction utxos)
  case Nil
  then show ?case by simp
next
  case (Cons x utxos)
  obtain p e where x: "x = (p, e)" by (rule prod.exhaust)
  have "live_entry ix e" using Cons.prems(1) by (simp add: x)
  then obtain rs where rs: "stored_ranges ix e = Some rs" "\<forall>r \<in> set rs. live_range r"
    "range_sats rs = entry_sats ix e" by (rule stored_ranges_live)
  have "unat (0 :: u64) + length (range_sats rs) < 2 ^ 64" using Cons.prems(2) by (simp add: x rs(3))
  note here = find_in_ranges_content [OF rs(2) this, of s, unfolded rs(3)]
  show ?case
  proof (cases "find_in_ranges s 0 rs")
    case (Some off)
    with here have "unat off < length (entry_sats ix e)" "entry_sats ix e ! unat off = unat s" by simp_all
    moreover from this have "unat s \<in> set (entry_sats ix e)" by (metis nth_mem)
    ultimately show ?thesis using Some by (auto simp: x rs(1))
  next
    case None
    with here have "unat s \<notin> set (entry_sats ix e)" by simp
    with None Cons.IH Cons.prems show ?thesis by (auto simp: x rs(1))
  qed
qed

lemma complete_utxos:
  assumes "db_complete cfg db" "represents q db"
  shows "mset (concat (map (\<lambda>(_, e). entry_sats (ix_flags cfg) e) (qd_utxos q))) = mset [0 ..< mined (query_block_count q)]"
    and "\<forall>(p, e) \<in> set (qd_utxos q). live_entry (ix_flags cfg) e"
    and "\<forall>(p, e) \<in> set (qd_utxos q). length (entry_sats (ix_flags cfg) e) < 2 ^ 52"
    and "(p, e) \<in> set (qd_utxos q) \<longleftrightarrow> db_utxo db p = Some e"
proof -
  let ?ix = "ix_flags cfg" and ?all = "concat (map (\<lambda>(_, e). entry_sats (ix_flags cfg) e) (qd_utxos q))"
  have q: "distinct (map fst (qd_utxos q))" "map_of (qd_utxos q) = db_utxo db"
    using assms(2) by (simp_all add: represents_def)
  show iff: "(p, e) \<in> set (qd_utxos q) \<longleftrightarrow> db_utxo db p = Some e" for p e
    using q(1) by (simp add: q(2) [symmetric])
  show all: "mset ?all = mset [0 ..< mined (query_block_count q)]"
    using assms(1) held_list [OF q(1), of ?ix] represents_block_count [OF assms(2)]
    by (simp add: db_complete_def q(2))
  show "\<forall>(p, e) \<in> set (qd_utxos q). live_entry ?ix e"
    using assms(1) iff unfolding db_complete_def entries_ok_def by blast
  have "length ?all < 2 ^ 52" using arg_cong [OF all, of size] mined_small [of "query_block_count q"] by simp
  moreover have "length (entry_sats ?ix e) \<le> length ?all" if "(p, e) \<in> set (qd_utxos q)" for p e
    using split_list [OF that] by auto
  ultimately show "\<forall>(p, e) \<in> set (qd_utxos q). length (entry_sats ?ix e) < 2 ^ 52"
    using order_le_less_trans by fastforce
qed

lemma find_sat_complete:
  assumes "db_complete cfg db" "represents q db" "s < SUPPLY"
  shows "if unat s < mined (db_block_count db)
    then \<exists>p off e. find_sat (ix_flags cfg) False q s = Returned (Some (p, off)) \<and> db_utxo db p = Some e
      \<and> unat off < length (entry_sats (ix_flags cfg) e) \<and> entry_sats (ix_flags cfg) e ! unat off = unat s
    else find_sat (ix_flags cfg) False q s = Returned None"
proof -
  note u = complete_utxos [OF assms(1,2)]
  obtain h where h: "sat_height s = Some h" using assms(3) by (rule sat_height_mined)
  have count: "query_block_count q \<le> h \<longleftrightarrow> \<not> unat s < mined (db_block_count db)"
    using sat_height_count [OF assms(3) h] by (simp add: represents_block_count [OF assms(2)] not_less)
  have "unat s \<in> set (concat (map (\<lambda>(_, e). entry_sats (ix_flags cfg) e) (qd_utxos q)))
      \<longleftrightarrow> unat s < mined (db_block_count db)"
    using mset_eq_setD [OF u(1)] by (simp add: represents_block_count [OF assms(2)])
  with find_in_utxos_located [OF u(2,3), of s] u(4) count h show ?thesis
    by (simp add: find_sat_def)
qed

section \<open>Finding a range\<close>

definition piece_sats :: "find_range_output \<Rightarrow> nat list" where
  "piece_sats o1 = [unat (fr_start o1) ..< unat (fr_start o1) + unat (fr_size o1)]"

lemma piece_sats_simp [simp]:
  "piece_sats \<lparr>fr_start = s, fr_size = n, fr_satpoint = p\<rparr> = [unat s ..< unat s + unat n]"
  by (simp add: piece_sats_def)

text \<open>All the overlaps of the ranges of an entry, without the early stop.\<close>

fun overlaps :: "u64 \<Rightarrow> u64 \<Rightarrow> outpoint \<Rightarrow> u64 \<Rightarrow> sat_range list \<Rightarrow> find_range_output list" where
  "overlaps rs re p offset [] = []"
| "overlaps rs re p offset ((start, stop) # ranges) =
     (if stop > rs \<and> start < re
      then [\<lparr>fr_start = max start rs, fr_size = min stop re - max start rs,
        fr_satpoint = (p, offset + max start rs - start)\<rparr>]
      else []) @ overlaps rs re p (offset + (stop - start)) ranges"

lemma overlap_size:
  assumes "a < b" "rs < re" "b > rs" "a < re"
  shows "max a rs < min b re" "unat (min b re - max a rs) = unat (min b re) - unat (max a rs)"
proof -
  show lt: "max a rs < min b re" using assms by (auto simp: max_def min_def)
  show "unat (min b re - max a rs) = unat (min b re) - unat (max a rs)"
    using lt by (intro unat_sub less_imp_le)
qed

text \<open>The sats of the overlaps of live ranges are those of the ranges within the bounds.\<close>

lemma filter_upt_between:
  "filter (\<lambda>x. l \<le> x \<and> x < u) [a ..< b] = [max a l ..< min b u]"
proof (induction b)
  case (Suc b)
  show ?case
  proof (cases "Suc b \<le> u")
    case True
    with Suc show ?thesis by (auto simp: max_def min_def not_le)
  next
    case False
    then have "min (Suc b) u = u" "min b u = u" by simp_all
    with Suc False show ?thesis by (auto simp: max_def)
  qed
qed simp

lemma overlaps_content:
  assumes "\<forall>r \<in> set ranges. live_range r" "rs < re"
  shows "concat (map piece_sats (overlaps rs re p off ranges))
    = filter (\<lambda>x. unat rs \<le> x \<and> x < unat re) (range_sats ranges)"
  using assms
proof (induction ranges arbitrary: off)
  case (Cons r ranges)
  obtain a b where r: "r = (a, b)" by (rule prod.exhaust)
  have ab: "a < b" using Cons.prems(1) by (simp add: r live_range_def)
  have minmax: "unat (max x y) = max (unat x) (unat y)" "unat (min x y) = min (unat x) (unat y)" for x y :: u64
    by (auto simp: max_def min_def word_le_nat_alt)
  have filt: "filter (\<lambda>x. unat rs \<le> x \<and> x < unat re) (sats_of (a, b)) = [unat (max a rs) ..< unat (min b re)]"
    by (simp add: sats_of_def filter_upt_between minmax)
  have ih: "concat (map piece_sats (overlaps rs re p (off + (b - a)) ranges))
      = filter (\<lambda>x. unat rs \<le> x \<and> x < unat re) (range_sats ranges)"
    using Cons by simp
  show ?case
  proof (cases "b > rs \<and> a < re")
    case True
    have "unat (max a rs) + (unat (min b re) - unat (max a rs)) = unat (min b re)"
      using overlap_size(1) [OF ab assms(2)] True by (simp add: word_less_nat_alt less_imp_le)
    with True overlap_size(2) [OF ab assms(2)] ih filt show ?thesis by (simp add: r)
  next
    case False
    then have "min b re \<le> max a rs" by (auto simp: max_def min_def)
    with False ih filt show ?thesis by (auto simp: r word_le_nat_alt)
  qed
qed simp

lemma overlaps_empty:
  assumes "\<forall>r \<in> set ranges. live_range r" "rs < re" "concat (map piece_sats (overlaps rs re p off ranges)) = []"
  shows "overlaps rs re p off ranges = []"
  using assms
proof (induction ranges arbitrary: off)
  case (Cons r ranges)
  obtain a b where r: "r = (a, b)" by (rule prod.exhaust)
  have "a < b" using Cons.prems(1) by (simp add: r live_range_def)
  moreover have "unat (min b re - max a rs) = 0" if "b > rs \<and> a < re"
    using Cons.prems(3) that by (auto simp: r)
  ultimately have no: "\<not> (b > rs \<and> a < re)"
    using overlap_size [of a b rs re] Cons.prems(2) by (auto simp: word_less_nat_alt)
  then show ?case using Cons by (simp add: r)
qed simp

lemma overlaps_loop:
  assumes "\<forall>r \<in> set ranges. live_range r" "rs < re"
    "length (concat (map piece_sats (overlaps rs re p off ranges))) \<le> unat remaining"
  shows "overlaps_in_ranges rs re p off ranges remaining out
    = (remaining - word_of_nat (length (concat (map piece_sats (overlaps rs re p off ranges)))),
       out @ overlaps rs re p off ranges)"
  using assms
proof (induction ranges arbitrary: off remaining out)
  case Nil
  then show ?case by simp
next
  case (Cons r ranges)
  obtain a b where r: "r = (a, b)" by (rule prod.exhaust)
  have live: "\<forall>r \<in> set ranges. live_range r" "a < b" using Cons.prems(1) by (simp_all add: r live_range_def)
  let ?rest = "overlaps rs re p (off + (b - a)) ranges" and ?n = "min b re - max a rs"
  let ?l = "length (concat (map piece_sats ?rest))"
  show ?case
  proof (cases "b > rs \<and> a < re")
    case False
    then have small: "?l \<le> unat remaining" using Cons.prems(3) by (simp add: r)
    have "overlaps rs re p off ((a, b) # ranges) = ?rest" using False by simp
    moreover have "overlaps_in_ranges rs re p off ((a, b) # ranges) remaining out
        = overlaps_in_ranges rs re p (off + (b - a)) ranges remaining out"
      by (simp only: overlaps_in_ranges.simps if_not_P [OF False])
    ultimately show ?thesis unfolding r using Cons.IH [OF live(1) Cons.prems(2) small, of out] by simp
  next
    case True
    then have small: "unat ?n + ?l \<le> unat remaining" using Cons.prems(3) by (simp add: r)
    then have le: "?n \<le> remaining" by (simp add: word_le_nat_alt)
    then have left: "unat (remaining - ?n) = unat remaining - unat ?n" by (rule unat_sub)
    let ?o = "\<lparr>fr_start = max a rs, fr_size = ?n, fr_satpoint = (p, off + max a rs - a)\<rparr>"
    have all: "overlaps rs re p off ((a, b) # ranges) = ?o # ?rest" using True by simp
    show ?thesis
    proof (cases "remaining - ?n = 0")
      case True
      then have "?l = 0" using small left by simp
      then have none: "?rest = []" using overlaps_empty [OF live(1) Cons.prems(2)] by blast
      have "overlaps_in_ranges rs re p off ((a, b) # ranges) remaining out = (remaining - ?n, out @ [?o])"
        using \<open>b > rs \<and> a < re\<close> True by (simp add: Let_def)
      then show ?thesis unfolding r all none by simp
    next
      case False
      have small': "?l \<le> unat (remaining - ?n)" using small left by linarith
      have "overlaps_in_ranges rs re p off ((a, b) # ranges) remaining out
          = overlaps_in_ranges rs re p (off + (b - a)) ranges (remaining - ?n) (out @ [?o])"
        using True False by (simp add: Let_def)
      then show ?thesis unfolding r all
        using Cons.IH [OF live(1) Cons.prems(2) small', of "out @ [?o]"] by (simp add: diff_diff_eq)
    qed
  qed
qed

lemma take_drop_upt:
  "a \<le> m \<Longrightarrow> m \<le> n \<Longrightarrow> n \<le> b \<Longrightarrow> take (n - m) (drop (m - a) ([a ..< b] @ ys)) = [m ..< n]"
  by (simp add: drop_upt take_upt)

lemma overlaps_located:
  assumes "\<forall>r \<in> set ranges. live_range r" "rs < re" "unat off + length (range_sats ranges) < 2 ^ 64"
    "x \<in> set (overlaps rs re p off ranges)"
  shows "fst (fr_satpoint x) = p \<and> unat off \<le> unat (snd (fr_satpoint x))
    \<and> piece_sats x = take (unat (fr_size x)) (drop (unat (snd (fr_satpoint x)) - unat off) (range_sats ranges))"
  using assms
proof (induction ranges arbitrary: off)
  case (Cons r ranges)
  obtain a b where r: "r = (a, b)" by (rule prod.exhaust)
  have live: "a < b" "walk_range (a, b)" using Cons.prems(1) by (simp_all add: r live_range_def)
  have lt: "unat a < unat b" using live(1) by (simp add: word_less_nat_alt)
  have len: "length (sats_of (a, b)) = unat b - unat a" by (simp add: sats_of_def)
  have size: "unat (b - a) = unat b - unat a" using live(1) by (simp add: unat_sub less_imp_le)
  have off: "unat (off + (b - a)) = unat off + (unat b - unat a)"
    using Cons.prems(3) len size by (subst unat_add_small) (simp_all add: r)
  from Cons.prems(4) consider
      "b > rs" "a < re" "x = \<lparr>fr_start = max a rs, fr_size = min b re - max a rs, fr_satpoint = (p, off + max a rs - a)\<rparr>"
    | "x \<in> set (overlaps rs re p (off + (b - a)) ranges)"
    by (auto simp: r split: if_splits)
  then show ?case
  proof cases
    case 1
    note sz = overlap_size [OF live(1) Cons.prems(2) 1(1,2)]
    have bounds: "unat a \<le> unat (max a rs)" "unat (max a rs) < unat (min b re)" "unat (min b re) \<le> unat b"
      using sz(1) by (simp_all add: word_le_nat_alt [symmetric] word_less_nat_alt)
    have assoc: "off + max a rs - a = off + (max a rs - a)" by simp
    have place: "unat (off + max a rs - a) = unat off + (unat (max a rs) - unat a)"
    proof -
      have d: "unat (max a rs - a) = unat (max a rs) - unat a" by (rule unat_sub) simp
      have "unat off + (unat (max a rs) - unat a) < 2 ^ 64"
        using Cons.prems(3) len bounds by (simp add: r)
      then show ?thesis unfolding assoc by (subst unat_add_small) (simp_all add: d)
    qed
    have "take (unat (min b re) - unat (max a rs)) (drop (unat (max a rs) - unat a) (range_sats (r # ranges)))
        = [unat (max a rs) ..< unat (min b re)]"
      using take_drop_upt [OF bounds(1) less_imp_le [OF bounds(2)] bounds(3), of "range_sats ranges"]
      by (simp add: r sats_of_def)
    moreover have "unat (max a rs) + (unat (min b re) - unat (max a rs)) = unat (min b re)"
      by (rule le_add_diff_inverse) (rule less_imp_le [OF bounds(2)])
    ultimately have "piece_sats x = take (unat (fr_size x)) (drop (unat (max a rs) - unat a) (range_sats (r # ranges)))"
      unfolding 1(3) by (simp only: piece_sats_simp sz(2) find_range_output.select_convs)
    then show ?thesis unfolding 1(3) find_range_output.select_convs fst_conv snd_conv place by simp
  next
    case 2
    have pre: "\<forall>r \<in> set ranges. live_range r" "unat (off + (b - a)) + length (range_sats ranges) < 2 ^ 64"
      using Cons.prems(1,3) len off by (simp_all add: r)
    from Cons.IH [OF pre(1) Cons.prems(2) pre(2) 2]
    have ih: "fst (fr_satpoint x) = p" "unat off + (unat b - unat a) \<le> unat (snd (fr_satpoint x))"
      "piece_sats x = take (unat (fr_size x)) (drop (unat (snd (fr_satpoint x)) - (unat off + (unat b - unat a))) (range_sats ranges))"
      by (simp_all add: off)
    have "drop (unat (snd (fr_satpoint x)) - unat off) (range_sats (r # ranges))
        = drop (unat (snd (fr_satpoint x)) - (unat off + (unat b - unat a))) (range_sats ranges)"
      using ih(2) len by (simp add: r)
    with ih show ?thesis by simp
  qed
qed simp

definition all_overlaps :: "index_flags \<Rightarrow> u64 \<Rightarrow> u64 \<Rightarrow> (outpoint \<times> bytes) list \<Rightarrow> find_range_output list" where
  "all_overlaps ix rs re utxos = concat (map (\<lambda>(p, e). overlaps rs re p 0 (the (stored_ranges ix e))) utxos)"

lemma all_overlaps_sats:
  assumes "\<forall>(p, e) \<in> set utxos. live_entry ix e" "rs < re"
  shows "concat (map piece_sats (all_overlaps ix rs re utxos))
    = filter (\<lambda>x. unat rs \<le> x \<and> x < unat re) (concat (map (\<lambda>(_, e). entry_sats ix e) utxos))"
  using assms
proof (induction utxos)
  case Nil
  then show ?case by (simp add: all_overlaps_def)
next
  case (Cons x utxos)
  obtain p e where x: "x = (p, e)" by (rule prod.exhaust)
  have "live_entry ix e" using Cons.prems(1) by (simp add: x)
  then obtain ranges where "stored_ranges ix e = Some ranges" "\<forall>r \<in> set ranges. live_range r"
    "range_sats ranges = entry_sats ix e" by (rule stored_ranges_live)
  with Cons overlaps_content [of ranges rs re p 0] show ?case by (simp add: all_overlaps_def x)
qed

lemma overlaps_in_utxos_all:
  assumes "\<forall>(p, e) \<in> set utxos. live_entry ix e" "rs < re"
    "length (concat (map piece_sats (all_overlaps ix rs re utxos))) \<le> unat remaining"
  shows "overlaps_in_utxos ix rs re utxos remaining out = Returned (out @ all_overlaps ix rs re utxos)"
  using assms
proof (induction utxos arbitrary: remaining out)
  case Nil
  then show ?case by (simp add: all_overlaps_def)
next
  case (Cons x utxos)
  obtain p e where x: "x = (p, e)" by (rule prod.exhaust)
  have "live_entry ix e" using Cons.prems(1) by (simp add: x)
  then obtain ranges where ranges: "stored_ranges ix e = Some ranges" "\<forall>r \<in> set ranges. live_range r"
    by (rule stored_ranges_live)
  let ?here = "overlaps rs re p 0 ranges"
  let ?l = "length (concat (map piece_sats ?here))"
  have split: "all_overlaps ix rs re (x # utxos) = ?here @ all_overlaps ix rs re utxos"
    by (simp add: all_overlaps_def x ranges(1))
  have le: "?l + length (concat (map piece_sats (all_overlaps ix rs re utxos))) \<le> unat remaining"
    using Cons.prems(3) by (simp only: split map_append concat_append length_append)
  then have w: "unat (word_of_nat ?l :: u64) = ?l"
    using unsigned_less [of remaining, where 'a = nat] by (simp add: unat_of_nat)
  then have "unat (remaining - word_of_nat ?l) = unat remaining - ?l"
    using le by (subst unat_sub) (simp_all add: word_le_nat_alt)
  with le have "length (concat (map piece_sats (all_overlaps ix rs re utxos))) \<le> unat (remaining - word_of_nat ?l)"
    by simp
  with Cons.IH [of "remaining - word_of_nat ?l" "out @ ?here"] Cons.prems(1,2)
    overlaps_loop [OF ranges(2) Cons.prems(2), of p 0 remaining out] le
  show ?case by (simp add: x ranges(1) split [unfolded x])
qed

lemma find_range_complete:
  assumes "db_complete cfg db" "represents q db" "rs < re" "unat re \<le> mined (db_block_count db)"
  shows "find_range (ix_flags cfg) False q rs re = Returned (Some (all_overlaps (ix_flags cfg) rs re (qd_utxos q)))"
    and "mset (concat (map piece_sats (all_overlaps (ix_flags cfg) rs re (qd_utxos q)))) = mset [unat rs ..< unat re]"
    and "x \<in> set (all_overlaps (ix_flags cfg) rs re (qd_utxos q)) \<Longrightarrow>
      \<exists>e. db_utxo db (fst (fr_satpoint x)) = Some e
        \<and> piece_sats x = take (unat (fr_size x)) (drop (unat (snd (fr_satpoint x))) (entry_sats (ix_flags cfg) e))"
proof -
  let ?ix = "ix_flags cfg"
  note u = complete_utxos [OF assms(1,2)]
  let ?all = "concat (map (\<lambda>(_, e). entry_sats ?ix e) (qd_utxos q))"
  have lt: "unat rs < unat re" using assms(3) by (simp add: word_less_nat_alt)
  have "mset (concat (map piece_sats (all_overlaps ?ix rs re (qd_utxos q))))
      = mset (filter (\<lambda>x. unat rs \<le> x \<and> x < unat re) ?all)"
    by (simp only: all_overlaps_sats [OF u(2) assms(3)])
  also have "\<dots> = filter_mset (\<lambda>x. unat rs \<le> x \<and> x < unat re) (mset ?all)" by (rule mset_filter)
  also have "\<dots> = mset (filter (\<lambda>x. unat rs \<le> x \<and> x < unat re) [0 ..< mined (query_block_count q)])"
    unfolding u(1) by (rule mset_filter [symmetric])
  also have "filter (\<lambda>x. unat rs \<le> x \<and> x < unat re) [0 ..< mined (query_block_count q)] = [unat rs ..< unat re]"
    using assms(4) by (simp add: filter_upt_between represents_block_count [OF assms(2)] min_absorb2)
  finally show pieces: "mset (concat (map piece_sats (all_overlaps ?ix rs re (qd_utxos q)))) = mset [unat rs ..< unat re]" .
  have last: "unat (re - 1) = unat re - 1" using lt by (intro unat_minus_one) auto
  have "mined (db_block_count db) \<le> unat SUPPLY"
    using height_starting_sat_bound unfolding mined_def unat_SUPPLY .
  then have below: "re - 1 < SUPPLY" using last lt assms(4) by (simp add: word_less_nat_alt)
  then obtain h where h: "sat_height (re - 1) = Some h" "h + 1 \<noteq> 0" by (rule sat_height_mined)
  have "\<not> mined (db_block_count db) \<le> unat (re - 1)" using last lt assms(4) by linarith
  then have "\<not> query_block_count q \<le> h"
    using sat_height_count [OF below h(1)] represents_block_count [OF assms(2)] by simp
  then have mined_yet: "\<not> query_block_count q < h + 1"
    using h(2) unatSuc [of h] by (simp add: word_less_nat_alt word_le_nat_alt add.commute)
  have "length (concat (map piece_sats (all_overlaps ?ix rs re (qd_utxos q)))) = unat re - unat rs"
    using arg_cong [OF pieces, of size] by simp
  moreover have "unat (re - rs) = unat re - unat rs" using assms(3) by (intro unat_sub less_imp_le)
  ultimately have "length (concat (map piece_sats (all_overlaps ?ix rs re (qd_utxos q)))) \<le> unat (re - rs)" by simp
  from overlaps_in_utxos_all [OF u(2) assms(3) this] assms(3) h(1) mined_yet
  show "find_range ?ix False q rs re = Returned (Some (all_overlaps ?ix rs re (qd_utxos q)))"
    by (simp add: find_range_def checked_sub_def less_imp_le)
  show "\<exists>e. db_utxo db (fst (fr_satpoint x)) = Some e
        \<and> piece_sats x = take (unat (fr_size x)) (drop (unat (snd (fr_satpoint x))) (entry_sats ?ix e))"
    if x: "x \<in> set (all_overlaps ?ix rs re (qd_utxos q))"
  proof -
    from x obtain p e where e: "(p, e) \<in> set (qd_utxos q)"
      "x \<in> set (overlaps rs re p 0 (the (stored_ranges ?ix e)))"
      by (auto simp: all_overlaps_def)
    have "live_entry ?ix e" "length (entry_sats ?ix e) < 2 ^ 52" using u(2,3) e(1) by blast+
    then obtain ranges where r: "stored_ranges ?ix e = Some ranges" "\<forall>r \<in> set ranges. live_range r"
      "range_sats ranges = entry_sats ?ix e" using stored_ranges_live by metis
    have "unat (0 :: u64) + length (range_sats ranges) < 2 ^ 64"
      using \<open>length (entry_sats ?ix e) < 2 ^ 52\<close> by (simp add: r(3))
    from overlaps_located [OF r(2) assms(3) this, of x p] e(2) r(1,3) u(4) e(1)
    show ?thesis by auto
  qed
qed

text \<open>The value of an entry is the number of its sats.\<close>

lemma total_value_sats:
  assumes "live_entry ix e"
  obtains parsed where "entry_parse ix e = Some parsed" "total_value parsed = word_of_nat (length (entry_sats ix e))"
proof -
  obtain p rs where p: "entry_parse ix e = Some p" "entry_sat_ranges p = Some (range_bytes rs)"
    "\<forall>r \<in> set rs. live_range r" "entry_sats ix e = range_sats rs" using assms by (rule live_entry_parse)
  have "\<forall>r \<in> set rs. sat_range_ok r" using p(3) live_ok by blast
  then have "total_value p = (\<Sum>r \<leftarrow> rs. snd r - fst r)"
    using p(2) ranges_value_store by (auto simp: total_value_def entry_sat_ranges_def split: sats.splits)
  also have "\<dots> = word_of_nat (length (range_sats rs))"
    using p(3)
  proof (induction rs)
    case (Cons r rs)
    then have "(word_of_nat (length (sats_of r)) :: u64) = snd r - fst r"
      using length_sats_of [of r] by (simp add: live_range_def)
    with Cons show ?case by simp
  qed simp
  finally show ?thesis using that p(1,4) by simp
qed

section \<open>Queries that go wrong\<close>

text \<open>With the sat index on, the query for an output the index knows waits for its own lock.\<close>

lemma get_utxo_recursive_blocks:
  assumes "index_sats ix" "map_of (qd_utxos q) p = Some e"
  shows "get_utxo_recursive ix False q p = Blocked"
  using assms by (simp add: get_utxo_recursive_def list_output_def)

text \<open>A range that ends at zero makes the subtraction wrap and the height panic; an empty range
  inside a stored one yields an output of no sats.\<close>

lemma find_range_to_zero_panics: "find_range ix False q rs 0 = Panicked"
proof -
  have "unat (0xFFFFFFFFFFFFFFFF :: u64) = 0xFFFFFFFFFFFFFFFF" by simp
  then have "2099999997690000 \<le> unat (0xFFFFFFFFFFFFFFFF :: u64)" by linarith
  moreover have "(0 :: u64) - 1 = 0xFFFFFFFFFFFFFFFF" by simp
  ultimately have "sat_height (0 - 1) = None" using sat_panics by metis
  then show ?thesis by (simp add: find_range_def)
qed

lemma empty_range_reported:
  "overlaps_in_ranges 5 5 p 0 [(0, 10)] 0 [] = (0, [\<lparr>fr_start = 5, fr_size = 0, fr_satpoint = (p, 5)\<rparr>])"
  by (simp add: max_def min_def)

section \<open>Properties\<close>

text \<open>C9: in every state the index reaches, the query for a sat below the supply finds it exactly if it
  is mined, at the output that holds it and its offset there.\<close>

theorem find_sat_exact:
  assumes "index_reach cfg st" "sat_config cfg" "represents q (rs_db st)" "s < SUPPLY"
  shows "if unat s < mined (db_block_count (rs_db st))
    then \<exists>p off e. find_sat (ix_flags cfg) False q s = Returned (Some (p, off)) \<and> db_utxo (rs_db st) p = Some e
      \<and> unat off < length (entry_sats (ix_flags cfg) e) \<and> entry_sats (ix_flags cfg) e ! unat off = unat s
    else find_sat (ix_flags cfg) False q s = Returned None"
  using reach_complete [OF assms(1,2)] assms(3,4) by (intro find_sat_complete) simp_all

text \<open>C15: in every state the index reaches, the query for a nonempty range of mined sats returns pieces
  that cover each sat of the range once, each at its place in the output that holds it.\<close>

theorem find_range_exact:
  assumes "index_reach cfg st" "sat_config cfg" "represents q (rs_db st)" "rs < re"
    "unat re \<le> mined (db_block_count (rs_db st))"
  shows "\<exists>out. find_range (ix_flags cfg) False q rs re = Returned (Some out)
    \<and> mset (concat (map piece_sats out)) = mset [unat rs ..< unat re]
    \<and> (\<forall>x \<in> set out. \<exists>e. db_utxo (rs_db st) (fst (fr_satpoint x)) = Some e
        \<and> piece_sats x = take (unat (fr_size x)) (drop (unat (snd (fr_satpoint x))) (entry_sats (ix_flags cfg) e)))"
  using find_range_complete [OF _ assms(3-5), of cfg] reach_complete [OF assms(1,2)] by blast

lemma mined_1: "mined 1 = 5000000000"
  using height_starting_sat_nat(1) [of 0 1 1] by (simp add: mined_def)

text \<open>The databases after the genesis block.\<close>

lemma genesis_queries:
  obtains st q where "index_reach genesis_config st" "represents q (rs_db st)" "db_block_count (rs_db st) = 1"
    "sat_config genesis_config"
proof -
  obtain db e where db: "index_reach genesis_config \<lparr>rs_db = db, rs_saved = [], rs_work = None\<rparr>"
    "db_block_count db = 1" "db_utxo db = [([7], 0) \<mapsto> e]" "dom (db_headers db) = {0}"
    by (rule genesis_committed)
  obtain header where "db_headers db = [0 \<mapsto> header]"
    using db(4) dom_eq_singleton_conv [of "db_headers db" 0] by auto
  then have "represents \<lparr>qd_headers = [(0, header)], qd_utxos = [(([7], 0), e)], qd_satpoints = [],
      qd_scripts = [], qd_stats = []\<rparr> db"
    using db(3) by (simp add: represents_def)
  moreover have "sat_config genesis_config" by (simp add: sat_config_def genesis_config_def)
  ultimately show ?thesis using that [of "\<lparr>rs_db = db, rs_saved = [], rs_work = None\<rparr>"] db(1,2) by simp
qed

theorem find_sat_exact_witness:
  "\<exists>q p off. find_sat (ix_flags genesis_config) False q 42 = Returned (Some (p, off))"
proof -
  obtain st q where st: "index_reach genesis_config st" "represents q (rs_db st)" "db_block_count (rs_db st) = 1"
    "sat_config genesis_config" by (rule genesis_queries)
  have "(42 :: u64) < SUPPLY" by (simp add: SUPPLY_def)
  from find_sat_exact [OF st(1,4,2) this] show ?thesis by (auto simp: st(3) mined_1)
qed

theorem find_range_exact_witness:
  "\<exists>q out. find_range (ix_flags genesis_config) False q 10 20 = Returned (Some out)
    \<and> mset (concat (map piece_sats out)) = mset [10 ..< 20]"
proof -
  obtain st q where st: "index_reach genesis_config st" "represents q (rs_db st)" "db_block_count (rs_db st) = 1"
    "sat_config genesis_config" by (rule genesis_queries)
  have r: "(10 :: u64) < 20" "unat (20 :: u64) \<le> mined (db_block_count (rs_db st))" by (simp_all add: st(3) mined_1)
  have "unat (10 :: u64) = 10" "unat (20 :: u64) = 20" by simp_all
  with find_range_exact [OF st(1,4,2) r] show ?thesis by metis
qed

end
