(* ===== verification/Reorg.thy ===== *)
theory Reorg
  imports Rpc
begin

text \<open>
  Reorganisations of the block chain (\<open>src/index/reorg.rs\<close>): the detection of the fork depth, the
  choice of a savepoint, the restoration of its snapshot, and the upkeep of savepoints
  after a commit. The database of headers is the list of the hashes of the indexed
  blocks, which is what it is: the updater stores the header of height \<open>h\<close> when it holds
  exactly those below. A snapshot is a copy of the database; the node's answers, its errors among
  them (hashes by height, number of headers), are parameters.
\<close>

section \<open>State\<close>

type_synonym height = u32

record 'h chain_db =
  cd_hashes :: "'h list"
  cd_last_savepoint :: u64
  cd_commits :: u64

record 'h index_state =
  is_db :: "'h chain_db"
  is_savepoints :: "height \<rightharpoonup> 'h chain_db"
  is_heights :: "height list"

record savepoint_settings =
  savepoint_interval :: nat
  max_savepoints :: nat
  savepoints_enabled :: bool

datatype reorg_error = Recoverable height u32 | Unrecoverable | ReorgNode rpc_error | ReorgPanic

section \<open>Detection\<close>

definition block_hash_at :: "'h list \<Rightarrow> u32 option \<Rightarrow> 'h option" where
  "block_hash_at hs h =
     (case h of
        Some k \<Rightarrow> if unat k < length hs then Some (hs ! unat k) else None
      | None \<Rightarrow> if hs = [] then None else Some (last hs))"

definition fork_at :: "(u64 \<Rightarrow> (rpc_error, 'h) result) \<Rightarrow> 'h list \<Rightarrow> height \<Rightarrow> u32 \<Rightarrow> (rpc_error, bool) result" where
  "fork_at node hs h depth =
     and_then (into_option (node (ucast (saturating_sub h depth)))) (\<lambda>node_hash.
     Ok (block_hash_at hs (checked_sub h depth) = node_hash))"

text \<open>\<open>for depth in 1..max\<close>, from \<open>depth\<close> on.\<close>

fun find_fork ::
  "(u64 \<Rightarrow> (rpc_error, 'h) result) \<Rightarrow> 'h list \<Rightarrow> height \<Rightarrow> nat list \<Rightarrow> (rpc_error, nat option) result" where
  "find_fork node hs h [] = Ok None"
| "find_fork node hs h (d # ds) =
     and_then (fork_at node hs h (word_of_nat d)) (\<lambda>found.
     if found then Ok (Some d) else find_fork node hs h ds)"

text \<open>The settings are \<open>usize\<close> and must fit 32 bits; the remainder by an interval of zero panics.\<close>

definition max_recoverable_depth :: "savepoint_settings \<Rightarrow> height \<Rightarrow> u32 option" where
  "max_recoverable_depth cfg h =
     (if 2 ^ 32 \<le> savepoint_interval cfg \<or> 2 ^ 32 \<le> max_savepoints cfg \<or> savepoint_interval cfg = 0 then None
      else Some ((word_of_nat (max_savepoints cfg) - 1) * word_of_nat (savepoint_interval cfg)
             + h mod word_of_nat (savepoint_interval cfg)))"

definition detect_reorg ::
  "savepoint_settings \<Rightarrow> (u64 \<Rightarrow> (rpc_error, 'h) result) \<Rightarrow> 'h \<Rightarrow> height \<Rightarrow> 'h list \<Rightarrow> (reorg_error, unit) result" where
  "detect_reorg cfg node prev_hash h hs =
     (case block_hash_at hs (checked_sub h 1) of
        None \<Rightarrow> Ok ()
      | Some index_prev \<Rightarrow>
          if index_prev = prev_hash then Ok ()
          else (case max_recoverable_depth cfg h of
              None \<Rightarrow> Err ReorgPanic
            | Some depth \<Rightarrow>
                (case find_fork node hs h [1 ..< unat depth] of
                   Err e \<Rightarrow> Err (ReorgNode e)
                 | Ok (Some d) \<Rightarrow> Err (Recoverable h (word_of_nat d))
                 | Ok None \<Rightarrow> Err Unrecoverable)))"

section \<open>Savepoints\<close>

fun max_height :: "height list \<Rightarrow> height option" where
  "max_height [] = None"
| "max_height (x # xs) =
     (case max_height xs of None \<Rightarrow> Some x | Some m \<Rightarrow> Some (if x \<le> m then m else x))"

definition savepoint_height_for_reorg :: "height list \<Rightarrow> height \<Rightarrow> u32 \<Rightarrow> height option" where
  "savepoint_height_for_reorg savepoints h depth =
     (let target_height = saturating_sub h depth
      in max_height (filter (\<lambda>savepoint. savepoint \<le> target_height) savepoints))"

datatype recovery_error = NoSavepoint | MissingSnapshot | SavepointsDisabled

definition handle_reorg ::
  "savepoint_settings \<Rightarrow> 'h index_state \<Rightarrow> height \<Rightarrow> u32 \<Rightarrow> (recovery_error, 'h index_state) result" where
  "handle_reorg cfg st h depth =
     and_then (ensure (savepoints_enabled cfg) SavepointsDisabled) (\<lambda>_.
     and_then (ok_or (savepoint_height_for_reorg (is_heights st) h depth) NoSavepoint) (\<lambda>sp.
     and_then (ok_or (is_savepoints st sp) MissingSnapshot) (\<lambda>snapshot.
     Ok (st\<lparr>is_db := snapshot\<lparr>cd_commits := cd_commits snapshot + 1\<rparr>\<rparr>))))"

text \<open>The number of headers is asked for only with savepoints enabled.\<close>

definition is_savepoint_required ::
  "savepoint_settings \<Rightarrow> (rpc_error, u64) result \<Rightarrow> u64 \<Rightarrow> height \<Rightarrow> (rpc_error, bool) result" where
  "is_savepoint_required cfg headers last_savepoint_height h =
     (if \<not> savepoints_enabled cfg then Ok False
      else and_then headers (\<lambda>blocks.
        let height = ucast h :: u64; interval = word_of_nat (savepoint_interval cfg) :: u64;
            maxsp = word_of_nat (max_savepoints cfg) :: u64
        in Ok ((height < interval \<or> interval \<le> saturating_sub height last_savepoint_height)
               \<and> saturating_sub blocks height \<le> interval * maxsp + 1)))"

fun min_height :: "height list \<Rightarrow> height option" where
  "min_height [] = None"
| "min_height (x # xs) =
     (case min_height xs of None \<Rightarrow> Some x | Some m \<Rightarrow> Some (if x \<le> m then x else m))"

definition delete_savepoint :: "height \<Rightarrow> 'h index_state \<Rightarrow> 'h index_state" where
  "delete_savepoint h st =
     st\<lparr>is_savepoints := (is_savepoints st)(h := None), is_heights := removeAll h (is_heights st)\<rparr>"

definition copy_to_savepoint :: "height \<Rightarrow> 'h index_state \<Rightarrow> 'h index_state" where
  "copy_to_savepoint h st =
     st\<lparr>is_savepoints := (is_savepoints st)(h \<mapsto> is_db st),
        is_heights := (if h \<in> set (is_heights st) then is_heights st
                       else insort h (is_heights st))\<rparr>"

definition add_savepoint :: "savepoint_settings \<Rightarrow> height \<Rightarrow> 'h index_state \<Rightarrow> 'h index_state" where
  "add_savepoint cfg h st =
     (let st1 = (if max_savepoints cfg \<le> length (is_heights st)
                 then (case min_height (is_heights st) of
                         Some oldest \<Rightarrow> delete_savepoint oldest st | None \<Rightarrow> st)
                 else st);
          st2 = st1\<lparr>is_db := (is_db st1)\<lparr>cd_commits := cd_commits (is_db st1) + 1\<rparr>\<rparr>;
          st3 = copy_to_savepoint h st2
      in st3\<lparr>is_db := (is_db st3)\<lparr>cd_last_savepoint := ucast h,
                                 cd_commits := cd_commits (is_db st3) + 1\<rparr>\<rparr>)"

definition update_savepoints ::
  "savepoint_settings \<Rightarrow> (rpc_error, u64) result \<Rightarrow> height \<Rightarrow> 'h index_state \<Rightarrow> (rpc_error, 'h index_state) result" where
  "update_savepoints cfg headers h st =
     (if \<not> savepoints_enabled cfg then Ok st
      else and_then (is_savepoint_required cfg headers (cd_last_savepoint (is_db st)) h) (\<lambda>required.
        Ok (if required then add_savepoint cfg h st else st)))"

text \<open>A block is appended after \<open>detect_reorg\<close> accepts it, and its commit updates the savepoints; the
  commit stands when the node fails then.\<close>

definition append_block :: "'h \<Rightarrow> 'h index_state \<Rightarrow> 'h index_state" where
  "append_block x st = st\<lparr>is_db := (is_db st)\<lparr>cd_hashes := cd_hashes (is_db st) @ [x],
     cd_commits := cd_commits (is_db st) + 1\<rparr>\<rparr>"

definition index_and_commit :: "savepoint_settings \<Rightarrow> 'h \<Rightarrow> 'h index_state \<Rightarrow> 'h index_state" where
  "index_and_commit cfg x st =
     (let st1 = append_block x st; h = word_of_nat (length (cd_hashes (is_db st1)))
      in case update_savepoints cfg (Ok (ucast h)) h st1 of Ok st2 \<Rightarrow> st2 | Err _ \<Rightarrow> st1)"

section \<open>Choice of a savepoint\<close>

lemma max_height_None: "max_height xs = None \<longleftrightarrow> xs = []"
  by (cases xs) (auto split: option.splits)

lemma max_height_Some: "max_height xs = Some m \<Longrightarrow> m \<in> set xs \<and> (\<forall>x \<in> set xs. x \<le> m)"
proof (induction xs arbitrary: m)
  case (Cons x xs)
  then show ?case
    by (cases "max_height xs") (auto simp: max_height_None split: if_splits)
qed simp

lemma savepoint_choice:
  assumes "savepoint_height_for_reorg sps h d = Some s"
  shows "s \<in> set sps" "s \<le> saturating_sub h d" "\<forall>x \<in> set sps. x \<le> saturating_sub h d \<longrightarrow> x \<le> s"
  using max_height_Some [of "filter (\<lambda>x. x \<le> saturating_sub h d) sps" s] assms
  by (auto simp: savepoint_height_for_reorg_def Let_def)

lemma find_fork_Some:
  "find_fork node hs h ds = Ok (Some d) \<Longrightarrow>
   d \<in> set ds \<and> fork_at node hs h (word_of_nat d) = Ok True
   \<and> (\<exists>before after. ds = before @ d # after \<and> (\<forall>x \<in> set before. fork_at node hs h (word_of_nat x) = Ok False))"
proof (induction ds)
  case (Cons x xs)
  from Cons.prems obtain found where found: "fork_at node hs h (word_of_nat x) = Ok found"
    "(if found then Ok (Some x) else find_fork node hs h xs) = Ok (Some d)" by (auto simp: ok_elims)
  show ?case
  proof (cases found)
    case True
    with found have "x # xs = [] @ d # xs" "fork_at node hs h (word_of_nat d) = Ok True" by simp_all
    then show ?thesis by (metis empty_iff empty_set list.set_intros(1) self_append_conv2)
  next
    case False
    with found(2) have "find_fork node hs h xs = Ok (Some d)" by simp
    from Cons.IH [OF this] obtain before after where IH: "fork_at node hs h (word_of_nat d) = Ok True"
      "xs = before @ d # after" "\<forall>y \<in> set before. fork_at node hs h (word_of_nat y) = Ok False" by blast
    have "x # xs = (x # before) @ d # after" by (simp add: IH(2))
    moreover have "\<forall>y \<in> set (x # before). fork_at node hs h (word_of_nat y) = Ok False"
      using IH(3) found(1) False by simp
    moreover have "d \<in> set (x # xs)" by (simp add: IH(2))
    ultimately show ?thesis using IH(1) by blast
  qed
qed simp

lemma find_fork_first:
  assumes "fork_at node hs h (word_of_nat d) = Ok True"
    "\<forall>x \<in> set before. fork_at node hs h (word_of_nat x) = Ok False"
  shows "find_fork node hs h (before @ d # after) = Ok (Some d)"
  using assms by (induction before) auto

section \<open>Savepoints are prefixes of the chain\<close>

text \<open>The invariant of a run without a reorganisation: each savepoint is a copy of the first
  blocks of the chain, as many as its height, and the list of heights is the domain.\<close>

definition savepoints_ok :: "'h index_state \<Rightarrow> bool" where
  "savepoints_ok st =
     (\<forall>h snap. is_savepoints st h = Some snap \<longrightarrow>
        cd_hashes snap = take (unat h) (cd_hashes (is_db st)) \<and> unat h \<le> length (cd_hashes (is_db st)))"

definition heights_ok :: "'h index_state \<Rightarrow> bool" where
  "heights_ok st = (set (is_heights st) = dom (is_savepoints st))"

lemma delete_savepoint_ok: "savepoints_ok st \<Longrightarrow> savepoints_ok (delete_savepoint h st)"
  by (auto simp: savepoints_ok_def delete_savepoint_def split: if_splits)

lemma copy_to_savepoint_ok:
  "savepoints_ok st \<Longrightarrow> unat h = length (cd_hashes (is_db st)) \<Longrightarrow> savepoints_ok (copy_to_savepoint h st)"
  by (auto simp: savepoints_ok_def copy_to_savepoint_def split: if_splits)

lemma savepoints_ok_counters:
  "savepoints_ok (st\<lparr>is_db := (is_db st)\<lparr>cd_commits := c\<rparr>\<rparr>) = savepoints_ok st"
  "savepoints_ok (st\<lparr>is_db := (is_db st)\<lparr>cd_last_savepoint := l, cd_commits := c\<rparr>\<rparr>) = savepoints_ok st"
  by (simp_all add: savepoints_ok_def)

lemma add_savepoint_hashes: "cd_hashes (is_db (add_savepoint cfg h st)) = cd_hashes (is_db st)"
  by (simp add: add_savepoint_def copy_to_savepoint_def delete_savepoint_def Let_def split: option.splits)

lemma update_savepoints_hashes:
  "update_savepoints cfg headers h st = Ok st' \<Longrightarrow> cd_hashes (is_db st') = cd_hashes (is_db st)"
  by (auto simp: update_savepoints_def add_savepoint_hashes ok_elims split: if_splits)

lemma add_savepoint_ok:
  assumes "savepoints_ok st" "unat h = length (cd_hashes (is_db st))"
  shows "savepoints_ok (add_savepoint cfg h st)"
proof -
  define st1 where "st1 = (if max_savepoints cfg \<le> length (is_heights st)
     then (case min_height (is_heights st) of Some oldest \<Rightarrow> delete_savepoint oldest st | None \<Rightarrow> st) else st)"
  have "savepoints_ok st1" "unat h = length (cd_hashes (is_db st1))"
    using assms by (auto simp: st1_def delete_savepoint_ok split: option.splits)
      (simp add: delete_savepoint_def)
  then have "savepoints_ok (copy_to_savepoint h (st1\<lparr>is_db := (is_db st1)\<lparr>cd_commits := cd_commits (is_db st1) + 1\<rparr>\<rparr>))"
    by (intro copy_to_savepoint_ok) (simp_all add: savepoints_ok_counters)
  then show ?thesis
    by (simp add: add_savepoint_def Let_def st1_def [symmetric] savepoints_ok_counters)
qed

lemma update_savepoints_ok:
  "update_savepoints cfg headers h st = Ok st' \<Longrightarrow> savepoints_ok st \<Longrightarrow> unat h = length (cd_hashes (is_db st))
    \<Longrightarrow> savepoints_ok st'"
  by (auto simp: update_savepoints_def add_savepoint_ok ok_elims split: if_splits)

lemma append_block_ok: "savepoints_ok st \<Longrightarrow> savepoints_ok (append_block x st)"
  by (auto simp: savepoints_ok_def append_block_def intro: le_SucI)

text \<open>The runs of a new index that has recovered from no reorganisation yet: blocks are appended, and
  commits update the savepoints.\<close>

definition new_chain_index :: "'h index_state" where
  "new_chain_index = \<lparr>is_db = \<lparr>cd_hashes = [], cd_last_savepoint = 0, cd_commits = 0\<rparr>,
     is_savepoints = Map.empty, is_heights = []\<rparr>"

inductive unforked_run :: "savepoint_settings \<Rightarrow> 'h index_state \<Rightarrow> bool" for cfg where
  run_new: "unforked_run cfg new_chain_index"
| run_block: "unforked_run cfg st \<Longrightarrow> unforked_run cfg (append_block x st)"
| run_commit: "unforked_run cfg st \<Longrightarrow> unat h = length (cd_hashes (is_db st)) \<Longrightarrow>
    update_savepoints cfg headers h st = Ok st' \<Longrightarrow> unforked_run cfg st'"

lemma unforked_run_ok: "unforked_run cfg st \<Longrightarrow> savepoints_ok st"
proof (induction rule: unforked_run.induct)
  case run_new
  then show ?case by (simp add: savepoints_ok_def new_chain_index_def)
qed (simp_all add: append_block_ok update_savepoints_ok)

section \<open>Recovery\<close>

lemma checked_sub_1: "checked_sub (h :: u32) d = (if d \<le> h then Some (h - d) else None)"
  by (simp add: checked_sub_def)

lemma detect_reorg_Recoverable:
  assumes "detect_reorg cfg node prev h hs = Err (Recoverable h' d)"
  shows "h' = h \<and> 1 \<le> d \<and> max_recoverable_depth cfg h \<noteq> None \<and> d < the (max_recoverable_depth cfg h)
    \<and> fork_at node hs h d = Ok True \<and> (\<forall>d'. 1 \<le> d' \<and> d' < d \<longrightarrow> fork_at node hs h d' = Ok False)"
proof -
  from assms obtain m where m: "max_recoverable_depth cfg h = Some m"
    by (auto simp: detect_reorg_def split: option.splits if_splits)
  from assms obtain k where k: "find_fork node hs h [1 ..< unat m] = Ok (Some k)" "h' = h" "d = word_of_nat k"
    by (auto simp: detect_reorg_def m split: option.splits if_splits result.splits)
  from find_fork_Some [OF k(1)] obtain before after where
    f: "k \<in> set [1 ..< unat m]" "fork_at node hs h (word_of_nat k) = Ok True" "[1 ..< unat m] = before @ k # after"
    "\<forall>x \<in> set before. fork_at node hs h (word_of_nat x) = Ok False" by blast
  have "k < 2 ^ LENGTH(32)"
    using f(1) unsigned_less [of m, where 'a = nat] by simp
  then have u: "unat d = k" unfolding k(3) by (simp only: unat_of_nat mod_less)
  have "fork_at node hs h d' = Ok False" if "1 \<le> d'" "d' < d" for d'
  proof -
    have "unat d' \<in> set [1 ..< unat m]" "unat d' < k"
      using that u f(1) by (auto simp: word_le_nat_alt word_less_nat_alt)
    moreover have "sorted (before @ k # after)" by (simp add: f(3) [symmetric])
    ultimately have "unat d' \<in> set before"
      unfolding f(3) by (auto simp: sorted_append not_less [symmetric])
    with f(4) have "fork_at node hs h (word_of_nat (unat d')) = Ok False" by blast
    then show ?thesis by simp
  qed
  with f(1,2) k u m show ?thesis by (auto simp: word_le_nat_alt word_less_nat_alt)
qed

text \<open>The node's best chain has a block at a height.\<close>

definition node_has :: "(u64 \<Rightarrow> (rpc_error, 'h) result) \<Rightarrow> nat \<Rightarrow> 'h \<Rightarrow> bool" where
  "node_has node k x = (into_option (node (word_of_nat k)) = Ok (Some x))"

text \<open>C7: the first recovery of an index is safe: when an index that has not recovered before finds a
  reorganisation that it calls recoverable, and a savepoint is restored, every block of the
  restored index is one of the node's best chain and the restored height is not above the fork. The
  hypothesis on the node is what a block hash is: blocks that agree at a height agree below it. After
  a first recovery this can fail, since the savepoints above the fork are kept
  (\<open>abandoned_savepoint_restored\<close>).\<close>

theorem reorg_recovery_sound:
  assumes run: "unforked_run cfg st" and h: "unat h = length (cd_hashes (is_db st))"
    and chain: "\<And>k. k < unat h \<Longrightarrow> node_has node k (cd_hashes (is_db st) ! k)
      \<Longrightarrow> \<forall>j \<le> k. node_has node j (cd_hashes (is_db st) ! j)"
    and reorg: "detect_reorg cfg node prev h (cd_hashes (is_db st)) = Err (Recoverable h' d)"
    and recovered: "handle_reorg cfg st h' d = Ok st'"
  shows "length (cd_hashes (is_db st')) \<le> unat h - unat d
    \<and> (\<forall>j < length (cd_hashes (is_db st')). node_has node j (cd_hashes (is_db st') ! j))"
proof -
  let ?hs = "cd_hashes (is_db st)"
  from detect_reorg_Recoverable [OF reorg] have d: "h' = h" "1 \<le> d" "fork_at node ?hs h d = Ok True" by simp_all
  from recovered obtain s snap where s: "savepoint_height_for_reorg (is_heights st) h d = Some s"
    "is_savepoints st s = Some snap" "cd_hashes (is_db st') = cd_hashes snap"
    by (auto simp: handle_reorg_def ok_elims d(1))
  have snap: "cd_hashes snap = take (unat s) ?hs" "unat s \<le> length ?hs"
    using unforked_run_ok [OF run] s(2) by (auto simp: savepoints_ok_def)
  have "s \<le> saturating_sub h d" using savepoint_choice(2) [OF s(1)] .
  then have le: "unat s \<le> unat h - unat d" by (simp add: word_le_nat_alt unat_saturating_sub)
  have "node_has node j (?hs ! j)" if "j < unat s" for j
  proof -
    have dh: "d \<le> h" using that le by (simp add: word_le_nat_alt)
    then have sub: "unat (h - d) = unat h - unat d" by (simp add: unat_sub)
    have "unat h - unat d < length ?hs" using d(2) that le h by (simp add: word_le_nat_alt)
    then have "into_option (node (ucast (h - d))) = Ok (Some (?hs ! (unat h - unat d)))"
      using d(3) dh by (auto simp: fork_at_def block_hash_at_def checked_sub_1 saturating_sub_def sub ok_elims)
    moreover have "(ucast (h - d) :: u64) = word_of_nat (unat h - unat d)"
      by (metis of_nat_unat sub)
    ultimately have "\<forall>j \<le> unat h - unat d. node_has node j (?hs ! j)"
      using d(2) that le by (intro chain) (simp_all add: node_has_def word_le_nat_alt)
    with that le show ?thesis by simp
  qed
  with le snap show ?thesis by (simp add: s(3))
qed

section \<open>Runs of numbered blocks\<close>

text \<open>Blocks numbered by their height, indexed and committed one by one.\<close>

fun run_blocks :: "savepoint_settings \<Rightarrow> nat \<Rightarrow> nat index_state" where
  "run_blocks cfg 0 = new_chain_index"
| "run_blocks cfg (Suc n) = index_and_commit cfg n (run_blocks cfg n)"

lemma index_and_commit_hashes:
  "cd_hashes (is_db (index_and_commit cfg x st)) = cd_hashes (is_db st) @ [x]"
  using update_savepoints_hashes [of cfg _ _ "append_block x st"]
  by (auto simp: index_and_commit_def Let_def append_block_def split: result.splits)

lemma run_blocks_hashes: "cd_hashes (is_db (run_blocks cfg n)) = [0 ..< n]"
  by (induction n) (simp_all add: new_chain_index_def index_and_commit_hashes)

lemma run_blocks_unforked: "n < 2 ^ 32 \<Longrightarrow> unforked_run cfg (run_blocks cfg n)"
proof (induction n)
  case 0
  then show ?case by (simp add: run_new)
next
  case (Suc n)
  let ?st = "append_block n (run_blocks cfg n)" and ?h = "word_of_nat (Suc n) :: u32"
  have block: "unforked_run cfg ?st" using Suc by (simp add: run_block)
  have len: "length (cd_hashes (is_db ?st)) = Suc n" by (simp add: append_block_def run_blocks_hashes)
  moreover have "unat ?h = Suc n" using Suc.prems by (subst unat_of_nat) simp
  ultimately have "update_savepoints cfg (Ok (ucast ?h)) ?h ?st = Ok st' \<Longrightarrow> unforked_run cfg st'" for st'
    using run_commit [OF block, of ?h] by simp
  with block len show ?case by (simp add: index_and_commit_def Let_def split: result.splits)
qed

definition sample_settings :: savepoint_settings where
  "sample_settings = \<lparr>savepoint_interval = 10, max_savepoints = 3, savepoints_enabled = True\<rparr>"

lemma sample_forked_run:
  "is_heights (run_blocks sample_settings 3) = [1, 2, 3]"
  "map_option cd_hashes (is_savepoints (run_blocks sample_settings 3) 1) = Some [0]"
  by code_simp+

text \<open>The node has another block at height two.\<close>

definition sample_node :: "u64 \<Rightarrow> (rpc_error, nat) result" where
  "sample_node k = Ok (if k = 2 then 9 else unat k)"

theorem reorg_recovery_sound_witness:
  "detect_reorg sample_settings sample_node 9 3 (cd_hashes (is_db (run_blocks sample_settings 3))) = Err (Recoverable 3 2) \<and>
   (\<exists>st'. handle_reorg sample_settings (run_blocks sample_settings 3) 3 2 = Ok st' \<and> cd_hashes (is_db st') = [0]
     \<and> node_has sample_node 0 0)"
proof -
  let ?st = "run_blocks sample_settings 3"
  have hs: "cd_hashes (is_db ?st) = [0, 1, 2]" unfolding run_blocks_hashes by (simp add: upt_rec)
  have [simp]: "[Suc 0 ..< 23] = 1 # 2 # [3 ..< (23 :: nat)]" by (simp add: upt_rec)
  have detect: "detect_reorg sample_settings sample_node 9 3 (cd_hashes (is_db ?st)) = Err (Recoverable 3 2)"
    unfolding hs by (simp add: detect_reorg_def block_hash_at_def checked_sub_def sample_node_def
        saturating_sub_def sample_settings_def max_recoverable_depth_def fork_at_def word_le_nat_alt)
  obtain snap where snap: "is_savepoints ?st 1 = Some snap" "cd_hashes snap = [0]"
    using sample_forked_run(2) by auto
  have "savepoint_height_for_reorg [1, 2, 3] 3 2 = Some 1"
    by (simp add: savepoint_height_for_reorg_def saturating_sub_def word_le_nat_alt)
  then obtain st' where st': "handle_reorg sample_settings ?st 3 2 = Ok st'" "cd_hashes (is_db st') = [0]"
    using snap by (simp add: handle_reorg_def sample_forked_run(1)) (simp add: sample_settings_def)
  have chain: "\<forall>j \<le> k. node_has sample_node j (cd_hashes (is_db ?st) ! j)"
    if "k < unat (3 :: height)" "node_has sample_node k (cd_hashes (is_db ?st) ! k)" for k
  proof -
    have "k = 0 \<or> k = 1 \<or> k = 2" using that(1) by auto
    with that(2) have "k = 0 \<or> k = 1" by (auto simp: node_has_def sample_node_def hs)
    then show ?thesis by (auto simp: le_Suc_eq node_has_def sample_node_def hs)
  qed
  have "unforked_run sample_settings ?st" by (rule run_blocks_unforked) simp
  from reorg_recovery_sound [OF this _ chain detect st'(1)] have "node_has sample_node 0 0"
    by (simp add: hs st'(2))
  with detect st' show ?thesis by blast
qed

section \<open>Where recovery fails\<close>

definition small_settings :: savepoint_settings where
  "small_settings = \<lparr>savepoint_interval = 3, max_savepoints = 2, savepoints_enabled = True\<rparr>"

lemma small_run: "is_heights (run_blocks small_settings 8) = [5, 8]"
  by code_simp

text \<open>the depth that detection calls recoverable is not always covered by a savepoint. It is
  computed as if savepoints stood at multiples of the interval, but the first ones are taken at
  every height below the interval and the later ones an interval after the last: with an
  interval of three and two savepoints, the savepoints after eight blocks are at 5 and 8, and a
  reorganisation of depth 4 at height 8 is reported recoverable while no savepoint precedes
  its fork.\<close>

theorem recoverable_without_savepoint:
  "detect_reorg small_settings (\<lambda>k. Ok (if k \<le> 4 then unat k else 100 + unat k)) 107 8
      (cd_hashes (is_db (run_blocks small_settings 8))) = Err (Recoverable 8 4)
    \<and> handle_reorg small_settings (run_blocks small_settings 8) 8 4 = Err NoSavepoint"
proof
  have "[1 ..< 5] = [1, 2, 3, 4 :: nat]" "[0 ..< 8] = [0, 1, 2, 3, 4, 5, 6, 7 :: nat]"
    by (simp_all add: upt_rec)
  then show "detect_reorg small_settings (\<lambda>k. Ok (if k \<le> 4 then unat k else 100 + unat k)) 107 8
      (cd_hashes (is_db (run_blocks small_settings 8))) = Err (Recoverable 8 4)"
    by (simp add: run_blocks_hashes detect_reorg_def block_hash_at_def checked_sub_def fork_at_def
        saturating_sub_def small_settings_def max_recoverable_depth_def word_le_nat_alt)
  show "handle_reorg small_settings (run_blocks small_settings 8) 8 4 = Err NoSavepoint"
    by (simp add: handle_reorg_def small_run savepoint_height_for_reorg_def saturating_sub_def
        word_le_nat_alt) (simp add: small_settings_def)
qed

section \<open>Savepoints of an abandoned chain\<close>

text \<open>After eight blocks the index recovers from a reorganisation of depth two, and indexes the five
  blocks \<open>105\<close> to \<open>109\<close> of the new chain.\<close>

definition reorged_run :: "nat index_state" where
  "reorged_run =
     (case handle_reorg small_settings (run_blocks small_settings 8) 8 2 of
        Ok st \<Rightarrow> fold (index_and_commit small_settings) [105, 106, 107, 108, 109] st
      | Err e \<Rightarrow> new_chain_index)"

lemma reorged_run_state:
  "cd_hashes (is_db reorged_run) = [0, 1, 2, 3, 4, 105, 106, 107, 108, 109]"
  "is_heights reorged_run = [8, 9]"
  "map_option cd_hashes (is_savepoints reorged_run 8) = Some [0, 1, 2, 3, 4, 5, 6, 7]"
  by code_simp+

definition twice_forked_node :: "u64 \<Rightarrow> (rpc_error, nat) result" where
  "twice_forked_node k = Ok (if k \<le> 4 then unat k else if k \<le> 8 then 100 + unat k else 200 + unat k)"

text \<open>Recovery keeps the savepoints above the fork, which hold blocks of the abandoned chain, and
  the later savepoints displace the older, good ones. So a second reorganisation, of the last block
  only, restores the abandoned chain; from there the index finds a reorganisation that it calls
  recoverable and that no savepoint precedes.\<close>

lemma abandoned_savepoint_restored:
  "detect_reorg small_settings twice_forked_node 209 10 (cd_hashes (is_db reorged_run)) = Err (Recoverable 10 2)
    \<and> (case handle_reorg small_settings reorged_run 10 2 of
         Ok st \<Rightarrow> cd_hashes (is_db st) = [0, 1, 2, 3, 4, 5, 6, 7]
           \<and> detect_reorg small_settings twice_forked_node 107 8 (cd_hashes (is_db st)) = Err (Recoverable 8 4)
           \<and> handle_reorg small_settings st 8 4 = Err NoSavepoint
       | Err e \<Rightarrow> False)"
proof -
  obtain snap where snap: "is_savepoints reorged_run 8 = Some snap" "cd_hashes snap = [0, 1, 2, 3, 4, 5, 6, 7]"
    using reorged_run_state(3) by auto
  have upt: "[Suc 0 ..< 5] = [1, 2, 3, 4 :: nat]" "[Suc 0 ..< 4] = [1, 2, 3 :: nat]" by (simp_all add: upt_rec)
  have choice: "savepoint_height_for_reorg [8, 9] 10 2 = Some 8" "savepoint_height_for_reorg [8, 9] 8 4 = None"
    by (simp_all add: savepoint_height_for_reorg_def saturating_sub_def word_le_nat_alt)
  have "detect_reorg small_settings twice_forked_node 209 10 (cd_hashes (is_db reorged_run)) = Err (Recoverable 10 2)"
    unfolding reorged_run_state(1)
    by (simp add: detect_reorg_def block_hash_at_def checked_sub_def fork_at_def upt twice_forked_node_def
        saturating_sub_def small_settings_def max_recoverable_depth_def word_le_nat_alt)
  moreover have "detect_reorg small_settings twice_forked_node 107 8 [0, 1, 2, 3, 4, 5, 6, 7] = Err (Recoverable 8 4)"
    by (simp add: detect_reorg_def block_hash_at_def checked_sub_def fork_at_def upt twice_forked_node_def
        saturating_sub_def small_settings_def max_recoverable_depth_def word_le_nat_alt)
  moreover have "savepoints_enabled small_settings" by (simp add: small_settings_def)
  ultimately show ?thesis
    by (simp add: handle_reorg_def reorged_run_state(2) choice snap)
qed

end
