(* ===== verification/Btree.thy ===== *)
theory Btree
  imports Prelude "HOL-Library.List_Lexorder"
begin

text \<open>
  Ordered maps as association lists in the order of their keys: the \<open>BTreeMap\<close> of the
  standard library and a database of LMDB, which iterates in the lexicographic order of
  the bytes of its keys. The interface that the stores use is the locale \<open>kv_store\<close>.
\<close>

fun btree_insert :: "'k::linorder \<Rightarrow> 'v \<Rightarrow> ('k \<times> 'v) list \<Rightarrow> ('k \<times> 'v) list" where
  "btree_insert k v [] = [(k, v)]"
| "btree_insert k v ((k', v') # m) =
     (if k = k' then (k, v) # m
      else if k < k' then (k, v) # (k', v') # m
      else (k', v') # btree_insert k v m)"

definition btree_remove :: "'k \<Rightarrow> ('k \<times> 'v) list \<Rightarrow> ('k \<times> 'v) list" where
  "btree_remove k m = filter (\<lambda>e. fst e \<noteq> k) m"

definition btree_ok :: "('k::linorder \<times> 'v) list \<Rightarrow> bool" where
  "btree_ok m = sorted_wrt (<) (map fst m)"

lemma map_of_btree_insert [simp]: "map_of (btree_insert k v m) = (map_of m)(k \<mapsto> v)"
  by (induction k v m rule: btree_insert.induct) auto

lemma map_of_btree_remove [simp]: "map_of (btree_remove k m) = (map_of m)(k := None)"
  unfolding btree_remove_def by (induction m) auto

lemma btree_ok_Nil [simp]: "btree_ok []"
  by (simp add: btree_ok_def)

lemma btree_ok_Cons [simp]:
  "btree_ok ((k, v) # m) \<longleftrightarrow> (\<forall>k' \<in> fst ` set m. k < k') \<and> btree_ok m"
  by (auto simp: btree_ok_def)

lemma keys_btree_insert [simp]: "fst ` set (btree_insert k v m) = insert k (fst ` set m)"
  by (induction k v m rule: btree_insert.induct) auto

lemma btree_ok_insert [simp]: "btree_ok m \<Longrightarrow> btree_ok (btree_insert k v m)"
proof (induction k v m rule: btree_insert.induct)
  case (2 k v k' v' m)
  then show ?case by (auto intro: less_trans)
qed simp

lemma btree_ok_remove [simp]: "btree_ok m \<Longrightarrow> btree_ok (btree_remove k m)"
  unfolding btree_ok_def btree_remove_def by (induction m) auto

lemma btree_ok_distinct: "btree_ok m \<Longrightarrow> distinct (map fst m)"
  unfolding btree_ok_def by (simp add: strict_sorted_iff)

lemma btree_eqI:
  assumes "btree_ok m" "btree_ok m'" "map_of m = map_of m'"
  shows "m = m'"
proof -
  have "map fst m = map fst m'"
  proof (rule sorted_distinct_set_unique)
    have "set (map fst m) = dom (map_of m)" for m :: "('a \<times> 'b) list" by (simp add: dom_map_of_conv_image_fst)
    then show "set (map fst m) = set (map fst m')" using assms(3) by metis
  qed (use assms in \<open>simp_all add: btree_ok_def strict_sorted_iff\<close>)
  moreover have "m = map (\<lambda>k. (k, the (map_of m k))) (map fst m)"
    if "btree_ok m" for m :: "('a \<times> 'b) list"
  proof -
    have "(k, the (map_of m k)) = e" if "e \<in> set m" "k = fst e" for e k
      using that map_of_is_SomeI [OF btree_ok_distinct [OF \<open>btree_ok m\<close>], of "fst e" "snd e"] by simp
    then show ?thesis by (simp add: map_idI)
  qed
  ultimately show ?thesis using assms by metis
qed

text \<open>The laws of a store of values under keys, and what its clients build on them.\<close>

locale kv_store =
  fixes get :: "'s \<Rightarrow> 'k \<Rightarrow> 'v option" and put :: "'k \<Rightarrow> 'v \<Rightarrow> 's \<Rightarrow> 's"
    and del :: "'k \<Rightarrow> 's \<Rightarrow> 's" and wf :: "'s \<Rightarrow> bool"
  assumes get_put: "get (put k v s) k' = (if k' = k then Some v else get s k')"
    and get_del: "get (del k s) k' = (if k' = k then None else get s k')"
    and wf_put: "wf s \<Longrightarrow> wf (put k v s)"
    and wf_del: "wf s \<Longrightarrow> wf (del k s)"
begin

lemma get_fold_put:
  "get (fold (\<lambda>(k, v). put k v) kvs s) k =
     (case map_of (rev kvs) k of Some v \<Rightarrow> Some v | None \<Rightarrow> get s k)"
  by (induction kvs rule: rev_induct) (auto simp: get_put split: option.splits prod.splits)

text \<open>Deleting a key, putting another and undoing both gives the store back.\<close>

lemma rekey_undo:
  assumes "get s old = Some v" "new \<noteq> old \<longrightarrow> get s new = None"
  shows "get (put old v (del new (put new v (del old s)))) = get s"
  by (rule ext) (use assms in \<open>auto simp: get_put get_del\<close>)

lemma wf_rekey: "wf s \<Longrightarrow> wf (put new v (del old s))"
  by (intro wf_put wf_del)

end

interpretation bt: kv_store map_of btree_insert btree_remove btree_ok
  by unfold_locales auto

end
