(* ===== verification/TxBuilder.thy ===== *)
theory TxBuilder
  imports SatIndex
begin

text \<open>
  The wallet's transaction builder (\<open>src/wallet/transaction_builder.rs\<close>): a builder record
  that goes through select, align, pad, add value, strip, deduct fee and a final build that
  asserts the invariants of an ordinal-aware transaction. A sorted map or set is the list of
  its entries in order. Sizes in virtual bytes, the fee of a size (floating point in the
  code), the dust limit of a script and the translation between addresses and scripts are the
  \<open>bitcoin\<close> crate's and are fields of an environment. An assertion that fails, an overflow
  of an \<open>Amount\<close> and an \<open>unwrap\<close> of nothing are the error \<open>TxPanic\<close>.
\<close>

section \<open>Data\<close>

type_synonym address = string

datatype tx_error = DuplicateAddress address | Dust u64 u64 | InvalidAddress
  | NotEnoughCardinalUtxos | NotInWallet satpoint | OutOfRange satpoint u64
  | UtxoContainsAdditionalInscriptions satpoint satpoint "string list" | ValueOverflow
  | TxPanic

datatype target = TargetValue u64 | Postage | ExactPostage u64

record tx_env =
  env_script :: "address \<Rightarrow> bytes"
  env_address :: "bytes \<Rightarrow> address option"
  env_op_return :: "bytes \<Rightarrow> bool"
  env_dust :: "bytes \<Rightarrow> u64"
  env_fee :: "nat \<Rightarrow> u64"
  env_vsize :: "nat \<Rightarrow> txout list \<Rightarrow> nat"

record builder =
  tb_amounts :: "(outpoint \<times> txout) list"
  tb_change_addresses :: "address list"
  tb_inputs :: "outpoint list"
  tb_inscriptions :: "(satpoint \<times> string list) list"
  tb_locked :: "outpoint list"
  tb_outgoing :: satpoint
  tb_outputs :: "txout list"
  tb_recipient :: bytes
  tb_runic :: "outpoint list"
  tb_target :: target
  tb_unused_change :: "address list"
  tb_utxos :: "outpoint list"

type_synonym 'a tx_result = "(tx_error, 'a) result"

definition ADDITIONAL_INPUT_VBYTES :: nat where "ADDITIONAL_INPUT_VBYTES = 57"
definition ADDITIONAL_OUTPUT_VBYTES :: nat where "ADDITIONAL_OUTPUT_VBYTES = 43"
definition MAX_POSTAGE :: u64 where "MAX_POSTAGE = 20000"
definition TARGET_POSTAGE :: u64 where "TARGET_POSTAGE = 10000"

section \<open>Helpers\<close>

definition tx_assert :: "bool \<Rightarrow> unit tx_result" where
  "tx_assert b = ensure b TxPanic"

definition unwrap :: "'a option \<Rightarrow> 'a tx_result" where
  "unwrap x = ok_or x TxPanic"

definition amount_add :: "u64 \<Rightarrow> u64 \<Rightarrow> u64 tx_result" where
  "amount_add a b = unwrap (checked_add a b)"

definition amount_sub :: "u64 \<Rightarrow> u64 \<Rightarrow> u64 tx_result" where
  "amount_sub a b = unwrap (checked_sub a b)"

fun amount_sum :: "u64 \<Rightarrow> u64 list \<Rightarrow> u64 tx_result" where
  "amount_sum acc [] = Ok acc"
| "amount_sum acc (v # vs) = and_then (amount_add acc v) (\<lambda>acc'. amount_sum acc' vs)"

definition last_of :: "'a list \<Rightarrow> 'a tx_result" where
  "last_of xs = (if xs = [] then Err TxPanic else Ok (last xs))"

definition amount_of :: "builder \<Rightarrow> outpoint \<Rightarrow> u64 tx_result" where
  "amount_of b p = and_then (unwrap (map_of (tb_amounts b) p)) (\<lambda>out. Ok (to_value out))"

definition set_last_value :: "u64 \<Rightarrow> txout list \<Rightarrow> txout list" where
  "set_last_value v outs = butlast outs @ [(last outs)\<lparr>to_value := v\<rparr>]"

definition set_first_value :: "u64 \<Rightarrow> txout list \<Rightarrow> txout list" where
  "set_first_value v outs = (hd outs)\<lparr>to_value := v\<rparr> # tl outs"

text \<open>\<open>BTreeSet\<close> of the two change addresses.\<close>

definition address_set :: "address list \<Rightarrow> address list" where
  "address_set xs = remdups xs"

definition new_builder ::
  "satpoint \<Rightarrow> (satpoint \<times> string list) list \<Rightarrow> (outpoint \<times> txout) list \<Rightarrow> outpoint list \<Rightarrow> outpoint list
     \<Rightarrow> bytes \<Rightarrow> address \<times> address \<Rightarrow> target \<Rightarrow> builder" where
  "new_builder outgoing inscriptions amounts locked runic recipient change tgt =
     \<lparr>tb_amounts = amounts, tb_change_addresses = address_set [fst change, snd change],
      tb_inputs = [], tb_inscriptions = inscriptions, tb_locked = locked, tb_outgoing = outgoing,
      tb_outputs = [], tb_recipient = recipient, tb_runic = runic, tb_target = tgt,
      tb_unused_change = [fst change, snd change], tb_utxos = map fst amounts\<rparr>"

fun sat_offset_from :: "builder \<Rightarrow> u64 \<Rightarrow> outpoint list \<Rightarrow> u64 tx_result" where
  "sat_offset_from b off [] = Err TxPanic"
| "sat_offset_from b off (p # ps) =
     (if p = fst (tb_outgoing b) then Ok (off + snd (tb_outgoing b))
      else and_then (amount_of b p) (\<lambda>v. sat_offset_from b (off + v) ps))"

definition calculate_sat_offset :: "builder \<Rightarrow> u64 tx_result" where
  "calculate_sat_offset b = sat_offset_from b 0 (tb_inputs b)"

definition estimate_vbytes :: "tx_env \<Rightarrow> builder \<Rightarrow> nat" where
  "estimate_vbytes E b = env_vsize E (length (tb_inputs b)) (tb_outputs b)"

definition estimate_fee :: "tx_env \<Rightarrow> builder \<Rightarrow> u64" where
  "estimate_fee E b = env_fee E (estimate_vbytes E b)"

section \<open>Selecting a cardinal output\<close>

definition abs_diff :: "u64 \<Rightarrow> u64 \<Rightarrow> u64" where
  "abs_diff a b = max a b - min a b"

definition better_match :: "bool \<Rightarrow> u64 \<Rightarrow> u64 \<Rightarrow> u64 \<Rightarrow> bool" where
  "better_match prefer_under target_value best_value current_value =
     (let is_closer = abs_diff current_value target_value < abs_diff best_value target_value;
          not_preference_but_closer =
            (if prefer_under then best_value > target_value \<and> is_closer
             else best_value < target_value \<and> is_closer);
          is_preference_and_closer =
            (if prefer_under then current_value \<le> target_value \<and> is_closer
             else current_value \<ge> target_value \<and> is_closer);
          newly_meets_preference =
            (if prefer_under then best_value > target_value \<and> current_value \<le> target_value
             else best_value < target_value \<and> current_value \<ge> target_value)
      in is_preference_and_closer \<or> not_preference_but_closer \<or> newly_meets_preference)"

definition is_cardinal :: "builder \<Rightarrow> outpoint \<Rightarrow> bool" where
  "is_cardinal b p =
     (p \<notin> set (tb_runic b) \<and> p \<notin> (fst \<circ> fst) ` set (tb_inscriptions b) \<and> p \<notin> set (tb_locked b))"

fun best_match ::
  "builder \<Rightarrow> bool \<Rightarrow> u64 \<Rightarrow> (outpoint \<times> u64) option \<Rightarrow> outpoint list \<Rightarrow> (outpoint \<times> u64) option tx_result" where
  "best_match b pu tgt best [] = Ok best"
| "best_match b pu tgt best (p # ps) =
     (if \<not> is_cardinal b p then best_match b pu tgt best ps
      else and_then (amount_of b p) (\<lambda>v.
        let (best_p, best_v) = (case best of Some prev \<Rightarrow> prev | None \<Rightarrow> (p, v))
        in best_match b pu tgt
             (Some (if better_match pu tgt best_v v then (p, v) else (best_p, best_v))) ps))"

definition select_cardinal_utxo :: "bool \<Rightarrow> u64 \<Rightarrow> builder \<Rightarrow> ((outpoint \<times> u64) \<times> builder) tx_result" where
  "select_cardinal_utxo pu tgt b =
     and_then (best_match b pu tgt None (tb_utxos b)) (\<lambda>best.
     and_then (ok_or best NotEnoughCardinalUtxos) (\<lambda>(p, v).
     Ok ((p, v), b\<lparr>tb_utxos := remove1 p (tb_utxos b)\<rparr>)))"

section \<open>The steps\<close>

fun inscription_conflict ::
  "satpoint \<Rightarrow> u64 \<Rightarrow> (satpoint \<times> string list) list \<Rightarrow> (satpoint \<times> string list) option" where
  "inscription_conflict outgoing dust [] = None"
| "inscription_conflict outgoing dust ((sp, ids) # rest) =
     (if fst outgoing = fst sp \<and> snd outgoing \<noteq> snd sp \<and> snd outgoing < snd sp + dust
      then Some (sp, ids) else inscription_conflict outgoing dust rest)"

definition select_outgoing :: "tx_env \<Rightarrow> builder \<Rightarrow> builder tx_result" where
  "select_outgoing E b =
     and_then (last_of (tb_unused_change b)) (\<lambda>change.
     let dust_limit = env_dust E (env_script E change) in
     case inscription_conflict (tb_outgoing b) dust_limit (rev (tb_inscriptions b)) of
       Some (sp, ids) \<Rightarrow> Err (UtxoContainsAdditionalInscriptions (tb_outgoing b) sp ids)
     | None \<Rightarrow>
         and_then (ok_or (map_of (tb_amounts b) (fst (tb_outgoing b))) (NotInWallet (tb_outgoing b)))
           (\<lambda>out. let amount = to_value out in
           if snd (tb_outgoing b) \<ge> amount then Err (OutOfRange (tb_outgoing b) (amount - 1))
           else Ok (b\<lparr>tb_utxos := remove1 (fst (tb_outgoing b)) (tb_utxos b),
                      tb_inputs := tb_inputs b @ [fst (tb_outgoing b)],
                      tb_outputs := tb_outputs b @ [\<lparr>to_value = amount, to_script = tb_recipient b\<rparr>]\<rparr>)))"

definition align_outgoing :: "tx_env \<Rightarrow> builder \<Rightarrow> builder tx_result" where
  "align_outgoing E b =
     and_then (tx_assert (length (tb_outputs b) = 1)) (\<lambda>_.
     and_then (tx_assert (to_script (hd (tb_outputs b)) = tb_recipient b)) (\<lambda>_.
     and_then (calculate_sat_offset b) (\<lambda>off.
     if off = 0 then Ok b
     else
       and_then (last_of (tb_unused_change b)) (\<lambda>change.
       let outs = \<lparr>to_value = off, to_script = env_script E change\<rparr> # tb_outputs b in
       and_then (amount_sub (to_value (last outs)) off) (\<lambda>v.
       Ok (b\<lparr>tb_unused_change := butlast (tb_unused_change b), tb_outputs := set_last_value v outs\<rparr>))))))"

text \<open>The loop that pads the alignment output; every turn removes an entry of \<open>utxos\<close>.\<close>

fun pad_loop :: "u64 \<Rightarrow> nat \<Rightarrow> builder \<Rightarrow> builder tx_result" where
  "pad_loop dust 0 b =
     (if to_value (hd (tb_outputs b)) < dust then Err NotEnoughCardinalUtxos else Ok b)"
| "pad_loop dust (Suc n) b =
     (if to_value (hd (tb_outputs b)) < dust then
        and_then (select_cardinal_utxo True (dust - to_value (hd (tb_outputs b))) b) (\<lambda>((p, size), b1).
        and_then (amount_add (to_value (hd (tb_outputs b1))) size) (\<lambda>v.
        pad_loop dust n
          (b1\<lparr>tb_inputs := p # tb_inputs b1, tb_outputs := set_first_value v (tb_outputs b1)\<rparr>)))
      else Ok b)"

definition pad_alignment_output :: "tx_env \<Rightarrow> builder \<Rightarrow> builder tx_result" where
  "pad_alignment_output E b =
     and_then (tx_assert (tb_outputs b \<noteq> [])) (\<lambda>_.
     if to_script (hd (tb_outputs b)) = tb_recipient b then Ok b
     else
       and_then (last_of (tb_unused_change b)) (\<lambda>change.
       pad_loop (env_dust E (env_script E change)) (length (tb_utxos b)) b))"

fun add_loop :: "tx_env \<Rightarrow> nat \<Rightarrow> u64 \<Rightarrow> builder \<Rightarrow> builder tx_result" where
  "add_loop E 0 deficit b =
     (if deficit > 0 then
        and_then (ok_or (checked_add deficit (env_fee E ADDITIONAL_INPUT_VBYTES)) ValueOverflow)
          (\<lambda>_. Err NotEnoughCardinalUtxos)
      else Ok b)"
| "add_loop E (Suc n) deficit b =
     (if deficit > 0 then
        let additional_fee = env_fee E ADDITIONAL_INPUT_VBYTES in
        and_then (ok_or (checked_add deficit additional_fee) ValueOverflow) (\<lambda>needed.
        and_then (select_cardinal_utxo False needed b) (\<lambda>((p, v), b1).
        and_then (ok_or (checked_sub v additional_fee) NotEnoughCardinalUtxos) (\<lambda>benefit.
        and_then (last_of (tb_outputs b1)) (\<lambda>out.
        and_then (amount_add (to_value out) v) (\<lambda>v'.
        let b2 = b1\<lparr>tb_inputs := tb_inputs b1 @ [p], tb_outputs := set_last_value v' (tb_outputs b1)\<rparr>
        in add_loop E n (if benefit > deficit then 0 else deficit - benefit) b2)))))
      else Ok b)"

definition add_value :: "tx_env \<Rightarrow> builder \<Rightarrow> builder tx_result" where
  "add_value E b =
     and_then (case tb_target b of
        Postage \<Rightarrow> and_then (last_of (tb_outputs b)) (\<lambda>out. Ok (env_dust E (to_script out)))
      | TargetValue v \<Rightarrow> Ok v | ExactPostage v \<Rightarrow> Ok v) (\<lambda>min_value.
     and_then (ok_or (checked_add min_value (estimate_fee E b)) ValueOverflow) (\<lambda>total.
     and_then (last_of (tb_outputs b)) (\<lambda>out.
     case checked_sub total (to_value out) of
       None \<Rightarrow> Ok b
     | Some deficit \<Rightarrow> add_loop E (length (tb_utxos b)) deficit b)))"

definition strip_limits :: "target \<Rightarrow> u64 \<times> u64" where
  "strip_limits t =
     (case t of ExactPostage postage \<Rightarrow> (postage, postage)
      | Postage \<Rightarrow> (MAX_POSTAGE, TARGET_POSTAGE) | TargetValue v \<Rightarrow> (v, v))"

definition strip_value :: "tx_env \<Rightarrow> builder \<Rightarrow> builder tx_result" where
  "strip_value E b =
     and_then (calculate_sat_offset b) (\<lambda>off.
     and_then (amount_sum 0 (map to_value (tb_outputs b))) (\<lambda>total.
     and_then (tx_assert (\<exists>out \<in> set (tb_outputs b). to_script out = tb_recipient b)) (\<lambda>_.
     and_then (amount_sub total off) (\<lambda>v.
     case checked_sub v (estimate_fee E b) of
       None \<Rightarrow> Ok b
     | Some excess \<Rightarrow>
         let (mx, tgt) = strip_limits (tb_target b) in
         if excess > mx then
           and_then (amount_sub v tgt) (\<lambda>rest.
           and_then (last_of (tb_unused_change b)) (\<lambda>change.
           and_then (amount_add (env_dust E (env_script E change))
                       (env_fee E (estimate_vbytes E b + ADDITIONAL_OUTPUT_VBYTES))) (\<lambda>limit.
           if rest > limit then
             Ok (b\<lparr>tb_unused_change := butlast (tb_unused_change b),
                   tb_outputs := set_last_value tgt (tb_outputs b)
                     @ [\<lparr>to_value = rest, to_script = env_script E change\<rparr>]\<rparr>)
           else Ok b)))
         else Ok b))))"

definition deduct_fee :: "tx_env \<Rightarrow> builder \<Rightarrow> builder tx_result" where
  "deduct_fee E b =
     and_then (calculate_sat_offset b) (\<lambda>off.
     let fee = estimate_fee E b in
     and_then (amount_sum 0 (map to_value (tb_outputs b))) (\<lambda>total.
     and_then (last_of (tb_outputs b)) (\<lambda>out.
     and_then (amount_sub total fee) (\<lambda>rest.
     and_then (tx_assert (rest > off)) (\<lambda>_.
     and_then (tx_assert (to_value out \<ge> fee)) (\<lambda>_.
     and_then (amount_sub (to_value out) fee) (\<lambda>v.
     Ok (b\<lparr>tb_outputs := set_last_value v (tb_outputs b)\<rparr>))))))))"

section \<open>The final checks\<close>

fun find_output_at :: "u64 \<Rightarrow> u64 \<Rightarrow> txout list \<Rightarrow> txout option" where
  "find_output_at off reached [] = None"
| "find_output_at off reached (out # outs) =
     (let reached' = reached + to_value out in
      if reached' > off then Some out else find_output_at off reached' outs)"

definition count_script :: "bytes \<Rightarrow> txout list \<Rightarrow> nat" where
  "count_script s outs = length (filter (\<lambda>out. to_script out = s) outs)"

fun max_amount :: "u64 list \<Rightarrow> u64" where
  "max_amount [] = 0"
| "max_amount (v # vs) = max v (max_amount vs)"

definition check_recipient :: "tx_env \<Rightarrow> builder \<Rightarrow> u64 \<Rightarrow> u64 \<Rightarrow> txout \<Rightarrow> unit tx_result" where
  "check_recipient E b sat_off off out =
     (let slop = env_fee E ADDITIONAL_OUTPUT_VBYTES in
      and_then
        (case tb_target b of
           Postage \<Rightarrow> and_then (amount_add MAX_POSTAGE slop) (\<lambda>m. tx_assert (to_value out \<le> m))
         | ExactPostage postage \<Rightarrow> and_then (amount_add postage slop) (\<lambda>m. tx_assert (to_value out \<le> m))
         | TargetValue v \<Rightarrow>
             and_then (amount_sub (to_value out) v) (\<lambda>over.
             and_then (amount_add (max_amount (map (\<lambda>a. env_dust E (env_script E a)) (tb_change_addresses b))) slop)
               (\<lambda>m. tx_assert (over \<le> m))))
        (\<lambda>_. tx_assert (off = sat_off)))"

fun check_outputs :: "tx_env \<Rightarrow> builder \<Rightarrow> u64 \<Rightarrow> u64 \<Rightarrow> txout list \<Rightarrow> unit tx_result" where
  "check_outputs E b sat_off off [] = Ok ()"
| "check_outputs E b sat_off off (out # outs) =
     and_then
       (if to_script out = tb_recipient b then check_recipient E b sat_off off out
        else tx_assert (\<exists>a \<in> set (tb_change_addresses b). env_script E a = to_script out))
       (\<lambda>_. check_outputs E b sat_off (off + to_value out) outs)"

fun input_amounts :: "builder \<Rightarrow> outpoint list \<Rightarrow> u64 list tx_result" where
  "input_amounts b [] = Ok []"
| "input_amounts b (p # ps) =
     and_then (amount_of b p) (\<lambda>v. and_then (input_amounts b ps) (\<lambda>vs. Ok (v # vs)))"

fun amount_subs :: "u64 \<Rightarrow> u64 list \<Rightarrow> u64 tx_result" where
  "amount_subs acc [] = Ok acc"
| "amount_subs acc (v # vs) = and_then (amount_sub acc v) (\<lambda>acc'. amount_subs acc' vs)"

definition build :: "tx_env \<Rightarrow> builder \<Rightarrow> transaction tx_result" where
  "build E b =
     (let tx = \<lparr>tx_inputs = tb_inputs b, tx_outputs = tb_outputs b\<rparr>; outgoing = tb_outgoing b in
      and_then (tx_assert (length (filter (\<lambda>(p, out). p = fst outgoing \<and> snd outgoing < to_value out)
                  (tb_amounts b)) = 1)) (\<lambda>_.
      and_then (tx_assert (length (filter (\<lambda>p. p = fst outgoing) (tx_inputs tx)) = 1)) (\<lambda>_.
      and_then (calculate_sat_offset b) (\<lambda>sat_off.
      and_then (unwrap (find_output_at sat_off 0 (tx_outputs tx))) (\<lambda>out.
      and_then (tx_assert (to_script out = tb_recipient b)) (\<lambda>_.
      and_then (tx_assert (count_script (tb_recipient b) (tx_outputs tx) = 1)) (\<lambda>_.
      and_then (tx_assert (\<forall>a \<in> set (tb_change_addresses b).
                  count_script (env_script E a) (tx_outputs tx) \<le> 1)) (\<lambda>_.
      and_then (check_outputs E b sat_off 0 (tx_outputs tx)) (\<lambda>_.
      and_then (input_amounts b (tx_inputs tx)) (\<lambda>ins.
      and_then (amount_sum 0 ins) (\<lambda>total_in.
      and_then (amount_subs total_in (map to_value (tx_outputs tx))) (\<lambda>actual_fee.
      and_then (tx_assert (actual_fee = estimate_fee E b)) (\<lambda>_.
      and_then (tx_assert (\<forall>out \<in> set (tx_outputs tx). to_value out \<ge> env_dust E (to_script out))) (\<lambda>_.
      Ok tx))))))))))))))"

definition check_addresses :: "tx_env \<Rightarrow> builder \<Rightarrow> unit tx_result" where
  "check_addresses E b =
     (if length (tb_change_addresses b) < 2 then
        and_then (tx_assert (tb_change_addresses b \<noteq> [])) (\<lambda>_.
        Err (DuplicateAddress (hd (tb_change_addresses b))))
      else if env_op_return E (tb_recipient b) then Ok ()
      else
        and_then (ok_or (env_address E (tb_recipient b)) InvalidAddress) (\<lambda>a.
        if a \<in> set (tb_change_addresses b) then Err (DuplicateAddress a)
        else
          (let dust_value = env_dust E (tb_recipient b) in
           case tb_target b of
             Postage \<Rightarrow> Ok ()
           | TargetValue v \<Rightarrow> ensure (v \<ge> dust_value) (Dust v dust_value)
           | ExactPostage v \<Rightarrow> ensure (v \<ge> dust_value) (Dust v dust_value))))"

definition build_transaction :: "tx_env \<Rightarrow> builder \<Rightarrow> transaction tx_result" where
  "build_transaction E b =
     and_then (check_addresses E b) (\<lambda>_.
     and_then (select_outgoing E b) (\<lambda>b1.
     and_then (align_outgoing E b1) (\<lambda>b2.
     and_then (pad_alignment_output E b2) (\<lambda>b3.
     and_then (add_value E b3) (\<lambda>b4.
     and_then (strip_value E b4) (\<lambda>b5.
     and_then (deduct_fee E b5) (build E)))))))"

section \<open>The selected output is the best one\<close>

text \<open>A value meets the preference when it is on the preferred side of the target.\<close>

definition meets :: "bool \<Rightarrow> u64 \<Rightarrow> u64 \<Rightarrow> bool" where
  "meets pu tgt v = (if pu then v \<le> tgt else tgt \<le> v)"

definition at_least_as_good :: "bool \<Rightarrow> u64 \<Rightarrow> u64 \<Rightarrow> u64 \<Rightarrow> bool" where
  "at_least_as_good pu tgt a v =
     ((meets pu tgt v \<longrightarrow> meets pu tgt a)
      \<and> (meets pu tgt a = meets pu tgt v \<longrightarrow> abs_diff a tgt \<le> abs_diff v tgt))"

lemma unat_max_word: "unat (max a b) = max (unat a) (unat (b :: u64))"
  by (simp add: max_def word_le_nat_alt)

lemma unat_min_word: "unat (min a b) = min (unat a) (unat (b :: u64))"
  by (simp add: min_def word_le_nat_alt)

lemma unat_abs_diff: "unat (abs_diff a b) = max (unat a) (unat b) - min (unat a) (unat b)"
proof -
  have "min a b \<le> max a b" by (rule order_trans [OF min.cobounded1 max.cobounded1])
  then show ?thesis by (simp only: abs_diff_def unat_sub unat_max_word unat_min_word)
qed

lemma good_refl: "at_least_as_good pu tgt a a"
  by (simp add: at_least_as_good_def)

lemma better_match_good:
  "at_least_as_good pu tgt (if better_match pu tgt best v then v else best) best
   \<and> at_least_as_good pu tgt (if better_match pu tgt best v then v else best) v"
  unfolding at_least_as_good_def better_match_def meets_def Let_def word_less_nat_alt
    word_le_nat_alt unat_abs_diff
  by (cases pu; cases "unat best \<le> unat tgt"; cases "unat v \<le> unat tgt"; simp; linarith)

lemma good_trans:
  "at_least_as_good pu tgt a b \<Longrightarrow> at_least_as_good pu tgt b c \<Longrightarrow> at_least_as_good pu tgt a c"
  unfolding at_least_as_good_def by (auto intro: order_trans)

lemma best_match_good:
  assumes "best_match b pu tgt best ps = Ok r"
    "\<And>p v. best = Some (p, v) \<Longrightarrow> is_cardinal b p \<and> amount_of b p = Ok v \<and> p \<in> U"
    "set ps \<subseteq> U"
  shows "(r = None \<longleftrightarrow> best = None \<and> (\<forall>p \<in> set ps. \<not> is_cardinal b p))
    \<and> (\<forall>p v. r = Some (p, v) \<longrightarrow> is_cardinal b p \<and> amount_of b p = Ok v \<and> p \<in> U
        \<and> (\<forall>q w. best = Some (q, w) \<longrightarrow> at_least_as_good pu tgt v w)
        \<and> (\<forall>q \<in> set ps. is_cardinal b q \<longrightarrow> (\<exists>w. amount_of b q = Ok w \<and> at_least_as_good pu tgt v w)))"
  using assms
proof (induction ps arbitrary: best)
  case Nil
  then show ?case by (auto simp: good_refl)
next
  case (Cons p ps)
  show ?case
  proof (cases "is_cardinal b p")
    case False
    with Cons.prems(1) have "best_match b pu tgt best ps = Ok r" by simp
    from Cons.IH [OF this Cons.prems(2)] Cons.prems(3) False show ?thesis by auto
  next
    case True
    with Cons.prems(1) obtain v where v: "amount_of b p = Ok v" by (auto simp: and_then_eq_Ok)
    obtain bp bv where bb: "(case best of Some prev \<Rightarrow> prev | None \<Rightarrow> (p, v)) = (bp, bv)"
      by (rule prod.exhaust)
    let ?n = "if better_match pu tgt bv v then (p, v) else (bp, bv)"
    have step: "best_match b pu tgt (Some ?n) ps = Ok r"
      using Cons.prems(1) True v bb by simp
    have bcard: "is_cardinal b bp \<and> amount_of b bp = Ok bv \<and> bp \<in> U"
      using bb Cons.prems(2,3) True v by (cases best) auto
    have n: "is_cardinal b x \<and> amount_of b x = Ok y \<and> x \<in> U" if "Some ?n = Some (x, y)" for x y
      using that bcard True v Cons.prems(3) by (auto split: if_splits)
    have sub: "set ps \<subseteq> U" using Cons.prems(3) by simp
    note ih = Cons.IH [OF step n sub]
    then obtain q w where r: "r = Some (q, w)" by (cases r) auto
    have good_n: "at_least_as_good pu tgt w (snd ?n)" using ih r by (cases ?n) auto
    have "at_least_as_good pu tgt w bv" "at_least_as_good pu tgt w v"
      using good_trans [OF good_n] better_match_good [of pu tgt bv v] by (auto split: if_splits)
    moreover have "best = Some (x, y) \<Longrightarrow> y = bv" for x y using bb by simp
    ultimately show ?thesis using ih r v True by auto
  qed
qed

lemma select_cardinal_spec:
  assumes "select_cardinal_utxo pu tgt b = Ok ((p, v), b')"
  shows "is_cardinal b p \<and> p \<in> set (tb_utxos b) \<and> amount_of b p = Ok v
    \<and> b' = b\<lparr>tb_utxos := remove1 p (tb_utxos b)\<rparr>
    \<and> (\<forall>q \<in> set (tb_utxos b). is_cardinal b q \<longrightarrow>
         (\<exists>w. amount_of b q = Ok w \<and> at_least_as_good pu tgt v w))"
proof -
  from assms have r: "best_match b pu tgt None (tb_utxos b) = Ok (Some (p, v))"
    and b': "b' = b\<lparr>tb_utxos := remove1 p (tb_utxos b)\<rparr>"
    by (auto simp: select_cardinal_utxo_def ok_elims)
  from best_match_good [OF r, of "set (tb_utxos b)"] b' show ?thesis by auto
qed

section \<open>What is spent\<close>

text \<open>The wallet of a builder is what no step changes.\<close>

definition same_wallet :: "builder \<Rightarrow> builder \<Rightarrow> bool" where
  "same_wallet a b =
     (tb_amounts b = tb_amounts a \<and> tb_change_addresses b = tb_change_addresses a
      \<and> tb_inscriptions b = tb_inscriptions a \<and> tb_locked b = tb_locked a
      \<and> tb_outgoing b = tb_outgoing a \<and> tb_recipient b = tb_recipient a
      \<and> tb_runic b = tb_runic a \<and> tb_target b = tb_target a)"

definition spends_ok :: "builder \<Rightarrow> builder \<Rightarrow> bool" where
  "spends_ok a b =
     (same_wallet a b \<and> distinct (tb_inputs b @ tb_utxos b)
      \<and> set (tb_inputs b @ tb_utxos b) \<subseteq> set (map fst (tb_amounts a))
      \<and> (\<forall>p \<in> set (tb_inputs b). p = fst (tb_outgoing a) \<or> is_cardinal a p))"

lemma same_wallet_refl [simp]: "same_wallet a a"
  by (simp add: same_wallet_def)

lemma same_wallet_cardinal: "same_wallet a b \<Longrightarrow> is_cardinal b = is_cardinal a"
  by (intro ext) (simp add: same_wallet_def is_cardinal_def)

lemma same_wallet_amount: "same_wallet a b \<Longrightarrow> amount_of b = amount_of a"
  by (intro ext) (simp add: same_wallet_def amount_of_def)

lemma spends_ok_outputs:
  "spends_ok a b \<Longrightarrow> spends_ok a (b\<lparr>tb_outputs := outs\<rparr>)"
  "spends_ok a b \<Longrightarrow> spends_ok a (b\<lparr>tb_unused_change := ch, tb_outputs := outs\<rparr>)"
  by (simp_all add: spends_ok_def same_wallet_def)

lemma spends_ok_select:
  assumes "spends_ok a b" "select_cardinal_utxo pu tgt b = Ok ((p, v), b1)"
  shows "spends_ok a (b1\<lparr>tb_inputs := p # tb_inputs b1, tb_outputs := outs\<rparr>)"
    "spends_ok a (b1\<lparr>tb_inputs := tb_inputs b1 @ [p], tb_outputs := outs\<rparr>)"
    "tb_outputs b1 = tb_outputs b"
proof -
  from select_cardinal_spec [OF assms(2)] have c: "is_cardinal b p" "p \<in> set (tb_utxos b)"
    "b1 = b\<lparr>tb_utxos := remove1 p (tb_utxos b)\<rparr>" by simp_all
  have ok: "same_wallet a b" "distinct (tb_inputs b @ tb_utxos b)"
    "set (tb_inputs b @ tb_utxos b) \<subseteq> set (map fst (tb_amounts a))"
    "\<forall>p \<in> set (tb_inputs b). p = fst (tb_outgoing a) \<or> is_cardinal a p"
    using assms(1) by (simp_all add: spends_ok_def)
  have "is_cardinal a p" using c(1) same_wallet_cardinal [OF ok(1)] by simp
  with ok c(2) show "spends_ok a (b1\<lparr>tb_inputs := p # tb_inputs b1, tb_outputs := outs\<rparr>)"
    "spends_ok a (b1\<lparr>tb_inputs := tb_inputs b1 @ [p], tb_outputs := outs\<rparr>)"
    "tb_outputs b1 = tb_outputs b"
    by (auto simp: c(3) spends_ok_def same_wallet_def)
qed

lemma spends_ok_pad_loop:
  "\<lbrakk>pad_loop dust n b = Ok b'; spends_ok a b\<rbrakk> \<Longrightarrow> spends_ok a b'"
proof (induction n arbitrary: b)
  case 0
  then show ?case by (simp split: if_splits)
next
  case (Suc n)
  then show ?case
    by (auto simp: ok_elims split: if_splits dest: spends_ok_select(1))
qed

lemma spends_ok_add_loop:
  "\<lbrakk>add_loop E n d b = Ok b'; spends_ok a b\<rbrakk> \<Longrightarrow> spends_ok a b'"
proof (induction n arbitrary: b d)
  case 0
  then show ?case by (auto simp: and_then_eq_Ok split: if_splits)
next
  case (Suc n)
  show ?case
  proof (cases "d > 0")
    case False
    with Suc.prems show ?thesis by simp
  next
    case True
    with Suc.prems(1) obtain needed p v b1 outs d' where
      s: "select_cardinal_utxo False needed b = Ok ((p, v), b1)"
      "add_loop E n d' (b1\<lparr>tb_inputs := tb_inputs b1 @ [p], tb_outputs := outs\<rparr>) = Ok b'"
      by (auto simp: Let_def and_then_eq_Ok)
    from Suc.IH [OF s(2) spends_ok_select(2) [OF Suc.prems(2) s(1)]] show ?thesis .
  qed
qed

lemma spends_ok_steps:
  assumes "spends_ok a b"
  shows "align_outgoing E b = Ok b' \<Longrightarrow> spends_ok a b'"
    "pad_alignment_output E b = Ok b' \<Longrightarrow> spends_ok a b'"
    "add_value E b = Ok b' \<Longrightarrow> spends_ok a b'"
    "strip_value E b = Ok b' \<Longrightarrow> spends_ok a b'"
    "deduct_fee E b = Ok b' \<Longrightarrow> spends_ok a b'"
proof -
  show "align_outgoing E b = Ok b' \<Longrightarrow> spends_ok a b'"
    using assms by (auto simp: align_outgoing_def and_then_eq_Ok Let_def spends_ok_outputs split: if_splits)
  show "pad_alignment_output E b = Ok b' \<Longrightarrow> spends_ok a b'"
    using assms by (auto simp: pad_alignment_output_def and_then_eq_Ok split: if_splits dest: spends_ok_pad_loop)
  show "add_value E b = Ok b' \<Longrightarrow> spends_ok a b'"
    using assms by (auto simp: add_value_def and_then_eq_Ok split: option.splits dest: spends_ok_add_loop)
  show "strip_value E b = Ok b' \<Longrightarrow> spends_ok a b'"
    using assms by (cases "strip_limits (tb_target b)")
      (auto simp: strip_value_def and_then_eq_Ok Let_def spends_ok_outputs
        split: option.splits if_splits)
  show "deduct_fee E b = Ok b' \<Longrightarrow> spends_ok a b'"
    using assms by (auto simp: deduct_fee_def and_then_eq_Ok Let_def spends_ok_outputs)
qed

lemma select_outgoing_spends:
  assumes "select_outgoing E b = Ok b'" "tb_inputs b = []" "tb_utxos b = map fst (tb_amounts b)"
    "distinct (map fst (tb_amounts b))"
  shows "spends_ok b b'"
proof -
  from assms(1) obtain out where out: "map_of (tb_amounts b) (fst (tb_outgoing b)) = Some out"
    and b': "b' = b\<lparr>tb_utxos := remove1 (fst (tb_outgoing b)) (tb_utxos b),
      tb_inputs := tb_inputs b @ [fst (tb_outgoing b)],
      tb_outputs := tb_outputs b @ [\<lparr>to_value = to_value out, to_script = tb_recipient b\<rparr>]\<rparr>"
    by (auto simp: select_outgoing_def and_then_eq_Ok ok_or_eq Let_def split: option.splits if_splits)
  from map_of_SomeD [OF out] have "fst (tb_outgoing b) \<in> set (map fst (tb_amounts b))" by force
  with assms(2-4) show ?thesis by (auto simp: b' spends_ok_def same_wallet_def)
qed

lemma build_transaction_steps:
  assumes "build_transaction E b = Ok tx" "tb_inputs b = []" "tb_utxos b = map fst (tb_amounts b)"
    "distinct (map fst (tb_amounts b))"
  obtains b' where "spends_ok b b'" "build E b' = Ok tx"
proof -
  from assms(1) obtain b1 b2 b3 b4 b5 b6 where
    "select_outgoing E b = Ok b1" "align_outgoing E b1 = Ok b2" "pad_alignment_output E b2 = Ok b3"
    "add_value E b3 = Ok b4" "strip_value E b4 = Ok b5" "deduct_fee E b5 = Ok b6" "build E b6 = Ok tx"
    by (auto simp: build_transaction_def and_then_eq_Ok)
  with that select_outgoing_spends [OF _ assms(2-4)] spends_ok_steps show ?thesis by metis
qed

lemma build_tx: "build E b = Ok tx \<Longrightarrow> tx_inputs tx = tb_inputs b \<and> tx_outputs tx = tb_outputs b"
  by (auto simp: build_def Let_def and_then_eq_Ok)

section \<open>What is paid\<close>

abbreviation out_total :: "txout list \<Rightarrow> nat" where
  "out_total outs \<equiv> sum_list (map (\<lambda>out. unat (to_value out)) outs)"

definition value_at :: "(outpoint \<times> txout) list \<Rightarrow> outpoint \<Rightarrow> nat" where
  "value_at amounts p = (case map_of amounts p of Some out \<Rightarrow> unat (to_value out) | None \<Rightarrow> 0)"

abbreviation worth :: "(outpoint \<times> txout) list \<Rightarrow> outpoint list \<Rightarrow> nat" where
  "worth amounts ps \<equiv> sum_list (map (value_at amounts) ps)"

lemma amount_add_Ok: "amount_add a b = Ok c \<Longrightarrow> unat c = unat a + unat b"
  by (auto simp: amount_add_def unwrap_def ok_or_eq checked_add_Some unat_add_small)

lemma amount_sub_Ok: "amount_sub a b = Ok c \<Longrightarrow> unat a = unat c + unat b"
  by (auto simp: amount_sub_def unwrap_def ok_or_eq checked_sub_Some unat_sub word_le_nat_alt)

lemma amount_sum_Ok: "amount_sum acc vs = Ok r \<Longrightarrow> unat r = unat acc + sum_list (map unat vs)"
  by (induction vs arbitrary: acc) (auto simp: and_then_eq_Ok dest: amount_add_Ok)

lemma amount_subs_Ok: "amount_subs acc vs = Ok r \<Longrightarrow> unat acc = unat r + sum_list (map unat vs)"
  by (induction vs arbitrary: acc) (fastforce simp: and_then_eq_Ok dest: amount_sub_Ok)+

lemma amount_of_worth: "amount_of b p = Ok v \<Longrightarrow> value_at (tb_amounts b) p = unat v"
  by (auto simp: amount_of_def unwrap_def ok_elims value_at_def)

lemma input_amounts_worth:
  "input_amounts b ps = Ok vs \<Longrightarrow> sum_list (map unat vs) = worth (tb_amounts b) ps"
  by (induction ps arbitrary: vs) (auto simp: and_then_eq_Ok amount_of_worth)

text \<open>The offset of the outgoing sat among the inputs, as a number when nothing wraps.\<close>

lemma sat_offset_from_Ok:
  assumes "sat_offset_from b off ps = Ok o'" "unat off + worth (tb_amounts b) ps < 2 ^ 64"
    "unat (snd (tb_outgoing b)) < value_at (tb_amounts b) (fst (tb_outgoing b))"
  shows "\<exists>before after. ps = before @ fst (tb_outgoing b) # after
    \<and> unat o' = unat off + worth (tb_amounts b) before + unat (snd (tb_outgoing b))"
  using assms(1,2)
proof (induction ps arbitrary: off)
  case Nil
  then show ?case by simp
next
  case (Cons p ps)
  show ?case
  proof (cases "p = fst (tb_outgoing b)")
    case True
    with Cons.prems assms(3) have "unat off + unat (snd (tb_outgoing b)) < 2 ^ LENGTH(64)" by simp
    then have "unat (off + snd (tb_outgoing b)) = unat off + unat (snd (tb_outgoing b))"
      by (rule unat_add_small)
    with True Cons.prems(1) show ?thesis by (intro exI [of _ "[]"] exI [of _ ps]) simp
  next
    case False
    with Cons.prems(1) obtain v where v: "amount_of b p = Ok v" "sat_offset_from b (off + v) ps = Ok o'"
      by (auto simp: and_then_eq_Ok)
    note w = amount_of_worth [OF v(1)]
    have sum: "unat (off + v) = unat off + unat v"
      using Cons.prems(2) w by (intro unat_add_small) simp
    from Cons.IH [OF v(2)] Cons.prems(2) w sum obtain before after where
      "ps = before @ fst (tb_outgoing b) # after"
      "unat o' = unat off + unat v + worth (tb_amounts b) before + unat (snd (tb_outgoing b))"
      by auto
    with w show ?thesis by (intro exI [of _ "p # before"] exI [of _ after]) simp
  qed
qed

lemma check_outputs_Ok:
  assumes "check_outputs E b so off outs = Ok ()" "unat off + out_total outs < 2 ^ 64"
  shows "\<forall>before out after. outs = before @ out # after \<longrightarrow>
    (to_script out = tb_recipient b \<longrightarrow> unat so = unat off + out_total before)
    \<and> (to_script out \<noteq> tb_recipient b \<longrightarrow> (\<exists>a \<in> set (tb_change_addresses b). env_script E a = to_script out))"
  using assms
proof (induction outs arbitrary: off)
  case Nil
  then show ?case by simp
next
  case (Cons o1 outs)
  from Cons.prems(1) have rest: "check_outputs E b so (off + to_value o1) outs = Ok ()"
    and here: "to_script o1 = tb_recipient b \<Longrightarrow> so = off"
      "to_script o1 \<noteq> tb_recipient b \<Longrightarrow> \<exists>a \<in> set (tb_change_addresses b). env_script E a = to_script o1"
    by (auto simp: and_then_eq_Ok check_recipient_def Let_def tx_assert_def ensure_eq split: if_splits)
  have sum: "unat (off + to_value o1) = unat off + unat (to_value o1)"
    using Cons.prems(2) by (intro unat_add_small) simp
  from Cons.IH [OF rest] Cons.prems(2) sum have ih: "\<forall>before out after. outs = before @ out # after \<longrightarrow>
    (to_script out = tb_recipient b \<longrightarrow> unat so = unat off + unat (to_value o1) + out_total before)
    \<and> (to_script out \<noteq> tb_recipient b \<longrightarrow> (\<exists>a \<in> set (tb_change_addresses b). env_script E a = to_script out))"
    by simp
  show ?case
  proof (intro allI impI)
    fix before out after
    assume split: "o1 # outs = before @ out # after"
    show "(to_script out = tb_recipient b \<longrightarrow> unat so = unat off + out_total before)
      \<and> (to_script out \<noteq> tb_recipient b \<longrightarrow> (\<exists>a \<in> set (tb_change_addresses b). env_script E a = to_script out))"
    proof (cases before)
      case Nil
      with split here show ?thesis by simp
    next
      case (Cons x before')
      with split have x: "o1 = x" "outs = before' @ out # after" by simp_all
      from ih x(2) have "to_script out = tb_recipient b \<longrightarrow> unat so = unat off + unat (to_value o1) + out_total before'"
        "to_script out \<noteq> tb_recipient b \<longrightarrow> (\<exists>a \<in> set (tb_change_addresses b). env_script E a = to_script out)"
        by blast+
      with Cons x(1) show ?thesis by simp
    qed
  qed
qed

lemma build_sound:
  assumes "build E b = Ok tx" "distinct (map fst (tb_amounts b))"
  shows "\<exists>ins_before ins_after outs_before out outs_after.
      tx_inputs tx = ins_before @ fst (tb_outgoing b) # ins_after
    \<and> tx_outputs tx = outs_before @ out # outs_after \<and> to_script out = tb_recipient b
    \<and> (\<forall>o' \<in> set (outs_before @ outs_after). to_script o' \<noteq> tb_recipient b
        \<and> (\<exists>a \<in> set (tb_change_addresses b). env_script E a = to_script o'))
    \<and> worth (tb_amounts b) ins_before + unat (snd (tb_outgoing b)) = out_total outs_before
    \<and> worth (tb_amounts b) (tx_inputs tx) = out_total (tx_outputs tx)
        + unat (env_fee E (env_vsize E (length (tx_inputs tx)) (tx_outputs tx)))
    \<and> (\<forall>o' \<in> set (tx_outputs tx). env_dust E (to_script o') \<le> to_value o')"
proof -
  let ?am = "tb_amounts b" and ?og = "tb_outgoing b"
  from assms(1) obtain so ins total_in fee where
    found: "length (filter (\<lambda>(p, out). p = fst ?og \<and> snd ?og < to_value out) ?am) = 1"
    and so: "calculate_sat_offset b = Ok so"
    and one: "count_script (tb_recipient b) (tb_outputs b) = 1"
    and checks: "check_outputs E b so 0 (tb_outputs b) = Ok ()"
    and ins: "input_amounts b (tb_inputs b) = Ok ins" "amount_sum 0 ins = Ok total_in"
    and fee: "amount_subs total_in (map to_value (tb_outputs b)) = Ok fee" "fee = estimate_fee E b"
    and dust: "\<forall>out \<in> set (tb_outputs b). env_dust E (to_script out) \<le> to_value out"
    and tx: "tx_inputs tx = tb_inputs b" "tx_outputs tx = tb_outputs b"
    by (auto simp: build_def Let_def and_then_eq_Ok tx_assert_def ensure_eq)
  have total: "unat total_in = worth ?am (tb_inputs b)"
    using amount_sum_Ok [OF ins(2)] input_amounts_worth [OF ins(1)] by simp
  have paid: "unat total_in = unat fee + out_total (tb_outputs b)"
    using amount_subs_Ok [OF fee(1)] by (simp add: comp_def)
  have bound: "unat total_in < 2 ^ 64" using unsigned_less [of total_in, where 'a = nat] by simp
  from filter_length_one_iff_count [OF found] obtain out0 where
    "(fst ?og, out0) \<in> set ?am" "snd ?og < to_value out0" by auto
  with assms(2) have in_range: "unat (snd ?og) < value_at ?am (fst ?og)"
    by (simp add: value_at_def word_less_nat_alt)
  have "unat (0 :: u64) + worth ?am (tb_inputs b) < 2 ^ 64" using bound by (simp add: total)
  from sat_offset_from_Ok [OF so [unfolded calculate_sat_offset_def] this in_range]
  obtain ins_before ins_after where i: "tb_inputs b = ins_before @ fst ?og # ins_after"
    "unat so = worth ?am ins_before + unat (snd ?og)" by auto
  have "\<exists>out \<in> set (tb_outputs b). to_script out = tb_recipient b"
    using filter_length_one_iff_count [OF one [unfolded count_script_def]] .
  then obtain outs_before out outs_after where o: "tb_outputs b = outs_before @ out # outs_after"
    "to_script out = tb_recipient b" by (meson split_list)
  have others: "\<forall>o' \<in> set (outs_before @ outs_after). to_script o' \<noteq> tb_recipient b"
    using one o by (auto simp: count_script_def filter_empty_conv)
  have "unat (0 :: u64) + out_total (tb_outputs b) < 2 ^ 64" using bound paid by simp
  note check = check_outputs_Ok [OF checks this, rule_format]
  have off: "unat so = out_total outs_before" using check [OF o(1)] o(2) by simp
  have change: "\<exists>a \<in> set (tb_change_addresses b). env_script E a = to_script o'"
    if "o' \<in> set (outs_before @ outs_after)" for o'
  proof -
    from that o(1) have "o' \<in> set (tb_outputs b)" by auto
    then obtain xs ys where "tb_outputs b = xs @ o' # ys" by (meson split_list)
    from check [OF this] others that show ?thesis by blast
  qed
  show ?thesis
    using i o others change off total paid fee(2) dust
    by (intro exI [of _ ins_before] exI [of _ ins_after] exI [of _ outs_before] exI [of _ out]
        exI [of _ outs_after]) (simp add: tx estimate_fee_def estimate_vbytes_def)
qed

text \<open>A wallet with one output of ten thousand sats, at one sat per virtual byte.\<close>

definition sample_env :: tx_env where
  "sample_env = \<lparr>env_script = (\<lambda>a. [word_of_nat (length a)]), env_address = (\<lambda>s. Some []),
     env_op_return = (\<lambda>s. s = [106]), env_dust = (\<lambda>s. 330), env_fee = (\<lambda>n. word_of_nat n),
     env_vsize = (\<lambda>i outs. 11 + 57 * i + 43 * length outs)\<rparr>"

definition sample_builder :: "u64 \<Rightarrow> target \<Rightarrow> builder" where
  "sample_builder v t =
     new_builder (([1], 0), 0) [] [(([1], 0), \<lparr>to_value = v, to_script = [9]\<rparr>)] [] [] [0] (''a'', ''bb'') t"

lemmas sample_simps = sample_env_def sample_builder_def new_builder_def address_set_def
  build_transaction_def check_addresses_def select_outgoing_def align_outgoing_def
  pad_alignment_output_def add_value_def strip_value_def deduct_fee_def build_def last_of_def
  tx_assert_def unwrap_def amount_add_def amount_sub_def checked_add_def checked_sub_def amount_of_def
  set_last_value_def calculate_sat_offset_def estimate_fee_def estimate_vbytes_def strip_limits_def
  MAX_POSTAGE_def TARGET_POSTAGE_def ADDITIONAL_INPUT_VBYTES_def ADDITIONAL_OUTPUT_VBYTES_def
  count_script_def check_recipient_def

lemma sample_run:
  "build_transaction sample_env (sample_builder 10000 Postage)
   = Ok \<lparr>tx_inputs = [([1], 0)], tx_outputs = [\<lparr>to_value = 9889, to_script = [0]\<rparr>]\<rparr>"
  by (simp add: sample_simps word_le_nat_alt word_less_nat_alt Let_def)

section \<open>Properties\<close>

text \<open>coin selection is optimal: no other cardinal output is on the preferred side of the target
  when the chosen one is not, and among those on the same side none is closer.\<close>

theorem select_cardinal_best:
  assumes "select_cardinal_utxo pu tgt b = Ok ((p, v), b')"
    "q \<in> set (tb_utxos b)" "is_cardinal b q" "amount_of b q = Ok w"
  shows "is_cardinal b p \<and> p \<in> set (tb_utxos b) \<and> amount_of b p = Ok v
    \<and> (meets pu tgt w \<longrightarrow> meets pu tgt v)
    \<and> (meets pu tgt v = meets pu tgt w \<longrightarrow>
        max (unat v) (unat tgt) - min (unat v) (unat tgt) \<le> max (unat w) (unat tgt) - min (unat w) (unat tgt))"
proof -
  from select_cardinal_spec [OF assms(1)] assms(2-4)
  have "is_cardinal b p \<and> p \<in> set (tb_utxos b) \<and> amount_of b p = Ok v" "at_least_as_good pu tgt v w"
    by auto
  then show ?thesis by (simp add: at_least_as_good_def word_le_nat_alt unat_abs_diff)
qed

theorem select_cardinal_best_witness:
  "is_cardinal (sample_builder 500 Postage) ([1], 0)
    \<and> ([1], 0) \<in> set (tb_utxos (sample_builder 500 Postage))
    \<and> amount_of (sample_builder 500 Postage) ([1], 0) = Ok 500"
proof -
  have full: "is_cardinal (sample_builder 500 Postage) ([1], 0)
    \<and> ([1], 0) \<in> set (tb_utxos (sample_builder 500 Postage))
    \<and> amount_of (sample_builder 500 Postage) ([1], 0) = Ok 500
    \<and> (meets True 700 500 \<longrightarrow> meets True 700 500)
    \<and> (meets True 700 500 = meets True 700 500 \<longrightarrow>
        max (unat (500 :: u64)) (unat (700 :: u64)) - min (unat (500 :: u64)) (unat (700 :: u64))
        \<le> max (unat (500 :: u64)) (unat (700 :: u64)) - min (unat (500 :: u64)) (unat (700 :: u64)))"
    by (rule select_cardinal_best [where b' = "(sample_builder 500 Postage)\<lparr>tb_utxos := []\<rparr>"
          and q = "([1], 0)"])
      (simp_all add: select_cardinal_utxo_def sample_simps is_cardinal_def better_match_def Let_def)
  from full show ?thesis
    by blast
qed

text \<open>C11: a transaction the builder returns spends the outgoing output and, beside it, only outputs of
  the wallet that are unlocked and hold no inscription and no rune, none of them twice.\<close>

theorem build_transaction_spends_cardinals:
  assumes "distinct (map fst amounts)"
    "build_transaction E (new_builder outgoing inscriptions amounts locked runic recipient change tgt) = Ok tx"
  shows "distinct (tx_inputs tx) \<and> fst outgoing \<in> set (tx_inputs tx)
    \<and> (\<forall>p \<in> set (tx_inputs tx). p \<in> fst ` set amounts
        \<and> (p = fst outgoing \<or> p \<notin> set locked \<and> p \<notin> set runic \<and> p \<notin> (fst \<circ> fst) ` set inscriptions))"
proof -
  let ?b = "new_builder outgoing inscriptions amounts locked runic recipient change tgt"
  obtain b' where b': "spends_ok ?b b'" "build E b' = Ok tx"
    by (rule build_transaction_steps [OF assms(2)]) (simp_all add: new_builder_def assms(1))
  have "distinct (map fst (tb_amounts b'))"
    using b'(1) assms(1) by (simp add: spends_ok_def same_wallet_def new_builder_def)
  from build_sound [OF b'(2) this] have "fst (tb_outgoing b') \<in> set (tx_inputs tx)" by auto
  moreover have "tx_inputs tx = tb_inputs b'" using build_tx [OF b'(2)] by simp
  ultimately show ?thesis
    using b'(1) by (auto simp: spends_ok_def same_wallet_def new_builder_def is_cardinal_def)
qed

theorem build_transaction_spends_cardinals_witness:
  "build_transaction sample_env (sample_builder 10000 Postage) = Ok \<lparr>tx_inputs = [([1], 0)], tx_outputs = [\<lparr>to_value = 9889, to_script = [0]\<rparr>]\<rparr>
    \<and> distinct (tx_inputs \<lparr>tx_inputs = [([1], 0)], tx_outputs = [\<lparr>to_value = 9889, to_script = [0]\<rparr>]\<rparr>)
    \<and> ([1], 0) \<in> set (tx_inputs \<lparr>tx_inputs = [([1], 0)], tx_outputs = [\<lparr>to_value = 9889, to_script = [0]\<rparr>]\<rparr>)"
proof -
  have full: "distinct (tx_inputs \<lparr>tx_inputs = [([1 :: u8], 0 :: u32)], tx_outputs = [\<lparr>to_value = 9889, to_script = [0]\<rparr>]\<rparr>)
    \<and> fst (([1 :: u8], 0 :: u32), 0 :: u64) \<in> set (tx_inputs \<lparr>tx_inputs = [([1], 0)], tx_outputs = [\<lparr>to_value = 9889, to_script = [0]\<rparr>]\<rparr>)
    \<and> (\<forall>p \<in> set (tx_inputs \<lparr>tx_inputs = [([1], 0)], tx_outputs = [\<lparr>to_value = 9889, to_script = [0]\<rparr>]\<rparr>).
        p \<in> fst ` set [(([1], 0), \<lparr>to_value = 10000, to_script = [9]\<rparr>)]
        \<and> (p = fst (([1 :: u8], 0 :: u32), 0 :: u64) \<or> p \<notin> set [] \<and> p \<notin> set []
            \<and> p \<notin> (fst \<circ> fst) ` set ([] :: (satpoint \<times> string list) list)))"
    by (rule build_transaction_spends_cardinals [OF _ sample_run [unfolded sample_builder_def]]) simp
  from full show ?thesis
    using sample_run by simp
qed

text \<open>C1: a transaction the builder returns is right: its inputs up to the outgoing output, plus the
  offset of the outgoing sat there, are worth exactly the outputs before the recipient's, so the
  sat is the first of that output; the recipient is paid once and the rest goes to the change
  addresses; inputs are outputs plus the fee for the size; and no output is dust.\<close>

theorem build_transaction_sound:
  assumes "distinct (map fst amounts)"
    "build_transaction E (new_builder outgoing inscriptions amounts locked runic recipient change tgt) = Ok tx"
  shows "\<exists>ins_before ins_after outs_before out outs_after.
      tx_inputs tx = ins_before @ fst outgoing # ins_after
    \<and> tx_outputs tx = outs_before @ out # outs_after \<and> to_script out = recipient
    \<and> (\<forall>o' \<in> set (outs_before @ outs_after). to_script o' \<noteq> recipient
        \<and> (\<exists>a \<in> {fst change, snd change}. env_script E a = to_script o'))
    \<and> worth amounts ins_before + unat (snd outgoing) = out_total outs_before
    \<and> worth amounts (tx_inputs tx) = out_total (tx_outputs tx)
        + unat (env_fee E (env_vsize E (length (tx_inputs tx)) (tx_outputs tx)))
    \<and> (\<forall>o' \<in> set (tx_outputs tx). env_dust E (to_script o') \<le> to_value o')"
proof -
  let ?b = "new_builder outgoing inscriptions amounts locked runic recipient change tgt"
  obtain b' where b': "spends_ok ?b b'" "build E b' = Ok tx"
    by (rule build_transaction_steps [OF assms(2)]) (simp_all add: new_builder_def assms(1))
  have f: "tb_amounts b' = amounts" "tb_outgoing b' = outgoing" "tb_recipient b' = recipient"
    "set (tb_change_addresses b') = {fst change, snd change}"
    using b'(1) by (simp_all add: spends_ok_def same_wallet_def new_builder_def address_set_def)
  have "distinct (map fst (tb_amounts b'))" using assms(1) f(1) by simp
  from build_sound [OF b'(2) this] show ?thesis unfolding f .
qed

theorem build_transaction_sound_witness:
  "build_transaction sample_env (sample_builder 10000 Postage) = Ok \<lparr>tx_inputs = [([1], 0)], tx_outputs = [\<lparr>to_value = 9889, to_script = [0]\<rparr>]\<rparr>
    \<and> worth [(([1], 0), \<lparr>to_value = 10000, to_script = [9]\<rparr>)] (tx_inputs \<lparr>tx_inputs = [([1], 0)], tx_outputs = [\<lparr>to_value = 9889, to_script = [0]\<rparr>]\<rparr>)
      = out_total (tx_outputs \<lparr>tx_inputs = [([1], 0)], tx_outputs = [\<lparr>to_value = 9889, to_script = [0]\<rparr>]\<rparr>)
        + unat (env_fee sample_env (env_vsize sample_env 1 (tx_outputs \<lparr>tx_inputs = [([1], 0)], tx_outputs = [\<lparr>to_value = 9889, to_script = [0]\<rparr>]\<rparr>)))"
proof -
  have full: "\<exists>ins_before ins_after outs_before out outs_after.
      tx_inputs \<lparr>tx_inputs = [([1], 0)], tx_outputs = [\<lparr>to_value = 9889, to_script = [0]\<rparr>]\<rparr>
        = ins_before @ fst (([1], 0), 0 :: u64) # ins_after
    \<and> tx_outputs \<lparr>tx_inputs = [([1], 0)], tx_outputs = [\<lparr>to_value = 9889, to_script = [0]\<rparr>]\<rparr>
        = outs_before @ out # outs_after \<and> to_script out = [0]
    \<and> (\<forall>o' \<in> set (outs_before @ outs_after). to_script o' \<noteq> [0]
        \<and> (\<exists>a \<in> {fst (''a'', ''bb''), snd (''a'', ''bb'')}. env_script sample_env a = to_script o'))
    \<and> worth [(([1], 0), \<lparr>to_value = 10000, to_script = [9]\<rparr>)] ins_before + unat (snd (([1 :: u8], 0 :: u32), 0 :: u64))
        = out_total outs_before
    \<and> worth [(([1], 0), \<lparr>to_value = 10000, to_script = [9]\<rparr>)]
        (tx_inputs \<lparr>tx_inputs = [([1], 0)], tx_outputs = [\<lparr>to_value = 9889, to_script = [0]\<rparr>]\<rparr>)
      = out_total (tx_outputs \<lparr>tx_inputs = [([1], 0)], tx_outputs = [\<lparr>to_value = 9889, to_script = [0]\<rparr>]\<rparr>)
        + unat (env_fee sample_env (env_vsize sample_env
            (length (tx_inputs \<lparr>tx_inputs = [([1], 0)], tx_outputs = [\<lparr>to_value = 9889, to_script = [0]\<rparr>]\<rparr>))
            (tx_outputs \<lparr>tx_inputs = [([1], 0)], tx_outputs = [\<lparr>to_value = 9889, to_script = [0]\<rparr>]\<rparr>)))
    \<and> (\<forall>o' \<in> set (tx_outputs \<lparr>tx_inputs = [([1], 0)], tx_outputs = [\<lparr>to_value = 9889, to_script = [0]\<rparr>]\<rparr>).
        env_dust sample_env (to_script o') \<le> to_value o')"
    by (rule build_transaction_sound [OF _ sample_run [unfolded sample_builder_def]]) simp
  from full have "worth [(([1], 0), \<lparr>to_value = 10000, to_script = [9]\<rparr>)] (tx_inputs \<lparr>tx_inputs = [([1], 0)], tx_outputs = [\<lparr>to_value = 9889, to_script = [0]\<rparr>]\<rparr>)
      = out_total (tx_outputs \<lparr>tx_inputs = [([1], 0)], tx_outputs = [\<lparr>to_value = 9889, to_script = [0]\<rparr>]\<rparr>) + unat (env_fee sample_env (env_vsize sample_env
          (length (tx_inputs \<lparr>tx_inputs = [([1], 0)], tx_outputs = [\<lparr>to_value = 9889, to_script = [0]\<rparr>]\<rparr>)) (tx_outputs \<lparr>tx_inputs = [([1], 0)], tx_outputs = [\<lparr>to_value = 9889, to_script = [0]\<rparr>]\<rparr>)))"
    by blast
  moreover have "length (tx_inputs \<lparr>tx_inputs = [([1], 0)], tx_outputs = [\<lparr>to_value = 9889, to_script = [0]\<rparr>]\<rparr>) = 1" by simp
  ultimately show ?thesis using sample_run by metis
qed

text \<open>an exact postage can make the final check fail. The excess over the postage is stripped only
  when it pays for a change output above the dust limit, but the check allows the excess a change
  output's fee only: with a dust limit of 330 and one sat per virtual byte, sending an output of
  10,300 sats with a postage of exactly 10,000 panics.\<close>

theorem exact_postage_panics:
  "build_transaction sample_env (sample_builder 10300 (ExactPostage 10000)) = Err TxPanic"
  by (simp add: sample_simps word_le_nat_alt word_less_nat_alt Let_def)

end
