(* ===== verification/SatText.thy ===== *)
theory SatText
  imports Sat Text
begin

text \<open>
  The textual notations of a sat (\<open>crates/ordinals/src/{sat,degree,decimal_sat,rarity,charm,
  sat_point}.rs\<close>): the name in bijective base 26, the degree, the decimal, the percentile and
  the plain integer, the dispatch of \<open>Sat::from_str\<close> among them, and the strings of rarities
  and charms. The 64-bit floating point operations the percentile uses are a record of
  parameters, because HOL has no IEEE arithmetic among its allowed libraries; nothing is
  claimed of them.
\<close>

section \<open>Errors\<close>

datatype sat_error_kind = IntegerRange | NameRange | NameCharacter | Percentile | BlockOffset
  | MissingPeriod | TrailingCharacters | MissingDegree | MissingMinute | MissingSecond
  | PeriodOffset | EpochOffset | EpochPeriodMismatch | ParseInt parse_int_error | ParseFloat

record sat_error =
  err_input :: string
  err_kind :: sat_error_kind

definition sat_err :: "sat_error_kind \<Rightarrow> string \<Rightarrow> sat_error" where
  "sat_err k s = \<lparr>err_input = s, err_kind = k\<rparr>"

definition map_err :: "('e \<Rightarrow> 'f) \<Rightarrow> ('e, 'a) result \<Rightarrow> ('f, 'a) result" where
  "map_err f r = (case r of Err e \<Rightarrow> Err (f e) | Ok x \<Rightarrow> Ok x)"

lemma map_err_simps [simp, result_simps]:
  "map_err f (Err e) = Err (f e)" "map_err f (Ok x) = Ok x"
  by (simp_all add: map_err_def)

lemma map_err_Ok [result_simps]: "map_err f r = Ok x \<longleftrightarrow> r = Ok x"
  by (cases r) simp_all

section \<open>Names\<close>

text \<open>\<open>name_letters\<close> is the loop of \<open>Sat::name\<close>: the letters from the last to the first.\<close>

definition letter :: "u64 \<Rightarrow> char" where
  "letter k = char_of (97 + unat k)"

function name_letters :: "u64 \<Rightarrow> string" where
  "name_letters x =
     (if 0 < x then letter ((x - 1) mod 26) # name_letters ((x - 1) div 26) else [])"
  by pat_completeness auto
termination
proof (relation "measure unat")
  fix x :: u64
  assume "0 < x"
  then have "unat (x - 1) < unat x"
    by (metis unat_minus_one diff_less less_numeral_extra(1) unat_gt_0 word_gt_0)
  then show "((x - 1) div 26, x) \<in> measure unat"
    by (auto simp: unat_div intro: le_less_trans [OF div_le_dividend])
qed simp

declare name_letters.simps [simp del]

definition sat_name :: "sat \<Rightarrow> string" where
  "sat_name s = rev (name_letters (SUPPLY - s))"

fun name_value :: "string \<Rightarrow> u64 \<Rightarrow> string \<Rightarrow> (sat_error, u64) result" where
  "name_value whole x [] = Ok x"
| "name_value whole x (c # cs) =
     (let k = of_char c :: nat in
      if 97 \<le> k \<and> k \<le> 122 then
        let x' = x * 26 + word_of_nat k - 97 + 1 in
        if x' > SUPPLY then Err (sat_err NameRange whole) else name_value whole x' cs
      else Err (sat_err NameCharacter whole))"

definition from_name :: "string \<Rightarrow> (sat_error, sat) result" where
  "from_name s = and_then (name_value s 0 s) (\<lambda>x. Ok (SUPPLY - x))"

section \<open>Degrees\<close>

text \<open>The four marks in UTF-8: degree sign, prime, double prime, triple prime.\<close>

definition degree_mark :: string where "degree_mark = map char_of [194, 176 :: nat]"
definition minute_mark :: string where "minute_mark = map char_of [226, 128, 178 :: nat]"
definition second_mark :: string where "second_mark = map char_of [226, 128, 179 :: nat]"
definition third_mark :: string where "third_mark = map char_of [226, 128, 180 :: nat]"

definition show_degree :: "degree \<Rightarrow> string" where
  "show_degree d = show_word (hour d) @ degree_mark @ show_word (minute d) @ minute_mark
     @ show_word (second d) @ second_mark @ show_word (third d) @ third_mark"

definition parse_int_err :: "string \<Rightarrow> parse_int_error \<Rightarrow> sat_error" where
  "parse_int_err s e = sat_err (ParseInt e) s"

definition HALVING_INCREMENT :: u32 where
  "HALVING_INCREMENT = SUBSIDY_HALVING_INTERVAL mod DIFFCHANGE_INTERVAL"

definition degree_relationship :: "u32 \<Rightarrow> u32 \<Rightarrow> u32" where
  "degree_relationship period_off epoch_off =
     period_off + SUBSIDY_HALVING_INTERVAL * CYCLE_EPOCHS - epoch_off"

definition degree_height :: "u32 \<Rightarrow> u32 \<Rightarrow> u32 \<Rightarrow> height" where
  "degree_height cycle_number epoch_off period_off =
     (let cycle_start_epoch = cycle_number * CYCLE_EPOCHS;
          relationship = degree_relationship period_off epoch_off;
          epochs_since_cycle_start = relationship mod DIFFCHANGE_INTERVAL div HALVING_INCREMENT;
          epoch = cycle_start_epoch + epochs_since_cycle_start
      in epoch * SUBSIDY_HALVING_INTERVAL + epoch_off)"

definition from_degree :: "string \<Rightarrow> (sat_error, sat) result" where
  "from_degree s =
     and_then (ok_or (split_once degree_mark s) (sat_err MissingDegree s)) (\<lambda>(cyc, rest1).
     and_then (map_err (parse_int_err s) (parse_u32 cyc)) (\<lambda>cycle_number.
     and_then (ok_or (split_once minute_mark rest1) (sat_err MissingMinute s)) (\<lambda>(eo, rest2).
     and_then (map_err (parse_int_err s) (parse_u32 eo)) (\<lambda>epoch_off.
     and_then (ensure (epoch_off < SUBSIDY_HALVING_INTERVAL) (sat_err EpochOffset s)) (\<lambda>_.
     and_then (ok_or (split_once second_mark rest2) (sat_err MissingSecond s)) (\<lambda>(po, rest3).
     and_then (map_err (parse_int_err s) (parse_u32 po)) (\<lambda>period_off.
     and_then (ensure (period_off < DIFFCHANGE_INTERVAL) (sat_err PeriodOffset s)) (\<lambda>_.
     and_then (ensure (degree_relationship period_off epoch_off mod HALVING_INCREMENT = 0)
                 (sat_err EpochPeriodMismatch s)) (\<lambda>_.
     let h = degree_height cycle_number epoch_off period_off in
     and_then (case split_once third_mark rest3 of
                 Some (bo, rest) \<Rightarrow>
                   and_then (map_err (parse_int_err s) (parse_u64 bo)) (\<lambda>b. Ok (b, rest))
               | None \<Rightarrow> Ok (0, rest3)) (\<lambda>(block_off, rest).
     and_then (ensure (rest = []) (sat_err TrailingCharacters s)) (\<lambda>_.
     and_then (ensure (block_off < height_subsidy h) (sat_err BlockOffset s)) (\<lambda>_.
     Ok (height_starting_sat h + block_off)))))))))))))"

section \<open>Decimals, percentiles, integers\<close>

definition show_decimal :: "decimal_sat \<Rightarrow> string" where
  "show_decimal d = show_word (ds_height d) @ ''.'' @ show_word (ds_offset d)"

definition from_decimal :: "string \<Rightarrow> (sat_error, sat) result" where
  "from_decimal s =
     and_then (ok_or (split_once ''.'' s) (sat_err MissingPeriod s)) (\<lambda>(h, off).
     and_then (map_err (parse_int_err s) (parse_u32 h)) (\<lambda>ht.
     and_then (map_err (parse_int_err s) (parse_u64 off)) (\<lambda>offset.
     and_then (ensure (offset < height_subsidy ht) (sat_err BlockOffset s)) (\<lambda>_.
     Ok (height_starting_sat ht + offset)))))"

record 'f f64_ops =
  f64_parse :: "string \<Rightarrow> 'f option"
  f64_of_u64 :: "u64 \<Rightarrow> 'f"
  f64_less :: "'f \<Rightarrow> 'f \<Rightarrow> bool"
  f64_div :: "'f \<Rightarrow> 'f \<Rightarrow> 'f"
  f64_mul :: "'f \<Rightarrow> 'f \<Rightarrow> 'f"
  f64_round :: "'f \<Rightarrow> 'f"
  f64_to_u64 :: "'f \<Rightarrow> u64"

definition from_percentile :: "'f f64_ops \<Rightarrow> string \<Rightarrow> (sat_error, sat) result" where
  "from_percentile F s =
     (if \<not> (s \<noteq> [] \<and> last s = CHR ''%'') then Err (sat_err Percentile s)
      else case f64_parse F (butlast s) of
        None \<Rightarrow> Err (sat_err ParseFloat s)
      | Some p \<Rightarrow>
          if f64_less F p (f64_of_u64 F 0) then Err (sat_err Percentile s)
          else let last = f64_of_u64 F (SUPPLY - 1);
                   n = f64_round F (f64_mul F (f64_div F p (f64_of_u64 F 100)) last)
               in if f64_less F last n then Err (sat_err Percentile s)
                  else Ok (f64_to_u64 F n))"

definition is_lower :: "char \<Rightarrow> bool" where
  "is_lower c = (let k = of_char c :: nat in 97 \<le> k \<and> k \<le> 122)"

definition sat_from_str :: "'f f64_ops \<Rightarrow> string \<Rightarrow> (sat_error, sat) result" where
  "sat_from_str F s =
     (if list_ex is_lower s then from_name s
      else if contains degree_mark s then from_degree s
      else if contains ''%'' s then from_percentile F s
      else if contains ''.'' s then from_decimal s
      else and_then (map_err (parse_int_err s) (parse_u64 s)) (\<lambda>n.
        if n > SUPPLY - 1 then Err (sat_err IntegerRange s) else Ok n))"

section \<open>Names round trip\<close>

lemma name_value_append:
  "name_value w x (a @ b) =
     (case name_value w x a of Err e \<Rightarrow> Err e | Ok y \<Rightarrow> name_value w y b)"
  by (induction a arbitrary: x) (simp_all add: Let_def)

lemma of_char_letter: "unat k < 26 \<Longrightarrow> of_char (letter k) = 97 + unat k"
  by (simp add: letter_def)

lemma name_value_step:
  fixes x :: u64
  assumes "0 < x" "x \<le> SUPPLY"
  shows "(x - 1) div 26 * 26 + word_of_nat (97 + unat ((x - 1) mod 26)) - 97 + 1 = x"
proof -
  have "(x - 1) div 26 * 26 + (x - 1) mod 26 = x - 1" by (rule div_mult_mod_eq)
  then show ?thesis by (simp add: algebra_simps)
qed

lemma name_letters_0 [simp]: "name_letters 0 = []"
  by (simp add: name_letters.simps)

lemma name_value_letters:
  "x \<le> SUPPLY \<Longrightarrow> name_value w 0 (rev (name_letters x)) = Ok x"
proof (induction x rule: name_letters.induct)
  case (1 x)
  show ?case
  proof (cases "0 < x")
    case False
    then show ?thesis by (simp add: word_gt_0)
  next
    case True
    let ?q = "(x - 1) div 26" and ?r = "(x - 1) mod 26"
    have r: "unat ?r < 26" by (simp add: unat_mod)
    have "unat ?q \<le> unat (x - 1)" by (simp add: unat_div)
    also have "\<dots> \<le> unat x" using True by (simp add: unat_minus_one word_gt_0)
    finally have "?q \<le> SUPPLY" using "1.prems" by (simp add: word_le_nat_alt)
    then have ih: "name_value w 0 (rev (name_letters ?q)) = Ok ?q" by (rule "1.IH" [OF True])
    show ?thesis
      using name_value_step [OF True "1.prems"] "1.prems" r
      by (simp add: name_letters.simps [of x] True name_value_append ih of_char_letter Let_def)
  qed
qed

lemma name_letters_snoc:
  assumes "x \<le> SUPPLY" "97 \<le> k" "k \<le> 122"
  shows "name_letters (x * 26 + word_of_nat k - 97 + 1) = char_of k # name_letters x"
proof -
  obtain d where d: "k = 97 + d" "d < 26"
    using assms(2,3) le_Suc_ex by force
  let ?y = "x * 26 + word_of_nat d :: u64"
  have x: "unat x \<le> 2099999997690000" using assms(1) by (simp add: word_le_nat_alt unat_SUPPLY)
  have ud: "unat (word_of_nat d :: u64) = d" using d(2) by (simp add: unat_of_nat)
  have "unat (x * 26) = unat x * 26" using x by (subst unat_mult_small) simp_all
  then have y: "unat ?y = unat x * 26 + d" using x d(2) ud by (subst unat_add_small) simp_all
  have eq: "x * 26 + word_of_nat k - 97 + 1 = ?y + 1" by (simp add: d(1))
  have y1: "unat (?y + 1) = unat x * 26 + d + 1"
    using x d(2) y by (subst unat_add_small) simp_all
  then have pos: "0 < ?y + 1" by (metis add_is_0 one_neq_zero unat_0 word_gt_0)
  have "unat (?y div 26) = unat x" using y d(2) by (simp add: unat_div)
  then have q: "?y div 26 = x" by (simp only: word_unat_eq_iff)
  have "unat (?y mod 26) = d" using y d(2) by (simp add: unat_mod)
  then have r: "letter (?y mod 26) = char_of k" by (simp add: letter_def d(1))
  show ?thesis
    unfolding eq by (subst name_letters.simps) (simp only: pos if_True add_diff_cancel_right' q r)
qed

lemma name_letters_value:
  "\<lbrakk>name_value w x s = Ok y; x \<le> SUPPLY\<rbrakk> \<Longrightarrow> rev (name_letters y) = rev (name_letters x) @ s \<and> y \<le> SUPPLY"
proof (induction s arbitrary: x)
  case Nil
  then show ?case by simp
next
  case (Cons c cs)
  define k where "k = (of_char c :: nat)"
  define x' where "x' = x * 26 + word_of_nat k - 97 + 1"
  from Cons.prems(1) have k: "97 \<le> k" "k \<le> 122" and x': "x' \<le> SUPPLY"
    and rest: "name_value w x' cs = Ok y"
    by (auto simp: Let_def k_def x'_def not_less split: if_splits)
  from Cons.IH [OF rest x'] name_letters_snoc [OF Cons.prems(2) k]
  show ?case by (simp add: x'_def k_def)
qed

lemma name_letters_lower: "c \<in> set (name_letters x) \<Longrightarrow> is_lower c"
proof (induction x rule: name_letters.induct)
  case (1 x)
  have r: "unat ((x - 1) mod 26) < 26" by (simp add: unat_mod)
  from "1.prems" have "0 < x" by (cases "x = 0") (auto simp: word_gt_0)
  with 1 r show ?case
    by (subst (asm) (2) name_letters.simps) (auto simp: is_lower_def of_char_letter Let_def)
qed

lemma name_letters_nonempty: "x \<noteq> 0 \<Longrightarrow> name_letters x \<noteq> []"
  by (simp add: name_letters.simps [of x] word_gt_0)

text \<open>printing a sat of the supply as a name and parsing it gives the sat back, through the
  dispatch of \<open>from_str\<close>: names are the only notation with a lower-case letter.\<close>

theorem sat_name_roundtrip:
  assumes "s < SUPPLY"
  shows "sat_from_str F (sat_name s) = Ok s"
proof -
  have le: "SUPPLY - s \<le> SUPPLY" using assms by (simp add: word_sub_le)
  have "SUPPLY - s \<noteq> 0" using assms by auto
  then have "sat_name s \<noteq> []" by (simp add: sat_name_def name_letters_nonempty)
  then obtain c where c: "c \<in> set (sat_name s)" by (cases "sat_name s") auto
  then have "is_lower c" by (auto simp: sat_name_def intro: name_letters_lower)
  with c have "list_ex is_lower (sat_name s)" by (auto simp: list_ex_iff)
  then have "sat_from_str F (sat_name s) = from_name (sat_name s)" by (simp add: sat_from_str_def)
  also have "\<dots> = Ok s" using name_value_letters [OF le] by (simp add: from_name_def sat_name_def)
  finally show ?thesis .
qed

theorem sat_name_roundtrip_witness: "\<forall>F :: nat f64_ops. sat_from_str F (sat_name 0) = Ok 0"
  by (intro allI sat_name_roundtrip) (simp add: SUPPLY_def)

text \<open>names are canonical: a name that parses is the name printed for the sat it denotes, so
  no two strings name one sat.\<close>

theorem from_name_canonical:
  assumes "from_name n = Ok s"
  shows "sat_name s = n \<and> s \<le> SUPPLY"
proof -
  from assms obtain y where y: "name_value n 0 n = Ok y" "s = SUPPLY - y"
    by (auto simp: from_name_def and_then_eq_Ok)
  from name_letters_value [OF y(1)] have "rev (name_letters y) = n" "y \<le> SUPPLY" by simp_all
  with y(2) show ?thesis by (simp add: sat_name_def word_sub_le)
qed

theorem from_name_canonical_witness:
  "sat_name (SUPPLY - 1) = ''a'' \<and> SUPPLY - 1 \<le> SUPPLY"
  by (rule from_name_canonical) (simp add: from_name_def SUPPLY_def)


section \<open>Degrees and decimals round trip\<close>

lemma not_digit_marks [simp]:
  "digit_of (char_of (194 :: nat)) = None" "digit_of (char_of (226 :: nat)) = None"
  "digit_of CHR ''.'' = None" "digit_of CHR ''%'' = None"
  by (simp_all add: digit_of_def)

lemma split_show:
  "digit_of p = None \<Longrightarrow> split_once (p # ps) (show_word w @ (p # ps) @ r) = Some (show_word w, r)"
  using split_once_found [of p "show_word w" ps r]
  by (simp add: show_word_def not_digit_not_in_show)

lemma split_marks [text_simps]:
  "split_once degree_mark (show_word w @ degree_mark @ r) = Some (show_word w, r)"
  "split_once minute_mark (show_word w @ minute_mark @ r) = Some (show_word w, r)"
  "split_once second_mark (show_word w @ second_mark @ r) = Some (show_word w, r)"
  "split_once third_mark (show_word w @ third_mark @ r) = Some (show_word w, r)"
  "split_once ''.'' (show_word w @ ''.'' @ r) = Some (show_word w, r)"
  unfolding degree_mark_def minute_mark_def second_mark_def third_mark_def list.map
  by (rule split_show, rule not_digit_marks)+

lemma degree_arith:
  fixes H :: nat
  defines "rel \<equiv> H mod 2016 + 1260000 - H mod 210000"
  shows "rel mod 2016 = 336 * (H div 210000 mod 6)"
proof -
  define e m k where "e = H div 210000" and "m = H mod 210000" and "k = H div 2016"
  have "H = 210000 * e + m" by (simp add: e_def m_def)
  moreover have "H = 2016 * k + H mod 2016" by (simp add: k_def)
  moreover have "m < 210000" by (simp add: m_def)
  ultimately have "rel + 2016 * k = 336 * e + 2016 * (104 * e + 625)"
    by (simp add: rel_def m_def)
  then have "rel mod 2016 = (336 * e + 2016 * (104 * e + 625)) mod 2016"
    by (metis mod_mult_self2)
  also have "\<dots> = (336 * e) mod (336 * 6)" by (subst mod_mult_self2) simp
  also have "\<dots> = 336 * (e mod 6)" by (simp only: mult_mod_right)
  finally show ?thesis by (simp add: e_def)
qed

lemma degree_height_of_height:
  fixes h :: height
  assumes "h < 6930000"
  defines "eo \<equiv> h mod 210000" and "po \<equiv> h mod 2016"
  shows "degree_height (h div 1260000) eo po = h"
    and "degree_relationship po eo mod HALVING_INCREMENT = 0"
proof -
  define H where "H = unat h"
  have H: "H < 6930000" using assms(1) by (simp add: H_def word_less_nat_alt)
  have eo: "unat eo = H mod 210000" and po: "unat po = H mod 2016"
    by (simp_all add: eo_def po_def unat_mod H_def)
  have inc: "HALVING_INCREMENT = 336"
    by (simp add: HALVING_INCREMENT_def SUBSIDY_HALVING_INTERVAL_def DIFFCHANGE_INTERVAL_def)
  have "H mod 2016 < 2016" "H mod 210000 < 210000" by simp_all
  then have sum: "unat (po + 1260000) = H mod 2016 + 1260000"
    by (subst unat_add_small) (simp_all add: po)
  have "eo \<le> po + 1260000"
    using \<open>H mod 210000 < 210000\<close> by (simp only: word_le_nat_alt sum eo)
  then have "unat (po + 1260000 - eo) = H mod 2016 + 1260000 - H mod 210000"
    by (simp only: unat_sub sum eo)
  then have rel: "unat (degree_relationship po eo) = H mod 2016 + 1260000 - H mod 210000"
    by (simp add: degree_relationship_def SUBSIDY_HALVING_INTERVAL_def CYCLE_EPOCHS_def)
  note arith = degree_arith [of H]
  have "unat (degree_relationship po eo mod HALVING_INCREMENT)
      = (unat (degree_relationship po eo) mod 2016) mod 336"
    by (simp add: inc unat_mod mod_mod_cancel)
  also have "\<dots> = 0" by (simp only: rel arith) simp
  finally show "degree_relationship po eo mod HALVING_INCREMENT = 0" by (simp add: unat_eq_0)
  let ?since = "degree_relationship po eo mod 2016 div 336"
  have since: "unat ?since = H div 210000 mod 6"
    by (simp add: unat_div unat_mod rel arith)
  have cyc: "unat (h div 1260000 * 6) = H div 210000 div 6 * 6"
    using H by (subst unat_mult_small) (simp_all add: unat_div H_def [symmetric] div_mult2_eq [symmetric])
  have e: "unat (h div 1260000 * 6 + ?since) = H div 210000"
    using H by (subst unat_add_small) (simp_all add: cyc since)
  have s: "unat ((h div 1260000 * 6 + ?since) * 210000) = H div 210000 * 210000"
    using H by (subst unat_mult_small) (simp_all add: e)
  have "H < 2 ^ LENGTH(32)" using H by simp
  then have "unat ((h div 1260000 * 6 + ?since) * 210000 + eo) = H"
    by (subst unat_add_small) (simp_all only: s eo div_mult_mod_eq)
  then have "(h div 1260000 * 6 + ?since) * 210000 + eo = h"
    by (simp only: word_unat_eq_iff H_def)
  then show "degree_height (h div 1260000) eo po = h"
    by (simp only: degree_height_def Let_def inc CYCLE_EPOCHS_def DIFFCHANGE_INTERVAL_def
        SUBSIDY_HALVING_INTERVAL_def)
qed

lemma from_degree_show:
  "from_degree (show_degree d) =
     and_then (ensure (minute d < SUBSIDY_HALVING_INTERVAL) (sat_err EpochOffset (show_degree d))) (\<lambda>_.
     and_then (ensure (second d < DIFFCHANGE_INTERVAL) (sat_err PeriodOffset (show_degree d))) (\<lambda>_.
     and_then (ensure (degree_relationship (second d) (minute d) mod HALVING_INCREMENT = 0)
       (sat_err EpochPeriodMismatch (show_degree d))) (\<lambda>_.
     let h = degree_height (hour d) (minute d) (second d) in
     and_then (ensure (third d < height_subsidy h) (sat_err BlockOffset (show_degree d))) (\<lambda>_.
     Ok (height_starting_sat h + third d)))))"
proof -
  let ?s = "show_degree d"
  have split1: "split_once degree_mark ?s = Some (show_word (hour d), show_word (minute d)
      @ minute_mark @ show_word (second d) @ second_mark @ show_word (third d) @ third_mark)"
    by (simp only: show_degree_def split_marks)
  have split4: "split_once third_mark (show_word (third d) @ third_mark) = Some (show_word (third d), [])"
    using split_marks(4) [of "third d" "[]"] by simp
  show ?thesis
    by (simp only: from_degree_def split1 ok_or_simps and_then_simps prod.case parse_u32_show
        map_err_simps split_marks split4 option.case parse_u64_show Let_def ensure_simps simp_thms)
qed

lemma height_of_degree_height:
  fixes cyc eo po :: u32
  assumes "cyc < 3408" "eo < 210000" "po < 2016"
    "degree_relationship po eo mod HALVING_INCREMENT = 0"
  defines "h \<equiv> degree_height cyc eo po"
  shows "h div 1260000 = cyc" "h mod 210000 = eo" "h mod 2016 = po"
proof -
  have unat_210000: "unat (210000 :: u32) = 210000" by simp
  define C E P where "C = unat cyc" and "E = unat eo" and "P = unat po"
  have b: "C < 3408" "E < 210000" "P < 2016"
    using assms(1-3) by (simp_all add: C_def E_def P_def word_less_nat_alt)
  define R where "R = P + 1260000 - E"
  have sum: "unat (po + 1260000) = P + 1260000"
    using b by (subst unat_add_small) (simp_all add: P_def)
  have "eo \<le> po + 1260000" using b by (simp only: word_le_nat_alt sum E_def)
  then have rel: "unat (degree_relationship po eo) = R"
    by (simp add: degree_relationship_def SUBSIDY_HALVING_INTERVAL_def CYCLE_EPOCHS_def unat_sub sum
        R_def E_def)
  have inc: "HALVING_INCREMENT = 336"
    by (simp add: HALVING_INCREMENT_def SUBSIDY_HALVING_INTERVAL_def DIFFCHANGE_INTERVAL_def)
  have "unat (degree_relationship po eo mod 336) = 0"
    using assms(4) by (simp add: inc)
  then have dvd: "336 dvd R" by (simp add: unat_mod rel dvd_eq_mod_eq_0)
  define S where "S = R mod 2016 div 336"
  have S: "336 * S = R mod 2016" "S < 6"
    using dvd by (auto simp: S_def dvd_mod less_mult_imp_div_less)
  let ?since = "degree_relationship po eo mod 2016 div 336"
  have since: "unat ?since = S" by (simp add: unat_div unat_mod rel S_def)
  have e6: "unat (cyc * 6) = C * 6"
    using b(1) by (subst unat_mult_small) (simp_all add: C_def)
  have e: "unat (cyc * 6 + ?since) = C * 6 + S"
    using b(1) S(2) by (subst unat_add_small) (simp_all add: e6 since)
  have "(C * 6 + S) * 210000 < 2 ^ LENGTH(32)" using b(1) S(2) by simp
  then have s: "unat ((cyc * 6 + ?since) * 210000) = (C * 6 + S) * 210000"
    by (subst unat_mult_small) (simp_all only: e unat_210000)
  have "(C * 6 + S) * 210000 + E < 2 ^ LENGTH(32)" using b S(2) by simp
  then have h: "unat h = (C * 6 + S) * 210000 + E"
    unfolding h_def degree_height_def Let_def inc CYCLE_EPOCHS_def DIFFCHANGE_INTERVAL_def
      SUBSIDY_HALVING_INTERVAL_def
    by (subst unat_add_small) (simp_all only: s E_def)
  have "unat (h div 1260000) = C" using b(2) S(2) by (simp add: unat_div h)
  then show "h div 1260000 = cyc" by (simp only: word_unat_eq_iff C_def)
  have "((C * 6 + S) * 210000 + E) mod 210000 = E" using b(2) by (simp only: mod_mult_self3 mod_less)
  then have "unat (h mod 210000) = E" by (simp only: unat_mod h unat_210000)
  then show "h mod 210000 = eo" by (simp only: word_unat_eq_iff E_def)
  have "(C * 6 + S) * 210000 + E = 336 * S + E + 2016 * (625 * C + 104 * S)" by simp
  then have "unat h mod 2016 = (336 * S + E) mod 2016" by (simp only: h mod_mult_self2)
  also have "\<dots> = (R + E) mod 2016" by (simp only: S(1) mod_add_left_eq)
  also have "R + E = P + 2016 * 625" using b(2) by (simp add: R_def)
  also have "(P + 2016 * 625) mod 2016 = P" using b(3) by (simp only: mod_mult_self2 mod_less)
  finally have "unat (h mod 2016) = P" by (simp add: unat_mod)
  then show "h mod 2016 = po" by (simp only: word_unat_eq_iff P_def)
qed


lemma degree_of_sat_supply:
  assumes "degree_of_sat s = Some d"
  obtains h where "s < SUPPLY" "sat_height s = Some h" "sat_third s = Some (third d)" "h < 6930000"
    "third d < height_subsidy h" "unat (height_starting_sat h) + unat (third d) = unat s"
    "hour d = h div 1260000" "minute d = h mod 210000" "second d = h mod 2016"
proof -
  have "sat_height s \<noteq> None" using assms by (auto simp: degree_of_sat_def split: option.splits)
  then have "\<not> 2099999997690000 \<le> unat s" using sat_panics [of s] by auto
  then have s: "s < SUPPLY" by (simp add: word_less_nat_alt unat_SUPPLY)
  then obtain h t where c: "sat_height s = Some h" "sat_third s = Some t" "h < 6930000"
    "t < height_subsidy h" "unat (height_starting_sat h) + unat t = unat s"
    by (rule sat_coordinates)
  from assms c(1,2) have d: "d = \<lparr>hour = h div (CYCLE_EPOCHS * SUBSIDY_HALVING_INTERVAL),
      minute = h mod SUBSIDY_HALVING_INTERVAL, second = h mod DIFFCHANGE_INTERVAL, third = t\<rparr>"
    by (simp add: degree_of_sat_def)
  show ?thesis
    by (rule that [of h]) (use s c in \<open>simp_all add: d CYCLE_EPOCHS_def
        SUBSIDY_HALVING_INTERVAL_def DIFFCHANGE_INTERVAL_def\<close>)
qed

lemma from_degree_exact:
  assumes "hour d < 3408"
  shows "from_degree (show_degree d) = Ok s \<longleftrightarrow> degree_of_sat s = Some d"
proof
  assume ok: "from_degree (show_degree d) = Ok s"
  define h where "h = degree_height (hour d) (minute d) (second d)"
  from ok have c: "minute d < 210000" "second d < 2016"
    "degree_relationship (second d) (minute d) mod HALVING_INCREMENT = 0"
    "third d < height_subsidy h" "s = height_starting_sat h + third d"
    by (auto simp: from_degree_show ok_elims Let_def h_def SUBSIDY_HALVING_INTERVAL_def
        DIFFCHANGE_INTERVAL_def)
  have "h < 6930000"
  proof (rule ccontr)
    assume "\<not> h < 6930000"
    then have "height_subsidy h = 0" by (intro height_subsidy_zero) simp
    with c(4) show False by simp
  qed
  with block_coordinates [OF this c(4)] height_of_degree_height [OF assms c(1-3)]
  show "degree_of_sat s = Some d"
    by (simp add: degree_of_sat_def c(5) h_def CYCLE_EPOCHS_def SUBSIDY_HALVING_INTERVAL_def
        DIFFCHANGE_INTERVAL_def)
next
  assume "degree_of_sat s = Some d"
  then obtain h where c: "s < SUPPLY" "sat_height s = Some h" "sat_third s = Some (third d)"
    "h < 6930000" "third d < height_subsidy h"
    "unat (height_starting_sat h) + unat (third d) = unat s"
    "hour d = h div 1260000" "minute d = h mod 210000" "second d = h mod 2016"
    by (rule degree_of_sat_supply)
  have "height_starting_sat h + third d = s" by (rule add_of_unat_add [OF c(6)])
  moreover have "minute d < 210000" "second d < 2016"
    by (simp_all add: c word_less_nat_alt unat_mod)
  ultimately show "from_degree (show_degree d) = Ok s"
    using degree_height_of_height [OF c(4)] c(5)
    by (simp add: from_degree_show Let_def c(7-9) SUBSIDY_HALVING_INTERVAL_def DIFFCHANGE_INTERVAL_def)
qed

text \<open>on the text of a degree the parser succeeds exactly on the degree of a sat and returns
  that sat, for every hour below 3408: printing and parsing round trip, and every other
  combination of hour, minute, second and third is refused.\<close>

theorem from_degree_iff:
  assumes "hour d < 3408"
  shows "from_degree (show_degree d) = Ok s \<longleftrightarrow> degree_of_sat s = Some d"
  using assms by (rule from_degree_exact)

theorem from_degree_iff_witness:
  "from_degree (show_degree \<lparr>hour = 0, minute = 0, second = 0, third = 0\<rparr>) = Ok 0 \<longleftrightarrow>
   degree_of_sat 0 = Some \<lparr>hour = 0, minute = 0, second = 0, third = 0\<rparr>"
  by (rule from_degree_iff) simp


text \<open>past that bound the parser is wrong: the 32-bit product of epoch and halving interval
  wraps, so the degree with hour 3409 and zeros elsewhere, millions of blocks after the last
  subsidy, is accepted as the first sat of block 372704, whose degree is another one.\<close>

theorem from_degree_wraps:
  "from_degree (show_degree \<lparr>hour = 3409, minute = 0, second = 0, third = 0\<rparr>)
     = Ok (height_starting_sat 372704)
   \<and> degree_of_sat (height_starting_sat 372704)
     = Some \<lparr>hour = 0, minute = 162704, second = 1760, third = 0\<rparr>"
proof
  have sub: "0 < height_subsidy 372704"
    by (simp add: height_subsidy_def epoch_of_height_def SUBSIDY_HALVING_INTERVAL_def
        epoch_subsidy_def FIRST_POST_SUBSIDY_def COIN_VALUE_def)
  have h: "degree_height 3409 0 0 = 372704"
    by (simp add: degree_height_def degree_relationship_def HALVING_INCREMENT_def CYCLE_EPOCHS_def
        SUBSIDY_HALVING_INTERVAL_def DIFFCHANGE_INTERVAL_def)
  have rel: "degree_relationship 0 0 mod HALVING_INCREMENT = 0"
    by (simp add: degree_relationship_def HALVING_INCREMENT_def CYCLE_EPOCHS_def
        SUBSIDY_HALVING_INTERVAL_def DIFFCHANGE_INTERVAL_def)
  show "from_degree (show_degree \<lparr>hour = 3409, minute = 0, second = 0, third = 0\<rparr>)
      = Ok (height_starting_sat 372704)"
    using sub by (simp add: from_degree_show rel Let_def h SUBSIDY_HALVING_INTERVAL_def DIFFCHANGE_INTERVAL_def)
  have "(372704 :: u32) < 6930000" by simp
  from block_coordinates [OF this sub]
  show "degree_of_sat (height_starting_sat 372704)
      = Some \<lparr>hour = 0, minute = 162704, second = 1760, third = 0\<rparr>"
    by (simp add: degree_of_sat_def CYCLE_EPOCHS_def SUBSIDY_HALVING_INTERVAL_def DIFFCHANGE_INTERVAL_def)
qed

section \<open>The dispatch of \<open>from_str\<close>\<close>

lemma show_word_chars: "c \<in> set (show_word w) \<Longrightarrow> \<exists>d < 10. c = digit_char d"
  unfolding show_word_def by (rule show_nat_digits)

lemma digit_not_lower: "d < 10 \<Longrightarrow> \<not> is_lower (digit_char d)"
  by (simp add: is_lower_def of_char_digit_char Let_def)

lemma show_word_not_lower: "c \<in> set (show_word w) \<Longrightarrow> \<not> is_lower c"
  using show_word_chars [of c w] digit_not_lower by auto

lemma show_word_no_mark: "digit_of c = None \<Longrightarrow> c \<notin> set (show_word w)"
  by (simp add: show_word_def not_digit_not_in_show)

lemma contains_absent: "p \<notin> set s \<Longrightarrow> \<not> contains (p # ps) s"
  by (simp add: contains_def split_once_absent)

lemma mark_not_dot [simp]: "char_of (194 :: nat) \<noteq> CHR ''.''" "char_of (194 :: nat) \<noteq> CHR ''%''"
  by (simp_all add: char_of_def)

lemma not_contains_decimal [text_simps]:
  "\<not> contains degree_mark (show_word a)" "\<not> contains ''%'' (show_word a)"
  "\<not> contains ''.'' (show_word a)"
  "\<not> contains degree_mark (show_word a @ ''.'' @ show_word b)"
  "\<not> contains ''%'' (show_word a @ ''.'' @ show_word b)"
  unfolding degree_mark_def list.map
  by (rule contains_absent; simp add: show_word_no_mark)+

lemma not_lower_marks:
  "list_ex is_lower (show_degree d) = False"
  "list_ex is_lower (show_word a) = False"
  "list_ex is_lower (show_word a @ ''.'' @ show_word b) = False"
  by (auto simp: list_ex_iff show_degree_def degree_mark_def minute_mark_def second_mark_def
      third_mark_def is_lower_def Let_def dest: show_word_not_lower)

text \<open>a sat prints as a degree, as a decimal and as an integer, and \<open>from_str\<close> tells the three
  texts apart and reads each of them back as that sat.\<close>

theorem sat_notations_roundtrip:
  assumes "degree_of_sat s = Some d" "decimal_of_sat s = Some c"
  shows "sat_from_str F (show_degree d) = Ok s \<and> sat_from_str F (show_decimal c) = Ok s
    \<and> sat_from_str F (show_word s) = Ok s"
proof (intro conjI)
  obtain h where h: "s < SUPPLY" "sat_height s = Some h" "sat_third s = Some (third d)"
    "h < 6930000" "third d < height_subsidy h"
    "unat (height_starting_sat h) + unat (third d) = unat s"
    "hour d = h div 1260000" "minute d = h mod 210000" "second d = h mod 2016"
    using degree_of_sat_supply [OF assms(1)] by metis
  have "hour d < 3408" using h(4) by (simp add: h(7) word_less_nat_alt unat_div)
  then have "from_degree (show_degree d) = Ok s" using assms(1) by (simp add: from_degree_exact)
  moreover have "contains degree_mark (show_degree d)"
    by (simp only: contains_def show_degree_def split_marks) simp
  ultimately show "sat_from_str F (show_degree d) = Ok s"
    by (simp add: sat_from_str_def not_lower_marks)
  have c: "ds_height c = h" "ds_offset c = third d"
    using assms(2) h(2,3) by (auto simp: decimal_of_sat_def)
  have s: "height_starting_sat h + third d = s" by (rule add_of_unat_add [OF h(6)])
  have split: "split_once ''.'' (show_word h @ ''.'' @ show_word (third d))
      = Some (show_word h, show_word (third d))" by (rule split_marks)
  then have "contains ''.'' (show_word h @ ''.'' @ show_word (third d))" by (simp add: contains_def)
  then show "sat_from_str F (show_decimal c) = Ok s"
    using h(5) s split
    by (simp add: sat_from_str_def show_decimal_def c not_lower_marks [simplified]
        not_contains_decimal [simplified] from_decimal_def parse_u32_show parse_u64_show)
  show "sat_from_str F (show_word s) = Ok s"
    using h(1) by (simp add: sat_from_str_def not_lower_marks not_contains_decimal parse_u64_show
        SUPPLY_def word_less_nat_alt word_le_nat_alt)
qed

theorem sat_notations_roundtrip_witness:
  "\<forall>F :: nat f64_ops.
     sat_from_str F (show_degree \<lparr>hour = 0, minute = 0, second = 0, third = 7\<rparr>) = Ok 7
   \<and> sat_from_str F (show_decimal \<lparr>ds_height = 0, ds_offset = 7\<rparr>) = Ok 7
   \<and> sat_from_str F (show_word (7 :: sat)) = Ok 7"
  by (intro allI sat_notations_roundtrip)
    (simp_all add: degree_of_sat_def decimal_of_sat_def sat_height_def sat_third_def
      epoch_position_def epoch_of_sat_def epoch_starting_sat_def STARTING_SATS_def epoch_subsidy_def
      epoch_starting_height_def FIRST_POST_SUBSIDY_def COIN_VALUE_def CYCLE_EPOCHS_def
      SUBSIDY_HALVING_INTERVAL_def DIFFCHANGE_INTERVAL_def)

section \<open>Sat points\<close>

text \<open>The outpoint's own text is the \<open>bitcoin\<close> crate's: its printer and parser are parameters.\<close>

record 'o sat_point =
  sp_outpoint :: 'o
  sp_offset :: u64

datatype 'pe sat_point_error = Colon string | OffsetError string parse_int_error
  | OutpointError string 'pe

definition show_sat_point :: "('o \<Rightarrow> string) \<Rightarrow> 'o sat_point \<Rightarrow> string" where
  "show_sat_point show_outpoint p =
     show_outpoint (sp_outpoint p) @ '':'' @ show_word (sp_offset p)"

definition sat_point_from_str ::
  "(string \<Rightarrow> ('pe, 'o) result) \<Rightarrow> string \<Rightarrow> ('pe sat_point_error, 'o sat_point) result" where
  "sat_point_from_str parse_outpoint s =
     and_then (ok_or (rsplit_once '':'' s) (Colon s)) (\<lambda>(o_text, off_text).
     and_then (map_err (OutpointError o_text) (parse_outpoint o_text)) (\<lambda>outp.
     and_then (map_err (OffsetError off_text) (parse_u64 off_text)) (\<lambda>off.
     Ok \<lparr>sp_outpoint = outp, sp_offset = off\<rparr>)))"

lemma rsplit_once_last:
  assumes "c \<notin> set b"
  shows "rsplit_once [c] (a @ [c] @ b) = Some (a, b)"
proof -
  have "split_once [c] (rev b @ c # [] @ rev a) = Some (rev b, rev a)"
    using assms by (intro split_once_found) simp
  then show ?thesis by (simp add: rsplit_once_def)
qed

text \<open>a satpoint reads back from its text whenever the outpoint does, although the outpoint's
  text holds a colon of its own: the parser splits at the last one.\<close>

theorem sat_point_roundtrip:
  assumes "parse_outpoint (show_outpoint (sp_outpoint p)) = Ok (sp_outpoint p)"
  shows "sat_point_from_str parse_outpoint (show_sat_point show_outpoint p) = Ok p"
proof -
  have "rsplit_once '':'' (show_outpoint (sp_outpoint p) @ '':'' @ show_word (sp_offset p))
      = Some (show_outpoint (sp_outpoint p), show_word (sp_offset p))"
    by (intro rsplit_once_last show_word_no_mark) (simp add: digit_of_def)
  with assms show ?thesis
    by (simp add: sat_point_from_str_def show_sat_point_def parse_u64_show)
qed

theorem sat_point_roundtrip_witness:
  "sat_point_from_str (\<lambda>s. if s = ''ab:0'' then Ok 1 else Err False)
     (show_sat_point (\<lambda>_. ''ab:0'') \<lparr>sp_outpoint = 1 :: nat, sp_offset = 42\<rparr>)
   = Ok \<lparr>sp_outpoint = 1 :: nat, sp_offset = 42\<rparr>"
  by (rule sat_point_roundtrip) simp

end
