(* ===== verification/Rarity.thy ===== *)
theory Rarity
  imports Sat Text
begin

text \<open>
  Rarities and charms (\<open>crates/ordinals/src/{rarity,charm}.rs\<close>): their strings, the order
  the code derives on rarities, the sets of charms packed in 16 bits, and the table of
  supplies, which is proved to count the sats of each rarity.
\<close>

section \<open>The order on rarities\<close>

instantiation rarity :: linorder
begin

definition less_eq_rarity :: "rarity \<Rightarrow> rarity \<Rightarrow> bool" where
  "less_eq_rarity a b = (u8_of_rarity a \<le> u8_of_rarity b)"

definition less_rarity :: "rarity \<Rightarrow> rarity \<Rightarrow> bool" where
  "less_rarity a b = (u8_of_rarity a < u8_of_rarity b)"

instance
proof
  fix a b c :: rarity
  show "a \<le> b \<Longrightarrow> b \<le> a \<Longrightarrow> a = b"
    by (cases a; cases b; simp add: less_eq_rarity_def word_le_nat_alt)
qed (auto simp: less_eq_rarity_def less_rarity_def)

end

section \<open>Strings\<close>

fun show_rarity :: "rarity \<Rightarrow> string" where
  "show_rarity Common = ''common''"
| "show_rarity Uncommon = ''uncommon''"
| "show_rarity Rare = ''rare''"
| "show_rarity Epic = ''epic''"
| "show_rarity Legendary = ''legendary''"
| "show_rarity Mythic = ''mythic''"

definition rarity_from_str :: "string \<Rightarrow> (string, rarity) result" where
  "rarity_from_str s =
     (if s = ''common'' then Ok Common else if s = ''uncommon'' then Ok Uncommon
      else if s = ''rare'' then Ok Rare else if s = ''epic'' then Ok Epic
      else if s = ''legendary'' then Ok Legendary else if s = ''mythic'' then Ok Mythic
      else Err (''invalid rarity `'' @ s @ ''`''))"

fun show_charm :: "charm \<Rightarrow> string" where
  "show_charm Burned = ''burned''"
| "show_charm Coin = ''coin''"
| "show_charm Cursed = ''cursed''"
| "show_charm EpicCharm = ''epic''"
| "show_charm LegendaryCharm = ''legendary''"
| "show_charm Lost = ''lost''"
| "show_charm MythicCharm = ''mythic''"
| "show_charm Nineball = ''nineball''"
| "show_charm Palindrome = ''palindrome''"
| "show_charm RareCharm = ''rare''"
| "show_charm Reinscription = ''reinscription''"
| "show_charm Unbound = ''unbound''"
| "show_charm UncommonCharm = ''uncommon''"
| "show_charm Vindicated = ''vindicated''"

definition charm_from_str :: "string \<Rightarrow> (string, charm) result" where
  "charm_from_str s =
     (if s = ''burned'' then Ok Burned else if s = ''coin'' then Ok Coin
      else if s = ''cursed'' then Ok Cursed else if s = ''epic'' then Ok EpicCharm
      else if s = ''legendary'' then Ok LegendaryCharm else if s = ''lost'' then Ok Lost
      else if s = ''mythic'' then Ok MythicCharm else if s = ''nineball'' then Ok Nineball
      else if s = ''palindrome'' then Ok Palindrome else if s = ''rare'' then Ok RareCharm
      else if s = ''reinscription'' then Ok Reinscription
      else if s = ''unbound'' then Ok Unbound else if s = ''uncommon'' then Ok UncommonCharm
      else if s = ''vindicated'' then Ok Vindicated
      else Err (''invalid charm `'' @ s @ ''`''))"

lemma rarity_from_str_show [simp]: "rarity_from_str (show_rarity r) = Ok r"
  by (cases r) (simp_all add: rarity_from_str_def)

lemma charm_from_str_show [simp]: "charm_from_str (show_charm c) = Ok c"
  by (cases c) (simp_all add: charm_from_str_def)

lemma rarity_of_u8_of_rarity [simp]: "rarity_of_u8 (u8_of_rarity r) = Ok r"
  by (cases r) (simp_all add: rarity_of_u8_def)

section \<open>Sets of charms\<close>

lemma charm_index_less: "charm_index c < 16"
  by (cases c) simp_all

lemma charm_index_inject [simp]: "charm_index c = charm_index d \<longleftrightarrow> c = d"
  by (cases c; cases d; simp)

lemma charm_is_set_bit: "charm_is_set c m \<longleftrightarrow> bit m (charm_index c)"
proof -
  have "m AND charm_flag c \<noteq> 0 \<longleftrightarrow> (\<exists>n. bit (m AND charm_flag c) n)"
    by (metis bit_0_eq bot_apply bot_bool_def bit_eq_iff)
  also have "\<dots> \<longleftrightarrow> bit m (charm_index c)"
    using charm_index_less [of c]
    by (auto simp: charm_flag_def bit_and_iff bit_exp_iff possible_bit_word)
  finally show ?thesis by (simp add: charm_is_set_def)
qed

lemma bit_charm_flag: "bit (charm_flag c) n \<longleftrightarrow> n = charm_index c"
  using charm_index_less [of c] by (auto simp: charm_flag_def bit_exp_iff possible_bit_word)

lemma charm_is_set_simps [simp]:
  "\<not> charm_is_set c 0"
  "charm_is_set c (charm_set d m) \<longleftrightarrow> c = d \<or> charm_is_set c m"
  "charm_is_set c (charm_unset d m) \<longleftrightarrow> c \<noteq> d \<and> charm_is_set c m"
  using charm_index_less [of c]
  by (auto simp: charm_is_set_bit charm_set_def charm_unset_def bit_or_iff bit_and_iff
      bit_not_iff bit_charm_flag)

lemma set_ALL_CHARMS [simp]: "c \<in> set ALL_CHARMS"
  by (cases c) (simp_all add: ALL_CHARMS_def)

lemma set_charms_of [simp]: "set (charms_of m) = {c. charm_is_set c m}"
  by (auto simp: charms_of_def)

text \<open>the charms listed for a sat are exactly the ones it has: nineball, palindrome and coin by
  their tests, and the charm of its rarity when the rarity is not common; and every listed
  charm survives packing in 16 bits.\<close>

theorem sat_charms_exact:
  assumes "sat_charms s = Some m"
  shows "c \<in> set (charms_of m) \<longleftrightarrow>
    c = Nineball \<and> nineball s \<or> c = Palindrome \<and> palindrome s \<or> c = Coin \<and> coin s
    \<or> (\<exists>r. rarity_of_sat s = Some r \<and> rarity_charm r = Some c)"
proof -
  from assms obtain r where "rarity_of_sat s = Some r" by (auto simp: sat_charms_def Let_def)
  with assms show ?thesis
    by (cases "rarity_charm r") (auto simp: sat_charms_def Let_def split: if_splits)
qed

theorem sat_charms_exact_witness:
  "Palindrome \<in> set (charms_of 8192) \<longleftrightarrow>
    Palindrome = Nineball \<and> nineball 1 \<or> Palindrome = Palindrome \<and> palindrome 1
    \<or> Palindrome = Coin \<and> coin 1
    \<or> (\<exists>r. rarity_of_sat 1 = Some r \<and> rarity_charm r = Some Palindrome)"
proof (rule sat_charms_exact)
  have c: "sat_height 1 = Some 0" "sat_third 1 = Some 1"
    by (simp_all add: sat_height_def sat_third_def epoch_position_def epoch_of_sat_def
        epoch_starting_sat_def STARTING_SATS_def epoch_subsidy_def epoch_starting_height_def
        FIRST_POST_SUBSIDY_def COIN_VALUE_def)
  have "palindrome 1" by (simp add: palindrome_def reverse_digits.simps)
  then show "sat_charms 1 = Some 8192"
    using rarity_Common_iff [OF c]
    by (simp add: sat_charms_def nineball_def coin_def is_multiple_of_def COIN_VALUE_def
        rarity_charm_def charm_set_def charm_flag_def word_le_nat_alt)
qed

section \<open>Counting the sats of a rarity\<close>

text \<open>The rarity of the first sat of a block.\<close>

definition block_rarity :: "height \<Rightarrow> rarity" where
  "block_rarity h =
     (if h div 1260000 = 0 \<and> h mod 210000 = 0 \<and> h mod 2016 = 0 then Mythic
      else if h mod 210000 = 0 \<and> h mod 2016 = 0 then Legendary
      else if h mod 210000 = 0 then Epic
      else if h mod 2016 = 0 then Rare else Uncommon)"

lemma rarity_of_first_sat:
  assumes "h < 6930000"
  shows "rarity_of_sat (height_starting_sat h) = Some (block_rarity h)"
proof -
  obtain i m where "i < 33" "m < 210000" "unat h = 210000 * i + m"
    using assms by (rule height_split)
  then have "0 < unat (height_subsidy h)"
    using height_starting_sat_nat(2) reward_pos by presburger
  then have "0 < height_subsidy h" by (simp add: word_less_nat_alt)
  from block_coordinates [OF assms this] show ?thesis
    by (simp add: rarity_of_sat_def degree_of_sat_def block_rarity_def CYCLE_EPOCHS_def
        SUBSIDY_HALVING_INTERVAL_def DIFFCHANGE_INTERVAL_def)
qed

lemma height_of_first_sat:
  assumes "h < 6930000"
  shows "sat_height (height_starting_sat h) = Some h"
proof -
  obtain i m where "i < 33" "m < 210000" "unat h = 210000 * i + m"
    using assms by (rule height_split)
  then have "0 < unat (height_subsidy h)"
    using height_starting_sat_nat(2) reward_pos by presburger
  then have "0 < height_subsidy h" by (simp add: word_less_nat_alt)
  from block_coordinates(1) [OF assms this] show ?thesis by simp
qed

lemma rarity_block_image:
  assumes "r \<noteq> Common"
  shows "{s. rarity_of_sat s = Some r} =
    height_starting_sat ` {h. h < 6930000 \<and> block_rarity h = r}"
proof (intro equalityI subsetI)
  fix s
  assume "s \<in> {s. rarity_of_sat s = Some r}"
  then have r: "rarity_of_sat s = Some r" by simp
  then have "sat_height s \<noteq> None"
    by (auto simp: rarity_of_sat_def degree_of_sat_def split: option.splits)
  then have "\<not> 2099999997690000 \<le> unat s" using sat_panics [of s] by auto
  then have "s < SUPPLY" by (simp add: word_less_nat_alt unat_SUPPLY)
  then obtain h t where c: "sat_height s = Some h" "sat_third s = Some t" "h < 6930000"
    "t < height_subsidy h" "unat (height_starting_sat h) + unat t = unat s"
    by (rule sat_coordinates)
  have "t = 0" using r assms rarity_Common_iff [OF c(1,2)] by auto
  with c(5) have "s = height_starting_sat h" by (simp add: word_unat_eq_iff)
  with r rarity_of_first_sat [OF c(3)] c(3)
  show "s \<in> height_starting_sat ` {h. h < 6930000 \<and> block_rarity h = r}" by simp
qed (auto simp: rarity_of_first_sat)

lemma card_rarity_blocks:
  assumes "r \<noteq> Common"
  shows "card {s. rarity_of_sat s = Some r} = card {n. n < 6930000 \<and> block_rarity (word_of_nat n) = r}"
proof -
  have "inj_on height_starting_sat {h. h < 6930000 \<and> block_rarity h = r}"
    by (rule inj_onI) (metis (mono_tags) height_of_first_sat mem_Collect_eq option.inject)
  then have "card {s. rarity_of_sat s = Some r} = card {h. h < 6930000 \<and> block_rarity h = r}"
    by (simp only: rarity_block_image [OF assms] card_image)
  also have "{h. h < 6930000 \<and> block_rarity h = r}
      = word_of_nat ` {n. n < 6930000 \<and> block_rarity (word_of_nat n) = r}" (is "?A = _ ` ?B")
  proof (intro equalityI subsetI)
    fix h
    assume h: "h \<in> ?A"
    show "h \<in> word_of_nat ` ?B"
      by (rule image_eqI [where x = "unat h"]) (use h in \<open>simp_all add: word_less_nat_alt\<close>)
  next
    fix h :: height
    assume "h \<in> word_of_nat ` ?B"
    then obtain n where n: "h = word_of_nat n" "n < 6930000" "block_rarity (word_of_nat n) = r"
      by auto
    then have "unat h = n" using unat_epoch [of n] by simp
    with n show "h \<in> ?A" by (simp add: word_less_nat_alt)
  qed
  also have "card (word_of_nat ` ?B :: height set) = card ?B"
  proof (rule card_image, rule inj_onI)
    fix a b :: nat
    assume "a \<in> ?B" "b \<in> ?B" "(word_of_nat a :: height) = word_of_nat b"
    then have "a < 2 ^ 32" "b < 2 ^ 32" "unat (word_of_nat a :: height) = unat (word_of_nat b :: height)"
      by simp_all
    then show "a = b" by (simp only: unat_epoch)
  qed
  finally show ?thesis .
qed

lemma card_multiples:
  assumes "0 < k"
  shows "card {n. n < N \<and> k dvd n} = (N + k - 1) div k"
proof -
  have "{n. n < N \<and> k dvd n} = (\<lambda>i. k * i) ` {..< (N + k - 1) div k}"
  proof (intro equalityI subsetI)
    fix n
    assume "n \<in> {n. n < N \<and> k dvd n}"
    then obtain i where "n = k * i" "k * i < N" by auto
    moreover from this assms have "i < (N + k - 1) div k"
      by (simp add: div_less_iff_less_mult less_eq_div_iff_mult_less_eq Suc_le_eq [symmetric]
          algebra_simps)
    ultimately show "n \<in> (\<lambda>i. k * i) ` {..< (N + k - 1) div k}" by (metis imageI lessThan_iff)
  next
    fix n
    assume "n \<in> (\<lambda>i. k * i) ` {..< (N + k - 1) div k}"
    then obtain i where i: "n = k * i" "i < (N + k - 1) div k" by auto
    then have "Suc i \<le> (N + k - 1) div k" by simp
    then have "Suc i * k \<le> N + k - 1" using assms by (simp only: less_eq_div_iff_mult_less_eq)
    with assms i(1) show "n \<in> {n. n < N \<and> k dvd n}" by (simp add: mult.commute)
  qed
  moreover have "inj_on (\<lambda>i. k * i) {..< (N + k - 1) div k}" using assms by (simp add: inj_on_def)
  ultimately show ?thesis by (simp add: card_image)
qed

lemma block_rarity_nat:
  assumes "n < 6930000"
  shows "block_rarity (word_of_nat n) =
    (if n = 0 then Mythic else if 1260000 dvd n then Legendary else if 210000 dvd n then Epic
     else if 2016 dvd n then Rare else Uncommon)"
proof -
  have u: "unat (word_of_nat n :: height) = n" using assms by (intro unat_epoch) simp
  have zero: "h = 0 \<longleftrightarrow> unat h = 0" for h :: height by (rule unat_eq_0 [symmetric])
  have dvd: "(word_of_nat n :: height) mod 210000 = 0 \<longleftrightarrow> 210000 dvd n"
    "(word_of_nat n :: height) mod 2016 = 0 \<longleftrightarrow> 2016 dvd n"
    unfolding zero unat_mod u by (simp_all add: dvd_eq_mod_eq_0)
  have hour: "(word_of_nat n :: height) div 1260000 = 0 \<longleftrightarrow> n < 1260000"
    unfolding zero unat_div u by (simp add: div_eq_0_iff)
  have lcm: "210000 dvd n \<and> 2016 dvd n \<longleftrightarrow> 1260000 dvd n"
  proof -
    have "lcm 210000 2016 = (1260000 :: nat)" by (simp add: lcm_nat_def gcd_nat.simps)
    then show ?thesis by (metis lcm_least_iff)
  qed
  have "n < 1260000 \<and> 1260000 dvd n \<longleftrightarrow> n = 0" by (auto dest: dvd_imp_le)
  with lcm show ?thesis unfolding block_rarity_def dvd hour by auto
qed

lemma card_excluding_multiples:
  fixes k l :: nat
  assumes "k dvd l" "0 < k" "0 < l"
  shows "card {n. n < N \<and> k dvd n \<and> \<not> l dvd n} = (N + k - 1) div k - (N + l - 1) div l"
proof -
  have "{n. n < N \<and> k dvd n \<and> \<not> l dvd n} = {n. n < N \<and> k dvd n} - {n. n < N \<and> l dvd n}" by auto
  moreover have "{n. n < N \<and> l dvd n} \<subseteq> {n. n < N \<and> k dvd n}" using assms(1) by (auto intro: dvd_trans)
  ultimately show ?thesis using assms(2,3) by (simp add: card_Diff_subset card_multiples)
qed

lemma lcm_intervals: "210000 dvd n \<and> 2016 dvd n \<longleftrightarrow> 1260000 dvd (n :: nat)"
proof -
  have "lcm 210000 2016 = (1260000 :: nat)" by (simp add: lcm_nat_def gcd_nat.simps)
  then show ?thesis by (metis lcm_least_iff)
qed

lemma rarity_blocks:
  "{n. n < 6930000 \<and> block_rarity (word_of_nat n) = r} =
   {n. n < 6930000 \<and> (if n = 0 then Mythic else if 1260000 dvd n then Legendary
     else if 210000 dvd n then Epic else if 2016 dvd n then Rare else Uncommon) = r}"
  by (rule Collect_cong) (metis block_rarity_nat)

lemma rarity_block_conditions:
  fixes n :: nat
  defines "r \<equiv> if n = 0 then Mythic else if 1260000 dvd n then Legendary
     else if 210000 dvd n then Epic else if 2016 dvd n then Rare else Uncommon"
  shows "r = Mythic \<longleftrightarrow> n = 0" "r = Legendary \<longleftrightarrow> 1260000 dvd n \<and> n \<noteq> 0"
    "r = Epic \<longleftrightarrow> 210000 dvd n \<and> \<not> 1260000 dvd n"
    "r = Rare \<longleftrightarrow> 2016 dvd n \<and> \<not> 1260000 dvd n"
    "r = Uncommon \<longleftrightarrow> \<not> 210000 dvd n \<and> \<not> 2016 dvd n"
  using lcm_intervals [of n] unfolding r_def
  by (cases "n = 0"; cases "1260000 dvd n"; cases "210000 dvd n"; cases "2016 dvd n"; simp)+

lemma rarity_block_sets:
  "{n. n < 6930000 \<and> block_rarity (word_of_nat n) = Mythic} = {0}"
  "{n. n < 6930000 \<and> block_rarity (word_of_nat n) = Legendary}
     = {n. n < 6930000 \<and> 1260000 dvd n} - {0}"
  "{n. n < 6930000 \<and> block_rarity (word_of_nat n) = Epic}
     = {n. n < 6930000 \<and> 210000 dvd n \<and> \<not> 1260000 dvd n}"
  "{n. n < 6930000 \<and> block_rarity (word_of_nat n) = Rare}
     = {n. n < 6930000 \<and> 2016 dvd n \<and> \<not> 1260000 dvd n}"
  "{n. n < 6930000 \<and> block_rarity (word_of_nat n) = Uncommon}
     = {..< 6930000} - ({n. n < 6930000 \<and> 210000 dvd n}
       \<union> {n. n < 6930000 \<and> 2016 dvd n \<and> \<not> 1260000 dvd n})"
  unfolding rarity_blocks rarity_block_conditions
  by (auto simp del: dvd_numeral_simp simp: lcm_intervals [symmetric])

lemma card_uncommon_blocks:
  "card ({..< 6930000 :: nat} - ({n. n < 6930000 \<and> 210000 dvd n}
     \<union> {n. n < 6930000 \<and> 2016 dvd n \<and> \<not> 1260000 dvd n})) = 6926535" (is "card (?U - (?A \<union> ?B)) = _")
proof -
  have "?A \<inter> ?B = {}" using lcm_intervals by blast
  moreover have "?A \<union> ?B \<subseteq> ?U" by blast
  moreover have "finite ?A" "finite ?B" by simp_all
  ultimately have "card (?U - (?A \<union> ?B)) = card ?U - (card ?A + card ?B)"
    by (simp only: card_Diff_subset card_Un_disjoint finite_Un)
  also have "\<dots> = 6926535"
    by (simp add: card_multiples card_excluding_multiples [of 2016 1260000])
  finally show ?thesis .
qed

lemma card_rarity_blocks_table:
  "r \<noteq> Common \<Longrightarrow> card {s. rarity_of_sat s = Some r} = unat (rarity_supply r)"
proof (cases r)
  case Legendary
  have "0 \<in> {n :: nat. n < 6930000 \<and> 1260000 dvd n}" by simp
  then have "card ({n :: nat. n < 6930000 \<and> 1260000 dvd n} - {0}) = 5"
    by (subst card_Diff_singleton) (simp_all add: card_multiples)
  with Legendary show ?thesis by (simp add: card_rarity_blocks rarity_block_sets)
qed (simp_all add: card_rarity_blocks rarity_block_sets card_uncommon_blocks
      card_excluding_multiples)

lemma card_words_below: "card {w :: 'a::len word. w < k} = unat k"
proof -
  have "unat ` {w. w < k} = {..< unat k}"
  proof (intro equalityI subsetI)
    fix n
    assume n: "n \<in> {..< unat k}"
    then have "n < 2 ^ LENGTH('a)" using unsigned_less [of k, where 'a = nat] by (simp add: less_trans)
    then have u: "unat (word_of_nat n :: 'a word) = n" by (simp only: unat_of_nat mod_less)
    show "n \<in> unat ` {w. w < k}"
      by (rule image_eqI [where x = "word_of_nat n"]) (use n u in \<open>simp_all only: lessThan_iff mem_Collect_eq word_less_nat_alt\<close>)
  qed (auto simp: word_less_nat_alt)
  moreover have "inj_on unat {w. w < k}" by (rule inj_onI) (simp add: word_unat_eq_iff)
  ultimately show ?thesis by (metis card_image card_lessThan)
qed

lemma rarity_defined: "rarity_of_sat s \<noteq> None \<longleftrightarrow> s < SUPPLY"
proof
  assume "rarity_of_sat s \<noteq> None"
  then have "sat_height s \<noteq> None"
    by (auto simp: rarity_of_sat_def degree_of_sat_def split: option.splits)
  then have "\<not> 2099999997690000 \<le> unat s" using sat_panics [of s] by auto
  then show "s < SUPPLY" by (simp add: word_less_nat_alt unat_SUPPLY)
next
  assume "s < SUPPLY"
  then obtain h t where "sat_height s = Some h" "sat_third s = Some t" by (rule sat_coordinates)
  then show "rarity_of_sat s \<noteq> None" by (simp add: rarity_of_sat_def degree_of_sat_def)
qed

lemma UNIV_rarity: "UNIV = {Common, Uncommon, Rare, Epic, Legendary, Mythic}"
proof -
  have "r \<in> {Common, Uncommon, Rare, Epic, Legendary, Mythic}" for r by (cases r) simp_all
  then show ?thesis by auto
qed

text \<open>the table \<open>Rarity::supply\<close> is exact: for every rarity it is the number of sats that
  the code gives that rarity.\<close>

theorem rarity_supply_exact: "card {s. rarity_of_sat s = Some r} = unat (rarity_supply r)"
proof (cases "r = Common")
  case False
  then show ?thesis by (rule card_rarity_blocks_table)
next
  case True
  let ?R = "\<lambda>r. {s. rarity_of_sat s = Some r}"
  have "{s. s < SUPPLY} = (\<Union>r \<in> UNIV. ?R r)"
    using rarity_defined by auto
  then have "unat SUPPLY = card (\<Union>r \<in> UNIV. ?R r)" using card_words_below [of SUPPLY] by simp
  also have "\<dots> = (\<Sum>r \<in> UNIV. card (?R r))"
    by (rule card_UN_disjoint) (auto simp: UNIV_rarity)
  also have "\<dots> = card (?R Common) + 6929999 + 1"
    by (simp add: UNIV_rarity card_rarity_blocks_table)
  finally show ?thesis by (simp add: True unat_SUPPLY)
qed

end
