(* ===== verification/OtsProof.thy ===== *)
theory OtsProof
  imports Prelude
begin

text \<open>
  OpenTimestamps proofs as the crates use them: the proof tree of the
  \<open>opentimestamps\<close> crate, the order key of a proof
  (\<open>lord-storage/src/ots_order.rs\<close>) and the verification of its attestations against
  the block headers of a node (\<open>lord-commit/src/ots_attest.rs\<close>). The execution of an
  operation belongs to the \<open>opentimestamps\<close> crate and is the parameter \<open>ex\<close>; the node is
  a function from heights to the answer of its RPC.
\<close>

section \<open>Proof trees\<close>

text \<open>\<open>OtherOp\<close> stands for the operations the repository never builds.\<close>

datatype op = Sha256 | Append bytes | Prepend bytes | OtherOp nat

datatype attestation =
    Bitcoin u64
  | Pending string
  | UnknownAttestation bytes bytes

datatype step_data = Fork | Op op | Attestation attestation

datatype step = Step (data: step_data) (step_output: bytes) (children: "step list")

record timestamp =
  start_digest :: bytes
  first_step :: step

type_synonym executor = "op \<Rightarrow> bytes \<Rightarrow> bytes"

text \<open>What the operations the repository builds are documented to do.\<close>

definition ops_documented :: "executor \<Rightarrow> bool" where
  "ops_documented ex \<longleftrightarrow>
     (\<forall>s d. ex (Append s) d = d @ s) \<and> (\<forall>s d. ex (Prepend s) d = s @ d)"

lemma ops_documentedD:
  assumes "ops_documented ex"
  shows "ex (Append s) d = d @ s" "ex (Prepend s) d = s @ d"
  using assms by (simp_all add: ops_documented_def)

section \<open>Order keys\<close>

definition NO_ATTESTATION_SENTINEL :: bytes where
  "NO_ATTESTATION_SENTINEL = replicate 8 255"

text \<open>The entries a fork adds to the queue; \<open>None\<close> is the panic on an index above 255.\<close>

fun fork_entries :: "bytes \<Rightarrow> nat \<Rightarrow> step list \<Rightarrow> (step \<times> bytes) list option" where
  "fork_entries path i [] = Some []"
| "fork_entries path i (c # cs) =
     (if i < 256 then map_option ((#) (c, path @ [word_of_nat i])) (fork_entries path (Suc i) cs)
      else None)"

fun step_weight :: "step \<Rightarrow> nat" where
  "step_weight (Step d out cs) = Suc (sum_list (map step_weight cs))"

definition queue_weight :: "(step \<times> bytes) list \<Rightarrow> nat" where
  "queue_weight q = sum_list (map (step_weight \<circ> fst) q)"

lemma queue_weight_simps [simp]:
  "queue_weight [] = 0"
  "queue_weight (e # q) = step_weight (fst e) + queue_weight q"
  "queue_weight (q @ q') = queue_weight q + queue_weight q'"
  by (simp_all add: queue_weight_def)

lemma fork_entries_weight:
  "fork_entries path i cs = Some q \<Longrightarrow> queue_weight q = sum_list (map step_weight cs)"
  by (induction path i cs arbitrary: q rule: fork_entries.induct)
    (auto split: if_splits)

function order_key_search :: "(step \<times> bytes) list \<Rightarrow> bytes option" where
  "order_key_search [] = Some NO_ATTESTATION_SENTINEL"
| "order_key_search ((Step d out cs, path) # q) =
     (case d of
        Attestation _ \<Rightarrow> Some path
      | Fork \<Rightarrow> (case fork_entries path 0 cs of
            None \<Rightarrow> None
          | Some es \<Rightarrow> order_key_search (q @ es))
      | Op _ \<Rightarrow> (case cs of
            [] \<Rightarrow> order_key_search q
          | c # _ \<Rightarrow> order_key_search (q @ [(c, path)])))"
  by pat_completeness auto
termination
  by (relation "measure queue_weight") (auto dest: fork_entries_weight)

definition order_key_from_timestamp :: "step \<Rightarrow> bytes option" where
  "order_key_from_timestamp s = order_key_search [(s, [])]"

text \<open>The proof file is parsed by the \<open>opentimestamps\<close> crate.\<close>

definition order_key_from_proof_bytes ::
  "(bytes \<Rightarrow> timestamp option) \<Rightarrow> bytes \<Rightarrow> bytes option option" where
  "order_key_from_proof_bytes parse proof =
     map_option (\<lambda>ts. order_key_from_timestamp (first_step ts)) (parse proof)"

subsection \<open>The search goes level by level\<close>

definition is_attestation :: "step \<Rightarrow> bool" where
  "is_attestation s = (case data s of Attestation _ \<Rightarrow> True | _ \<Rightarrow> False)"

text \<open>The successors of a node on the next level, with their paths.\<close>

definition successors :: "step \<times> bytes \<Rightarrow> (step \<times> bytes) list" where
  "successors e =
     (case data (fst e) of
        Attestation _ \<Rightarrow> []
      | Fork \<Rightarrow> map (\<lambda>(i, c). (c, snd e @ [word_of_nat i])) (enumerate 0 (children (fst e)))
      | Op _ \<Rightarrow> map (\<lambda>c. (c, snd e)) (take 1 (children (fst e))))"

fun levels :: "nat \<Rightarrow> (step \<times> bytes) list \<Rightarrow> (step \<times> bytes) list" where
  "levels 0 q = q"
| "levels (Suc n) q = levels n (concat (map successors q))"

inductive narrow :: "step \<Rightarrow> bool" where
  narrow: "\<lbrakk>d = Fork \<longrightarrow> length cs \<le> 256; \<And>c. c \<in> set cs \<Longrightarrow> narrow c\<rbrakk> \<Longrightarrow> narrow (Step d out cs)"

inductive_cases narrow_elim: "narrow (Step d out cs)"

lemma fork_entries_eq:
  "i + length cs \<le> 256 \<Longrightarrow>
   fork_entries path i cs = Some (map (\<lambda>(j, c). (c, path @ [word_of_nat j])) (enumerate i cs))"
  by (induction path i cs rule: fork_entries.induct) auto

lemma search_non_attestation:
  assumes "narrow (fst e)" "\<not> is_attestation (fst e)"
  shows "order_key_search (e # q) = order_key_search (q @ successors e)"
proof -
  obtain d out cs path where e: "e = (Step d out cs, path)"
    by (metis prod.collapse step.exhaust)
  from assms(1) e have "d = Fork \<longrightarrow> length cs \<le> 256"
    by (auto elim: narrow_elim)
  with assms(2) e show ?thesis
    by (auto simp: is_attestation_def successors_def fork_entries_eq
        split: step_data.splits list.splits)
qed

lemma search_attestation:
  "is_attestation (fst e) \<Longrightarrow> order_key_search (e # q) = Some (snd e)"
  by (cases e; cases "fst e") (auto simp: is_attestation_def split: step_data.splits)

lemma search_level:
  assumes "\<forall>e \<in> set q. narrow (fst e)"
  shows "order_key_search (q @ q') =
    (case find (\<lambda>e. is_attestation (fst e)) q of
       Some e \<Rightarrow> Some (snd e)
     | None \<Rightarrow> order_key_search (q' @ concat (map successors q)))"
  using assms
proof (induction q arbitrary: q')
  case Nil
  then show ?case by simp
next
  case (Cons e q)
  show ?case
  proof (cases "is_attestation (fst e)")
    case True
    then show ?thesis by (simp add: search_attestation)
  next
    case False
    with Cons.prems have "order_key_search ((e # q) @ q') = order_key_search (q @ (q' @ successors e))"
      by (simp add: search_non_attestation)
    with Cons False show ?thesis by (simp split: option.split)
  qed
qed

lemma narrow_successors:
  "narrow (fst e) \<Longrightarrow> e' \<in> set (successors e) \<Longrightarrow> narrow (fst e')"
  by (cases "fst e")
    (auto simp: successors_def enumerate_eq_zip split: step_data.splits
      elim!: narrow_elim dest!: set_zip_rightD in_set_takeD)

lemma levels_append: "levels n (q @ q') = levels n q @ levels n q'"
  by (induction n arbitrary: q q') auto

lemma successors_weight:
  "queue_weight (successors e) < step_weight (fst e)"
proof -
  obtain d out cs path where e: "e = (Step d out cs, path)"
    by (metis prod.collapse step.exhaust)
  have "queue_weight (map (\<lambda>(j, c). (c, path @ [word_of_nat j])) (enumerate i cs)) =
      sum_list (map step_weight cs)" for i
    by (induction cs arbitrary: i) auto
  with e show ?thesis
    by (cases cs) (auto simp: successors_def split: step_data.splits)
qed

lemma concat_successors_weight:
  "q \<noteq> [] \<Longrightarrow> queue_weight (concat (map successors q)) < queue_weight q"
proof (induction q)
  case Nil
  then show ?case by simp
next
  case (Cons e q)
  then show ?case
    using successors_weight [of e] by (cases "q = []") auto
qed

text \<open>The key of the first attestation of the first level that has one.\<close>

lemma search_levels:
  assumes "\<forall>e \<in> set q. narrow (fst e)"
  shows "(\<exists>n e. find (\<lambda>e. is_attestation (fst e)) (levels n q) = Some e \<and>
      (\<forall>m < n. \<forall>e \<in> set (levels m q). \<not> is_attestation (fst e)) \<and>
      order_key_search q = Some (snd e)) \<or>
    ((\<forall>m. \<forall>e \<in> set (levels m q). \<not> is_attestation (fst e)) \<and>
      order_key_search q = Some NO_ATTESTATION_SENTINEL)"
  using assms
proof (induction q rule: measure_induct_rule [of queue_weight])
  case (less q)
  show ?case
  proof (cases "find (\<lambda>e. is_attestation (fst e)) q")
    case (Some e)
    with search_level [OF less.prems, of "[]"] have "order_key_search q = Some (snd e)" by simp
    with Some show ?thesis by (intro disjI1 exI [of _ 0] exI [of _ e]) simp
  next
    case None
    then have no: "\<forall>e \<in> set q. \<not> is_attestation (fst e)" by (force simp: find_None_iff)
    show ?thesis
    proof (cases "q = []")
      case True
      have "levels m [] = []" for m by (induction m) auto
      with True show ?thesis by simp
    next
      case False
      let ?q = "concat (map successors q)"
      have step: "order_key_search q = order_key_search ?q"
        using search_level [OF less.prems, of "[]"] None by simp
      have nar: "\<forall>e \<in> set ?q. narrow (fst e)"
        using less.prems narrow_successors by auto
      from less.IH [OF concat_successors_weight [OF False] nar] show ?thesis
      proof (elim disjE exE conjE)
        fix n e
        assume f: "find (\<lambda>e. is_attestation (fst e)) (levels n ?q) = Some e"
          and b: "\<forall>m < n. \<forall>e \<in> set (levels m ?q). \<not> is_attestation (fst e)"
          and k: "order_key_search ?q = Some (snd e)"
        have "\<forall>m < Suc n. \<forall>e \<in> set (levels m q). \<not> is_attestation (fst e)"
        proof (intro allI impI)
          fix m assume "m < Suc n"
          with no b show "\<forall>e \<in> set (levels m q). \<not> is_attestation (fst e)" by (cases m) simp_all
        qed
        with f k step show ?thesis
          by (intro disjI1 exI [of _ "Suc n"] exI [of _ e]) simp
      next
        assume "\<forall>m. \<forall>e \<in> set (levels m ?q). \<not> is_attestation (fst e)"
          and "order_key_search ?q = Some NO_ATTESTATION_SENTINEL"
        moreover have "\<forall>m. \<forall>e \<in> set (levels m q). \<not> is_attestation (fst e)"
        proof (intro allI ballI)
          fix m e assume "e \<in> set (levels m q)"
          with no calculation(1) show "\<not> is_attestation (fst e)"
            by (cases m) simp_all
        qed
        ultimately show ?thesis using step by simp
      qed
    qed
  qed
qed


definition no_attestation_before :: "step \<Rightarrow> nat \<Rightarrow> bool" where
  "no_attestation_before s n \<longleftrightarrow>
     (\<forall>m < n. \<forall>e \<in> set (levels m [(s, [])]). \<not> is_attestation (fst e))"

text \<open>C23: In a proof whose forks have at most 256 branches, the order key is the path of
  fork indices of the leftmost attestation on the shallowest level of the tree that has an
  attestation (levels are numbered breadth first, operations have one successor and add
  nothing to the path), and the sentinel of all-ones bytes exactly when no level has one;
  the search never panics.\<close>

theorem order_key_shallowest_leftmost:
  assumes "narrow s"
  shows "(\<exists>n e. find (\<lambda>e. is_attestation (fst e)) (levels n [(s, [])]) = Some e \<and>
      no_attestation_before s n \<and> order_key_from_timestamp s = Some (snd e)) \<or>
    ((\<forall>n. no_attestation_before s n) \<and>
      order_key_from_timestamp s = Some NO_ATTESTATION_SENTINEL)"
proof -
  have "\<forall>e \<in> set [(s, [])]. narrow (fst e)" using assms by simp
  from search_levels [OF this] show ?thesis
    unfolding order_key_from_timestamp_def no_attestation_before_def by blast
qed

theorem order_key_shallowest_leftmost_witness:
  "let pend = Step (Attestation (Pending ''c'')) [] [];
       s = Step Fork [] [Step Fork [] [pend], Step (Op Sha256) [] [pend], pend]
   in narrow s \<and> order_key_from_timestamp s = Some [2] \<and>
      (\<exists>n e. find (\<lambda>e. is_attestation (fst e)) (levels n [(s, [])]) = Some e \<and>
        order_key_from_timestamp s = Some (snd e))"
proof -
  let ?pend = "Step (Attestation (Pending ''c'')) [] []"
  let ?s = "Step Fork [] [Step Fork [] [?pend], Step (Op Sha256) [] [?pend], ?pend]"
  have n: "narrow ?s" by (auto intro!: narrow)
  have k: "order_key_from_timestamp ?s = Some [2]"
    by (simp add: order_key_from_timestamp_def)
  have "Some [2] \<noteq> Some NO_ATTESTATION_SENTINEL"
    by (simp add: NO_ATTESTATION_SENTINEL_def numeral_eq_Suc)
  with order_key_shallowest_leftmost [OF n] k show ?thesis
    unfolding Let_def using n by auto
qed

section \<open>Verification of attestations\<close>

datatype verify_error =
    AttestationOutputMismatch
  | ForkOutputMismatch
  | OpOutputMismatch
  | MissingSuccessor
  | HeightOverflow
  | MerkleRootMismatch u32

datatype 'e unavailable = NotInBestChain u32 | HeaderFetchFailed u32 'e

datatype 'e verify_status =
    NoAttestation
  | PendingStatus
  | Confirmed u32
  | Failed verify_error
  | Unavailable "'e unavailable"
  | Unknown

definition allows_valid_digest_only :: "'e verify_status \<Rightarrow> bool" where
  "allows_valid_digest_only st =
     (case st of NoAttestation \<Rightarrow> True | PendingStatus \<Rightarrow> True | Unavailable _ \<Rightarrow> True | _ \<Rightarrow> False)"

text \<open>\<open>BlockHeaderSource::merkle_root_at_height\<close>: the answer of the node.\<close>

type_synonym 'e header_source = "u32 \<Rightarrow> ('e, bytes option) result"

definition is_confirmed :: "'e verify_status \<Rightarrow> bool" where
  "is_confirmed st = (case st of Confirmed _ \<Rightarrow> True | _ \<Rightarrow> False)"

definition is_failed :: "'e verify_status \<Rightarrow> bool" where
  "is_failed st = (case st of Failed _ \<Rightarrow> True | _ \<Rightarrow> False)"

definition is_unavailable :: "'e verify_status \<Rightarrow> bool" where
  "is_unavailable st = (case st of Unavailable _ \<Rightarrow> True | _ \<Rightarrow> False)"

definition aggregate_fork_statuses :: "'e verify_status list \<Rightarrow> 'e verify_status" where
  "aggregate_fork_statuses sts =
     (case find is_confirmed sts of Some st \<Rightarrow> st | None \<Rightarrow>
      if Unknown \<in> set sts then Unknown
      else if PendingStatus \<in> set sts then PendingStatus
      else (case find is_failed sts of Some st \<Rightarrow> st | None \<Rightarrow>
        (case find is_unavailable sts of Some st \<Rightarrow> st | None \<Rightarrow> NoAttestation)))"

definition verify_attestation ::
  "bytes \<Rightarrow> attestation \<Rightarrow> 'e header_source \<Rightarrow> (verify_error, 'e verify_status) result" where
  "verify_attestation digest a source =
     (case a of
        Bitcoin h \<Rightarrow>
          if unat h < 2 ^ 32 then
            (let height = ucast h :: u32 in
             (case source height of
                Ok (Some merkle) \<Rightarrow>
                  if digest \<noteq> merkle then Err (MerkleRootMismatch height) else Ok (Confirmed height)
              | Ok None \<Rightarrow> Ok (Unavailable (NotInBestChain height))
              | Err e \<Rightarrow> Ok (Unavailable (HeaderFetchFailed height e))))
          else Err HeightOverflow
      | Pending _ \<Rightarrow> Ok PendingStatus
      | UnknownAttestation _ _ \<Rightarrow> Ok Unknown)"

definition status_of :: "(verify_error, 'e verify_status) result \<Rightarrow> 'e verify_status" where
  "status_of r = (case r of Ok st \<Rightarrow> st | Err e \<Rightarrow> Failed e)"

fun verify_step ::
  "executor \<Rightarrow> 'e header_source \<Rightarrow> step \<Rightarrow> bytes \<Rightarrow> (verify_error, 'e verify_status) result" where
  "verify_step ex source (Step (Attestation a) out cs) digest =
     (if out \<noteq> digest then Err AttestationOutputMismatch
      else verify_attestation digest a source)"
| "verify_step ex source (Step Fork out cs) digest =
     (if out \<noteq> digest then Err ForkOutputMismatch
      else if cs = [] then Ok NoAttestation
      else Ok (aggregate_fork_statuses
        (map (\<lambda>c. status_of (verify_step ex source c digest)) cs)))"
| "verify_step ex source (Step (Op q) out cs) digest =
     (if out \<noteq> ex q digest then Err OpOutputMismatch
      else (case cs of
          [] \<Rightarrow> Err MissingSuccessor
        | c # _ \<Rightarrow> verify_step ex source c out))"

definition verify_timestamp_attestations ::
  "executor \<Rightarrow> timestamp \<Rightarrow> 'e header_source \<Rightarrow> 'e verify_status" where
  "verify_timestamp_attestations ex ts source =
     status_of (verify_step ex source (first_step ts) (start_digest ts))"

text \<open>What a proof has to show: a path of executed operations from the digest to an
  attestation of a block whose merkle root is the digest reached.\<close>

inductive attests :: "executor \<Rightarrow> 'e header_source \<Rightarrow> u32 \<Rightarrow> step \<Rightarrow> bytes \<Rightarrow> bool"
  for ex :: executor and source :: "'e header_source" and h :: u32 where
  attests_bitcoin: "source h = Ok (Some digest) \<Longrightarrow> unat w = unat h \<Longrightarrow>
    attests ex source h (Step (Attestation (Bitcoin w)) digest cs) digest"
| attests_fork: "c \<in> set cs \<Longrightarrow> attests ex source h c digest \<Longrightarrow>
    attests ex source h (Step Fork digest cs) digest"
| attests_op: "attests ex source h c (ex q digest) \<Longrightarrow>
    attests ex source h (Step (Op q) (ex q digest) (c # cs)) digest"

inductive_simps attests_simps [simp]:
  "attests ex source h (Step (Attestation a) out cs) digest"
  "attests ex source h (Step Fork out cs) digest"
  "attests ex source h (Step (Op q) out cs) digest"

lemma aggregate_confirmed:
  "aggregate_fork_statuses sts = Confirmed h \<Longrightarrow> Confirmed h \<in> set sts"
  by (auto simp: aggregate_fork_statuses_def is_failed_def is_unavailable_def
      split: option.splits if_splits verify_status.splits dest!: find_SomeD)

lemma aggregate_complete:
  "Confirmed h \<in> set sts \<Longrightarrow> \<exists>h'. aggregate_fork_statuses sts = Confirmed h'"
proof -
  assume "Confirmed h \<in> set sts"
  then obtain st where st: "find is_confirmed sts = Some st"
    using find_NoneD [of is_confirmed sts "Confirmed h"]
    by (cases "find is_confirmed sts") (simp_all add: is_confirmed_def)
  then show ?thesis
    by (auto simp: aggregate_fork_statuses_def is_confirmed_def
        dest!: find_SomeD split: verify_status.splits)
qed

lemma aggregate_status_confirmed:
  assumes "aggregate_fork_statuses (map (\<lambda>c. status_of (f c)) cs) = Confirmed h"
  obtains c where "c \<in> set cs" "f c = Ok (Confirmed h)"
proof -
  from aggregate_confirmed [OF assms] obtain c where "c \<in> set cs" "status_of (f c) = Confirmed h"
    by (auto simp: image_iff)
  then show ?thesis using that by (auto simp: status_of_def split: result.splits)
qed

lemma status_of_confirmed: "status_of r = Confirmed h \<longleftrightarrow> r = Ok (Confirmed h)"
  by (auto simp: status_of_def split: result.splits)

lemma verify_attestation_confirmed:
  "verify_attestation digest a source = Ok (Confirmed h) \<longleftrightarrow>
     (\<exists>w. a = Bitcoin w \<and> unat w = unat h \<and> source h = Ok (Some digest))"
proof (cases a)
  case (Bitcoin w)
  have "unat (ucast w :: u32) = unat w" if "unat w < 2 ^ 32"
    using that by (intro unat_ucast_small) simp
  then have "unat w < 2 ^ 32 \<and> ucast w = h \<longleftrightarrow> unat w = unat h"
    using unsigned_less [of h, where 'a = nat] by (auto simp: word_unat_eq_iff)
  with Bitcoin show ?thesis
    by (auto simp: verify_attestation_def Let_def split: result.splits option.splits if_splits)
qed (simp_all add: verify_attestation_def)

lemma verify_sound:
  "verify_step ex source s digest = Ok (Confirmed h) \<Longrightarrow> attests ex source h s digest"
  by (induction ex source s digest rule: verify_step.induct)
    (auto simp: verify_attestation_confirmed
      elim!: aggregate_status_confirmed split: if_splits list.splits)

lemma verify_complete:
  "attests ex source h s digest \<Longrightarrow> \<exists>h'. verify_step ex source s digest = Ok (Confirmed h')"
proof (induction rule: attests.induct)
  case (attests_bitcoin digest w cs)
  then have "verify_attestation digest (Bitcoin w) source = Ok (Confirmed h)"
    by (simp add: verify_attestation_confirmed)
  then show ?case by auto
next
  case (attests_fork c cs digest)
  then obtain h' where "verify_step ex source c digest = Ok (Confirmed h')" by blast
  with attests_fork.hyps
  have "Confirmed h' \<in> set (map (\<lambda>c. status_of (verify_step ex source c digest)) cs)"
    by (force simp: status_of_def)
  from aggregate_complete [OF this] attests_fork.hyps show ?case by auto
next
  case (attests_op c q digest cs)
  then show ?case by simp
qed

text \<open>C8: Verification confirms a timestamp exactly when the proof tree has a path of
  operations, each with the output that executing it gives, from the start digest to a
  Bitcoin attestation whose block the node reports with the digest reached as its merkle
  root, whatever the other branches of its forks hold; and the height reported is the
  height of such an attestation.\<close>

theorem verify_confirmed_iff:
  "((\<exists>h. verify_timestamp_attestations ex ts source = Confirmed h) \<longleftrightarrow>
     (\<exists>h. attests ex source h (first_step ts) (start_digest ts))) \<and>
   (verify_timestamp_attestations ex ts source = Confirmed h \<longrightarrow>
     attests ex source h (first_step ts) (start_digest ts))"
  unfolding verify_timestamp_attestations_def status_of_confirmed
  using verify_sound verify_complete by fast

theorem verify_confirmed_iff_witness:
  "let ex = (\<lambda>q d. d @ [1]) :: executor;
       src = (\<lambda>h. if h = 7 then Ok (Some [0, 1]) else Err ()) :: unit header_source;
       s = Step Fork [0] [Step (Attestation (Pending ''c'')) [0] [],
             Step (Op Sha256) [0, 1] [Step (Attestation (Bitcoin 7)) [0, 1] []]];
       ts = \<lparr>start_digest = [0], first_step = s\<rparr>
   in verify_timestamp_attestations ex ts src = Confirmed 7 \<and> attests ex src 7 s [0]"
proof -
  let ?ex = "(\<lambda>q d. d @ [1]) :: executor"
  let ?src = "(\<lambda>h. if h = 7 then Ok (Some [0, 1]) else Err ()) :: unit header_source"
  let ?s = "Step Fork [0] [Step (Attestation (Pending ''c'')) [0] [],
             Step (Op Sha256) [0, 1] [Step (Attestation (Bitcoin 7)) [0, 1] []]]"
  let ?ts = "\<lparr>start_digest = [0], first_step = ?s\<rparr>"
  have "verify_timestamp_attestations ?ex ?ts ?src = Confirmed 7"
    by (simp add: verify_timestamp_attestations_def status_of_def verify_attestation_def
        aggregate_fork_statuses_def is_confirmed_def)
  with verify_confirmed_iff [of ?ex ?ts ?src 7] show ?thesis by (simp add: Let_def)
qed

end
