(* ===== verification/Merkle.thy ===== *)
theory Merkle
  imports OtsProof
begin

text \<open>
  The Merkle trees of the calendar (\<open>lord-calendar/src/merkle.rs\<close>) and the proofs it builds
  over them (\<open>lord-calendar/src/proof.rs\<close>). Hashing belongs to other crates: the trees are
  generic in the function \<open>f\<close> that hashes a pair of nodes, which for the calendar is built
  from the executor of operations and for a block from the double SHA-256 \<open>h2\<close> of the
  \<open>bitcoin\<close> crate. A transaction is its serialization without witnesses and its identifier,
  a block the identifiers of its transactions and the root in its header.
\<close>

type_synonym merkle_path = "(bool \<times> bytes) list"

section \<open>Trees and paths\<close>

definition cat_sha256d :: "executor \<Rightarrow> bytes \<Rightarrow> bytes \<Rightarrow> bytes" where
  "cat_sha256d ex l r = ex Sha256 (ex Sha256 (l @ r))"

definition bitcoin_merkle_pair :: "(bytes \<Rightarrow> bytes) \<Rightarrow> bytes \<Rightarrow> bytes \<Rightarrow> bytes" where
  "bitcoin_merkle_pair h2 l r = h2 (l @ r)"

definition pad_last :: "'a list \<Rightarrow> 'a list" where
  "pad_last level = (if length level mod 2 = 1 then level @ [last level] else level)"

text \<open>\<open>level.chunks(2)\<close> of a level of even length.\<close>

fun hash_pairs :: "('a \<Rightarrow> 'a \<Rightarrow> 'a) \<Rightarrow> 'a list \<Rightarrow> 'a list" where
  "hash_pairs f (a # b # r) = f a b # hash_pairs f r"
| "hash_pairs f _ = []"

lemma length_hash_pairs: "length (hash_pairs f xs) = length xs div 2"
  by (induction f xs rule: hash_pairs.induct) auto

lemma length_pad_last: "length (pad_last xs) = (length xs + 1) div 2 * 2"
proof (cases "length xs mod 2 = 1")
  case True
  then have "length xs + 1 = (length xs + 1) div 2 * 2" by presburger
  with True show ?thesis by (simp add: pad_last_def)
next
  case False
  then have "length xs = (length xs + 1) div 2 * 2" by presburger
  with False show ?thesis by (simp add: pad_last_def)
qed

lemma next_level_length: "length (hash_pairs f (pad_last xs)) = (length xs + 1) div 2"
  by (simp add: length_hash_pairs length_pad_last)

function root_loop :: "('a \<Rightarrow> 'a \<Rightarrow> 'a) \<Rightarrow> 'a list \<Rightarrow> 'a list" where
  "root_loop f level =
     (if length level > 1 then root_loop f (hash_pairs f (pad_last level)) else level)"
  by pat_completeness auto
termination
  by (relation "measure (length \<circ> snd)") (auto simp: next_level_length)

declare root_loop.simps [simp del]

definition ots_merkle_root :: "('a \<Rightarrow> 'a \<Rightarrow> 'a) \<Rightarrow> 'a list \<Rightarrow> 'a option" where
  "ots_merkle_root f leaves =
     (if leaves = [] then None
      else (case root_loop f leaves of [] \<Rightarrow> None | r # _ \<Rightarrow> Some r))"

function merkle_path_loop :: "('a \<Rightarrow> 'a \<Rightarrow> 'a) \<Rightarrow> 'a list \<Rightarrow> nat \<Rightarrow> (bool \<times> 'a) list" where
  "merkle_path_loop f level idx =
     (if length level > 1 then
        let level = pad_last level;
            sibling_idx = (if idx mod 2 = 0 then idx + 1 else idx - 1)
        in (idx mod 2 = 0, level ! sibling_idx) #
           merkle_path_loop f (hash_pairs f level) (idx div 2)
      else [])"
  by pat_completeness auto
termination
  by (relation "measure (\<lambda>(f, level, idx). length level)") (auto simp: next_level_length)

declare merkle_path_loop.simps [simp del]

definition merkle_path :: "('a \<Rightarrow> 'a \<Rightarrow> 'a) \<Rightarrow> 'a list \<Rightarrow> nat \<Rightarrow> (bool \<times> 'a) list option" where
  "merkle_path f leaves index =
     (if index \<ge> length leaves then None else Some (merkle_path_loop f leaves index))"

definition bitcoin_next_level :: "('a \<Rightarrow> 'a \<Rightarrow> 'a) \<Rightarrow> 'a list \<Rightarrow> 'a list" where
  "bitcoin_next_level f level =
     map (\<lambda>pair_idx. f (level ! (pair_idx * 2))
            (level ! min (pair_idx * 2 + 1) (length level - 1)))
       [0 ..< (length level + 1) div 2]"

function bitcoin_path_loop :: "('a \<Rightarrow> 'a \<Rightarrow> 'a) \<Rightarrow> 'a list \<Rightarrow> nat \<Rightarrow> (bool \<times> 'a) list" where
  "bitcoin_path_loop f level index =
     (if length level > 1 then
        let sibling_idx =
              (if index mod 2 = 0
               then (if index + 1 < length level then index + 1 else index)
               else index - 1)
        in (index mod 2 = 0, level ! sibling_idx) #
           bitcoin_path_loop f (bitcoin_next_level f level) (index div 2)
      else [])"
  by pat_completeness auto
termination
  by (relation "measure (\<lambda>(f, level, idx). length level)") (auto simp: bitcoin_next_level_def)

declare bitcoin_path_loop.simps [simp del]

definition bitcoin_tx_merkle_path ::
  "('a \<Rightarrow> 'a \<Rightarrow> 'a) \<Rightarrow> 'a list \<Rightarrow> nat \<Rightarrow> (bool \<times> 'a) list option" where
  "bitcoin_tx_merkle_path f leaves index =
     (if index \<ge> length leaves then None else Some (bitcoin_path_loop f leaves index))"

text \<open>The loop of a verifier: hash the digest with each sibling in turn.\<close>

fun climb :: "('a \<Rightarrow> 'a \<Rightarrow> 'a) \<Rightarrow> 'a \<Rightarrow> (bool \<times> 'a) list \<Rightarrow> 'a" where
  "climb f d [] = d"
| "climb f d ((is_left, sibling) # p) =
     climb f (if is_left then f d sibling else f sibling d) p"

lemma nth_hash_pairs:
  "i < length xs div 2 \<Longrightarrow> hash_pairs f xs ! i = f (xs ! (2 * i)) (xs ! (2 * i + 1))"
proof (induction f xs arbitrary: i rule: hash_pairs.induct)
  case (1 f a b r)
  then show ?case by (cases i) auto
qed auto

lemma nth_pad_last:
  "i < length xs \<Longrightarrow> pad_last xs ! i = xs ! i"
  by (simp add: pad_last_def nth_append)

lemma nth_pad_last_end:
  "length xs mod 2 = 1 \<Longrightarrow> pad_last xs ! length xs = last xs"
  by (simp add: pad_last_def)

lemma bitcoin_next_level_eq:
  assumes "level \<noteq> []"
  shows "bitcoin_next_level f level = hash_pairs f (pad_last level)"
proof (rule nth_equalityI)
  show "length (bitcoin_next_level f level) = length (hash_pairs f (pad_last level))"
    by (simp add: bitcoin_next_level_def next_level_length)
next
  fix i assume "i < length (bitcoin_next_level f level)"
  then have i: "i < (length level + 1) div 2" by (simp add: bitcoin_next_level_def)
  then have lt: "2 * i < length level" by linarith
  have "level ! min (i * 2 + 1) (length level - 1) = pad_last level ! (2 * i + 1)"
  proof (cases "2 * i + 1 < length level")
    case True
    then have "min (i * 2 + 1) (length level - 1) = 2 * i + 1" by linarith
    with True show ?thesis by (simp add: nth_pad_last mult.commute)
  next
    case False
    with lt have "length level = 2 * i + 1" by linarith
    then have "length level mod 2 = 1" "2 * i + 1 = length level" by simp_all
    with assms show ?thesis
      using nth_pad_last_end [of level] by (simp add: last_conv_nth mult.commute)
  qed
  with i lt show "bitcoin_next_level f level ! i = hash_pairs f (pad_last level) ! i"
    by (simp add: bitcoin_next_level_def nth_hash_pairs length_pad_last nth_pad_last mult.commute)
qed

lemma bitcoin_path_eq:
  "i < length level \<Longrightarrow> bitcoin_path_loop f level i = merkle_path_loop f level i"
proof (induction f level i rule: merkle_path_loop.induct)
  case (1 f level i)
  show ?case
  proof (cases "length level > 1")
    case True
    then have next_lt: "i div 2 < length (hash_pairs f (pad_last level))"
      using "1.prems" by (simp add: next_level_length)
    have sibling: "level ! (if i mod 2 = 0 then if i + 1 < length level then i + 1 else i else i - 1) =
        pad_last level ! (if i mod 2 = 0 then i + 1 else i - 1)"
    proof (cases "i mod 2 = 0 \<and> \<not> i + 1 < length level")
      case True
      with "1.prems" have "length level = i + 1" by simp
      with True show ?thesis
        using nth_pad_last_end [of level] last_conv_nth [of level] by (cases "level = []") auto
    qed (use "1.prems" in \<open>auto simp: nth_pad_last\<close>)
    have "level \<noteq> []" using True by auto
    then show ?thesis
      using True "1.IH" [OF True refl refl next_lt] sibling
      by (subst bitcoin_path_loop.simps, subst merkle_path_loop.simps)
        (simp add: bitcoin_next_level_eq Let_def)
  next
    case False
    then show ?thesis by (subst bitcoin_path_loop.simps, subst merkle_path_loop.simps) simp
  qed
qed

lemma climb_path_loop:
  "i < length level \<Longrightarrow> root_loop f level = [climb f (level ! i) (merkle_path_loop f level i)]"
proof (induction f level i rule: merkle_path_loop.induct)
  case (1 f level i)
  show ?case
  proof (cases "length level > 1")
    case True
    let ?next = "hash_pairs f (pad_last level)"
    have lt: "i div 2 < length ?next" using "1.prems" by (simp add: next_level_length)
    then have half: "i div 2 < length (pad_last level) div 2" by (simp add: length_hash_pairs)
    have "?next ! (i div 2) =
        (if i mod 2 = 0 then f (level ! i) (pad_last level ! (i + 1))
         else f (pad_last level ! (i - 1)) (level ! i))"
    proof (cases "even i")
      case True
      then show ?thesis using half "1.prems" by (simp add: nth_hash_pairs nth_pad_last)
    next
      case False
      then have "2 * (i div 2) = i - 1" "2 * (i div 2) + 1 = i" "i mod 2 = 1" by presburger+
      then show ?thesis using half "1.prems" by (simp add: nth_hash_pairs nth_pad_last)
    qed
    then show ?thesis
      using True "1.IH" [OF True refl refl lt]
      by (subst root_loop.simps, subst merkle_path_loop.simps) (simp add: Let_def)
  next
    case False
    with "1.prems" have "i = 0" "level = [level ! 0]"
      by (auto simp: not_less le_Suc_eq length_Suc_conv)
    with False show ?thesis
      by (subst root_loop.simps, subst merkle_path_loop.simps) simp
  qed
qed

text \<open>C28: The inclusion path the calendar returns for a leaf leads from that leaf to the root
  of the batch when its siblings are hashed in the order of the path, for every batch and
  every index in range, whatever the hash function; and an index out of range has no path.\<close>

theorem merkle_path_reaches_root:
  "(case merkle_path f leaves i of
      None \<Rightarrow> i \<ge> length leaves
    | Some p \<Rightarrow> i < length leaves \<and> ots_merkle_root f leaves = Some (climb f (leaves ! i) p))"
  using climb_path_loop [of i leaves f] by (auto simp: merkle_path_def ots_merkle_root_def)

text \<open>The Merkle path of a transaction in a block, which pairs an odd last node with itself,
  is the path that the calendar's trees, which append a copy of it, have over the same leaves:
  the two routines agree for every pair hash.\<close>

theorem bitcoin_path_eq_merkle_path:
  "bitcoin_tx_merkle_path f leaves i = merkle_path f leaves i"
  by (simp add: bitcoin_tx_merkle_path_def merkle_path_def bitcoin_path_eq)

end
