(* ===== verification/CalendarProof.thy ===== *)
theory CalendarProof
  imports Merkle
begin

text \<open>
  The proofs a calendar hands out (\<open>lord-calendar/src/proof.rs\<close>): the proof of a queued
  digest, of a digest in a batch, and of a digest whose batch root is in a confirmed
  transaction. The serialization of a proof file (\<open>opentimestamps\<close> crate) is the parameter
  \<open>ser\<close>; an anchor transaction is its serialization without witnesses with its
  identifier; a block is its transactions with the root of its header.
\<close>

datatype proof_error =
    SerializeFailed
  | DigestNotInBatch nat
  | PathMissesCommitment
  | NotInBatchTree
  | CommitmentNotFound
  | TxidMismatch
  | AnchorTxNotInBlock
  | NoBlockPath
  | BlockRootMismatch
  | EmptyInclusionPath
  | InclusionPathFailed

type_synonym serializer = "timestamp \<Rightarrow> bytes option"

record anchor_tx =
  tx_stripped :: bytes
  tx_id :: bytes

record anchor_block =
  block_txdata :: "anchor_tx list"
  block_root :: bytes

definition block_txids :: "anchor_block \<Rightarrow> bytes list" where
  "block_txids block = map tx_id (block_txdata block)"

section \<open>Pending proofs\<close>

definition serialize_proof :: "serializer \<Rightarrow> timestamp \<Rightarrow> (proof_error, bytes) result" where
  "serialize_proof ser file = ok_or (ser file) SerializeFailed"

definition pending_timestamp :: "bytes \<Rightarrow> string \<Rightarrow> timestamp" where
  "pending_timestamp digest uri =
     \<lparr>start_digest = digest, first_step = Step (Attestation (Pending uri)) digest []\<rparr>"

definition pending_proof_bytes ::
  "serializer \<Rightarrow> bytes \<Rightarrow> string \<Rightarrow> (proof_error, bytes) result" where
  "pending_proof_bytes ser digest uri = serialize_proof ser (pending_timestamp digest uri)"

definition path_op :: "bool \<Rightarrow> bytes \<Rightarrow> op" where
  "path_op is_left sibling = (if is_left then Append sibling else Prepend sibling)"

text \<open>The loop of \<open>merkle_batch_proof_bytes\<close>, over the reversed path.\<close>

fun batch_steps :: "executor \<Rightarrow> bytes \<Rightarrow> step \<Rightarrow> merkle_path \<Rightarrow> step" where
  "batch_steps ex current st [] = st"
| "batch_steps ex current st ((is_left, sibling) # p) =
     (let current = (if is_left then cat_sha256d ex current sibling
                     else cat_sha256d ex sibling current)
      in batch_steps ex current (Step (Op (path_op is_left sibling)) current [st]) p)"

definition merkle_batch_timestamp ::
  "executor \<Rightarrow> bytes \<Rightarrow> bytes list \<Rightarrow> nat \<Rightarrow> string \<Rightarrow> (proof_error, timestamp) result" where
  "merkle_batch_timestamp ex digest batch_leaves leaf_index uri =
     and_then (ok_or (merkle_path (cat_sha256d ex) batch_leaves leaf_index)
         (DigestNotInBatch (length batch_leaves))) (\<lambda>path.
     Ok \<lparr>start_digest = digest,
         first_step = batch_steps ex digest (Step (Attestation (Pending uri)) digest []) (rev path)\<rparr>)"

definition merkle_batch_proof_bytes ::
  "executor \<Rightarrow> serializer \<Rightarrow> bytes \<Rightarrow> bytes list \<Rightarrow> nat \<Rightarrow> string \<Rightarrow> (proof_error, bytes) result" where
  "merkle_batch_proof_bytes ex ser digest batch_leaves leaf_index uri =
     and_then (merkle_batch_timestamp ex digest batch_leaves leaf_index uri) (serialize_proof ser)"

section \<open>Confirmed proofs\<close>

text \<open>The loop of \<open>merkle_path_steps\<close>, over the reversed path.\<close>

fun path_steps :: "executor \<Rightarrow> bytes \<Rightarrow> step option \<Rightarrow> merkle_path \<Rightarrow> step option" where
  "path_steps ex current st [] = st"
| "path_steps ex current st ((is_left, sibling) # p) =
     (let current = (if is_left then cat_sha256d ex current sibling
                     else cat_sha256d ex sibling current)
      in path_steps ex current
           (Some (Step (Op (path_op is_left sibling)) current
              (case st of None \<Rightarrow> [] | Some s \<Rightarrow> [s]))) p)"

definition merkle_path_steps ::
  "executor \<Rightarrow> bytes \<Rightarrow> bytes list \<Rightarrow> nat \<Rightarrow> (proof_error, step) result" where
  "merkle_path_steps ex digest batch_leaves leaf_index =
     and_then (ok_or (merkle_path (cat_sha256d ex) batch_leaves leaf_index)
         (DigestNotInBatch (length batch_leaves))) (\<lambda>path.
     ok_or (path_steps ex digest None (rev path)) NotInBatchTree)"

function link_steps :: "step \<Rightarrow> step \<Rightarrow> step" where
  "link_steps (Step d out cs) tail =
     (if cs = [] then Step d out [tail]
      else Step d out (butlast cs @ [link_steps (last cs) tail]))"
  by pat_completeness auto
termination
  by (relation "measure (step_weight \<circ> fst)")
    (auto simp: less_Suc_eq_le intro!: member_le_sum_list)

declare link_steps.simps [simp del]

text \<open>\<open>windows(n).position(..)\<close>\<close>

definition find_window :: "bytes \<Rightarrow> bytes \<Rightarrow> nat option" where
  "find_window c s =
     position (\<lambda>i. take (length c) (drop i s) = c) [0 ..< length s + 1 - length c]"

definition txid_ops :: "bytes \<Rightarrow> nat \<Rightarrow> nat \<Rightarrow> op list" where
  "txid_ops serialized pos n =
     (let prefix = take pos serialized; suffix = drop (pos + n) serialized in
      (if prefix \<noteq> [] then [Prepend prefix] else []) @
      (if suffix \<noteq> [] then [Append suffix] else []) @ [Sha256, Sha256])"

fun op_outputs :: "executor \<Rightarrow> bytes \<Rightarrow> op list \<Rightarrow> bytes list" where
  "op_outputs ex current [] = []"
| "op_outputs ex current (q # qs) = ex q current # op_outputs ex (ex q current) qs"

definition chain_steps :: "(op \<times> bytes) list \<Rightarrow> step list" where
  "chain_steps qs = foldr (\<lambda>(q, out) nx. [Step (Op q) out nx]) qs []"

definition tx_commitment_to_txid_step ::
  "executor \<Rightarrow> bytes \<Rightarrow> anchor_tx \<Rightarrow> (proof_error, step) result" where
  "tx_commitment_to_txid_step ex commitment tx =
     and_then (ok_or (find_window commitment (tx_stripped tx)) CommitmentNotFound) (\<lambda>pos.
     let ops = txid_ops (tx_stripped tx) pos (length commitment);
         outputs = op_outputs ex commitment ops in
     if last outputs \<noteq> tx_id tx then Err TxidMismatch
     else Ok (hd (chain_steps (zip ops outputs))))"

fun inclusion_steps :: "executor \<Rightarrow> bytes \<Rightarrow> step list \<Rightarrow> merkle_path \<Rightarrow> step list" where
  "inclusion_steps ex digest child_steps [] = child_steps"
| "inclusion_steps ex digest child_steps ((is_left, sibling) # p) =
     (let q = path_op is_left sibling;
          concatenated = ex q digest;
          hashed_once = ex Sha256 concatenated;
          hashed_twice = ex Sha256 hashed_once
      in inclusion_steps ex hashed_twice
           [Step (Op q) concatenated
              [Step (Op Sha256) hashed_once [Step (Op Sha256) hashed_twice child_steps]]] p)"

definition inclusion_path_steps ::
  "executor \<Rightarrow> bytes \<Rightarrow> merkle_path \<Rightarrow> (proof_error, step) result" where
  "inclusion_path_steps ex leaf path =
     (if path = [] then Err EmptyInclusionPath
      else (case inclusion_steps ex leaf [] path of
          [] \<Rightarrow> Err InclusionPathFailed
        | s # _ \<Rightarrow> Ok s))"

definition block_merkle_path_steps ::
  "executor \<Rightarrow> (bytes \<Rightarrow> bytes) \<Rightarrow> bytes \<Rightarrow> anchor_block \<Rightarrow> (proof_error, step) result" where
  "block_merkle_path_steps ex h2 txid block =
     and_then (ok_or (position ((=) txid) (block_txids block)) AnchorTxNotInBlock) (\<lambda>index.
     and_then (ok_or (bitcoin_tx_merkle_path (bitcoin_merkle_pair h2) (block_txids block) index)
         NoBlockPath) (\<lambda>path.
     if climb (bitcoin_merkle_pair h2) txid path \<noteq> block_root block then Err BlockRootMismatch
     else inclusion_path_steps ex txid path))"

definition bitcoin_confirmed_timestamp ::
  "executor \<Rightarrow> (bytes \<Rightarrow> bytes) \<Rightarrow> bytes \<Rightarrow> bytes \<Rightarrow> bytes list \<Rightarrow> nat \<Rightarrow> anchor_tx \<Rightarrow>
   anchor_block \<Rightarrow> u32 \<Rightarrow> (proof_error, timestamp) result" where
  "bitcoin_confirmed_timestamp ex h2 start commitment batch_leaves leaf_index tx block height =
     and_then (tx_commitment_to_txid_step ex commitment tx) (\<lambda>txid_step.
     and_then
       (if start = commitment then Ok txid_step
        else and_then (merkle_path_steps ex start batch_leaves leaf_index) (\<lambda>merkle.
          if step_output merkle \<noteq> commitment then Err PathMissesCommitment
          else Ok (link_steps merkle txid_step))) (\<lambda>head.
     and_then (block_merkle_path_steps ex h2 (tx_id tx) block) (\<lambda>block_step.
     let head = link_steps head block_step;
         att = Step (Attestation (Bitcoin (ucast height))) (block_root block) [] in
     Ok \<lparr>start_digest = start, first_step = link_steps head att\<rparr>)))"

definition bitcoin_confirmed_proof_bytes ::
  "executor \<Rightarrow> (bytes \<Rightarrow> bytes) \<Rightarrow> serializer \<Rightarrow> bytes \<Rightarrow> bytes \<Rightarrow> bytes list \<Rightarrow> nat \<Rightarrow> anchor_tx \<Rightarrow>
   anchor_block \<Rightarrow> u32 \<Rightarrow> (proof_error, bytes) result" where
  "bitcoin_confirmed_proof_bytes ex h2 ser start commitment batch_leaves leaf_index tx block height =
     and_then (bitcoin_confirmed_timestamp ex h2 start commitment batch_leaves leaf_index tx block height)
       (serialize_proof ser)"


section \<open>What the operations of a proof compute\<close>

text \<open>The digest that the operations of a proof without forks give to its attestation,
  whatever outputs the tree records.\<close>

fun run_ops :: "executor \<Rightarrow> step \<Rightarrow> bytes \<Rightarrow> bytes option" where
  "run_ops ex (Step (Attestation a) out cs) d = Some d"
| "run_ops ex (Step Fork out cs) d = None"
| "run_ops ex (Step (Op q) out cs) d = (case cs of [] \<Rightarrow> None | c # _ \<Rightarrow> run_ops ex c (ex q d))"

text \<open>Two trees with the same operations and attestations: a parser recomputes outputs.\<close>

fun same_ops :: "step \<Rightarrow> step \<Rightarrow> bool" where
  "same_ops (Step d out cs) (Step d' out' cs') = (d = d' \<and> list_all2 same_ops cs cs')"

lemma same_ops_run: "same_ops s s' \<Longrightarrow> run_ops ex s' d = run_ops ex s d"
proof (induction s s' arbitrary: d rule: same_ops.induct)
  case (1 q out cs q' out' cs')
  then show ?case by (cases q; cases cs; cases cs') auto
qed

lemma attests_run:
  "attests ex source h s d \<Longrightarrow> run_ops ex s d = Some r \<Longrightarrow> source h = Ok (Some r)"
  by (induction rule: attests.induct) auto

lemma confirmed_needs_run:
  assumes "verify_timestamp_attestations ex ts source = Confirmed h"
    and "run_ops ex (first_step ts) (start_digest ts) = Some r"
  shows "source h = Ok (Some r)"
  using assms verify_sound attests_run
  unfolding verify_timestamp_attestations_def status_of_confirmed by blast

section \<open>Proofs as chains of operations\<close>

definition chain :: "(op \<times> bytes) list \<Rightarrow> step list \<Rightarrow> step list" where
  "chain qs nx = foldr (\<lambda>(q, out) nx. [Step (Op q) out nx]) qs nx"

lemma chain_simps [simp]:
  "chain [] nx = nx"
  "chain ((q, out) # qs) nx = [Step (Op q) out (chain qs nx)]"
  "chain (qs @ qs') nx = chain qs (chain qs' nx)"
  by (simp_all add: chain_def)

lemma chain_single: "length nx = 1 \<or> qs \<noteq> [] \<Longrightarrow> length (chain qs nx) = 1"
  by (cases qs) auto

lemma link_chain:
  "qs \<noteq> [] \<Longrightarrow> link_steps (hd (chain qs [])) t = hd (chain qs [t])"
proof (induction qs)
  case Nil
  then show ?case by simp
next
  case (Cons e qs)
  obtain q out where e: "e = (q, out)" by (cases e)
  show ?case
  proof (cases qs)
    case Nil
    with e show ?thesis by (simp add: link_steps.simps)
  next
    case (Cons e' qs')
    then have "length (chain qs []) = 1" "length (chain qs [t]) = 1"
      using chain_single [of "[]" qs] chain_single [of "[t]" qs] by simp_all
    then obtain a b where ab: "chain qs [] = [a]" "chain qs [t] = [b]"
      by (auto simp: length_Suc_conv)
    with Cons.IH Cons have "link_steps a t = b" by simp
    with e ab show ?thesis by (simp add: link_steps.simps)
  qed
qed

lemma link_chains:
  assumes "qs \<noteq> []" "qs' \<noteq> []"
  shows "link_steps (hd (chain qs [])) (hd (chain qs' nx)) = hd (chain (qs @ qs') nx)"
proof -
  have "length (chain qs' nx) = 1" using assms by (intro chain_single) simp
  then have "[hd (chain qs' nx)] = chain qs' nx" by (cases "chain qs' nx") auto
  with assms link_chain [of qs "hd (chain qs' nx)"] show ?thesis by simp
qed

definition run_list :: "executor \<Rightarrow> bytes \<Rightarrow> op list \<Rightarrow> bytes" where
  "run_list ex d qs = foldl (\<lambda>d q. ex q d) d qs"

lemma run_list_simps [simp]:
  "run_list ex d [] = d"
  "run_list ex d (q # qs) = run_list ex (ex q d) qs"
  "run_list ex d (qs @ qs') = run_list ex (run_list ex d qs) qs'"
  by (simp_all add: run_list_def)

lemma run_chain:
  "run_ops ex (hd (chain qs [Step (Attestation a) out cs])) d = Some (run_list ex d (map fst qs))"
proof (induction qs arbitrary: d)
  case Nil
  then show ?case by simp
next
  case (Cons e qs)
  obtain q out' where e: "e = (q, out')" by (cases e)
  have "length (chain qs [Step (Attestation a) out cs]) = 1" by (rule chain_single) simp
  then obtain s where s: "chain qs [Step (Attestation a) out cs] = [s]"
    by (auto simp: length_Suc_conv)
  with Cons [of "ex q d"] e show ?case by simp
qed

lemma length_op_outputs [simp]: "length (op_outputs ex d qs) = length qs"
  by (induction qs arbitrary: d) auto

lemma op_outputs_append:
  "op_outputs ex d (qs @ qs') = op_outputs ex d qs @ op_outputs ex (run_list ex d qs) qs'"
  by (induction qs arbitrary: d) auto

lemma last_op_outputs: "qs \<noteq> [] \<Longrightarrow> last (op_outputs ex d qs) = run_list ex d qs"
  by (induction qs arbitrary: d rule: induct_list012) auto

text \<open>A chain whose outputs are those of its operations verifies like what follows it.\<close>

lemma verify_chain:
  "verify_step ex source (hd (chain (zip qs (op_outputs ex d qs)) [t])) d =
   verify_step ex source t (run_list ex d qs)"
proof (induction qs arbitrary: d)
  case Nil
  then show ?case by simp
next
  case (Cons q qs)
  have "length (chain (zip qs (op_outputs ex (ex q d) qs)) [t]) = 1" by (rule chain_single) simp
  then obtain s where "chain (zip qs (op_outputs ex (ex q d) qs)) [t] = [s]"
    by (auto simp: length_Suc_conv)
  with Cons [of "ex q d"] show ?case by simp
qed

definition level_ops :: "merkle_path \<Rightarrow> op list" where
  "level_ops p = concat (map (\<lambda>(l, s). [path_op l s, Sha256, Sha256]) p)"

lemma run_level_ops:
  assumes "ops_documented ex" "\<And>x. h2 x = ex Sha256 (ex Sha256 x)"
  shows "run_list ex d (level_ops p) = climb (bitcoin_merkle_pair h2) d p"
proof (induction p arbitrary: d)
  case Nil
  then show ?case by (simp add: level_ops_def)
next
  case (Cons e p)
  obtain l s where "e = (l, s)" by (cases e)
  with Cons assms show ?case
    by (simp add: level_ops_def path_op_def bitcoin_merkle_pair_def ops_documentedD)
qed

text \<open>The chain that \<open>inclusion_path_steps\<close> builds has the last element of the path first.\<close>

lemma inclusion_steps_chain:
  "\<exists>outs. length outs = length (level_ops (rev p)) \<and>
     inclusion_steps ex d nx p = chain (zip (level_ops (rev p)) outs) nx \<and>
     (length p = 1 \<longrightarrow> outs = op_outputs ex d (level_ops (rev p)))"
proof (induction p arbitrary: d nx)
  case Nil
  then show ?case by (simp add: level_ops_def)
next
  case (Cons e p)
  obtain l s where e: "e = (l, s)" by (cases e)
  let ?q = "path_op l s"
  let ?outs = "op_outputs ex d [?q, Sha256, Sha256]"
  let ?nx = "chain (zip [?q, Sha256, Sha256] ?outs) nx"
  from Cons [of "ex Sha256 (ex Sha256 (ex ?q d))" ?nx] obtain outs where
    outs: "length outs = length (level_ops (rev p))"
      "inclusion_steps ex (ex Sha256 (ex Sha256 (ex ?q d))) ?nx p = chain (zip (level_ops (rev p)) outs) ?nx"
    by blast
  have ops: "level_ops (rev (e # p)) = level_ops (rev p) @ [?q, Sha256, Sha256]"
    using e by (simp add: level_ops_def)
  have "inclusion_steps ex d nx (e # p) = chain (zip (level_ops (rev (e # p))) (outs @ ?outs)) nx"
    using outs e unfolding ops by (simp add: Let_def)
  moreover have "length (outs @ ?outs) = length (level_ops (rev (e # p)))"
    using outs(1) unfolding ops by simp
  moreover have "length (e # p) = 1 \<longrightarrow> outs @ ?outs = op_outputs ex d (level_ops (rev (e # p)))"
    using outs(1) unfolding ops by (auto simp: level_ops_def)
  ultimately show ?case by blast
qed

lemma txid_step_chain:
  assumes "tx_commitment_to_txid_step ex commitment tx = Ok s"
  obtains pos qs where "find_window commitment (tx_stripped tx) = Some pos"
    "qs = txid_ops (tx_stripped tx) pos (length commitment)"
    "qs \<noteq> []" "s = hd (chain (zip qs (op_outputs ex commitment qs)) [])"
    "run_list ex commitment qs = tx_id tx"
proof -
  from assms obtain pos where "find_window commitment (tx_stripped tx) = Some pos"
    "last (op_outputs ex commitment (txid_ops (tx_stripped tx) pos (length commitment))) = tx_id tx"
    "s = hd (chain_steps (zip (txid_ops (tx_stripped tx) pos (length commitment))
           (op_outputs ex commitment (txid_ops (tx_stripped tx) pos (length commitment)))))"
    by (auto simp: tx_commitment_to_txid_step_def ok_elims Let_def split: if_splits)
  moreover have "txid_ops (tx_stripped tx) pos (length commitment) \<noteq> []"
    by (simp add: txid_ops_def Let_def)
  ultimately show ?thesis
    using that by (simp add: chain_steps_def chain_def last_op_outputs)
qed

lemma block_step_chain:
  assumes "block_merkle_path_steps ex h2 txid block = Ok s"
  obtains i p outs where "i < length (block_txids block)" "block_txids block ! i = txid"
    "p \<noteq> []" "p = merkle_path_loop (bitcoin_merkle_pair h2) (block_txids block) i"
    "climb (bitcoin_merkle_pair h2) txid p = block_root block"
    "length outs = length (level_ops (rev p))"
    "s = hd (chain (zip (level_ops (rev p)) outs) [])"
    "length p = 1 \<longrightarrow> outs = op_outputs ex txid (level_ops (rev p))"
proof -
  from assms obtain i p where i: "position ((=) txid) (block_txids block) = Some i"
    and p: "bitcoin_tx_merkle_path (bitcoin_merkle_pair h2) (block_txids block) i = Some p"
    and root: "climb (bitcoin_merkle_pair h2) txid p = block_root block"
    and s: "inclusion_path_steps ex txid p = Ok s"
    by (auto simp: block_merkle_path_steps_def ok_elims split: if_splits)
  obtain outs where outs: "length outs = length (level_ops (rev p))"
     "inclusion_steps ex txid [] p = chain (zip (level_ops (rev p)) outs) []"
     "length p = 1 \<longrightarrow> outs = op_outputs ex txid (level_ops (rev p))"
    using inclusion_steps_chain by blast
  have "i < length (block_txids block)" "block_txids block ! i = txid"
    using position_Some [OF i] by auto
  moreover from s have "p \<noteq> []" "s = hd (chain (zip (level_ops (rev p)) outs) [])"
    using outs(2) by (auto simp: inclusion_path_steps_def split: if_splits list.splits)
  moreover have "p = merkle_path_loop (bitcoin_merkle_pair h2) (block_txids block) i"
    using p calculation(1) by (simp add: bitcoin_tx_merkle_path_def bitcoin_path_eq)
  ultimately show ?thesis using that root outs by blast
qed


text \<open>The steps of the batch path have the siblings from the leaf up, each appended or prepended.\<close>

abbreviation path_ops :: "merkle_path \<Rightarrow> op list" where
  "path_ops path \<equiv> map (\<lambda>(l, s). path_op l s) path"

abbreviation opt_steps :: "step option \<Rightarrow> step list" where
  "opt_steps st \<equiv> (case st of None \<Rightarrow> [] | Some s \<Rightarrow> [s])"

lemma path_steps_chain:
  "\<exists>outs. length outs = length p \<and> opt_steps (path_steps ex d st p) = chain (zip (path_ops (rev p)) outs) (opt_steps st)"
proof (induction p arbitrary: d st)
  case (Cons e p)
  obtain l s where e: "e = (l, s)" by (cases e)
  let ?d = "if l then cat_sha256d ex d s else cat_sha256d ex s d"
  from Cons [of ?d "Some (Step (Op (path_op l s)) ?d (opt_steps st))"] obtain outs where
    "length outs = length p" "opt_steps (path_steps ex d st (e # p)) =
      chain (zip (path_ops (rev p)) outs) [Step (Op (path_op l s)) ?d (opt_steps st)]"
    by (auto simp: e Let_def)
  then show ?case by (intro exI [of _ "outs @ [?d]"]) (simp add: e)
qed simp

lemma merkle_steps_chain:
  assumes "merkle_path_steps ex start leaves i = Ok merkle"
  obtains path outs where "merkle_path (cat_sha256d ex) leaves i = Some path" "path \<noteq> []"
    "length outs = length path" "merkle = hd (chain (zip (path_ops path) outs) [])"
proof -
  from assms obtain path where path: "merkle_path (cat_sha256d ex) leaves i = Some path"
    "path_steps ex start None (rev path) = Some merkle"
    by (auto simp: merkle_path_steps_def ok_elims)
  from path_steps_chain [of "rev path" ex start None] path(2) obtain outs where
    "length outs = length path" "[merkle] = chain (zip (path_ops path) outs) []" by auto
  moreover from this have "path \<noteq> []" by auto
  ultimately show thesis using that [OF path(1)] by (metis list.sel(1))
qed

lemma run_path_ops: "ops_documented ex \<Longrightarrow> run_list ex d (path_ops path) = climb (@) d path"
  by (induction path arbitrary: d) (auto simp: path_op_def ops_documentedD)

lemma run_txid_ops:
  "ops_documented ex \<Longrightarrow> run_list ex d (txid_ops serialized pos n) =
     ex Sha256 (ex Sha256 (take pos serialized @ d @ drop (pos + n) serialized))"
  by (auto simp: txid_ops_def Let_def ops_documentedD)

lemma find_window_Some:
  assumes "find_window c s = Some pos"
  shows "s = take pos s @ c @ drop (pos + length c) s"
proof -
  from position_Some [OF assms [unfolded find_window_def]] have "take (length c) (drop pos s) = c"
    by (cases "pos < length s + 1 - length c") auto
  then show ?thesis by (metis append_take_drop_id drop_drop add.commute)
qed

text \<open>The whole proof of a digest of a batch, as one chain.\<close>

lemma confirmed_chain:
  assumes "bitcoin_confirmed_timestamp ex h2 start commitment leaves i tx block height = Ok ts"
  obtains path pre pos qs p outs j where
    "if start = commitment then path = [] else merkle_path (cat_sha256d ex) leaves i = Some path"
    "length pre = length path"
    "find_window commitment (tx_stripped tx) = Some pos"
    "qs = txid_ops (tx_stripped tx) pos (length commitment)" "run_list ex commitment qs = tx_id tx"
    "j < length (block_txids block)"
    "p = merkle_path_loop (bitcoin_merkle_pair h2) (block_txids block) j"
    "climb (bitcoin_merkle_pair h2) (tx_id tx) p = block_root block"
    "length outs = length (level_ops (rev p))"
    "length p = 1 \<longrightarrow> outs = op_outputs ex (tx_id tx) (level_ops (rev p))"
    "start_digest ts = start"
    "first_step ts = hd (chain (zip (path_ops path @ qs @ level_ops (rev p)) (pre @ op_outputs ex commitment qs @ outs))
       [Step (Attestation (Bitcoin (ucast height))) (block_root block) []])"
proof -
  let ?att = "Step (Attestation (Bitcoin (ucast height))) (block_root block) []"
  from assms obtain s head b where s: "tx_commitment_to_txid_step ex commitment tx = Ok s"
    and head: "(if start = commitment then Ok s
        else and_then (merkle_path_steps ex start leaves i) (\<lambda>merkle.
          if step_output merkle \<noteq> commitment then Err PathMissesCommitment
          else Ok (link_steps merkle s))) = Ok head"
    and b: "block_merkle_path_steps ex h2 (tx_id tx) block = Ok b"
    and ts: "ts = \<lparr>start_digest = start, first_step = link_steps (link_steps head b) ?att\<rparr>"
    by (auto simp: bitcoin_confirmed_timestamp_def ok_elims Let_def)
  obtain pos qs where pos: "find_window commitment (tx_stripped tx) = Some pos"
    and q: "qs = txid_ops (tx_stripped tx) pos (length commitment)"
    and qs: "qs \<noteq> []" "s = hd (chain (zip qs (op_outputs ex commitment qs)) [])"
    "run_list ex commitment qs = tx_id tx"
    by (rule txid_step_chain [OF s])
  let ?zq = "zip qs (op_outputs ex commitment qs)"
  have nonempty: "?zq \<noteq> []" using qs(1) by (cases qs) auto
  obtain path pre where path:
    "if start = commitment then path = [] else merkle_path (cat_sha256d ex) leaves i = Some path"
    "length pre = length path" "head = hd (chain (zip (path_ops path) pre @ ?zq) [])"
  proof (cases "start = commitment")
    case True
    with head qs(2) that [of "[]" "[]"] show thesis by simp
  next
    case False
    with head obtain merkle where m: "merkle_path_steps ex start leaves i = Ok merkle" "head = link_steps merkle s"
      by (auto simp: ok_elims split: if_splits)
    obtain path pre where p: "merkle_path (cat_sha256d ex) leaves i = Some path" "path \<noteq> []"
      "length pre = length path" "merkle = hd (chain (zip (path_ops path) pre) [])"
      by (rule merkle_steps_chain [OF m(1)])
    have "zip (path_ops path) pre \<noteq> []" using p(2,3) by (cases path; cases pre) auto
    from link_chains [OF this nonempty, of "[]"] have "head = hd (chain (zip (path_ops path) pre @ ?zq) [])"
      using m(2) p(4) qs(2) by simp
    with that False p(1,3) show thesis by simp
  qed
  obtain j p outs where p: "j < length (block_txids block)" "p \<noteq> []"
    "p = merkle_path_loop (bitcoin_merkle_pair h2) (block_txids block) j"
    "climb (bitcoin_merkle_pair h2) (tx_id tx) p = block_root block"
    "length outs = length (level_ops (rev p))"
    "b = hd (chain (zip (level_ops (rev p)) outs) [])"
    "length p = 1 \<longrightarrow> outs = op_outputs ex (tx_id tx) (level_ops (rev p))"
    by (rule block_step_chain [OF b])
  let ?zp = "zip (level_ops (rev p)) outs" and ?zh = "zip (path_ops path) pre @ ?zq"
  have "level_ops (rev p) \<noteq> []" using p(2) by (cases p) (auto simp: level_ops_def)
  then have "length ?zp \<noteq> 0" using p(5) by simp
  then have zp: "?zp \<noteq> []" by (simp only: length_0_conv not_False_eq_True)
  have zh: "?zh \<noteq> []" using nonempty by simp
  have "link_steps head b = hd (chain (?zh @ ?zp) [])"
    using path(3) p(6) link_chains [OF zh zp, of "[]"] by simp
  moreover have "?zh @ ?zp \<noteq> []" using zh by (rule contrapos_nn) (simp only: append_is_Nil_conv)
  ultimately have "link_steps (link_steps head b) ?att = hd (chain (?zh @ ?zp) [?att])"
    by (simp only: link_chain not_False_eq_True)
  then have fs: "first_step ts = hd (chain (zip (path_ops path @ qs @ level_ops (rev p))
      (pre @ op_outputs ex commitment qs @ outs)) [?att])"
    using ts path(2) by simp
  have "start_digest ts = start" using ts by simp
  then show ?thesis by (rule that [OF path(1,2) pos q qs(3) p(1,3,4,5,7) _ fs])
qed

text \<open>When the anchored digest is the root of its own batch and its transaction is one of
  two in the block, the proof that the calendar builds is confirmed: verification accepts it
  at the height of the block, against any node that reports the block's merkle root there.\<close>

theorem confirmed_proof_verifies:
  assumes "bitcoin_confirmed_timestamp ex h2 start start leaves i tx block height = Ok ts"
    and "length (block_txids block) = 2"
    and "ops_documented ex" "\<forall>x. h2 x = ex Sha256 (ex Sha256 x)"
    and "source height = Ok (Some (block_root block))"
  shows "verify_timestamp_attestations ex ts source = Confirmed height"
proof -
  obtain path pre qs p outs j where first: "path = []" "length pre = length path" and c: "run_list ex start qs = tx_id tx"
    "j < length (block_txids block)"
    "p = merkle_path_loop (bitcoin_merkle_pair h2) (block_txids block) j"
    "climb (bitcoin_merkle_pair h2) (tx_id tx) p = block_root block"
    "length p = 1 \<longrightarrow> outs = op_outputs ex (tx_id tx) (level_ops (rev p))"
    "start_digest ts = start"
    and f: "first_step ts = hd (chain (zip (path_ops path @ qs @ level_ops (rev p)) (pre @ op_outputs ex start qs @ outs))
       [Step (Attestation (Bitcoin (ucast height))) (block_root block) []])"
    by (rule confirmed_chain [OF assms(1)]) (simp only: if_True simp_thms)
  have len: "length p = 1"
    using assms(2) unfolding c(3)
    by (subst merkle_path_loop.simps, subst merkle_path_loop.simps)
      (simp add: Let_def next_level_length)
  then have rev: "rev p = p" by (cases p) auto
  have "first_step ts = hd (chain (zip (qs @ level_ops p) (op_outputs ex start (qs @ level_ops p)))
       [Step (Attestation (Bitcoin (ucast height))) (block_root block) []])"
    using first f c(1,5) len rev by (simp add: op_outputs_append)
  moreover have "run_list ex start (qs @ level_ops p) = block_root block"
    using c(1,4) run_level_ops [OF assms(3) assms(4) [rule_format]] by simp
  moreover have "unat (ucast height :: u64) = unat height"
    by (rule unat_ucast_small) (use unsigned_less [of height, where 'a = nat] in simp)
  ultimately have "verify_step ex source (first_step ts) (start_digest ts) = Ok (Confirmed height)"
    using c(6) assms(5) by (simp add: verify_chain verify_attestation_confirmed)
  then show ?thesis by (simp add: verify_timestamp_attestations_def status_of_def)
qed

definition toy_ex :: executor where
  "toy_ex q d = (case q of
      Append s \<Rightarrow> d @ s | Prepend s \<Rightarrow> s @ d
    | Sha256 \<Rightarrow> [foldl (\<lambda>a b. 3 * a + b + 1) 0 d] | OtherOp n \<Rightarrow> [])"

lemma toy_ex_documented: "ops_documented toy_ex"
  by (simp add: ops_documented_def toy_ex_def)

definition toy_h2 :: "bytes \<Rightarrow> bytes" where
  "toy_h2 x = toy_ex Sha256 (toy_ex Sha256 x)"

definition toy_tx :: anchor_tx where
  "toy_tx = \<lparr>tx_stripped = [1, 2, 3], tx_id = [32]\<rparr>"

definition toy_block2 :: anchor_block where
  "toy_block2 = \<lparr>block_txdata = [\<lparr>tx_stripped = [], tx_id = [5]\<rparr>, toy_tx],
     block_root = toy_h2 [5, 32]\<rparr>"

text \<open>A block of three transactions with its root.\<close>

definition toy_block3 :: anchor_block where
  "toy_block3 = \<lparr>block_txdata = [\<lparr>tx_stripped = [], tx_id = [5]\<rparr>, toy_tx,
       \<lparr>tx_stripped = [], tx_id = [7]\<rparr>],
     block_root = toy_h2 (toy_h2 [5, 32] @ toy_h2 [7, 7])\<rparr>"

lemmas proof_eval = bitcoin_confirmed_timestamp_def tx_commitment_to_txid_step_def
  find_window_def txid_ops_def chain_steps_def block_merkle_path_steps_def
  bitcoin_tx_merkle_path_def bitcoin_path_loop.simps bitcoin_next_level_def
  bitcoin_merkle_pair_def inclusion_path_steps_def path_op_def toy_ex_def toy_h2_def
  toy_tx_def toy_block2_def toy_block3_def block_txids_def Let_def ok_or_def upt_conv_Cons link_steps.simps

theorem confirmed_proof_verifies_witness:
  "\<exists>ts. bitcoin_confirmed_timestamp toy_ex toy_h2 [2] [2] [[2]] 0 toy_tx toy_block2 9 = Ok ts \<and>
     verify_timestamp_attestations toy_ex ts
       (\<lambda>h. Ok (Some (block_root toy_block2)) :: (unit, bytes option) result) = Confirmed 9"
proof -
  obtain ts where ts:
    "bitcoin_confirmed_timestamp toy_ex toy_h2 [2] [2] [[2]] 0 toy_tx toy_block2 9 = Ok ts"
    by (simp add: proof_eval)
  from confirmed_proof_verifies [OF ts _ toy_ex_documented,
      where source = "\<lambda>h. Ok (Some (block_root toy_block2)) :: (unit, bytes option) result"] ts
  show ?thesis by (simp add: toy_h2_def toy_block2_def block_txids_def)
qed


text \<open>C29: What a confirmed proof commits to, in a batch of any size. Its operations append and prepend
  the siblings of the digest in its batch without hashing (none when the digest is itself the commitment), put the
  result in the place of the commitment in the anchor transaction, and hash the path of the transaction in its block
  with the topmost sibling first, that is, in reverse. The builder has checked the batch path and the block path in
  their right order, and yet no tree with these operations, whatever outputs it records, is confirmed at a
  height where the node reports another root than the digest that they give. The cryptographic operations are only
  assumed to append and prepend, and the double hash to be SHA-256 applied twice.\<close>

theorem confirmed_proof_reversed:
  assumes "bitcoin_confirmed_timestamp ex h2 start commitment leaves i tx block height = Ok ts"
    and "ops_documented ex" "\<forall>x. h2 x = ex Sha256 (ex Sha256 x)"
  shows "\<exists>before after path j p digest.
    tx_stripped tx = before @ commitment @ after \<and>
    ex Sha256 (ex Sha256 (before @ commitment @ after)) = tx_id tx \<and>
    (if start = commitment then path = [] else merkle_path (cat_sha256d ex) leaves i = Some path) \<and>
    merkle_path (bitcoin_merkle_pair h2) (block_txids block) j = Some p \<and>
    climb (bitcoin_merkle_pair h2) (tx_id tx) p = block_root block \<and>
    digest = climb (bitcoin_merkle_pair h2) (ex Sha256 (ex Sha256 (before @ climb (@) start path @ after))) (rev p) \<and>
    run_ops ex (first_step ts) start = Some digest \<and>
    (\<forall>s source h. same_ops (first_step ts) s \<longrightarrow>
       verify_timestamp_attestations ex (ts\<lparr>first_step := s\<rparr>) source = Confirmed h \<longrightarrow>
       source h = Ok (Some digest))"
proof -
  obtain path pre pos qs p outs j where
    c: "if start = commitment then path = [] else merkle_path (cat_sha256d ex) leaves i = Some path"
    "length pre = length path" "find_window commitment (tx_stripped tx) = Some pos"
    "qs = txid_ops (tx_stripped tx) pos (length commitment)" "run_list ex commitment qs = tx_id tx"
    "j < length (block_txids block)"
    "p = merkle_path_loop (bitcoin_merkle_pair h2) (block_txids block) j"
    "climb (bitcoin_merkle_pair h2) (tx_id tx) p = block_root block"
    "length outs = length (level_ops (rev p))" "start_digest ts = start"
    "first_step ts = hd (chain (zip (path_ops path @ qs @ level_ops (rev p)) (pre @ op_outputs ex commitment qs @ outs))
       [Step (Attestation (Bitcoin (ucast height))) (block_root block) []])"
    by (rule confirmed_chain [OF assms(1)])
  let ?before = "take pos (tx_stripped tx)" and ?after = "drop (pos + length commitment) (tx_stripped tx)"
  let ?digest = "climb (bitcoin_merkle_pair h2)
      (ex Sha256 (ex Sha256 (?before @ climb (@) start path @ ?after))) (rev p)"
  have tx: "tx_stripped tx = ?before @ commitment @ ?after" by (rule find_window_Some [OF c(3)])
  have txid: "ex Sha256 (ex Sha256 (?before @ commitment @ ?after)) = tx_id tx"
    using c(5) unfolding c(4) run_txid_ops [OF assms(2)] .
  have "map fst (zip (path_ops path @ qs @ level_ops (rev p)) (pre @ op_outputs ex commitment qs @ outs)) =
      path_ops path @ qs @ level_ops (rev p)"
    using c(2,9) by simp
  then have "run_ops ex (first_step ts) start = Some (run_list ex start (path_ops path @ qs @ level_ops (rev p)))"
    unfolding c(11) run_chain by (rule arg_cong)
  also have "run_list ex start (path_ops path @ qs @ level_ops (rev p)) = ?digest"
    using run_level_ops [OF assms(2) assms(3) [rule_format]]
    by (simp only: run_list_simps run_path_ops [OF assms(2)] c(4) run_txid_ops [OF assms(2)])
  finally have run: "run_ops ex (first_step ts) start = Some ?digest" .
  have "source h = Ok (Some ?digest)"
    if "same_ops (first_step ts) s"
      "verify_timestamp_attestations ex (ts\<lparr>first_step := s\<rparr>) source = Confirmed h"
    for s h and source :: "'b header_source"
    by (rule confirmed_needs_run [OF that(2)])
      (use same_ops_run [OF that(1), of ex start] run c(10) in simp)
  moreover have "merkle_path (bitcoin_merkle_pair h2) (block_txids block) j = Some p"
    using c(6,7) by (simp add: merkle_path_def)
  ultimately show ?thesis using c(1,8) run tx txid by blast
qed

text \<open>A batch of two in a block of three transactions: the operations give another digest than the root.\<close>

definition toy_batch_tx :: anchor_tx where
  "toy_batch_tx = \<lparr>tx_stripped = [1, 14, 3], tx_id = [68]\<rparr>"

definition toy_block4 :: anchor_block where
  "toy_block4 = \<lparr>block_txdata = [\<lparr>tx_stripped = [], tx_id = [5]\<rparr>, toy_batch_tx,
       \<lparr>tx_stripped = [], tx_id = [7]\<rparr>],
     block_root = toy_h2 (toy_h2 [5, 68] @ toy_h2 [7, 7])\<rparr>"

theorem confirmed_proof_reversed_witness:
  "\<exists>ts digest. bitcoin_confirmed_timestamp toy_ex toy_h2 [2] [14] [[2], [3]] 0 toy_batch_tx toy_block4 9 = Ok ts \<and>
     run_ops toy_ex (first_step ts) [2] = Some digest \<and> digest \<noteq> block_root toy_block4 \<and>
     (\<forall>s. same_ops (first_step ts) s \<longrightarrow> verify_timestamp_attestations toy_ex (ts\<lparr>first_step := s\<rparr>)
        (\<lambda>h. Ok (Some (block_root toy_block4)) :: (unit, bytes option) result) \<noteq> Confirmed 9)"
proof -
  obtain ts where ts:
    "bitcoin_confirmed_timestamp toy_ex toy_h2 [2] [14] [[2], [3]] 0 toy_batch_tx toy_block4 9 = Ok ts"
    and ne: "run_ops toy_ex (first_step ts) [2] \<noteq> Some (block_root toy_block4)"
    by (simp add: proof_eval merkle_path_steps_def merkle_path_def merkle_path_loop.simps cat_sha256d_def
        pad_last_def toy_batch_tx_def toy_block4_def)
  have "\<forall>x. toy_h2 x = toy_ex Sha256 (toy_ex Sha256 x)" by (simp add: toy_h2_def)
  from confirmed_proof_reversed [OF ts toy_ex_documented this] obtain digest where
    d: "run_ops toy_ex (first_step ts) [2] = Some digest"
    "\<forall>s source h. same_ops (first_step ts) s \<longrightarrow>
       verify_timestamp_attestations toy_ex (ts\<lparr>first_step := s\<rparr>) source = Confirmed h \<longrightarrow>
       source h = (Ok (Some digest) :: (unit, bytes option) result)" by blast
  from d(1) ne have "digest \<noteq> block_root toy_block4" by auto
  with ts d show ?thesis by fastforce
qed

text \<open>The first step of the proof of a digest in a batch.\<close>

lemma batch_steps_append:
  "batch_steps ex d st (p @ [(l, s)]) =
   (let r = climb (cat_sha256d ex) d (p @ [(l, s)])
    in Step (Op (path_op l s)) r [batch_steps ex d st p])"
  by (induction p arbitrary: d st) (auto simp: Let_def)

lemma climb_append: "climb f d (p @ p') = climb f (climb f d p) p'"
  by (induction p arbitrary: d) auto

text \<open>The proof the calendar hands out for a digest of a batch of two or more is wrong:
  the output its first step records is the hash of the digest with the sibling, but the
  operation only appends or prepends the sibling, so that verification fails on it.\<close>

theorem batch_proof_fails:
  assumes "merkle_batch_timestamp ex digest leaves i uri = Ok ts" "length leaves \<ge> 2"
    and "ops_documented ex" "\<forall>d. length (ex Sha256 d) = 32"
    and "length digest = 32" "\<forall>d \<in> set leaves. length d = 32"
  shows "verify_timestamp_attestations ex ts source = Failed OpOutputMismatch"
proof -
  let ?f = "cat_sha256d ex"
  from assms(1) have i: "i < length leaves"
    and ts: "first_step ts = batch_steps ex digest (Step (Attestation (Pending uri)) digest [])
        (rev (merkle_path_loop ?f leaves i))" "start_digest ts = digest"
    by (auto simp: merkle_batch_timestamp_def ok_elims merkle_path_def split: if_splits)
  let ?k = "if i mod 2 = 0 then i + 1 else i - 1"
  let ?l = "i mod 2 = 0" and ?s = "pad_last leaves ! ?k"
  let ?p = "merkle_path_loop ?f (hash_pairs ?f (pad_last leaves)) (i div 2)"
  have path: "merkle_path_loop ?f leaves i = (?l, ?s) # ?p"
    using assms(2) by (subst merkle_path_loop.simps) (simp add: Let_def)
  have "?k < length (pad_last leaves)" using i by (auto simp: length_pad_last) presburger+
  then have "?s \<in> set (pad_last leaves)" by (rule nth_mem)
  moreover have "set (pad_last leaves) = set leaves"
    using assms(2) by (cases "leaves = []") (auto simp: pad_last_def)
  ultimately have s32: "length ?s = 32" using assms(6) by simp
  let ?d = "climb ?f digest (rev ?p @ [(?l, ?s)])"
  have d32: "length ?d = 32" using assms(4) by (simp add: climb_append cat_sha256d_def)
  have "first_step ts = Step (Op (path_op ?l ?s)) ?d
      [batch_steps ex digest (Step (Attestation (Pending uri)) digest []) (rev ?p)]"
    using ts(1) path by (simp add: batch_steps_append Let_def)
  moreover have "length (ex (path_op ?l ?s) digest) = 64"
    using s32 assms(3,5) by (cases ?l) (simp_all add: path_op_def ops_documentedD)
  then have "?d \<noteq> ex (path_op ?l ?s) digest" using d32 by auto
  ultimately show ?thesis
    using ts(2) by (simp add: verify_timestamp_attestations_def status_of_def)
qed

theorem batch_proof_fails_witness:
  "let ex = (\<lambda>q d. case q of Append s \<Rightarrow> d @ s | Prepend s \<Rightarrow> s @ d
         | Sha256 \<Rightarrow> replicate 32 9 | OtherOp n \<Rightarrow> []) :: executor;
       a = replicate 32 1; b = replicate 32 2
   in \<exists>ts. merkle_batch_timestamp ex a [a, b] 0 ''u'' = Ok ts \<and>
     verify_timestamp_attestations ex ts ((\<lambda>h. Ok None) :: unit header_source) =
       Failed OpOutputMismatch"
proof -
  let ?ex = "(\<lambda>q d. case q of Append s \<Rightarrow> d @ s | Prepend s \<Rightarrow> s @ d
         | Sha256 \<Rightarrow> replicate 32 9 | OtherOp n \<Rightarrow> []) :: executor"
  let ?a = "replicate 32 1 :: bytes" and ?b = "replicate 32 2 :: bytes"
  have ex: "ops_documented ?ex" by (simp add: ops_documented_def)
  obtain ts where ts: "merkle_batch_timestamp ?ex ?a [?a, ?b] 0 ''u'' = Ok ts"
    by (simp add: merkle_batch_timestamp_def merkle_path_def)
  have "verify_timestamp_attestations ?ex ts ((\<lambda>h. Ok None) :: unit header_source) =
      Failed OpOutputMismatch"
    by (rule batch_proof_fails [OF ts _ ex]) simp_all
  with ts show ?thesis unfolding Let_def by blast
qed

text \<open>What a digest in a batch needs for its confirmed proof to be built.\<close>

lemma path_steps_output:
  "path_steps ex d st p = Some s \<Longrightarrow> p \<noteq> [] \<Longrightarrow> step_output s = climb (cat_sha256d ex) d p"
proof (induction p arbitrary: d st)
  case Nil
  then show ?case by simp
next
  case (Cons e p)
  obtain l sib where "e = (l, sib)" by (cases e)
  with Cons show ?case by (cases "p = []") (auto simp: Let_def)
qed

lemma confirmed_bails:
  assumes "merkle_path (cat_sha256d ex) leaves i = Some p"
    and "start \<noteq> commitment" "climb (cat_sha256d ex) start (rev p) \<noteq> commitment"
  shows "\<not> is_ok (bitcoin_confirmed_proof_bytes ex h2 ser start commitment leaves i tx block height)"
proof
  assume "is_ok (bitcoin_confirmed_proof_bytes ex h2 ser start commitment leaves i tx block height)"
  then obtain merkle where "merkle_path_steps ex start leaves i = Ok merkle"
    "step_output merkle = commitment"
    using assms(2)
    by (auto simp: is_ok_iff bitcoin_confirmed_proof_bytes_def bitcoin_confirmed_timestamp_def
        ok_elims split: if_splits)
  with assms show False
    by (cases "p = []") (auto simp: merkle_path_steps_def ok_elims dest: path_steps_output)
qed

end
