(* ===== verification/Calendar.thy ===== *)
theory Calendar
  imports CalendarProof Btree "HOL-Library.Multiset"
begin

text \<open>
  The calendar server (\<open>lord-calendar/src\<close>): the queue of submitted digests
  (\<open>queue.rs\<close>), the store of proofs and batches (\<open>store.rs\<close>), the snapshot of both on disk
  (\<open>persist.rs\<close>), the requests of clients (\<open>service.rs\<close>) and the worker that anchors batches
  in Bitcoin transactions (\<open>anchor.rs\<close>). Maps that the code keys by the hex form of a digest
  are keyed by the digest. The outcomes of reads, writes, clocks and RPC calls are arguments;
  every critical section of the code is one function, so that requests may come between
  two of them.
\<close>

section \<open>The queue\<close>

type_synonym digest = bytes

definition enqueue :: "digest \<Rightarrow> digest list \<Rightarrow> digest list" where
  "enqueue d pending = (if d \<in> set pending then pending else pending @ [d])"

definition drain_batch :: "nat \<Rightarrow> digest list \<Rightarrow> digest list \<times> digest list" where
  "drain_batch mx pending = (let n = min (length pending) mx in (take n pending, drop n pending))"

fun drain_priority ::
  "nat \<Rightarrow> digest list \<Rightarrow> digest list \<Rightarrow> digest list \<Rightarrow> digest list \<times> digest list" where
  "drain_priority mx [] batch pending = (batch, pending)"
| "drain_priority mx (d # priority) batch pending =
     (if length batch \<ge> mx then (batch, pending)
      else (case position ((=) d) pending of
          Some index \<Rightarrow>
            drain_priority mx priority (batch @ [pending ! index]) (remove_at index pending)
        | None \<Rightarrow> drain_priority mx priority batch pending))"

definition drain_batch_prioritized ::
  "digest list \<Rightarrow> nat \<Rightarrow> digest list \<Rightarrow> digest list \<times> digest list" where
  "drain_batch_prioritized priority mx pending =
     (let (batch, pending) = drain_priority mx priority [] pending;
          (rest, pending) = drain_batch (mx - length batch) pending
      in (batch @ rest, pending))"

text \<open>What the anchor worker relies on: enqueuing adds a digest, draining splits the queue, so
  that a batch put back restores what was queued.\<close>

locale batch_queue =
  fixes enq :: "'d \<Rightarrow> 'q \<Rightarrow> 'q" and drain :: "'q \<Rightarrow> 'd list \<times> 'q"
    and elems :: "'q \<Rightarrow> 'd set" and wf :: "'q \<Rightarrow> bool"
  assumes enq_elems: "elems (enq d q) = insert d (elems q)"
    and enq_wf: "wf q \<Longrightarrow> wf (enq d q)"
    and drain_elems: "drain q = (b, q') \<Longrightarrow> elems q = set b \<union> elems q'"
    and drain_wf: "wf q \<Longrightarrow> drain q = (b, q') \<Longrightarrow> wf q' \<and> distinct b \<and> set b \<inter> elems q' = {}"
begin

lemma requeue_elems: "elems (fold enq b q) = set b \<union> elems q"
  by (induction b arbitrary: q) (auto simp: enq_elems)

lemma requeue_wf: "wf q \<Longrightarrow> wf (fold enq b q)"
  by (induction b arbitrary: q) (auto simp: enq_wf)

lemma drain_requeue:
  "drain q = (b, q') \<Longrightarrow> elems (fold enq (rev b) q') = elems q"
  using drain_elems by (simp add: requeue_elems)

end

lemma enqueue_set: "set (enqueue d q) = insert d (set q)"
  by (auto simp: enqueue_def)

lemma enqueue_distinct: "distinct q \<Longrightarrow> distinct (enqueue d q)"
  by (auto simp: enqueue_def)

lemma drain_batch_split: "drain_batch mx q = (b, q') \<Longrightarrow> q = b @ q'"
  by (auto simp: drain_batch_def Let_def)

lemma remove_at_perm:
  "i < length xs \<Longrightarrow> mset xs = add_mset (xs ! i) (mset (remove_at i xs))"
proof (induction xs arbitrary: i)
  case (Cons x xs)
  then show ?case by (cases i) auto
qed simp

lemma drain_priority_mset:
  "drain_priority mx ps b q = (b', q') \<Longrightarrow> mset b' + mset q' = mset b + mset q"
proof (induction mx ps b q rule: drain_priority.induct)
  case (2 mx d priority batch pending)
  show ?case
  proof (cases "length batch \<ge> mx")
    case True
    with "2.prems" show ?thesis by simp
  next
    case False
    show ?thesis
    proof (cases "position ((=) d) pending")
      case None
      with 2 False show ?thesis by (simp del: position_None)
    next
      case (Some i)
      then have "i < length pending" using position_Some by blast
      with 2 False Some show ?thesis
        using remove_at_perm [of i pending] by simp
    qed
  qed
qed simp

lemma drain_prioritized_mset:
  assumes "drain_batch_prioritized ps mx q = (b, q')"
  shows "mset b + mset q' = mset q"
proof -
  obtain b1 q1 where 1: "drain_priority mx ps [] q = (b1, q1)" by (rule prod.exhaust)
  obtain b2 q2 where 2: "drain_batch (mx - length b1) q1 = (b2, q2)" by (rule prod.exhaust)
  from 1 2 assms have "b = b1 @ b2" "q' = q2" by (simp_all add: drain_batch_prioritized_def)
  with drain_priority_mset [OF 1] drain_batch_split [OF 2] show ?thesis by (simp add: add.assoc)
qed

lemma mset_split_set: "mset b + mset q' = mset q \<Longrightarrow> set q = set b \<union> set q'"
  by (metis set_mset_mset set_mset_union)

lemma mset_split_distinct:
  assumes "mset b + mset q' = mset q" "distinct q"
  shows "distinct q' \<and> distinct b \<and> set b \<inter> set q' = {}"
proof -
  have "distinct (b @ q')" using assms by (metis mset_append mset_eq_imp_distinct_iff)
  then show ?thesis by auto
qed

interpretation fifo: batch_queue enqueue "drain_batch mx" set distinct
  by unfold_locales
    (auto simp: enqueue_set enqueue_distinct dest!: drain_batch_split)

interpretation prio: batch_queue enqueue "drain_batch_prioritized ps mx" set distinct
proof unfold_locales
  show "set (enqueue d q) = insert d (set q)" for d q by (rule enqueue_set)
  show "distinct q \<Longrightarrow> distinct (enqueue d q)" for d q by (rule enqueue_distinct)
  show "set q = set b \<union> set q'" if "drain_batch_prioritized ps mx q = (b, q')" for q b q'
    using drain_prioritized_mset [OF that] by (rule mset_split_set)
  show "distinct q' \<and> distinct b \<and> set b \<inter> set q' = {}"
    if "distinct q" "drain_batch_prioritized ps mx q = (b, q')" for q b q'
    using drain_prioritized_mset [OF that(2)] that(1) by (rule mset_split_distinct)
qed


section \<open>The store\<close>

record anchor_record =
  ar_height :: u32
  ar_txid :: bytes
  ar_merkle_root :: bytes
  ar_anchored_at :: u64

record pending_anchor =
  pa_txid :: bytes
  pa_merkle_root :: bytes
  pa_batch :: "digest list"
  pa_broadcast_at :: u64

datatype skip_reason =
    FeeAboveCap u64 u64
  | BalanceBelowMinimum u64 u64
  | BalanceCheckFailed

record calendar_store =
  cs_proofs :: "digest \<rightharpoonup> bytes"
  cs_batches :: "(bytes \<times> digest list) list"
  cs_pending :: "pending_anchor option"
  cs_last_anchor :: "anchor_record option"
  cs_skipped :: "skip_reason option"

definition empty_store :: calendar_store where
  "empty_store = \<lparr>cs_proofs = Map.empty, cs_batches = [], cs_pending = None,
     cs_last_anchor = None, cs_skipped = None\<rparr>"

definition put_proof :: "digest \<Rightarrow> bytes \<Rightarrow> calendar_store \<Rightarrow> calendar_store" where
  "put_proof d proof s = s\<lparr>cs_proofs := (cs_proofs s)(d \<mapsto> proof)\<rparr>"

definition get_proof :: "digest \<Rightarrow> calendar_store \<Rightarrow> bytes option" where
  "get_proof d s = cs_proofs s d"

text \<open>The calendar: what the process holds and the snapshot on disk.\<close>

type_synonym snapshot = "digest list \<times> calendar_store"

record calendar =
  cal_queue :: "digest list"
  cal_store :: calendar_store
  cal_disk :: snapshot

datatype calendar_error =
    DigestLength
  | SaveFailed
  | LoadFailed
  | ProofFailed proof_error
  | NotFound
  | NamedWallet
  | RpcFailed
  | AnchorTxMissing
  | WalletUnfunded
  | FeeEstimateFailed
  | BroadcastFailed
  | NoSpendableUtxo
  | InputTooSmall
  | EmptyMerkleBatch

definition save_state :: "bool \<Rightarrow> calendar \<Rightarrow> (calendar_error, unit) result \<times> calendar" where
  "save_state saved c =
     (if saved then (Ok (), c\<lparr>cal_disk := (cal_queue c, cal_store c)\<rparr>) else (Err SaveFailed, c))"

text \<open>A reload reads the snapshot before it takes the lock, and then replaces the memory by what it read.
  \<open>reload_from_disk\<close> is a reload that nothing comes between.\<close>

definition load_state :: "bool \<Rightarrow> calendar \<Rightarrow> (calendar_error, snapshot) result" where
  "load_state loaded c = (if loaded then Ok (cal_disk c) else Err LoadFailed)"

definition install_state :: "snapshot \<Rightarrow> calendar \<Rightarrow> calendar" where
  "install_state s c = c\<lparr>cal_queue := fst s, cal_store := snd s\<rparr>"

definition reload_from_disk :: "bool \<Rightarrow> calendar \<Rightarrow> (calendar_error, unit) result \<times> calendar" where
  "reload_from_disk loaded c =
     (case load_state loaded c of Err e \<Rightarrow> (Err e, c) | Ok s \<Rightarrow> (Ok (), install_state s c))"

lemma reload_from_disk_eq:
  "reload_from_disk loaded c =
     (if loaded then (Ok (), c\<lparr>cal_queue := fst (cal_disk c), cal_store := snd (cal_disk c)\<rparr>)
      else (Err LoadFailed, c))"
  by (simp add: reload_from_disk_def load_state_def install_state_def)

section \<open>Requests\<close>

record ots =
  ots_ex :: executor
  ots_h2 :: "bytes \<Rightarrow> bytes"
  ots_ser :: serializer

definition proof_result :: "(proof_error, bytes) result \<Rightarrow> (calendar_error, bytes) result" where
  "proof_result r = (case r of Ok b \<Rightarrow> Ok b | Err e \<Rightarrow> Err (ProofFailed e))"

definition submit_digest ::
  "ots \<Rightarrow> string \<Rightarrow> bool \<Rightarrow> bytes \<Rightarrow> calendar \<Rightarrow> (calendar_error, bytes) result \<times> calendar" where
  "submit_digest oc uri saved d c =
     (if length d \<noteq> 32 then (Err DigestLength, c)
      else (case get_proof d (cal_store c) of
          Some existing \<Rightarrow> (Ok existing, c)
        | None \<Rightarrow>
            let c = c\<lparr>cal_queue := enqueue d (cal_queue c)\<rparr> in
            (case save_state saved c of
               (Err e, c) \<Rightarrow> (Err e, c)
             | (Ok _, c) \<Rightarrow> (proof_result (pending_proof_bytes (ots_ser oc) d uri), c))))"

fun upgrade_from_batches ::
  "ots \<Rightarrow> string \<Rightarrow> digest \<Rightarrow> (bytes \<times> digest list) list \<Rightarrow> (calendar_error, bytes) result option" where
  "upgrade_from_batches oc uri d [] = None"
| "upgrade_from_batches oc uri d ((k, batch) # bs) =
     (case position ((=) d) batch of
        Some index \<Rightarrow>
          Some (proof_result (merkle_batch_proof_bytes (ots_ex oc) (ots_ser oc) d batch index uri))
      | None \<Rightarrow> upgrade_from_batches oc uri d bs)"

definition upgrade_digest :: "ots \<Rightarrow> string \<Rightarrow> bytes \<Rightarrow> calendar \<Rightarrow> (calendar_error, bytes) result" where
  "upgrade_digest oc uri d c =
     (if length d \<noteq> 32 then Err DigestLength
      else (case get_proof d (cal_store c) of
          Some proof \<Rightarrow> Ok proof
        | None \<Rightarrow>
            (case upgrade_from_batches oc uri d (cs_batches (cal_store c)) of
               Some r \<Rightarrow> r
             | None \<Rightarrow>
                 if d \<in> set (cal_queue c)
                 then proof_result (pending_proof_bytes (ots_ser oc) d uri)
                 else Err NotFound)))"


section \<open>Anchoring\<close>

definition DUST_SATS :: u64 where "DUST_SATS = 330"

definition REGTEST_ANCHOR_FEE_SATS :: u64 where "REGTEST_ANCHOR_FEE_SATS = 1000"

record unspent =
  un_outpoint :: "bytes \<times> u32"
  un_amount :: u64

record unsigned_tx =
  ut_input :: "bytes \<times> u32"
  ut_outputs :: "(u64 \<times> bytes) list"

text \<open>The answers of the node during a tick; \<open>None\<close> is an error. \<open>rpc_op_return\<close> is the
  script that pushes a root after OP_RETURN, \<open>rpc_send\<close> signs, checks and sends.\<close>

record rpc =
  rpc_get_transaction :: "bytes \<Rightarrow> (int \<times> u32 option) option"
  rpc_get_block_hash :: "u64 \<Rightarrow> bytes option"
  rpc_get_block :: "bytes \<Rightarrow> anchor_block option"
  rpc_get_block_count :: "u64 option"
  rpc_estimate_fee :: "u64 option option"
  rpc_list_unspent :: "unspent list option"
  rpc_new_address :: "bytes option"
  rpc_op_return :: "bytes \<Rightarrow> bytes"
  rpc_send :: "unsigned_tx \<Rightarrow> bytes option"

record anchor_config =
  ac_regtest :: bool
  ac_min_tx_interval :: nat
  ac_batch_max :: nat
  ac_wallet_name :: "string option"
  ac_pending_timeout :: u64
  ac_max_fee :: "u64 option"
  ac_min_balance :: "u64 option"
  ac_ltp_priority :: bool

text \<open>What a tick finds: the clock (Unix seconds, and milliseconds for the interval), whether
  reading and each write of the snapshot succeed, and the digests of the LTP mempool.\<close>

record tick =
  t_rpc :: rpc
  t_secs :: u64
  t_millis :: nat
  t_loaded :: bool
  t_saved :: "nat \<Rightarrow> bool"
  t_mempool :: "digest list option"

definition anchor_fee_sats :: "bool \<Rightarrow> rpc \<Rightarrow> (calendar_error, u64) result" where
  "anchor_fee_sats regtest r =
     (if regtest then Ok REGTEST_ANCHOR_FEE_SATS
      else (case rpc_estimate_fee r of
          None \<Rightarrow> Err FeeEstimateFailed
        | Some rate \<Rightarrow>
            let fee_rate = (case rate of Some x \<Rightarrow> x | None \<Rightarrow> 1000)
            in Ok (max (saturating_mul fee_rate 250) REGTEST_ANCHOR_FEE_SATS)))"

fun scan_blocks ::
  "rpc \<Rightarrow> bytes \<Rightarrow> nat \<Rightarrow> (calendar_error, (u32 \<times> anchor_block \<times> anchor_tx) option) result" where
  "scan_blocks r txid 0 = Ok None"
| "scan_blocks r txid (Suc height) =
     (case rpc_get_block_hash r (word_of_nat height) of
        None \<Rightarrow> Err RpcFailed
      | Some hash \<Rightarrow> (case rpc_get_block r hash of
            None \<Rightarrow> Err RpcFailed
          | Some block \<Rightarrow> (case find (\<lambda>tx. tx_id tx = txid) (block_txdata block) of
                Some tx \<Rightarrow> Ok (Some (word_of_nat height, block, tx))
              | None \<Rightarrow> scan_blocks r txid height)))"

definition find_confirmed_tx ::
  "rpc \<Rightarrow> bytes \<Rightarrow> (calendar_error, (u32 \<times> anchor_block \<times> anchor_tx) option) result" where
  "find_confirmed_tx r txid =
     (case rpc_get_transaction r txid of
        None \<Rightarrow> Ok None
      | Some (confirmations, blockheight) \<Rightarrow>
          if confirmations = 0 then Ok None
          else (case blockheight of
              Some height \<Rightarrow>
                and_then (ok_or (rpc_get_block_hash r (ucast height)) RpcFailed) (\<lambda>hash.
                and_then (ok_or (rpc_get_block r hash) RpcFailed) (\<lambda>block.
                and_then (ok_or (find (\<lambda>tx. tx_id tx = txid) (block_txdata block)) AnchorTxMissing) (\<lambda>tx.
                Ok (Some (height, block, tx)))))
            | None \<Rightarrow>
                and_then (ok_or (rpc_get_block_count r) RpcFailed) (\<lambda>tip.
                scan_blocks r txid (Suc (unat (ucast tip :: u32))))))"

definition pending_anchor_timed_out :: "u64 \<Rightarrow> pending_anchor \<Rightarrow> u64 \<Rightarrow> bool" where
  "pending_anchor_timed_out now p timeout = (saturating_sub now (pa_broadcast_at p) \<ge> timeout)"

definition restore_pending_batch ::
  "bool \<Rightarrow> pending_anchor \<Rightarrow> calendar \<Rightarrow> (calendar_error, unit) result \<times> calendar" where
  "restore_pending_batch saved p c =
     save_state saved (c\<lparr>cal_queue := fold enqueue (rev (pa_batch p)) (cal_queue c),
        cal_store := (cal_store c)\<lparr>cs_pending := None\<rparr>\<rparr>)"

definition restore_drained_batch ::
  "bool \<Rightarrow> digest list \<Rightarrow> bytes \<Rightarrow> calendar \<Rightarrow> (calendar_error, unit) result \<times> calendar" where
  "restore_drained_batch saved batch root c =
     save_state saved (c\<lparr>cal_queue := fold enqueue (rev batch) (cal_queue c),
        cal_store := (cal_store c)\<lparr>cs_batches := btree_remove root (cs_batches (cal_store c))\<rparr>\<rparr>)"

fun confirmed_proofs ::
  "ots \<Rightarrow> bytes \<Rightarrow> bytes list \<Rightarrow> anchor_tx \<Rightarrow> anchor_block \<Rightarrow> u32 \<Rightarrow> nat \<Rightarrow> digest list \<Rightarrow>
   (calendar_error, (digest \<times> bytes) list) result" where
  "confirmed_proofs oc root leaves tx block height index [] = Ok []"
| "confirmed_proofs oc root leaves tx block height index (d # ds) =
     and_then (proof_result (bitcoin_confirmed_proof_bytes (ots_ex oc) (ots_h2 oc) (ots_ser oc)
         d root leaves index tx block height)) (\<lambda>proof.
     and_then (confirmed_proofs oc root leaves tx block height (Suc index) ds) (\<lambda>rest.
     Ok ((d, proof) # rest)))"

definition finalize_anchor ::
  "ots \<Rightarrow> u64 \<Rightarrow> bool \<Rightarrow> pending_anchor \<Rightarrow> u32 \<Rightarrow> anchor_block \<Rightarrow> anchor_tx \<Rightarrow> calendar \<Rightarrow>
   (calendar_error, unit) result \<times> calendar" where
  "finalize_anchor oc now saved p height block tx c =
     (case confirmed_proofs oc (pa_merkle_root p) (pa_batch p) tx block height 0 (pa_batch p) of
        Err e \<Rightarrow> (Err e, c)
      | Ok proofs \<Rightarrow>
          let st = fold (\<lambda>(d, proof). put_proof d proof) proofs (cal_store c) in
          save_state saved (c\<lparr>cal_store := st\<lparr>
            cs_last_anchor := Some \<lparr>ar_height = height, ar_txid = pa_txid p,
               ar_merkle_root = pa_merkle_root p, ar_anchored_at = now\<rparr>,
            cs_skipped := None,
            cs_pending := None\<rparr>\<rparr>))"

definition record_anchor_skipped ::
  "bool \<Rightarrow> skip_reason \<Rightarrow> calendar \<Rightarrow> (calendar_error, unit) result \<times> calendar" where
  "record_anchor_skipped saved reason c =
     save_state saved (c\<lparr>cal_store := (cal_store c)\<lparr>cs_skipped := Some reason\<rparr>\<rparr>)"

definition has_spendable_utxo :: "rpc \<Rightarrow> u64 \<Rightarrow> (calendar_error, bool) result" where
  "has_spendable_utxo r fee =
     (case rpc_list_unspent r of
        None \<Rightarrow> Err RpcFailed
      | Some us \<Rightarrow> Ok (list_ex (\<lambda>u. un_amount u > DUST_SATS + fee) us))"

definition ensure_wallet_funded :: "rpc \<Rightarrow> u64 \<Rightarrow> (calendar_error, unit) result" where
  "ensure_wallet_funded r fee =
     and_then (has_spendable_utxo r fee) (\<lambda>ok. if ok then Ok () else Err WalletUnfunded)"

definition wallet_balance_sats :: "rpc \<Rightarrow> (calendar_error, u64) result" where
  "wallet_balance_sats r =
     (case rpc_list_unspent r of
        None \<Rightarrow> Err RpcFailed
      | Some us \<Rightarrow> Ok (sum_list (map un_amount us)))"

text \<open>\<open>max_by_key\<close>: the last of the entries with the greatest amount.\<close>

fun max_by_amount :: "unspent list \<Rightarrow> unspent option" where
  "max_by_amount [] = None"
| "max_by_amount (u # us) =
     (case max_by_amount us of
        None \<Rightarrow> Some u
      | Some v \<Rightarrow> if un_amount u > un_amount v then Some u else Some v)"

definition broadcast_anchor :: "rpc \<Rightarrow> u64 \<Rightarrow> bytes \<Rightarrow> (calendar_error, unsigned_tx) result" where
  "broadcast_anchor r fee merkle_root =
     and_then (ok_or (rpc_new_address r) BroadcastFailed) (\<lambda>change_script.
     and_then (ok_or (rpc_list_unspent r) RpcFailed) (\<lambda>us.
     and_then (ok_or (max_by_amount (filter (\<lambda>u. un_amount u > DUST_SATS + fee) us))
         NoSpendableUtxo) (\<lambda>utxo.
     and_then (ok_or (checked_sub (un_amount utxo) fee) InputTooSmall) (\<lambda>change.
     Ok \<lparr>ut_input = un_outpoint utxo,
         ut_outputs = [(change, change_script), (0, rpc_op_return r merkle_root)]\<rparr>))))"

definition drain_choice ::
  "anchor_config \<Rightarrow> digest list option \<Rightarrow> digest list \<Rightarrow> digest list \<times> digest list \<times> digest list" where
  "drain_choice cfg mempool queue =
     (if ac_ltp_priority cfg then
        (case mempool of
           Some priority \<Rightarrow>
             let (batch, queue) = drain_batch_prioritized priority (ac_batch_max cfg) queue
             in (batch, queue, filter (\<lambda>d. d \<in> set priority) batch)
         | None \<Rightarrow>
             let (batch, queue) = drain_batch (ac_batch_max cfg) queue in (batch, queue, []))
      else
        let (batch, queue) = drain_batch (ac_batch_max cfg) queue in (batch, queue, []))"

definition drain_for_anchor ::
  "executor \<Rightarrow> anchor_config \<Rightarrow> digest list option \<Rightarrow> bool \<Rightarrow> calendar \<Rightarrow>
   (calendar_error, (digest list \<times> bytes \<times> digest list) option) result \<times> calendar" where
  "drain_for_anchor ex cfg mempool saved c =
     (if cs_pending (cal_store c) \<noteq> None \<or> cal_queue c = [] then (Ok None, c)
      else
        let (batch, queue, ltp) = drain_choice cfg mempool (cal_queue c);
          c = c\<lparr>cal_queue := queue\<rparr>
        in if batch = [] then (Ok None, c)
           else (case ots_merkle_root (cat_sha256d ex) batch of
               None \<Rightarrow> (Err EmptyMerkleBatch, c)
             | Some root \<Rightarrow>
                 (case save_state saved (c\<lparr>cal_store := (cal_store c)\<lparr>
                      cs_batches := btree_insert root batch (cs_batches (cal_store c))\<rparr>\<rparr>) of
                    (Err e, c) \<Rightarrow> (Err e, c)
                  | (Ok _, c) \<Rightarrow> (Ok (Some (batch, root, ltp)), c))))"

definition record_broadcast ::
  "u64 \<Rightarrow> bool \<Rightarrow> bytes \<Rightarrow> digest list \<Rightarrow> bytes \<Rightarrow> calendar \<Rightarrow>
   (calendar_error, unit) result \<times> calendar" where
  "record_broadcast now saved txid batch root c =
     save_state saved (c\<lparr>cal_store := (cal_store c)\<lparr>
        cs_pending := Some \<lparr>pa_txid = txid, pa_merkle_root = root, pa_batch = batch,
          pa_broadcast_at = now\<rparr>,
        cs_batches := btree_remove root (cs_batches (cal_store c))\<rparr>\<rparr>)"


text \<open>The parts of a tick: \<open>Some r\<close> ends it with the result \<open>r\<close>.\<close>

definition check_pending ::
  "ots \<Rightarrow> anchor_config \<Rightarrow> tick \<Rightarrow> calendar \<Rightarrow> (calendar_error, unit) result option \<times> calendar" where
  "check_pending oc cfg t c =
     (case cs_pending (cal_store c) of
        None \<Rightarrow> (None, c)
      | Some p \<Rightarrow> (case find_confirmed_tx (t_rpc t) (pa_txid p) of
            Err e \<Rightarrow> (Some (Err e), c)
          | Ok (Some (height, block, tx)) \<Rightarrow>
              let (r, c) = finalize_anchor oc (t_secs t) (t_saved t 0) p height block tx c
              in (Some r, c)
          | Ok None \<Rightarrow>
              if pending_anchor_timed_out (t_secs t) p (ac_pending_timeout cfg) then
                (case restore_pending_batch (t_saved t 0) p c of
                   (Err e, c) \<Rightarrow> (Some (Err e), c)
                 | (Ok _, c) \<Rightarrow> (None, c))
              else (Some (Ok ()), c)))"

datatype funds = Stop "(calendar_error, unit) result" | Skip skip_reason | Go u64

definition check_funds :: "anchor_config \<Rightarrow> tick \<Rightarrow> nat \<Rightarrow> funds" where
  "check_funds cfg t last_tx =
     (if t_millis t - last_tx < ac_min_tx_interval cfg then Stop (Ok ())
      else if ac_wallet_name cfg \<noteq> None then Stop (Err NamedWallet)
      else (case anchor_fee_sats (ac_regtest cfg) (t_rpc t) of
          Err e \<Rightarrow> Stop (Err e)
        | Ok fee \<Rightarrow>
            let funded = (case ensure_wallet_funded (t_rpc t) fee of
                 Err e \<Rightarrow> Stop (Err e) | Ok _ \<Rightarrow> Go fee);
                balance_checked = (case ac_min_balance cfg of
                 None \<Rightarrow> funded
               | Some min_balance \<Rightarrow> (case wallet_balance_sats (t_rpc t) of
                     Err e \<Rightarrow> Skip BalanceCheckFailed
                   | Ok balance \<Rightarrow>
                       if balance < min_balance
                       then Skip (BalanceBelowMinimum balance min_balance)
                       else funded))
            in (case ac_max_fee cfg of
                  Some max_fee \<Rightarrow>
                    if fee > max_fee then Skip (FeeAboveCap fee max_fee) else balance_checked
                | None \<Rightarrow> balance_checked)))"

text \<open>One tick: its result, the calendar, the time of the last transaction, and the digests
  to be removed from the LTP mempool.\<close>

definition anchor_once ::
  "ots \<Rightarrow> anchor_config \<Rightarrow> tick \<Rightarrow> nat \<Rightarrow> calendar \<Rightarrow>
   (calendar_error, unit) result \<times> calendar \<times> nat \<times> digest list" where
  "anchor_once oc cfg t last_tx c =
     (case reload_from_disk (t_loaded t) c of
        (Err e, c) \<Rightarrow> (Err e, c, last_tx, [])
      | (Ok _, c) \<Rightarrow>
     (case check_pending oc cfg t c of
        (Some r, c) \<Rightarrow> (r, c, last_tx, [])
      | (None, c) \<Rightarrow>
     (case check_funds cfg t last_tx of
        Stop r \<Rightarrow> (r, c, last_tx, [])
      | Skip reason \<Rightarrow>
          let (r, c) = record_anchor_skipped (t_saved t 1) reason c in (r, c, last_tx, [])
      | Go fee \<Rightarrow>
     (case drain_for_anchor (ots_ex oc) cfg (t_mempool t) (t_saved t 2) c of
        (Err e, c) \<Rightarrow> (Err e, c, last_tx, [])
      | (Ok None, c) \<Rightarrow> (Ok (), c, last_tx, [])
      | (Ok (Some (batch, root, ltp)), c) \<Rightarrow>
     (case and_then (broadcast_anchor (t_rpc t) fee root)
             (\<lambda>tx. ok_or (rpc_send (t_rpc t) tx) BroadcastFailed) of
        Err err \<Rightarrow>
          (case restore_drained_batch (t_saved t 3) batch root c of
             (Err e, c) \<Rightarrow> (Err e, c, last_tx, [])
           | (Ok _, c) \<Rightarrow> (Err err, c, last_tx, []))
      | Ok txid \<Rightarrow>
          let (r, c) = record_broadcast (t_secs t) (t_saved t 3) txid batch root c
          in (r, c, t_millis t, ltp))))))"

section \<open>What is known of a digest\<close>

text \<open>The digests a snapshot still accounts for: anchored, queued, in a batch that is being
  broadcast, or in the pending anchor.\<close>

definition batched :: "(bytes \<times> digest list) list \<Rightarrow> digest set" where
  "batched bs = {d. \<exists>r b. map_of bs r = Some b \<and> d \<in> set b}"

definition tracked :: "snapshot \<Rightarrow> digest set" where
  "tracked s = dom (cs_proofs (snd s)) \<union> set (fst s) \<union> batched (cs_batches (snd s)) \<union>
     {d. \<exists>p. cs_pending (snd s) = Some p \<and> d \<in> set (pa_batch p)}"

definition memory :: "calendar \<Rightarrow> snapshot" where
  "memory c = (cal_queue c, cal_store c)"

lemma memory_simps [simp]:
  "memory \<lparr>cal_queue = q, cal_store = s, cal_disk = d\<rparr> = (q, s)"
  "memory (c\<lparr>cal_disk := d\<rparr>) = memory c"
  "memory (c\<lparr>cal_queue := q\<rparr>) = (q, cal_store c)"
  "memory (c\<lparr>cal_store := s\<rparr>) = (cal_queue c, s)"
  "memory (c\<lparr>cal_queue := q, cal_store := s\<rparr>) = (q, s)"
  by (simp_all add: memory_def)

lemma save_state_simps [simp]:
  "memory (snd (save_state saved c)) = memory c"
  "cal_disk (snd (save_state saved c)) = (if saved then memory c else cal_disk c)"
  "fst (save_state saved c) = (if saved then Ok () else Err SaveFailed)"
  by (simp_all add: save_state_def memory_def)

text \<open>Where the worker is between two critical sections: it may have read a snapshot and not installed it
  yet, or have drained a batch and not broadcast it yet. \<open>run_accepted\<close> are the digests whose submission
  was acknowledged, \<open>run_exposed\<close> those of them for which this only happened between a read of the
  snapshot and its installation.\<close>

datatype phase = Idle | Loaded snapshot | Broadcasting "digest list" bytes

record cal_run =
  run_cal :: calendar
  run_phase :: phase
  run_accepted :: "digest set"
  run_exposed :: "digest set"

definition expose :: "phase \<Rightarrow> digest \<Rightarrow> digest set \<Rightarrow> digest set \<Rightarrow> digest set" where
  "expose ph d A E = (case ph of Loaded s \<Rightarrow> if d \<in> A then E else insert d E | _ \<Rightarrow> E - {d})"

definition keeps_batches :: "calendar_store \<Rightarrow> calendar_store \<Rightarrow> bool" where
  "keeps_batches s s' \<longleftrightarrow>
     (\<forall>r b. map_of (cs_batches s) r = Some b \<longrightarrow>
        (\<exists>b'. map_of (cs_batches s') r = Some b' \<and> set b \<subseteq> set b'))"

text \<open>The steps of a calendar: requests at any time, the critical sections of the worker in
  their order, each with a write that may fail, and a restart at any point. The batch that
  is drained must not share its root with a different batch left behind by a restart
  (\<open>keeps_batches\<close>): roots are hashes.\<close>

inductive cal_step :: "ots \<Rightarrow> cal_run \<Rightarrow> cal_run \<Rightarrow> bool" for oc :: ots where
  step_submit: "submit_digest oc uri saved d c = (r, c') \<Longrightarrow>
    cal_step oc \<lparr>run_cal = c, run_phase = ph, run_accepted = A, run_exposed = E\<rparr>
      \<lparr>run_cal = c', run_phase = ph, run_accepted = (if is_ok r then insert d A else A),
       run_exposed = (if is_ok r then expose ph d A E else E)\<rparr>"
| step_load: "load_state loaded c = r \<Longrightarrow>
    cal_step oc \<lparr>run_cal = c, run_phase = Idle, run_accepted = A, run_exposed = E\<rparr>
      \<lparr>run_cal = c, run_phase = (case r of Ok s \<Rightarrow> Loaded s | Err _ \<Rightarrow> Idle), run_accepted = A, run_exposed = E\<rparr>"
| step_install:
    "cal_step oc \<lparr>run_cal = c, run_phase = Loaded s, run_accepted = A, run_exposed = E\<rparr>
      \<lparr>run_cal = install_state s c, run_phase = Idle, run_accepted = A, run_exposed = E\<rparr>"
| step_restart:
    "cal_step oc \<lparr>run_cal = c, run_phase = ph, run_accepted = A, run_exposed = E\<rparr>
      \<lparr>run_cal = snd (reload_from_disk True c), run_phase = Idle, run_accepted = A, run_exposed = E\<rparr>"
| step_finalize: "cs_pending (cal_store c) = Some p \<Longrightarrow>
    finalize_anchor oc now saved p height block tx c = (r, c') \<Longrightarrow>
    cal_step oc \<lparr>run_cal = c, run_phase = Idle, run_accepted = A, run_exposed = E\<rparr>
      \<lparr>run_cal = c', run_phase = Idle, run_accepted = A, run_exposed = E\<rparr>"
| step_timeout: "cs_pending (cal_store c) = Some p \<Longrightarrow>
    restore_pending_batch saved p c = (r, c') \<Longrightarrow>
    cal_step oc \<lparr>run_cal = c, run_phase = Idle, run_accepted = A, run_exposed = E\<rparr>
      \<lparr>run_cal = c', run_phase = Idle, run_accepted = A, run_exposed = E\<rparr>"
| step_skip: "record_anchor_skipped saved reason c = (r, c') \<Longrightarrow>
    cal_step oc \<lparr>run_cal = c, run_phase = Idle, run_accepted = A, run_exposed = E\<rparr>
      \<lparr>run_cal = c', run_phase = Idle, run_accepted = A, run_exposed = E\<rparr>"
| step_drain: "drain_for_anchor (ots_ex oc) cfg mempool saved c = (r, c') \<Longrightarrow>
    keeps_batches (cal_store c) (cal_store c') \<Longrightarrow>
    cal_step oc \<lparr>run_cal = c, run_phase = Idle, run_accepted = A, run_exposed = E\<rparr>
      \<lparr>run_cal = c', run_phase = (case r of Ok (Some (b, ro, _)) \<Rightarrow> Broadcasting b ro | _ \<Rightarrow> Idle),
       run_accepted = A, run_exposed = E\<rparr>"
| step_failed: "restore_drained_batch saved batch root c = (r, c') \<Longrightarrow>
    cal_step oc \<lparr>run_cal = c, run_phase = Broadcasting batch root, run_accepted = A, run_exposed = E\<rparr>
      \<lparr>run_cal = c', run_phase = Idle, run_accepted = A, run_exposed = E\<rparr>"
| step_sent: "record_broadcast now saved txid batch root c = (r, c') \<Longrightarrow>
    cal_step oc \<lparr>run_cal = c, run_phase = Broadcasting batch root, run_accepted = A, run_exposed = E\<rparr>
      \<lparr>run_cal = c', run_phase = Idle, run_accepted = A, run_exposed = E\<rparr>"


inductive cal_reachable :: "ots \<Rightarrow> cal_run \<Rightarrow> bool" for oc :: ots where
  start: "cal_reachable oc \<lparr>run_cal = \<lparr>cal_queue = [], cal_store = empty_store,
     cal_disk = ([], empty_store)\<rparr>, run_phase = Idle, run_accepted = {}, run_exposed = {}\<rparr>"
| step: "cal_reachable oc r \<Longrightarrow> cal_step oc r r' \<Longrightarrow> cal_reachable oc r'"

text \<open>The digests that do not depend on a write to come.\<close>

definition secured :: "snapshot \<Rightarrow> digest set" where
  "secured s = dom (cs_proofs (snd s)) \<union>
     {d. \<exists>p. cs_pending (snd s) = Some p \<and> d \<in> set (pa_batch p)}"

definition in_flight :: "phase \<Rightarrow> snapshot \<Rightarrow> bool" where
  "in_flight ph s =
     (case ph of Idle \<Rightarrow> True | Loaded _ \<Rightarrow> True
      | Broadcasting b root \<Rightarrow> map_of (cs_batches (snd s)) root = Some b \<and> cs_pending (snd s) = None)"

text \<open>What the snapshot that the worker has read must account for when it is installed.\<close>

definition loaded_ok :: "phase \<Rightarrow> digest set \<Rightarrow> snapshot \<Rightarrow> snapshot \<Rightarrow> bool" where
  "loaded_ok ph A m d =
     (case ph of Loaded s \<Rightarrow> A \<subseteq> tracked s \<and> distinct (fst s) \<and> secured s \<subseteq> tracked m \<and> secured s \<subseteq> tracked d
        \<and> secured m \<subseteq> tracked s \<and> secured d \<subseteq> tracked s
      | _ \<Rightarrow> True)"

definition cal_inv :: "cal_run \<Rightarrow> bool" where
  "cal_inv r =
     (let m = memory (run_cal r); d = cal_disk (run_cal r); A = run_accepted r - run_exposed r in
      A \<subseteq> tracked m \<and> A \<subseteq> tracked d \<and> distinct (fst m) \<and>
      distinct (fst d) \<and> secured m \<subseteq> tracked d \<and> secured d \<subseteq> tracked m \<and> in_flight (run_phase r) m \<and>
      in_flight (run_phase r) d \<and> loaded_ok (run_phase r) A m d)"

lemma in_flight_simps [simp]: "in_flight Idle s" "in_flight (Loaded s') s"
  by (simp_all add: in_flight_def)

lemma secured_tracked: "secured s \<subseteq> tracked s"
  by (auto simp: secured_def tracked_def)

lemma tracked_batch:
  "map_of (cs_batches (snd s)) k = Some b \<Longrightarrow> x \<in> set b \<Longrightarrow> x \<in> tracked s"
  by (auto simp: tracked_def batched_def)

lemma batched_empty [simp]: "batched [] = {}"
  by (simp add: batched_def)

lemma batched_member: "map_of bs k = Some b \<Longrightarrow> set b \<subseteq> batched bs"
  by (auto simp: batched_def)

lemma batches_remove:
  assumes "map_of bs root = Some batch"
  shows "batched bs \<subseteq> set batch \<union> batched (btree_remove root bs)"
proof
  fix d assume "d \<in> batched bs"
  then obtain r b where rb: "map_of bs r = Some b" "d \<in> set b"
    unfolding batched_def by blast
  show "d \<in> set batch \<union> batched (btree_remove root bs)"
  proof (cases "r = root")
    case True
    with rb assms show ?thesis by simp
  next
    case False
    with rb have "map_of (btree_remove root bs) r = Some b" by simp
    with rb(2) batched_member show ?thesis by blast
  qed
qed

text \<open>A section that changes the memory and then writes it.\<close>

lemma loaded_ok_simps [simp]: "loaded_ok Idle A m d" "loaded_ok (Broadcasting b root) A m d"
  by (simp_all add: loaded_ok_def)

lemma cal_inv_save:
  assumes inv: "cal_inv \<lparr>run_cal = c, run_phase = ph, run_accepted = A, run_exposed = E\<rparr>"
    and c': "memory c' = m'" "cal_disk c' = (if saved then m' else cal_disk c)"
    and m': "tracked (memory c) \<subseteq> tracked m'" "distinct (fst m')" "secured m' \<subseteq> tracked (cal_disk c)"
    and ph: "in_flight ph' m'" "\<not> saved \<Longrightarrow> in_flight ph' (cal_disk c)"
    and ld: "loaded_ok ph' (A - E) m' m'" "loaded_ok ph' (A - E) m' (cal_disk c)"
  shows "cal_inv \<lparr>run_cal = c', run_phase = ph', run_accepted = A, run_exposed = E\<rparr>"
  using assms secured_tracked [of m'] by (auto simp: cal_inv_def Let_def)

lemma fold_put_proof:
  "fold (\<lambda>(d, proof). put_proof d proof) ps st =
   st\<lparr>cs_proofs := fold (\<lambda>(d, proof) m. m(d \<mapsto> proof)) ps (cs_proofs st)\<rparr>"
  by (induction ps arbitrary: st) (auto simp: put_proof_def)

lemma dom_fold_upd:
  "dom (fold (\<lambda>(d, proof) m. m(d \<mapsto> proof)) ps m) = dom m \<union> fst ` set ps"
  by (induction ps arbitrary: m) auto

lemma confirmed_proofs_domain:
  "confirmed_proofs oc root leaves tx block h i ds = Ok ps \<Longrightarrow> map fst ps = ds"
  by (induction ds arbitrary: i ps) (auto simp: ok_elims)

lemma drain_cases:
  assumes "drain_for_anchor ex cfg mempool saved c = (r, c')"
  shows "c' = c \<and> r = Ok None \<or>
    (\<exists>q. mset q = mset (cal_queue c) \<and> c' = c\<lparr>cal_queue := q\<rparr> \<and> (\<forall>x. r \<noteq> Ok (Some x))) \<or>
    (\<exists>batch q root ltp. mset batch + mset q = mset (cal_queue c) \<and> cs_pending (cal_store c) = None \<and>
       memory c' = (q, (cal_store c)\<lparr>cs_batches := btree_insert root batch (cs_batches (cal_store c))\<rparr>) \<and>
       cal_disk c' = (if saved then memory c' else cal_disk c) \<and>
       r = (if saved then Ok (Some (batch, root, ltp)) else Err SaveFailed))"
proof -
  obtain batch q ltp where d: "drain_choice cfg mempool (cal_queue c) = (batch, q, ltp)"
    by (rule prod_cases3)
  have perm: "mset batch + mset q = mset (cal_queue c)"
    using d by (auto simp: drain_choice_def Let_def split: if_splits option.splits prod.splits
        dest!: drain_batch_split drain_prioritized_mset)
  show ?thesis
  proof (cases "cs_pending (cal_store c) \<noteq> None \<or> cal_queue c = []")
    case True
    with assms show ?thesis by (auto simp: drain_for_anchor_def)
  next
    case False
    show ?thesis
    proof (cases "batch = []")
      case True
      with False assms d have "c' = c\<lparr>cal_queue := q\<rparr>" "r = Ok None"
        by (simp_all add: drain_for_anchor_def)
      moreover have "mset q = mset (cal_queue c)" using perm True by simp
      ultimately show ?thesis by blast
    next
      case ne: False
      then obtain root where root: "ots_merkle_root (cat_sha256d ex) batch = Some root"
        using climb_path_loop [of 0 batch "cat_sha256d ex"] by (auto simp: ots_merkle_root_def)
      let ?c = "c\<lparr>cal_queue := q, cal_store := (cal_store c)\<lparr>
          cs_batches := btree_insert root batch (cs_batches (cal_store c))\<rparr>\<rparr>"
      have "c' = snd (save_state saved ?c)"
        "r = (if saved then Ok (Some (batch, root, ltp)) else Err SaveFailed)"
        using False assms d ne root
        by (cases saved; simp add: drain_for_anchor_def save_state_def)+
      then have "memory c' = memory ?c" "cal_disk c' = (if saved then memory c' else cal_disk c)"
        by (simp_all add: save_state_def memory_def)
      then show ?thesis
        using perm False \<open>r = _\<close> by (intro disjI2 exI conjI) simp_all
    qed
  qed
qed

lemma save_step:
  assumes "save_state saved c0 = (r, c')"
  shows "memory c' = memory c0" "cal_disk c' = (if saved then memory c0 else cal_disk c0)"
    "r = (if saved then Ok () else Err SaveFailed)"
  using assms save_state_simps [of saved c0] by auto

lemma cal_inv_step:
  "cal_step oc r r' \<Longrightarrow> cal_inv r \<Longrightarrow> cal_inv r'"
proof (induction rule: cal_step.induct)
  case (step_submit uri saved d c r c' ph A E)
  show ?case
  proof (cases "length d \<noteq> 32 \<or> get_proof d (cal_store c) \<noteq> None")
    case True
    with step_submit.hyps have "c' = c" and "is_ok r \<longrightarrow> d \<in> secured (memory c)"
      by (auto simp: submit_digest_def get_proof_def secured_def memory_def split: if_splits option.splits)
    with step_submit.prems secured_tracked [of "memory c"] show ?thesis
      by (cases ph) (auto simp: cal_inv_def Let_def expose_def loaded_ok_def)
  next
    case False
    let ?c = "c\<lparr>cal_queue := enqueue d (cal_queue c)\<rparr>"
    have c': "c' = snd (save_state saved ?c)" and r: "is_ok r \<longrightarrow> saved"
      using step_submit.hyps False
      by (auto simp: submit_digest_def save_state_def Let_def split: if_splits)
    have m: "memory ?c = (enqueue d (cal_queue c), cal_store c)" by simp
    have tr: "tracked (memory ?c) = insert d (tracked (memory c))"
      by (auto simp: m tracked_def memory_def enqueue_set)
    have sec: "secured (memory ?c) = secured (memory c)" by (simp add: m secured_def memory_def)
    have inv: "cal_inv \<lparr>run_cal = c', run_phase = ph, run_accepted = A, run_exposed = E\<rparr>"
    proof (rule cal_inv_save [OF step_submit.prems, of c' "memory ?c" saved])
      show "tracked (memory c) \<subseteq> tracked (memory ?c)" unfolding tr by blast
      show "distinct (fst (memory ?c))" using step_submit.prems
        by (simp add: cal_inv_def Let_def memory_def enqueue_distinct)
      show "secured (memory ?c) \<subseteq> tracked (cal_disk c)"
        using step_submit.prems unfolding sec by (simp add: cal_inv_def Let_def)
      show "in_flight ph (memory ?c)" using step_submit.prems
        by (cases ph) (simp_all add: cal_inv_def Let_def memory_def in_flight_def)
      show "in_flight ph (cal_disk c)" using step_submit.prems
        by (simp add: cal_inv_def Let_def)
      show "loaded_ok ph (A - E) (memory ?c) (memory ?c)"
        "loaded_ok ph (A - E) (memory ?c) (cal_disk c)"
        using step_submit.prems unfolding loaded_ok_def sec tr
        by (auto simp: cal_inv_def Let_def loaded_ok_def split: phase.splits)
    qed (simp_all add: c')
    have "is_ok r \<Longrightarrow> d \<in> tracked (memory c') \<and> d \<in> tracked (cal_disk c')"
      using r tr by (simp add: c')
    with inv show ?thesis
      by (cases ph) (auto simp: cal_inv_def Let_def expose_def loaded_ok_def)
  qed
next
  case (step_load loaded c r A E)
  then show ?case
    using secured_tracked [of "cal_disk c"]
    by (auto simp: load_state_def cal_inv_def Let_def loaded_ok_def split: if_splits)
next
  case (step_install c s A E)
  then show ?case
    using secured_tracked [of s] secured_tracked [of "memory c"]
    by (auto simp: install_state_def cal_inv_def Let_def loaded_ok_def memory_def)
next
  case (step_restart c ph A E)
  then show ?case
    using secured_tracked [of "cal_disk c"]
    by (auto simp: reload_from_disk_eq cal_inv_def Let_def memory_def)
next
  case (step_finalize c p now saved height block tx r c' A E)
  show ?case
  proof (cases "confirmed_proofs oc (pa_merkle_root p) (pa_batch p) tx block height 0 (pa_batch p)")
    case (Err e)
    with step_finalize show ?thesis by (simp add: finalize_anchor_def)
  next
    case (Ok ps)
    let ?s = "(cal_store c)\<lparr>cs_proofs := fold (\<lambda>(d, proof) m. m(d \<mapsto> proof)) ps (cs_proofs (cal_store c)),
       cs_last_anchor := Some \<lparr>ar_height = height, ar_txid = pa_txid p,
               ar_merkle_root = pa_merkle_root p, ar_anchored_at = now\<rparr>,
            cs_skipped := None, cs_pending := None\<rparr>"
    have "save_state saved (c\<lparr>cal_store := ?s\<rparr>) = (r, c')"
      using step_finalize.hyps(2) Ok by (simp add: finalize_anchor_def fold_put_proof Let_def)
    note s = save_step [OF this]
    have dom: "dom (cs_proofs ?s) = dom (cs_proofs (cal_store c)) \<union> set (pa_batch p)"
      using confirmed_proofs_domain [OF Ok] by (simp add: dom_fold_upd flip: set_map)
    have tr: "tracked (cal_queue c, ?s) = tracked (memory c)"
      using dom step_finalize.hyps(1) by (auto simp: tracked_def memory_def)
    have sec: "secured (cal_queue c, ?s) = secured (memory c)"
      using dom step_finalize.hyps(1) by (auto simp: secured_def memory_def)
    show ?thesis
      by (rule cal_inv_save [OF step_finalize.prems, of c' "(cal_queue c, ?s)" saved])
        (use s step_finalize.prems tr sec in \<open>simp_all add: cal_inv_def Let_def memory_def\<close>)
  qed
next
  case (step_timeout c p saved r c' A E)
  note s = save_step [OF step_timeout.hyps(2) [unfolded restore_pending_batch_def]]
  let ?m = "(fold enqueue (rev (pa_batch p)) (cal_queue c), (cal_store c)\<lparr>cs_pending := None\<rparr>)"
  have tr: "tracked ?m = tracked (memory c)"
    using step_timeout.hyps(1)
    by (auto simp: tracked_def memory_def fifo.requeue_elems)
  have sec: "secured ?m \<subseteq> secured (memory c)" by (auto simp: secured_def memory_def)
  show ?case
    by (rule cal_inv_save [OF step_timeout.prems, of c' ?m saved])
      (use s step_timeout.prems tr sec in \<open>auto simp: cal_inv_def Let_def memory_def fifo.requeue_wf\<close>)
next
  case (step_skip saved reason c r c' A E)
  note s = save_step [OF step_skip.hyps [unfolded record_anchor_skipped_def]]
  let ?m = "(cal_queue c, (cal_store c)\<lparr>cs_skipped := Some reason\<rparr>)"
  have tr: "tracked ?m = tracked (memory c)" "secured ?m = secured (memory c)"
    by (simp_all add: tracked_def secured_def memory_def)
  show ?case
    by (rule cal_inv_save [OF step_skip.prems, of c' ?m saved])
      (use s step_skip.prems tr in \<open>simp_all add: cal_inv_def Let_def memory_def\<close>)
next
  case (step_drain cfg mempool saved c r c' A E)
  from drain_cases [OF step_drain.hyps(1)] show ?case
  proof (elim disjE exE conjE)
    assume "c' = c" "r = Ok None"
    with step_drain.prems show ?thesis by (simp add: cal_inv_def Let_def)
  next
    fix q
    assume q: "mset q = mset (cal_queue c)" "c' = c\<lparr>cal_queue := q\<rparr>" "\<forall>x. r \<noteq> Ok (Some x)"
    have "set q = set (cal_queue c)" "distinct q = distinct (cal_queue c)"
      using q(1) by (metis set_mset_mset, metis mset_eq_imp_distinct_iff)
    then have "tracked (memory c') = tracked (memory c)" "secured (memory c') = secured (memory c)"
      "distinct (fst (memory c')) = distinct (fst (memory c))" "cal_disk c' = cal_disk c"
      using q(2) by (simp_all add: tracked_def secured_def memory_def)
    moreover have "(case r of Ok (Some (b, ro, _)) \<Rightarrow> Broadcasting b ro | _ \<Rightarrow> Idle) = Idle"
      using q(3) by (auto split: result.splits option.splits)
    ultimately show ?thesis using step_drain.prems by (simp add: cal_inv_def Let_def)
  next
    fix batch q root ltp
    let ?s = "(cal_store c)\<lparr>cs_batches := btree_insert root batch (cs_batches (cal_store c))\<rparr>"
    assume d: "mset batch + mset q = mset (cal_queue c)" "cs_pending (cal_store c) = None"
      "memory c' = (q, ?s)" "cal_disk c' = (if saved then memory c' else cal_disk c)"
      "r = (if saved then Ok (Some (batch, root, ltp)) else Err SaveFailed)"
    have qs: "set (cal_queue c) = set batch \<union> set q" "distinct (cal_queue c) \<longrightarrow> distinct q"
      using mset_split_set [OF d(1)] mset_split_distinct [OF d(1)] by auto
    have store': "cal_store c' = ?s" using d(3) by (simp add: memory_def)
    have tr: "tracked (memory c) \<subseteq> tracked (q, ?s)"
    proof (rule subsetI)
      fix x assume "x \<in> tracked (memory c)"
      then consider "x \<in> dom (cs_proofs (cal_store c)) \<or> x \<in> set batch \<or> x \<in> set q"
        | k b where "map_of (cs_batches (cal_store c)) k = Some b" "x \<in> set b"
        using qs(1) d(2) by (auto simp: tracked_def memory_def batched_def)
      then show "x \<in> tracked (q, ?s)"
      proof cases
        case 1
        have "set batch \<subseteq> batched (cs_batches ?s)" by (rule batched_member [of _ root]) simp
        with 1 show ?thesis by (auto simp: tracked_def)
      next
        case 2
        have "keeps_batches (cal_store c) ?s" using step_drain.hyps(2) unfolding store' .
        with 2 obtain b' where "map_of (cs_batches ?s) k = Some b'" "x \<in> set b'"
          unfolding keeps_batches_def by blast
        then show ?thesis by (intro tracked_batch) simp_all
      qed
    qed
    have sec: "secured (q, ?s) = secured (memory c)" by (simp add: secured_def memory_def)
    have fl: "in_flight (case r of Ok (Some (b, ro, _)) \<Rightarrow> Broadcasting b ro | _ \<Rightarrow> Idle) (q, ?s)"
      "\<not> saved \<Longrightarrow>
        in_flight (case r of Ok (Some (b, ro, _)) \<Rightarrow> Broadcasting b ro | _ \<Rightarrow> Idle) (cal_disk c)"
      using d(2,5) by (simp_all add: in_flight_def)
    have ld: "loaded_ok (case r of Ok (Some (b, ro, _)) \<Rightarrow> Broadcasting b ro | _ \<Rightarrow> Idle) X Y Z" for X Y Z
      by (auto split: result.splits option.splits)
    show ?thesis
      by (rule cal_inv_save [OF step_drain.prems d(3) _ _ _ _ fl ld ld])
        (use d(3,4) step_drain.prems tr sec qs in \<open>auto simp: cal_inv_def Let_def memory_def\<close>)
  qed
next
  case (step_failed saved batch root c r c' A E)
  note s = save_step [OF step_failed.hyps [unfolded restore_drained_batch_def]]
  let ?m = "(fold enqueue (rev batch) (cal_queue c),
    (cal_store c)\<lparr>cs_batches := btree_remove root (cs_batches (cal_store c))\<rparr>)"
  have "map_of (cs_batches (cal_store c)) root = Some batch" "cs_pending (cal_store c) = None"
    using step_failed.prems by (simp_all add: cal_inv_def Let_def in_flight_def memory_def)
  with batches_remove [OF this(1)] have tr: "tracked (memory c) \<subseteq> tracked ?m"
    unfolding tracked_def memory_def by (simp add: fifo.requeue_elems) blast
  have sec: "secured ?m = secured (memory c)" by (simp add: secured_def memory_def)
  show ?case
    by (rule cal_inv_save [OF step_failed.prems, of c' ?m saved])
      (use s step_failed.prems tr sec in \<open>auto simp: cal_inv_def Let_def memory_def fifo.requeue_wf\<close>)
next
  case (step_sent now saved txid batch root c r c' A E)
  note s = save_step [OF step_sent.hyps [unfolded record_broadcast_def]]
  let ?m = "(cal_queue c, (cal_store c)\<lparr>cs_pending := Some \<lparr>pa_txid = txid, pa_merkle_root = root,
      pa_batch = batch, pa_broadcast_at = now\<rparr>,
    cs_batches := btree_remove root (cs_batches (cal_store c))\<rparr>)"
  have fl: "map_of (cs_batches (cal_store c)) root = Some batch" "cs_pending (cal_store c) = None"
    "map_of (cs_batches (snd (cal_disk c))) root = Some batch"
    using step_sent.prems by (simp_all add: cal_inv_def Let_def in_flight_def memory_def)
  from fl batches_remove [OF fl(1)] have tr: "tracked (memory c) \<subseteq> tracked ?m"
    unfolding tracked_def memory_def by simp blast
  have sec: "secured ?m \<subseteq> secured (memory c) \<union> tracked (cal_disk c)"
    using fl batched_member [OF fl(3)] by (auto simp: tracked_def secured_def memory_def)
  show ?case
    by (rule cal_inv_save [OF step_sent.prems, of c' ?m saved])
      (use s step_sent.prems tr sec in \<open>auto simp: cal_inv_def Let_def memory_def\<close>)
qed


lemma cal_inv_reachable: "cal_reachable oc r \<Longrightarrow> cal_inv r"
proof (induction rule: cal_reachable.induct)
  case start
  then show ?case
    by (simp add: cal_inv_def memory_def secured_def empty_store_def)
next
  case (step r r')
  then show ?case by (blast intro: cal_inv_step)
qed

text \<open>C5: A digest whose submission was acknowledged is never lost, unless it was acknowledged only
  between the worker's read of the snapshot and its installation of what it read
  (\<open>run_exposed\<close>): after any sequence of requests, worker sections (whose writes may fail) and restarts,
  the process and the snapshot on disk each still account for it, as anchored, queued, in a
  batch under broadcast or in the pending anchor. A drained batch must not share its root with
  a different batch that a restart left behind.\<close>

theorem accepted_digest_never_lost:
  assumes "cal_reachable oc r" "d \<in> run_accepted r" "d \<notin> run_exposed r"
  shows "d \<in> tracked (memory (run_cal r)) \<and> d \<in> tracked (cal_disk (run_cal r))"
  using cal_inv_reachable [OF assms(1)] assms(2,3) by (auto simp: cal_inv_def Let_def)

definition toy_ots :: ots where
  "toy_ots = \<lparr>ots_ex = toy_ex, ots_h2 = toy_h2, ots_ser = (\<lambda>ts. Some (start_digest ts))\<rparr>"

definition toy_config :: anchor_config where
  "toy_config = \<lparr>ac_regtest = True, ac_min_tx_interval = 0, ac_batch_max = 64,
     ac_wallet_name = None, ac_pending_timeout = 60, ac_max_fee = None, ac_min_balance = None,
     ac_ltp_priority = False\<rparr>"

definition toy_digest :: digest where
  "toy_digest = replicate 32 7"

definition fresh_calendar :: calendar where
  "fresh_calendar = \<lparr>cal_queue = [], cal_store = empty_store, cal_disk = ([], empty_store)\<rparr>"

theorem accepted_digest_never_lost_witness:
  "\<exists>r. cal_reachable toy_ots r \<and> toy_digest \<in> run_accepted r \<and> toy_digest \<notin> run_exposed r \<and>
     cal_queue (run_cal r) = [] \<and> run_phase r = Idle \<and>
     toy_digest \<in> tracked (cal_disk (run_cal r))"
proof -
  let ?c1 = "snd (submit_digest toy_ots ''u'' True toy_digest fresh_calendar)"
  let ?c2 = "snd (drain_for_anchor toy_ex toy_config None True ?c1)"
  let ?c3 = "snd (reload_from_disk True ?c2)"
  note ev = submit_digest_def fresh_calendar_def empty_store_def get_proof_def toy_digest_def
    Let_def enqueue_def save_state_def proof_result_def pending_proof_bytes_def serialize_proof_def
    toy_ots_def ok_or_def pending_timestamp_def drain_for_anchor_def drain_choice_def
    toy_config_def drain_batch_def ots_merkle_root_def root_loop.simps reload_from_disk_eq
  have r1: "submit_digest toy_ots ''u'' True toy_digest fresh_calendar = (Ok toy_digest, ?c1)"
    by (simp add: ev)
  have r2: "drain_for_anchor (ots_ex toy_ots) toy_config None True ?c1 =
      (Ok (Some ([toy_digest], toy_digest, [])), ?c2)"
    by (simp add: ev)
  have "cal_reachable toy_ots \<lparr>run_cal = fresh_calendar, run_phase = Idle, run_accepted = {}, run_exposed = {}\<rparr>"
    using cal_reachable.start [of toy_ots] by (simp add: fresh_calendar_def)
  from cal_reachable.step [OF this step_submit [OF r1]]
  have "cal_reachable toy_ots \<lparr>run_cal = ?c1, run_phase = Idle, run_accepted = {toy_digest}, run_exposed = {}\<rparr>"
    by (simp add: expose_def)
  moreover have "keeps_batches (cal_store ?c1) (cal_store ?c2)"
    by (simp add: keeps_batches_def ev)
  ultimately have "cal_reachable toy_ots \<lparr>run_cal = ?c2,
      run_phase = Broadcasting [toy_digest] toy_digest, run_accepted = {toy_digest}, run_exposed = {}\<rparr>"
    using cal_reachable.step [OF _ step_drain [OF r2]] by fastforce
  from cal_reachable.step [OF this step_restart]
  have reach: "cal_reachable toy_ots \<lparr>run_cal = ?c3, run_phase = Idle, run_accepted = {toy_digest}, run_exposed = {}\<rparr>" .
  have "cal_queue ?c3 = []" by (simp add: ev)
  with reach accepted_digest_never_lost [OF reach, of toy_digest] show ?thesis
    by (intro exI [of _ "\<lparr>run_cal = ?c3, run_phase = Idle, run_accepted = {toy_digest}, run_exposed = {}\<rparr>"]) simp
qed

text \<open>A submission that comes between the read of the snapshot and its installation.\<close>

lemma submit_new:
  assumes "length d = 32" "get_proof d (cal_store c) = None" "submit_digest oc uri True d c = (r, c')"
  shows "memory c' = (enqueue d (cal_queue c), cal_store c)" "cal_disk c' = memory c'"
  using assms by (auto simp: submit_digest_def save_state_def memory_def Let_def)

text \<open>C40: the reload of the worker reads the snapshot before it takes the lock, and so loses acknowledged
  digests: from any reachable state in which the worker has read a snapshot, a new digest that a
  client submits, with the answer that it is accepted and on disk, is out of the memory once the
  worker installs what it has read, and with the next submission that is saved it is gone from the
  disk as well. The state this ends in is one the calendar reaches, with the digest among the
  accepted ones.\<close>

theorem reload_loses_digest:
  assumes "cal_reachable oc \<lparr>run_cal = c, run_phase = Loaded s, run_accepted = A, run_exposed = E\<rparr>"
    and "length d = 32" "d \<notin> tracked s" "get_proof d (cal_store c) = None"
    and "submit_digest oc uri True d c = (Ok receipt, c1)"
    and "length d' = 32" "d' \<noteq> d" "get_proof d' (snd s) = None"
    and "submit_digest oc uri True d' (install_state s c1) = (r, c2)"
  shows "d \<in> tracked (cal_disk c1) \<and>
    (\<exists>A' E'. cal_reachable oc \<lparr>run_cal = c2, run_phase = Idle, run_accepted = A', run_exposed = E'\<rparr>
       \<and> d \<in> A' \<and> d \<notin> tracked (memory c2) \<and> d \<notin> tracked (cal_disk c2))"
proof -
  have disk: "d \<in> tracked (cal_disk c1)"
    using submit_new [OF assms(2,4,5)] by (simp add: tracked_def enqueue_set)
  have 1: "cal_reachable oc \<lparr>run_cal = c1, run_phase = Loaded s, run_accepted = insert d A,
      run_exposed = expose (Loaded s) d A E\<rparr>"
    using cal_reachable.step [OF assms(1) step_submit [OF assms(5)]] by simp
  have 2: "cal_reachable oc \<lparr>run_cal = install_state s c1, run_phase = Idle, run_accepted = insert d A,
      run_exposed = expose (Loaded s) d A E\<rparr>"
    using cal_reachable.step [OF 1 step_install] .
  let ?A = "if is_ok r then insert d' (insert d A) else insert d A"
  note 3 = cal_reachable.step [OF 2 step_submit [OF assms(9)]]
  have "get_proof d' (cal_store (install_state s c1)) = None"
    using assms(8) by (simp add: install_state_def)
  note new = submit_new [OF assms(6) this assms(9)]
  have "memory c2 = (enqueue d' (fst s), snd s)" using new(1) by (simp add: install_state_def)
  then have "tracked (memory c2) \<subseteq> insert d' (tracked s)" by (auto simp: tracked_def enqueue_set)
  then have "d \<notin> tracked (memory c2)" using assms(3,7) by blast
  moreover have "d \<in> ?A" by simp
  ultimately show ?thesis using disk 3 unfolding new(2) by blast
qed

definition later_digest :: digest where
  "later_digest = replicate 32 8"

theorem reload_loses_digest_witness:
  "\<exists>c A E. cal_reachable toy_ots \<lparr>run_cal = c, run_phase = Idle, run_accepted = A, run_exposed = E\<rparr>
     \<and> toy_digest \<in> A \<and> toy_digest \<notin> tracked (memory c) \<and> toy_digest \<notin> tracked (cal_disk c)"
proof -
  let ?c1 = "snd (submit_digest toy_ots ''u'' True toy_digest fresh_calendar)"
  let ?s = "([], empty_store)"
  have load: "load_state True fresh_calendar = Ok ?s" by (simp add: load_state_def fresh_calendar_def)
  have "cal_reachable toy_ots \<lparr>run_cal = fresh_calendar, run_phase = Idle, run_accepted = {}, run_exposed = {}\<rparr>"
    using cal_reachable.start [of toy_ots] by (simp add: fresh_calendar_def)
  from cal_reachable.step [OF this step_load [OF load]]
  have reach: "cal_reachable toy_ots \<lparr>run_cal = fresh_calendar, run_phase = Loaded ?s, run_accepted = {}, run_exposed = {}\<rparr>"
    by simp
  have submit: "submit_digest toy_ots ''u'' True toy_digest fresh_calendar = (Ok toy_digest, ?c1)"
    by (simp add: submit_digest_def fresh_calendar_def empty_store_def get_proof_def toy_digest_def
        Let_def enqueue_def save_state_def proof_result_def pending_proof_bytes_def serialize_proof_def
        toy_ots_def ok_or_def pending_timestamp_def)
  obtain r c2 where later: "submit_digest toy_ots ''u'' True later_digest (install_state ?s ?c1) = (r, c2)"
    by (rule prod.exhaust)
  have new: "toy_digest \<notin> tracked ?s" "get_proof toy_digest (cal_store fresh_calendar) = None"
    "get_proof later_digest (snd ?s) = None"
    by (simp_all add: tracked_def empty_store_def get_proof_def fresh_calendar_def)
  have "later_digest \<noteq> toy_digest" by (simp add: later_digest_def toy_digest_def)
  from reload_loses_digest [OF reach _ new(1,2) submit _ this new(3) later]
  have "\<exists>A E. cal_reachable toy_ots \<lparr>run_cal = c2, run_phase = Idle, run_accepted = A, run_exposed = E\<rparr>
     \<and> toy_digest \<in> A \<and> toy_digest \<notin> tracked (memory c2) \<and> toy_digest \<notin> tracked (cal_disk c2)"
    by (simp add: toy_digest_def later_digest_def)
  then show ?thesis by blast
qed

text \<open>When a pending anchor times out its batch goes to the back of the queue in reverse:
  the digests submitted first are then anchored after every later one, newest first.\<close>

lemma fold_enqueue_new:
  "distinct b \<Longrightarrow> set b \<inter> set q = {} \<Longrightarrow> fold enqueue b q = q @ b"
proof (induction b arbitrary: q)
  case (Cons d b)
  then have "enqueue d q = q @ [d]" by (simp add: enqueue_def)
  moreover have "fold enqueue b (q @ [d]) = (q @ [d]) @ b" using Cons by (intro Cons.IH) auto
  ultimately show ?case by simp
qed simp


text \<open>When a pending anchor times out its batch goes to the back of the queue in reverse
  order: its digests, the oldest of the calendar, come after every digest submitted since,
  and the newest of them first.\<close>

theorem timed_out_batch_reversed:
  assumes "distinct (pa_batch p)" "set (pa_batch p) \<inter> set (cal_queue c) = {}"
  shows "cal_queue (snd (restore_pending_batch saved p c)) = cal_queue c @ rev (pa_batch p)"
  using assms by (simp add: restore_pending_batch_def save_state_def fold_enqueue_new)

theorem timed_out_batch_reversed_witness:
  "let p = \<lparr>pa_txid = [], pa_merkle_root = [], pa_batch = [[1], [2], [3]], pa_broadcast_at = 0\<rparr>
   in cal_queue (snd (restore_pending_batch True p (fresh_calendar\<lparr>cal_queue := [[4]]\<rparr>))) =
     [[4], [3], [2], [1]]"
  unfolding Let_def by (subst timed_out_batch_reversed) simp_all

text \<open>A batch with a member whose reversed path misses the root cannot be finalized.\<close>

lemma confirmed_proofs_fail:
  assumes "k < length ds" "ds ! k \<noteq> root"
    and "merkle_path (cat_sha256d (ots_ex oc)) leaves (i + k) = Some path"
    and "climb (cat_sha256d (ots_ex oc)) (ds ! k) (rev path) \<noteq> root"
  shows "\<exists>e. confirmed_proofs oc root leaves tx block h i ds = Err e"
  using assms
proof (induction ds arbitrary: i k)
  case Nil
  then show ?case by simp
next
  case (Cons d ds)
  let ?r = "proof_result (bitcoin_confirmed_proof_bytes (ots_ex oc) (ots_h2 oc) (ots_ser oc)
    d root leaves i tx block h)"
  show ?case
  proof (cases k)
    case 0
    with Cons.prems confirmed_bails [of "ots_ex oc" leaves i path d root]
    have "\<not> is_ok (bitcoin_confirmed_proof_bytes (ots_ex oc) (ots_h2 oc) (ots_ser oc)
        d root leaves i tx block h)"
      by simp
    then show ?thesis
      by (cases "bitcoin_confirmed_proof_bytes (ots_ex oc) (ots_h2 oc) (ots_ser oc)
        d root leaves i tx block h") (auto simp: proof_result_def)
  next
    case (Suc k')
    with Cons.prems have "\<exists>e. confirmed_proofs oc root leaves tx block h (Suc i) ds = Err e"
      by (intro Cons.IH [of k' "Suc i"]) simp_all
    then show ?thesis by (cases ?r) auto
  qed
qed

lemma check_pending_fail:
  assumes "cs_pending (cal_store c) = Some p"
    and "find_confirmed_tx (t_rpc t) (pa_txid p) = Ok (Some (h, block, tx))"
    and "confirmed_proofs oc (pa_merkle_root p) (pa_batch p) tx block h 0 (pa_batch p) = Err e"
  shows "check_pending oc cfg t c = (Some (Err e), c)"
  using assms by (simp add: check_pending_def finalize_anchor_def)

text \<open>The calendar after a number of ticks.\<close>

fun run_ticks :: "ots \<Rightarrow> anchor_config \<Rightarrow> tick list \<Rightarrow> nat \<Rightarrow> calendar \<Rightarrow> calendar" where
  "run_ticks oc cfg [] last_tx c = c"
| "run_ticks oc cfg (t # ts) last_tx c =
     (let (r, c, last_tx, ltp) = anchor_once oc cfg t last_tx c in run_ticks oc cfg ts last_tx c)"

text \<open>C30: A confirmed batch can wedge the worker for good: when hashing the path of some
  member in reverse (as the proof builder does) does not give the batch root, as happens
  for batches of three digests and more, every tick that finds the anchor transaction
  confirmed fails and changes nothing on disk, so the anchor stays pending, its digests
  never get a proof, and no later digest is ever anchored.\<close>

theorem confirmed_batch_wedges:
  assumes "cs_pending (snd (cal_disk c)) = Some p"
    and "k < length (pa_batch p)" "pa_batch p ! k \<noteq> pa_merkle_root p"
    and "merkle_path (cat_sha256d (ots_ex oc)) (pa_batch p) k = Some path"
    and "climb (cat_sha256d (ots_ex oc)) (pa_batch p ! k) (rev path) \<noteq> pa_merkle_root p"
    and "\<forall>t \<in> set ts. t_loaded t \<and>
      (\<exists>x. find_confirmed_tx (t_rpc t) (pa_txid p) = Ok (Some x))"
  shows "cal_disk (run_ticks oc cfg ts last_tx c) = cal_disk c \<and>
    (\<forall>t \<in> set ts. \<exists>e. fst (anchor_once oc cfg t last_tx c) = Err e)"
proof -
  have tick: "\<exists>e c'. anchor_once oc cfg t lt c0 = (Err e, c', lt, []) \<and> cal_disk c' = cal_disk c0"
    if "t \<in> set ts" "cal_disk c0 = cal_disk c" for t c0 lt
  proof -
    let ?c = "c0\<lparr>cal_queue := fst (cal_disk c0), cal_store := snd (cal_disk c0)\<rparr>"
    have "\<exists>x. find_confirmed_tx (t_rpc t) (pa_txid p) = Ok (Some x)"
      using assms(6) that(1) by simp
    then obtain x where x: "find_confirmed_tx (t_rpc t) (pa_txid p) = Ok (Some x)" by blast
    obtain h block tx where "x = (h, block, tx)" by (cases x)
    with x have "find_confirmed_tx (t_rpc t) (pa_txid p) = Ok (Some (h, block, tx))" by simp
    moreover have
      "\<exists>e. confirmed_proofs oc (pa_merkle_root p) (pa_batch p) tx block h 0 (pa_batch p) = Err e"
      by (rule confirmed_proofs_fail [of k _ _ _ _ _ path]) (use assms(2-5) in simp_all)
    then obtain e where
      "confirmed_proofs oc (pa_merkle_root p) (pa_batch p) tx block h 0 (pa_batch p) = Err e"
      by blast
    ultimately have "check_pending oc cfg t ?c = (Some (Err e), ?c)"
      using assms(1) that(2) by (intro check_pending_fail) simp_all
    moreover have "t_loaded t" using assms(6) that(1) by blast
    ultimately show ?thesis by (simp add: anchor_once_def reload_from_disk_eq)
  qed
  have "cal_disk (run_ticks oc cfg us lt c0) = cal_disk c"
    if "set us \<subseteq> set ts" "cal_disk c0 = cal_disk c" for us lt c0
    using that
  proof (induction us arbitrary: lt c0)
    case (Cons u us)
    then have "u \<in> set ts" by simp
    from tick [OF this Cons.prems(2), of lt] obtain e c' where
      "anchor_once oc cfg u lt c0 = (Err e, c', lt, [])" "cal_disk c' = cal_disk c0" by blast
    with Cons show ?case by simp
  qed simp
  moreover have "\<exists>e. fst (anchor_once oc cfg t last_tx c) = Err e" if "t \<in> set ts" for t
    using tick [OF that refl, of last_tx] by auto
  ultimately show ?thesis by simp
qed

definition toy_rpc :: rpc where
  "toy_rpc = \<lparr>rpc_get_transaction = (\<lambda>t. Some (1, Some 9)), rpc_get_block_hash = (\<lambda>h. Some []),
     rpc_get_block = (\<lambda>h. Some toy_block3), rpc_get_block_count = Some 9,
     rpc_estimate_fee = None,
     rpc_list_unspent = Some [\<lparr>un_outpoint = ([1], 0), un_amount = 5000\<rparr>],
     rpc_new_address = Some [1], rpc_op_return = (\<lambda>d. d), rpc_send = (\<lambda>tx. Some [32])\<rparr>"

definition toy_tick :: tick where
  "toy_tick = \<lparr>t_rpc = toy_rpc, t_secs = 1000, t_millis = 1000, t_loaded = True,
     t_saved = (\<lambda>n. True), t_mempool = None\<rparr>"

definition toy_pending :: pending_anchor where
  "toy_pending = \<lparr>pa_txid = [32],
     pa_merkle_root = the (ots_merkle_root (cat_sha256d toy_ex) [[1], [2], [3]]),
     pa_batch = [[1], [2], [3]], pa_broadcast_at = 0\<rparr>"

lemmas toy_root_eval = ots_merkle_root_def root_loop.simps pad_last_def cat_sha256d_def toy_ex_def
  merkle_path_def merkle_path_loop.simps

theorem confirmed_batch_wedges_witness:
  "\<forall>n. let c = fresh_calendar\<lparr>cal_disk := ([[4]], empty_store\<lparr>cs_pending := Some toy_pending\<rparr>)\<rparr>
   in cal_disk (run_ticks toy_ots toy_config (replicate n toy_tick) 0 c) = cal_disk c"
proof
  fix n
  let ?c = "fresh_calendar\<lparr>cal_disk := ([[4]], empty_store\<lparr>cs_pending := Some toy_pending\<rparr>)\<rparr>"
  have "pa_batch toy_pending ! 0 \<noteq> pa_merkle_root toy_pending"
    by (simp add: toy_pending_def toy_root_eval)
  moreover obtain path where path:
    "merkle_path (cat_sha256d (ots_ex toy_ots)) (pa_batch toy_pending) 0 = Some path"
    "climb (cat_sha256d (ots_ex toy_ots)) (pa_batch toy_pending ! 0) (rev path) \<noteq>
      pa_merkle_root toy_pending"
    by (simp add: toy_ots_def toy_pending_def toy_root_eval)
  moreover have "\<exists>x. find_confirmed_tx (t_rpc toy_tick) (pa_txid toy_pending) = Ok (Some x)"
    by (simp add: find_confirmed_tx_def toy_tick_def toy_rpc_def toy_pending_def toy_block3_def
        toy_tx_def)
  ultimately have "cal_disk (run_ticks toy_ots toy_config (replicate n toy_tick) 0 ?c) = cal_disk ?c"
    using confirmed_batch_wedges [of ?c toy_pending 0 toy_ots path "replicate n toy_tick"
        toy_config 0]
    by (simp add: toy_pending_def toy_tick_def)
  then show "let c = ?c in
      cal_disk (run_ticks toy_ots toy_config (replicate n toy_tick) 0 c) = cal_disk c"
    by simp
qed


text \<open>While a batch is being anchored its digests are unknown to clients: right after a tick
  that broadcast an anchor, upgrading any digest of the batch that has no proof yet answers
  that the digest is not in the calendar.\<close>

theorem anchored_digest_not_found:
  assumes "anchor_once oc cfg t last_tx c = (Ok (), c', last_tx', ltp)"
    and "cs_pending (snd (cal_disk c)) = None" "cs_pending (cal_store c') = Some p"
    and "distinct (fst (cal_disk c))" "cs_batches (snd (cal_disk c)) = []"
    and "d \<in> set (pa_batch p)" "length d = 32" "get_proof d (cal_store c') = None"
  shows "upgrade_digest oc uri d c' = Err NotFound"
proof -
  let ?c = "c\<lparr>cal_queue := fst (cal_disk c), cal_store := snd (cal_disk c)\<rparr>"
  have loaded: "reload_from_disk (t_loaded t) c = (Ok (), ?c)"
    using assms(1) by (cases "t_loaded t") (simp_all add: anchor_once_def reload_from_disk_eq)
  have pend: "check_pending oc cfg t ?c = (None, ?c)"
    using assms(2) by (simp add: check_pending_def)
  obtain fee where fee: "check_funds cfg t last_tx = Go fee"
    using assms(1,2,3) loaded pend
    by (cases "check_funds cfg t last_tx")
      (auto simp: anchor_once_def record_anchor_skipped_def save_state_def split: if_splits)
  obtain r c2 where d: "drain_for_anchor (ots_ex oc) cfg (t_mempool t) (t_saved t 2) ?c = (r, c2)"
    by (rule prod.exhaust)
  from drain_cases [OF d] assms(1,2,3) loaded pend fee d obtain batch q root ltp' where
    perm: "mset batch + mset q = mset (fst (cal_disk c))"
    and c2: "memory c2 = (q, (snd (cal_disk c))\<lparr>cs_batches := btree_insert root batch []\<rparr>)"
    and r: "r = Ok (Some (batch, root, ltp'))"
    using assms(5) by (auto simp: anchor_once_def split: if_splits result.splits option.splits)
  obtain txid where
    c': "record_broadcast (t_secs t) (t_saved t 3) txid batch root c2 = (Ok (), c')"
    using assms(1) loaded pend fee d r
    by (auto simp: anchor_once_def split: prod.splits result.splits)
  have "cal_queue c' = q" "cs_batches (cal_store c') = []" "pa_batch p = batch"
    using c' c2 assms(3)
    by (auto simp: record_broadcast_def save_state_def memory_def btree_remove_def split: if_splits)
  moreover have "d \<notin> set q"
    using mset_split_distinct [OF perm assms(4)] assms(6) calculation(3) by auto
  ultimately show ?thesis
    using assms(7,8) by (simp add: upgrade_digest_def)
qed

theorem anchored_digest_not_found_witness:
  "let c = fresh_calendar\<lparr>cal_disk := ([toy_digest], empty_store)\<rparr>;
       (r, c', last_tx, ltp) = anchor_once toy_ots toy_config toy_tick 0 c
   in r = Ok () \<and> upgrade_digest toy_ots ''u'' toy_digest c' = Err NotFound"
proof -
  let ?c = "fresh_calendar\<lparr>cal_disk := ([toy_digest], empty_store)\<rparr>"
  let ?c' = "fst (snd (anchor_once toy_ots toy_config toy_tick 0 ?c))"
  note ev = anchor_once_def reload_from_disk_eq check_pending_def check_funds_def toy_tick_def
    toy_rpc_def toy_config_def toy_ots_def empty_store_def fresh_calendar_def anchor_fee_sats_def
    ensure_wallet_funded_def has_spendable_utxo_def drain_for_anchor_def drain_choice_def
    drain_batch_def ots_merkle_root_def root_loop.simps save_state_def broadcast_anchor_def
    ok_or_def checked_sub_def record_broadcast_def Let_def DUST_SATS_def
    REGTEST_ANCHOR_FEE_SATS_def btree_remove_def
  have run: "anchor_once toy_ots toy_config toy_tick 0 ?c = (Ok (), ?c', 1000, [])"
    and pend: "cs_pending (cal_store ?c') = Some \<lparr>pa_txid = [32], pa_merkle_root = toy_digest,
      pa_batch = [toy_digest], pa_broadcast_at = 1000\<rparr>"
    and noproof: "get_proof toy_digest (cal_store ?c') = None"
    by (simp_all add: ev get_proof_def)
  have "upgrade_digest toy_ots ''u'' toy_digest ?c' = Err NotFound"
    by (rule anchored_digest_not_found [OF run _ pend _ _ _ _ noproof])
      (simp_all add: empty_store_def toy_digest_def)
  then have "case (Ok (), ?c', 1000 :: nat, [] :: digest list) of (r, c', last_tx, ltp) \<Rightarrow>
      r = Ok () \<and> upgrade_digest toy_ots ''u'' toy_digest c' = Err NotFound"
    by simp
  then show ?thesis unfolding Let_def by (rule ssubst [OF run])
qed

lemma max_by_amount_member:
  "max_by_amount us = Some u \<Longrightarrow> u \<in> set us \<and> (\<forall>v \<in> set us. un_amount v \<le> un_amount u)"
proof (induction us arbitrary: u)
  case (Cons v us)
  then show ?case
    by (cases "max_by_amount us"; cases us) (fastforce split: if_splits option.splits)+
qed simp

text \<open>The anchor transaction spends the largest output of the wallet, which exceeds the
  fee by more than the dust limit; its two outputs are the change, above the dust limit, and
  the batch root with no value; and exactly the fee is left for the miner.\<close>

theorem anchor_transaction_balanced:
  assumes "broadcast_anchor r fee root = Ok tx" "unat fee + 330 < 2 ^ 64"
  shows "\<exists>u us change script. rpc_list_unspent r = Some us \<and> u \<in> set us \<and>
    ut_input tx = un_outpoint u \<and>
    ut_outputs tx = [(change, script), (0, rpc_op_return r root)] \<and>
    unat change > 330 \<and> unat (un_amount u) = unat change + unat fee \<and>
    (\<forall>v \<in> set us. un_amount v \<le> un_amount u)"
proof -
  let ?P = "\<lambda>u. un_amount u > DUST_SATS + fee"
  from assms(1) obtain us u script change where us: "rpc_list_unspent r = Some us"
    and u: "max_by_amount (filter ?P us) = Some u"
    and ch: "checked_sub (un_amount u) fee = Some change"
    and tx: "ut_input tx = un_outpoint u"
      "ut_outputs tx = [(change, script), (0, rpc_op_return r root)]"
    by (auto simp: broadcast_anchor_def ok_elims)
  from max_by_amount_member [OF u] have m: "u \<in> set us" "?P u"
    "\<forall>v \<in> set (filter ?P us). un_amount v \<le> un_amount u" by auto
  have sum: "unat (DUST_SATS + fee) = 330 + unat fee"
    using assms(2) by (subst unat_add_small) (simp_all add: DUST_SATS_def)
  from ch have "fee \<le> un_amount u" "unat change = unat (un_amount u) - unat fee"
    by (auto simp: checked_sub_Some unat_sub)
  moreover have "unat (un_amount u) > 330 + unat fee"
    using m(2) sum by (simp add: word_less_nat_alt)
  ultimately have amounts: "unat change > 330" "unat (un_amount u) = unat change + unat fee"
    by simp_all
  have "un_amount v \<le> un_amount u" if "v \<in> set us" for v
    using m(2,3) that by (cases "?P v") auto
  with us m(1) tx amounts show ?thesis by blast
qed

theorem anchor_transaction_balanced_witness:
  "\<exists>tx. broadcast_anchor toy_rpc 1000 [9] = Ok tx \<and> ut_outputs tx = [(4000, [1]), (0, [9])]"
proof -
  let ?tx = "ok_of (broadcast_anchor toy_rpc 1000 [9])"
  have ok: "broadcast_anchor toy_rpc 1000 [9] = Ok ?tx" and "ut_outputs ?tx = [(4000, [1]), (0, [9])]"
    by (simp_all add: broadcast_anchor_def toy_rpc_def ok_or_def checked_sub_def DUST_SATS_def)
  then show ?thesis using anchor_transaction_balanced [OF ok] by auto
qed

end
