(* ===== verification/CommitmentStore.thy ===== *)
theory CommitmentStore
  imports OtsProof Btree
begin

text \<open>
  The store of commitments (\<open>lord-storage/src/store.rs\<close>, \<open>meta.rs\<close>): the metadata of a
  commitment by its root, the order database from order keys to roots with the byte
  encoding of its keys, and the migrations between versions of the schema. The
  serialization of records (\<open>rkyv\<close>) and the parser of proof files are parameters; a write
  transaction is a function on the store whose result is dropped when it fails. LMDB
  iterates in the order of the keys.
\<close>

section \<open>Encoding of order keys\<close>

datatype store_error =
    PathTooLong
  | ByteOutOfRange
  | KeyEmpty
  | MissingTerminator
  | ZeroByte
  | UnreadableRecord
  | MissingCommitment bytes
  | OrderKeyTaken bytes bytes
  | BadRootLength
  | RootMismatch
  | OrderKeyChanged
  | OlderSchema u64
  | NewerSchema u64
  | BrecciaUnreadable
  | ForkPanic

definition MAX_OTS_ORDER_PATH_LEN :: nat where "MAX_OTS_ORDER_PATH_LEN = 254"

fun encode_path :: "bytes \<Rightarrow> (store_error, bytes) result" where
  "encode_path [] = Ok [0]"
| "encode_path (b # bs) =
     and_then (ok_or (checked_add b 1) ByteOutOfRange) (\<lambda>c.
     and_then (encode_path bs) (\<lambda>cs. Ok (c # cs)))"

definition encode_order_key_for_lmdb :: "bytes \<Rightarrow> (store_error, bytes) result" where
  "encode_order_key_for_lmdb key =
     (if key = NO_ATTESTATION_SENTINEL then Ok NO_ATTESTATION_SENTINEL
      else and_then (ensure (length key \<le> MAX_OTS_ORDER_PATH_LEN) PathTooLong) (\<lambda>_.
      if key = [] then Ok [0] else encode_path key))"

fun decode_path :: "bytes \<Rightarrow> (store_error, bytes) result" where
  "decode_path [] = Ok []"
| "decode_path (b # bs) =
     and_then (ensure (b \<noteq> 0) ZeroByte) (\<lambda>_.
     and_then (decode_path bs) (\<lambda>cs. Ok ((b - 1) # cs)))"

definition decode_order_key_from_lmdb :: "bytes \<Rightarrow> (store_error, bytes) result" where
  "decode_order_key_from_lmdb encoded =
     (if encoded = NO_ATTESTATION_SENTINEL then Ok NO_ATTESTATION_SENTINEL
      else if encoded = [0] then Ok []
      else if encoded = [] then Err KeyEmpty
      else and_then (ensure (last encoded = 0) MissingTerminator) (\<lambda>_.
        decode_path (butlast encoded)))"

lemma u8_below: "(b :: u8) \<noteq> 255 \<longleftrightarrow> unat b < 255"
proof -
  have "b = 255 \<longleftrightarrow> unat b = 255" by (simp add: word_unat_eq_iff)
  then show ?thesis using unat_u8_less [of b] by linarith
qed

lemma unat_u8_succ: "(b :: u8) \<noteq> 255 \<Longrightarrow> unat (b + 1) = unat b + 1"
  unfolding u8_below by (simp add: unat_add_small)

lemma encode_path_eq:
  "encode_path key = Ok e \<longleftrightarrow> 255 \<notin> set key \<and> e = map (\<lambda>b. b + 1) key @ [0]"
proof (induction key arbitrary: e)
  case Nil
  then show ?case by auto
next
  case (Cons b bs)
  have "checked_add b 1 = Some c \<longleftrightarrow> b \<noteq> 255 \<and> c = b + 1" for c
    unfolding u8_below by (auto simp: checked_add_Some)
  with Cons show ?case by (auto simp: ok_elims)
qed

lemma decode_path_map:
  "255 \<notin> set key \<Longrightarrow> decode_path (map (\<lambda>b. b + 1) key) = Ok key"
proof (induction key)
  case Nil
  then show ?case by simp
next
  case (Cons b bs)
  have "b + 1 \<noteq> 0" if "b \<noteq> 255" using unat_u8_succ [OF that] by auto
  with Cons show ?case by (auto simp: ensure_def)
qed

lemma encode_eq:
  "encode_order_key_for_lmdb key = Ok e \<longleftrightarrow>
     (if key = NO_ATTESTATION_SENTINEL then e = NO_ATTESTATION_SENTINEL
      else length key \<le> 254 \<and> 255 \<notin> set key \<and> e = map (\<lambda>b. b + 1) key @ [0])"
  by (cases "key = []")
    (auto simp: encode_order_key_for_lmdb_def encode_path_eq ok_elims MAX_OTS_ORDER_PATH_LEN_def
      NO_ATTESTATION_SENTINEL_def)

lemma sentinel_last: "last NO_ATTESTATION_SENTINEL = 255" "NO_ATTESTATION_SENTINEL \<noteq> []"
  by (simp_all add: NO_ATTESTATION_SENTINEL_def numeral_eq_Suc)

lemma encode_decode:
  assumes "encode_order_key_for_lmdb key = Ok e"
  shows "decode_order_key_from_lmdb e = Ok key"
proof (cases "key = NO_ATTESTATION_SENTINEL")
  case True
  with assms show ?thesis by (simp add: encode_eq decode_order_key_from_lmdb_def)
next
  case False
  with assms have e: "e = map (\<lambda>b. b + 1) key @ [0]" "255 \<notin> set key"
    by (simp_all add: encode_eq)
  from e(1) have "last e = 0" by simp
  then have "e \<noteq> NO_ATTESTATION_SENTINEL" using sentinel_last(1) by (intro notI) simp
  moreover have "e = [0] \<longleftrightarrow> key = []" using e by simp
  ultimately show ?thesis
    using e by (simp add: decode_order_key_from_lmdb_def decode_path_map ensure_def)
qed

lemma encode_inj:
  "encode_order_key_for_lmdb k = Ok e \<Longrightarrow> encode_order_key_for_lmdb k' = Ok e \<Longrightarrow> k = k'"
  using encode_decode [of k e] encode_decode [of k' e] by simp

lemma succ_less_iff: "a \<noteq> 255 \<Longrightarrow> b \<noteq> 255 \<Longrightarrow> a + 1 < b + 1 \<longleftrightarrow> a < (b :: u8)"
  by (simp add: word_less_nat_alt unat_u8_succ)

lemma succ_pos: "(b :: u8) \<noteq> 255 \<Longrightarrow> 0 < b + 1"
  by (simp add: word_less_nat_alt unat_u8_succ)

lemma encoded_less:
  "255 \<notin> set k \<Longrightarrow> 255 \<notin> set k' \<Longrightarrow>
   map (\<lambda>b. b + 1) k @ [0 :: u8] < map (\<lambda>b. b + 1) k' @ [0] \<longleftrightarrow> k < k'"
proof (induction k arbitrary: k')
  case Nil
  then show ?case by (cases k') (auto simp: succ_pos)
next
  case (Cons b k)
  then show ?case
    by (cases k') (auto simp: succ_less_iff)
qed


section \<open>Records\<close>

datatype layout = Inboard | Outboard

datatype visibility = Public | Private

definition visibility_from_format :: "u8 \<Rightarrow> visibility" where
  "visibility_from_format fmt = (if fmt mod 2 = 0 then Public else Private)"

record commitment_meta =
  cm_bao_root :: bytes
  cm_carbonado_path :: string
  cm_format :: u8
  cm_visibility :: visibility
  cm_layout :: layout
  cm_filepack_fp :: "string option"
  cm_created_at :: u64
  cm_ots_proof_path :: "string option"
  cm_ots_order_key :: "bytes option"
  cm_timestamped_at :: "u64 option"

definition new_meta :: "bytes \<Rightarrow> string \<Rightarrow> u8 \<Rightarrow> layout \<Rightarrow> u64 \<Rightarrow> commitment_meta" where
  "new_meta root path fmt lay created =
     \<lparr>cm_bao_root = root, cm_carbonado_path = path, cm_format = fmt,
      cm_visibility = visibility_from_format fmt, cm_layout = lay, cm_filepack_fp = None,
      cm_created_at = created, cm_ots_proof_path = None, cm_ots_order_key = None,
      cm_timestamped_at = None\<rparr>"

definition is_timestamped :: "commitment_meta \<Rightarrow> bool" where
  "is_timestamped m = (cm_ots_proof_path m \<noteq> None \<and> cm_ots_order_key m \<noteq> None)"

record commitment_meta_v1 =
  v1_bao_root :: bytes
  v1_carbonado_path :: string
  v1_format :: u8
  v1_visibility :: visibility
  v1_layout :: layout
  v1_filepack_fp :: "string option"
  v1_created_at :: u64

definition meta_from_v1 :: "commitment_meta_v1 \<Rightarrow> commitment_meta" where
  "meta_from_v1 m =
     \<lparr>cm_bao_root = v1_bao_root m, cm_carbonado_path = v1_carbonado_path m,
      cm_format = v1_format m, cm_visibility = v1_visibility m, cm_layout = v1_layout m,
      cm_filepack_fp = v1_filepack_fp m, cm_created_at = v1_created_at m,
      cm_ots_proof_path = None, cm_ots_order_key = None, cm_timestamped_at = None\<rparr>"

record commitment_meta_v2 = commitment_meta_v1 +
  v2_ots_proof_path :: "string option"
  v2_ots_order_key :: "bytes option"

definition meta_from_v2 :: "commitment_meta_v2 \<Rightarrow> commitment_meta" where
  "meta_from_v2 m =
     \<lparr>cm_bao_root = v1_bao_root m, cm_carbonado_path = v1_carbonado_path m,
      cm_format = v1_format m, cm_visibility = v1_visibility m, cm_layout = v1_layout m,
      cm_filepack_fp = v1_filepack_fp m, cm_created_at = v1_created_at m,
      cm_ots_proof_path = v2_ots_proof_path m, cm_ots_order_key = v2_ots_order_key m,
      cm_timestamped_at = None\<rparr>"

section \<open>The store\<close>

text \<open>The three databases; \<open>sto_schema\<close> is the one statistic, absent in a fresh environment.\<close>

record commitment_store =
  sto_meta :: "(bytes \<times> bytes) list"
  sto_order :: "(bytes \<times> bytes) list"
  sto_schema :: "u64 option"

record meta_codec =
  read_v1 :: "bytes \<Rightarrow> commitment_meta_v1 option"
  read_v2 :: "bytes \<Rightarrow> commitment_meta_v2 option"
  read_meta :: "bytes \<Rightarrow> commitment_meta option"
  write_meta :: "commitment_meta \<Rightarrow> bytes"

definition codec_ok :: "meta_codec \<Rightarrow> bool" where
  "codec_ok cd \<longleftrightarrow> (\<forall>m. read_meta cd (write_meta cd m) = Some m)"

definition SCHEMA_VERSION :: u64 where "SCHEMA_VERSION = 4"

definition put_commitment :: "meta_codec \<Rightarrow> commitment_meta \<Rightarrow> commitment_store \<Rightarrow> commitment_store" where
  "put_commitment cd m st =
     st\<lparr>sto_meta := btree_insert (cm_bao_root m) (write_meta cd m) (sto_meta st)\<rparr>"

definition get_commitment ::
  "meta_codec \<Rightarrow> commitment_store \<Rightarrow> bytes \<Rightarrow> (store_error, commitment_meta option) result" where
  "get_commitment cd st root =
     (case map_of (sto_meta st) root of
        None \<Rightarrow> Ok None
      | Some archived \<Rightarrow>
          and_then (ok_or (read_meta cd archived) UnreadableRecord) (\<lambda>m. Ok (Some m)))"

definition update_filepack_fp ::
  "meta_codec \<Rightarrow> bytes \<Rightarrow> string \<Rightarrow> commitment_store \<Rightarrow> (store_error, commitment_store) result" where
  "update_filepack_fp cd root fingerprint st =
     and_then (get_commitment cd st root) (\<lambda>found.
     and_then (ok_or found (MissingCommitment root)) (\<lambda>m.
     Ok (put_commitment cd (m\<lparr>cm_filepack_fp := Some fingerprint\<rparr>) st)))"

definition commitment_count :: "commitment_store \<Rightarrow> nat" where
  "commitment_count st = length (sto_meta st)"

definition has_commitment :: "commitment_store \<Rightarrow> bytes \<Rightarrow> bool" where
  "has_commitment st root = (map_of (sto_meta st) root \<noteq> None)"

definition max_commitment_raw_value_len :: "commitment_store \<Rightarrow> nat" where
  "max_commitment_raw_value_len st = fold (\<lambda>e mx. max mx (length (snd e))) (sto_meta st) 0"

definition put_commitment_order ::
  "bytes \<Rightarrow> bytes \<Rightarrow> commitment_store \<Rightarrow> (store_error, commitment_store) result" where
  "put_commitment_order order_key root st =
     and_then (encode_order_key_for_lmdb order_key) (\<lambda>encoded.
     case map_of (sto_order st) encoded of
       Some existing \<Rightarrow>
         if existing \<noteq> root then Err (OrderKeyTaken order_key existing)
         else Ok (st\<lparr>sto_order := btree_insert encoded root (sto_order st)\<rparr>)
     | None \<Rightarrow> Ok (st\<lparr>sto_order := btree_insert encoded root (sto_order st)\<rparr>))"

definition delete_commitment_order ::
  "bytes \<Rightarrow> commitment_store \<Rightarrow> (store_error, commitment_store) result" where
  "delete_commitment_order order_key st =
     and_then (encode_order_key_for_lmdb order_key) (\<lambda>encoded.
     Ok (st\<lparr>sto_order := btree_remove encoded (sto_order st)\<rparr>))"

fun decode_order_entries :: "(bytes \<times> bytes) list \<Rightarrow> (store_error, (bytes \<times> bytes) list) result" where
  "decode_order_entries [] = Ok []"
| "decode_order_entries ((encoded, root) # es) =
     and_then (decode_order_key_from_lmdb encoded) (\<lambda>key.
     and_then (ensure (length root = 32) BadRootLength) (\<lambda>_.
     and_then (decode_order_entries es) (\<lambda>rest. Ok ((key, root) # rest))))"

definition list_commitments_by_order ::
  "commitment_store \<Rightarrow> (store_error, (bytes \<times> bytes) list) result" where
  "list_commitments_by_order st = decode_order_entries (sto_order st)"

section \<open>Migrations\<close>

definition statistic :: "commitment_store \<Rightarrow> u64" where
  "statistic st = (case sto_schema st of None \<Rightarrow> 0 | Some v \<Rightarrow> v)"

definition set_schema :: "u64 \<Rightarrow> commitment_store \<Rightarrow> commitment_store" where
  "set_schema v st = st\<lparr>sto_schema := Some v\<rparr>"

fun migrate_records ::
  "(bytes \<Rightarrow> 'r option) \<Rightarrow> ('r \<Rightarrow> commitment_meta) \<Rightarrow> (bytes \<times> bytes) list \<Rightarrow>
   (store_error, commitment_meta list) result" where
  "migrate_records read from [] = Ok []"
| "migrate_records read from ((root, archived) # es) =
     and_then (ensure (length root = 32) BadRootLength) (\<lambda>_.
     and_then (ok_or (read archived) UnreadableRecord) (\<lambda>r.
     and_then (ensure (root = cm_bao_root (from r)) RootMismatch) (\<lambda>_.
     and_then (migrate_records read from es) (\<lambda>rest. Ok (from r # rest)))))"

definition migrate_v1_to_v2 ::
  "meta_codec \<Rightarrow> commitment_store \<Rightarrow> (store_error, commitment_store) result" where
  "migrate_v1_to_v2 cd st =
     and_then (migrate_records (read_v1 cd) meta_from_v1 (sto_meta st)) (\<lambda>migrated.
     Ok (set_schema SCHEMA_VERSION (fold (put_commitment cd) migrated st)))"

definition timestamp_v2 :: "(bytes \<Rightarrow> u64 option) \<Rightarrow> commitment_meta_v2 \<Rightarrow> commitment_meta" where
  "timestamp_v2 breccia_timestamps r =
     (let m = meta_from_v2 r in
      if cm_ots_order_key m \<noteq> None
      then m\<lparr>cm_timestamped_at := Some (case breccia_timestamps (v1_bao_root r) of
               Some t \<Rightarrow> t | None \<Rightarrow> cm_created_at m)\<rparr>
      else m)"

text \<open>The timestamps read from the log, \<open>None\<close> when reading it fails.\<close>

definition migrate_v2_to_v3 ::
  "meta_codec \<Rightarrow> (bytes \<Rightarrow> u64 option) option \<Rightarrow> commitment_store \<Rightarrow>
   (store_error, commitment_store) result" where
  "migrate_v2_to_v3 cd breccia_timestamps st =
     and_then (ok_or breccia_timestamps BrecciaUnreadable) (\<lambda>ts.
     and_then (migrate_records (read_v2 cd) (timestamp_v2 ts) (sto_meta st)) (\<lambda>migrated.
     Ok (set_schema SCHEMA_VERSION (fold (put_commitment cd) migrated st))))"

datatype v4_action = Rekey bytes bytes bytes | ClearStale bytes bytes

fun v4_actions ::
  "meta_codec \<Rightarrow> (bytes \<Rightarrow> timestamp option) \<Rightarrow> (string \<Rightarrow> bytes option) \<Rightarrow>
   (bytes \<times> bytes) list \<Rightarrow> (store_error, v4_action list) result" where
  "v4_actions cd parse files [] = Ok []"
| "v4_actions cd parse files ((root, archived) # es) =
     and_then (ensure (length root = 32) BadRootLength) (\<lambda>_.
     and_then (ok_or (read_meta cd archived) UnreadableRecord) (\<lambda>m.
     case cm_ots_proof_path m of
       None \<Rightarrow> v4_actions cd parse files es
     | Some path \<Rightarrow>
         let old_key = (case cm_ots_order_key m of Some k \<Rightarrow> k | None \<Rightarrow> []) in
         and_then
           (case files path of
              None \<Rightarrow> Ok (ClearStale root old_key)
            | Some proof \<Rightarrow> (case order_key_from_proof_bytes parse proof of
                  None \<Rightarrow> Ok (ClearStale root old_key)
                | Some None \<Rightarrow> Err ForkPanic
                | Some (Some new_key) \<Rightarrow> Ok (Rekey root old_key new_key))) (\<lambda>action.
         and_then (v4_actions cd parse files es) (\<lambda>rest. Ok (action # rest)))))"

definition delete_stored_commitment_order_keys :: "bytes \<Rightarrow> commitment_store \<Rightarrow> commitment_store" where
  "delete_stored_commitment_order_keys order_key st =
     (if order_key = [] then st
      else
        let o1 = (case encode_order_key_for_lmdb order_key of
                    Ok encoded \<Rightarrow> btree_remove encoded (sto_order st) | Err _ \<Rightarrow> sto_order st);
            o2 = (if length order_key \<le> MAX_OTS_ORDER_PATH_LEN
                  then btree_remove (word_of_nat (length order_key) # order_key) o1 else o1)
        in st\<lparr>sto_order := btree_remove order_key o2\<rparr>)"

definition v4_apply :: "meta_codec \<Rightarrow> v4_action \<Rightarrow> commitment_store \<Rightarrow> (store_error, commitment_store) result" where
  "v4_apply cd action st =
     (case action of
        Rekey root old_key new_key \<Rightarrow>
          and_then (get_commitment cd st root) (\<lambda>found.
          case found of
            None \<Rightarrow> Ok st
          | Some m \<Rightarrow>
              and_then (ensure (\<not> (\<exists>current. cm_ots_order_key m = Some current \<and> current \<noteq> old_key))
                  OrderKeyChanged) (\<lambda>_.
              let st = (if cm_ots_order_key m \<noteq> Some new_key
                        then put_commitment cd (m\<lparr>cm_ots_order_key := Some new_key\<rparr>) st else st);
                  st = delete_stored_commitment_order_keys old_key st
              in put_commitment_order new_key root st))
      | ClearStale root old_key \<Rightarrow>
          and_then (get_commitment cd st root) (\<lambda>found.
          case found of
            None \<Rightarrow> Ok st
          | Some m \<Rightarrow>
              let st = (if cm_ots_order_key m \<noteq> None
                        then put_commitment cd (m\<lparr>cm_ots_order_key := None\<rparr>) st else st)
              in Ok (delete_stored_commitment_order_keys old_key st)))"

fun v4_apply_all :: "meta_codec \<Rightarrow> v4_action list \<Rightarrow> commitment_store \<Rightarrow> (store_error, commitment_store) result" where
  "v4_apply_all cd [] st = Ok st"
| "v4_apply_all cd (a # as) st = and_then (v4_apply cd a st) (v4_apply_all cd as)"

definition migrate_v3_to_v4 ::
  "meta_codec \<Rightarrow> (bytes \<Rightarrow> timestamp option) \<Rightarrow> (string \<Rightarrow> bytes option) \<Rightarrow> commitment_store \<Rightarrow>
   (store_error, commitment_store) result" where
  "migrate_v3_to_v4 cd parse files st =
     and_then (v4_actions cd parse files (sto_meta st)) (\<lambda>actions.
     and_then (v4_apply_all cd actions st) (\<lambda>st.
     Ok (set_schema SCHEMA_VERSION st)))"

record store_env =
  se_codec :: meta_codec
  se_parse :: "bytes \<Rightarrow> timestamp option"
  se_files :: "string \<Rightarrow> bytes option"
  se_breccia_timestamps :: "(bytes \<Rightarrow> u64 option) option"

definition migrate_step ::
  "store_env \<Rightarrow> commitment_store \<Rightarrow> (store_error, commitment_store) result" where
  "migrate_step E st =
     (if statistic st = 1 then migrate_v1_to_v2 (se_codec E) st
      else if statistic st = 2 then migrate_v2_to_v3 (se_codec E) (se_breccia_timestamps E) st
      else if statistic st = 3 then migrate_v3_to_v4 (se_codec E) (se_parse E) (se_files E) st
      else Err (OlderSchema (statistic st)))"

lemma migrate_step_schema: "migrate_step E st = Ok st' \<Longrightarrow> statistic st' = SCHEMA_VERSION"
  by (auto simp: migrate_step_def migrate_v1_to_v2_def migrate_v2_to_v3_def migrate_v3_to_v4_def
      set_schema_def statistic_def ok_elims split: if_splits)

function ensure_schema_version ::
  "store_env \<Rightarrow> commitment_store \<Rightarrow> (store_error, commitment_store) result" where
  "ensure_schema_version E st =
     (if statistic st < SCHEMA_VERSION then
        (case migrate_step E st of Err e \<Rightarrow> Err e | Ok st' \<Rightarrow> ensure_schema_version E st')
      else if statistic st > SCHEMA_VERSION then Err (NewerSchema (statistic st))
      else Ok st)"
  by pat_completeness auto
termination
  by (relation "measure (\<lambda>(E, st). if statistic st < SCHEMA_VERSION then 1 else 0)")
    (auto dest: migrate_step_schema)

declare ensure_schema_version.simps [simp del]

text \<open>One migration is all: each of them records the current version.\<close>

lemma ensure_schema_version_once:
  "statistic st < SCHEMA_VERSION \<Longrightarrow> ensure_schema_version E st = migrate_step E st"
proof (cases "migrate_step E st")
  case (Ok st1)
  assume "statistic st < SCHEMA_VERSION"
  with Ok migrate_step_schema [OF Ok] show ?thesis
    by (subst ensure_schema_version.simps, simp) (subst ensure_schema_version.simps, simp)
qed (subst ensure_schema_version.simps, simp)

definition initialize_schema_version :: "commitment_store \<Rightarrow> commitment_store" where
  "initialize_schema_version st = set_schema SCHEMA_VERSION st"

definition open_store :: "store_env \<Rightarrow> bool \<Rightarrow> commitment_store \<Rightarrow> (store_error, commitment_store) result" where
  "open_store E existing st =
     (if existing then ensure_schema_version E st else Ok (initialize_schema_version st))"


section \<open>Order of the encoded keys\<close>

lemma replicate_8: "replicate 8 x = [x, x, x, x, x, x, x, x]"
  by (simp add: numeral_eq_Suc)

lemma path_less_sentinel: "255 \<notin> set k \<Longrightarrow> 0 < n \<Longrightarrow> k < replicate n (255 :: u8)"
proof (induction k)
  case Nil
  then show ?case by (cases n) auto
next
  case (Cons b k)
  then have "b < 255" using u8_below [of b] by (simp add: word_less_nat_alt)
  with Cons show ?case by (cases n) auto
qed

lemma sentinel_less_encoded:
  "255 \<notin> set k \<Longrightarrow> replicate n (255 :: u8) < map (\<lambda>b. b + 1) k @ [0] \<Longrightarrow>
   take n k = replicate n 254"
proof (induction n arbitrary: k)
  case 0
  then show ?case by simp
next
  case (Suc n)
  show ?case
  proof (cases k)
    case Nil
    with Suc.prems show ?thesis by simp
  next
    case (Cons b k')
    with Suc.prems have b: "b \<noteq> 255" by auto
    have "unat (b + 1) \<le> 255" using b unat_u8_succ [OF b] by (simp add: u8_below)
    then have "\<not> 255 < b + 1" by (simp add: word_less_nat_alt)
    with Suc.prems Cons have b1: "b + 1 = 255"
      and rest: "replicate n (255 :: u8) < map (\<lambda>b. b + 1) k' @ [0]" by auto
    from b1 have "b = 255 - 1" by (metis add_diff_cancel_right')
    with Cons Suc.IH [of k'] Suc.prems rest show ?thesis by simp
  qed
qed

text \<open>Keys of forks below 254, or with fewer than eight of them first.\<close>

definition below_sentinel :: "bytes \<Rightarrow> bool" where
  "below_sentinel key \<longleftrightarrow> take 8 key \<noteq> replicate 8 254"

lemma encoded_order:
  assumes "encode_order_key_for_lmdb k = Ok e" "encode_order_key_for_lmdb k' = Ok e'"
    and "below_sentinel k" "below_sentinel k'"
  shows "e < e' \<longleftrightarrow> k < k'"
proof -
  let ?S = "NO_ATTESTATION_SENTINEL"
  have S: "?S = replicate 8 255" by (simp add: NO_ATTESTATION_SENTINEL_def)
  have le: "k < ?S \<and> map (\<lambda>b. b + 1) k @ [0] < ?S"
    if "255 \<notin> set k" "below_sentinel k" for k
  proof -
    have "\<not> ?S < map (\<lambda>b. b + 1) k @ [0]"
      using sentinel_less_encoded [of k 8] that by (auto simp: S below_sentinel_def)
    moreover have "last (map (\<lambda>b. b + 1) k @ [0 :: u8]) \<noteq> last ?S"
      using sentinel_last(1) by simp
    then have "map (\<lambda>b. b + 1) k @ [0] \<noteq> ?S" by (rule contrapos_nn) (rule arg_cong)
    ultimately have "map (\<lambda>b. b + 1) k @ [0] < ?S"
      by (metis not_less_iff_gr_or_eq)
    moreover have "k < ?S" using path_less_sentinel [OF that(1), of 8] S by simp
    ultimately show ?thesis by (rule conjI [rotated])
  qed
  show ?thesis
  proof (cases "k = ?S"; cases "k' = ?S")
    assume "k = ?S" "k' = ?S"
    with assms show ?thesis by (simp add: encode_eq)
  next
    assume "k = ?S" "k' \<noteq> ?S"
    with assms have "e = ?S" "e' = map (\<lambda>b. b + 1) k' @ [0]" "255 \<notin> set k'"
      by (simp_all add: encode_eq)
    with le [of k'] assms(4) \<open>k = ?S\<close> show ?thesis by (auto dest: less_asym)
  next
    assume "k \<noteq> ?S" "k' = ?S"
    with assms have "e' = ?S" "e = map (\<lambda>b. b + 1) k @ [0]" "255 \<notin> set k"
      by (simp_all add: encode_eq)
    with le [of k] assms(3) \<open>k' = ?S\<close> show ?thesis by simp
  next
    assume "k \<noteq> ?S" "k' \<noteq> ?S"
    with assms show ?thesis by (simp add: encode_eq encoded_less)
  qed
qed

text \<open>The encoding of an order key decodes to the key, and the order in which LMDB iterates
  over encoded keys is the lexicographic order of the keys, the sentinel included, as long
  as no key starts with eight forks at index 254.\<close>

theorem order_key_codec:
  assumes "encode_order_key_for_lmdb k = Ok e" "encode_order_key_for_lmdb k' = Ok e'"
    and "below_sentinel k" "below_sentinel k'"
  shows "decode_order_key_from_lmdb e = Ok k \<and> (e = e' \<longleftrightarrow> k = k') \<and> (e < e' \<longleftrightarrow> k < k')"
  using encode_decode [OF assms(1)] encode_inj [of k e k'] assms encoded_order [OF assms] by auto

theorem order_key_codec_witness:
  "encode_order_key_for_lmdb [0, 3] = Ok [1, 4, 0] \<and> decode_order_key_from_lmdb [1, 4, 0] = Ok [0, 3] \<and>
   [1, 4, 0] < NO_ATTESTATION_SENTINEL"
proof -
  have e: "encode_order_key_for_lmdb [0, 3] = Ok [1, 4, 0]"
    "encode_order_key_for_lmdb NO_ATTESTATION_SENTINEL = Ok NO_ATTESTATION_SENTINEL"
    by (simp_all add: encode_eq NO_ATTESTATION_SENTINEL_def replicate_8)
  have "below_sentinel [0, 3]" "below_sentinel NO_ATTESTATION_SENTINEL"
    by (simp_all add: below_sentinel_def NO_ATTESTATION_SENTINEL_def replicate_8)
  from order_key_codec [OF e this] e(1) show ?thesis
    by (simp add: NO_ATTESTATION_SENTINEL_def replicate_8)
qed

text \<open>The encoding puts a path of eight forks at index 254 after the sentinel.\<close>

lemma encoding_passes_sentinel:
  "encode_order_key_for_lmdb (replicate 8 254) = Ok (replicate 8 255 @ [0]) \<and>
   replicate 8 254 < NO_ATTESTATION_SENTINEL \<and> NO_ATTESTATION_SENTINEL < replicate 8 255 @ [0]"
  by (simp add: encode_eq NO_ATTESTATION_SENTINEL_def replicate_8)

section \<open>Listing\<close>

definition order_wf :: "commitment_store \<Rightarrow> bool" where
  "order_wf st \<longleftrightarrow> btree_ok (sto_order st) \<and>
     (\<forall>(e, root) \<in> set (sto_order st). (\<exists>k. encode_order_key_for_lmdb k = Ok e) \<and> length root = 32)"

lemma set_btree_insert: "set (btree_insert k v m) \<subseteq> insert (k, v) (set m)"
  by (induction k v m rule: btree_insert.induct) auto

lemma order_wf_put:
  assumes "order_wf st" "put_commitment_order key root st = Ok st'" "length root = 32"
  shows "order_wf st'"
proof -
  from assms(2) obtain e where e: "encode_order_key_for_lmdb key = Ok e"
    and st': "sto_order st' = btree_insert e root (sto_order st)"
    by (auto simp: put_commitment_order_def ok_elims split: option.splits if_splits)
  show ?thesis
    using assms(1,3) e set_btree_insert [of e root "sto_order st"]
    by (fastforce simp: order_wf_def st')
qed

lemma set_btree_remove: "set (btree_remove k m) \<subseteq> set m"
  by (auto simp: btree_remove_def)

lemma order_wf_delete:
  assumes "order_wf st" "delete_commitment_order key st = Ok st'"
  shows "order_wf st'"
proof -
  from assms(2) obtain e where "sto_order st' = btree_remove e (sto_order st)"
    by (auto simp: delete_commitment_order_def ok_elims)
  with assms(1) set_btree_remove [of e "sto_order st"] show ?thesis
    by (fastforce simp: order_wf_def)
qed

lemma order_wf_meta [simp]: "order_wf (put_commitment cd m st) = order_wf st"
  by (simp add: order_wf_def put_commitment_def)

lemma decode_order_entries_wf:
  assumes "\<forall>(e, root) \<in> set es. (\<exists>k. encode_order_key_for_lmdb k = Ok e) \<and> length root = 32"
  shows "\<exists>l. decode_order_entries es = Ok l \<and>
    list_all2 (\<lambda>(e, r) (k, r'). encode_order_key_for_lmdb k = Ok e \<and> r' = r) es l"
  using assms
proof (induction es)
  case Nil
  then show ?case by simp
next
  case (Cons x es)
  obtain e root where x: "x = (e, root)" by (cases x)
  from Cons.prems x obtain k where k: "encode_order_key_for_lmdb k = Ok e" "length root = 32" by auto
  from Cons obtain l where "decode_order_entries es = Ok l"
    "list_all2 (\<lambda>(e, r) (k, r'). encode_order_key_for_lmdb k = Ok e \<and> r' = r) es l" by auto
  with x k encode_decode [OF k(1)] show ?case
    by (intro exI [of _ "(k, root) # l"]) (simp add: ensure_def)
qed

lemma decoded_entries:
  assumes "list_all2 (\<lambda>(e, r) (k, r'). encode_order_key_for_lmdb k = Ok e \<and> r' = r) es l"
  shows "(k, r) \<in> set l \<longleftrightarrow> (\<exists>e. encode_order_key_for_lmdb k = Ok e \<and> (e, r) \<in> set es)"
  using assms
proof (induction es l rule: list_all2_induct)
  case (Cons x es y l)
  then show ?case using encode_inj by (cases x; cases y) (fastforce dest: encode_inj)
qed simp

lemma decoded_sorted:
  assumes "list_all2 (\<lambda>(e, r) (k, r'). encode_order_key_for_lmdb k = Ok e \<and> r' = r) es l"
    and "btree_ok es"
  shows "sorted_wrt (\<lambda>a b. below_sentinel (fst a) \<and> below_sentinel (fst b) \<longrightarrow> fst a < fst b) l"
  using assms
proof (induction es l rule: list_all2_induct)
  case (Cons x es y l)
  obtain e r where x: "x = (e, r)" by (cases x)
  with Cons obtain k where y: "y = (k, r)" and k: "encode_order_key_for_lmdb k = Ok e"
    by (cases y) auto
  have "k < k'" if "(k', r') \<in> set l" "below_sentinel k" "below_sentinel k'" for k' r'
  proof -
    from that(1) decoded_entries [OF Cons.hyps(2)] obtain e' where
      e': "encode_order_key_for_lmdb k' = Ok e'" "(e', r') \<in> set es" by blast
    have "e < e'" using Cons.prems(1) e'(2) x by force
    then show ?thesis using encoded_order [OF k e'(1) that(2,3)] by simp
  qed
  with Cons x y show ?case by auto
qed simp

text \<open>C21: Listing the commitments by order never fails on a well-formed order database (which
  every insertion and deletion keeps well formed): it returns exactly the entries stored,
  with their keys decoded, and of any two entries whose keys are below the sentinel, that is, do not begin with
  eight forks at index 254, the one with the smaller key comes first. A key that does begin so is listed at the place
  of its encoding, which is after the sentinel.\<close>

theorem listing_sorted:
  assumes "order_wf st"
  shows "\<exists>l. list_commitments_by_order st = Ok l \<and>
    (\<forall>key root. (key, root) \<in> set l \<longleftrightarrow>
       (\<exists>e. encode_order_key_for_lmdb key = Ok e \<and> map_of (sto_order st) e = Some root)) \<and>
    sorted_wrt (\<lambda>a b. below_sentinel (fst a) \<and> below_sentinel (fst b) \<longrightarrow> fst a < fst b) l"
proof -
  from assms(1) have ok: "btree_ok (sto_order st)"
    and all: "\<forall>(e, root) \<in> set (sto_order st). (\<exists>k. encode_order_key_for_lmdb k = Ok e) \<and> length root = 32"
    by (simp_all add: order_wf_def)
  from decode_order_entries_wf [OF all] obtain l where l: "decode_order_entries (sto_order st) = Ok l"
    and rel: "list_all2 (\<lambda>(e, r) (k, r'). encode_order_key_for_lmdb k = Ok e \<and> r' = r) (sto_order st) l"
    by blast
  have mem: "map_of (sto_order st) e = Some r \<longleftrightarrow> (e, r) \<in> set (sto_order st)" for e r
    using btree_ok_distinct [OF ok] by simp
  from decoded_sorted [OF rel ok] l decoded_entries [OF rel] mem show ?thesis
    by (auto simp: list_commitments_by_order_def)
qed

definition sample_store :: commitment_store where
  "sample_store = \<lparr>sto_meta = [], sto_order = [([0], replicate 32 1), ([1, 0], replicate 32 2)],
     sto_schema = Some 4\<rparr>"

theorem listing_sorted_witness:
  "\<exists>l. list_commitments_by_order sample_store = Ok l \<and> ([], replicate 32 1) \<in> set l \<and> ([0], replicate 32 2) \<in> set l \<and>
     sorted_wrt (\<lambda>a b. below_sentinel (fst a) \<and> below_sentinel (fst b) \<longrightarrow> fst a < fst b) l"
proof -
  have e: "encode_order_key_for_lmdb [] = Ok [0]" "encode_order_key_for_lmdb [0] = Ok [1, 0]"
    by (simp_all add: encode_eq NO_ATTESTATION_SENTINEL_def replicate_8)
  then have wf: "order_wf sample_store" by (auto simp: order_wf_def sample_store_def)
  from listing_sorted [OF wf] obtain l where "list_commitments_by_order sample_store = Ok l"
    "sorted_wrt (\<lambda>a b. below_sentinel (fst a) \<and> below_sentinel (fst b) \<longrightarrow> fst a < fst b) l"
    "\<forall>key root. (key, root) \<in> set l \<longleftrightarrow>
      (\<exists>e. encode_order_key_for_lmdb key = Ok e \<and> map_of (sto_order sample_store) e = Some root)"
    by blast
  then show ?thesis using e by (auto simp: sample_store_def)
qed


section \<open>What the migrations leave behind\<close>

lemma fold_put_commitment_order [simp]:
  "sto_order (fold (put_commitment cd) ms st) = sto_order st"
  by (induction ms arbitrary: st) (simp_all add: put_commitment_def)

lemma decode_order_entries_bad:
  "(e, root) \<in> set es \<Longrightarrow> e \<noteq> [] \<Longrightarrow> last e \<noteq> 0 \<Longrightarrow> e \<noteq> NO_ATTESTATION_SENTINEL \<Longrightarrow>
   \<exists>err. decode_order_entries es = Err err"
proof (induction es)
  case Nil
  then show ?case by simp
next
  case (Cons x es)
  obtain e' r' where x: "x = (e', r')" by (cases x)
  show ?case
  proof (cases "e' = e")
    case True
    with Cons.prems have "decode_order_key_from_lmdb e' = Err MissingTerminator"
      by (auto simp: decode_order_key_from_lmdb_def ensure_def)
    with x show ?thesis by simp
  next
    case False
    with Cons x obtain err where "decode_order_entries es = Err err" by auto
    then show ?thesis unfolding x
      by (cases "decode_order_key_from_lmdb e'"; cases "length r' = 32") (simp_all add: ensure_def)
  qed
qed

text \<open>A store of schema 2 is never re-keyed: opening it goes from version 2 straight to 4,
  because the migration to version 3 records the current version, so the step from 3 to 4
  that encodes the keys of the order database does not run. The old raw keys stay, and when
  one of them ends in a byte other than zero, listing the commitments fails.\<close>

theorem schema_2_never_rekeyed:
  assumes "statistic st = 2" "open_store E True st = Ok st'"
    and "(e, root) \<in> set (sto_order st)" "e \<noteq> []" "last e \<noteq> 0" "e \<noteq> NO_ATTESTATION_SENTINEL"
  shows "statistic st' = SCHEMA_VERSION \<and> sto_order st' = sto_order st \<and>
    \<not> is_ok (list_commitments_by_order st')"
proof -
  from assms(1,2) have "migrate_v2_to_v3 (se_codec E) (se_breccia_timestamps E) st = Ok st'"
    by (simp add: open_store_def ensure_schema_version_once SCHEMA_VERSION_def migrate_step_def)
  then have st1: "statistic st' = SCHEMA_VERSION" "sto_order st' = sto_order st"
    by (auto simp: migrate_v2_to_v3_def ok_elims set_schema_def statistic_def)
  with st1 decode_order_entries_bad [OF assms(3-6)] show ?thesis
    by (auto simp: list_commitments_by_order_def)
qed

definition toy_meta :: "u8 \<Rightarrow> u8 \<Rightarrow> commitment_meta" where
  "toy_meta b k = (new_meta (replicate 32 b) [] 0 Inboard 0)
     \<lparr>cm_ots_proof_path := Some ''p'', cm_ots_order_key := Some [k]\<rparr>"

definition toy_meta_v2 :: commitment_meta_v2 where
  "toy_meta_v2 = \<lparr>v1_bao_root = replicate 32 1, v1_carbonado_path = [], v1_format = 0,
     v1_visibility = Public, v1_layout = Inboard, v1_filepack_fp = None, v1_created_at = 0,
     v2_ots_proof_path = Some ''p'', v2_ots_order_key = Some [7]\<rparr>"

definition toy_codec :: meta_codec where
  "toy_codec = \<lparr>read_v1 = (\<lambda>b. None), read_v2 = (\<lambda>b. Some toy_meta_v2),
     read_meta = (\<lambda>b. Some (toy_meta (hd b) (last b))),
     write_meta = (\<lambda>m. [hd (cm_bao_root m), hd (the (cm_ots_order_key m))])\<rparr>"

definition toy_env :: store_env where
  "toy_env = \<lparr>se_codec = toy_codec, se_parse = (\<lambda>b. None), se_files = (\<lambda>p. None),
     se_breccia_timestamps = Some (\<lambda>r. None)\<rparr>"

theorem schema_2_never_rekeyed_witness:
  "\<exists>st'. open_store toy_env True \<lparr>sto_meta = [(replicate 32 1, [0])],
       sto_order = [([7], replicate 32 1)], sto_schema = Some 2\<rparr> = Ok st' \<and>
     \<not> is_ok (list_commitments_by_order st')"
proof -
  let ?st = "\<lparr>sto_meta = [(replicate 32 1, [0])], sto_order = [([7], replicate 32 1)],
    sto_schema = Some 2\<rparr>"
  have "\<exists>st'. open_store toy_env True ?st = Ok st'"
    by (simp add: open_store_def ensure_schema_version_once statistic_def SCHEMA_VERSION_def
        migrate_step_def migrate_v2_to_v3_def toy_env_def toy_codec_def toy_meta_v2_def
        timestamp_v2_def meta_from_v2_def Let_def ok_or_def ensure_def set_schema_def
        put_commitment_def)
  then obtain st' where st': "open_store toy_env True ?st = Ok st'" by blast
  from schema_2_never_rekeyed [OF _ st', of "[7]" "replicate 32 1"] st' show ?thesis
    by (simp add: statistic_def NO_ATTESTATION_SENTINEL_def replicate_8)
qed

lemma get_put_commitment:
  "read_meta cd (write_meta cd m) = Some m \<Longrightarrow>
   get_commitment cd (put_commitment cd m st) root =
     (if root = cm_bao_root m then Ok (Some m) else get_commitment cd st root)"
  by (simp add: get_commitment_def put_commitment_def)

lemma get_commitment_order [simp]:
  "get_commitment cd (st\<lparr>sto_order := o'\<rparr>) root = get_commitment cd st root"
  by (simp add: get_commitment_def)

lemma delete_stored_meta [simp]:
  "get_commitment cd (delete_stored_commitment_order_keys k st) root = get_commitment cd st root"
  by (simp add: delete_stored_commitment_order_keys_def Let_def)

lemma delete_stored_encoded:
  "k \<noteq> [] \<Longrightarrow> encode_order_key_for_lmdb k = Ok e \<Longrightarrow>
   map_of (sto_order (delete_stored_commitment_order_keys k st)) e = None"
  by (simp add: delete_stored_commitment_order_keys_def Let_def)

lemma put_order_get:
  assumes "put_commitment_order key root st = Ok st'"
  shows "get_commitment cd st' r = get_commitment cd st r"
    "encode_order_key_for_lmdb key = Ok e \<Longrightarrow> map_of (sto_order st') e' =
       (if e' = e then Some root else map_of (sto_order st) e')"
  using assms by (auto simp: put_commitment_order_def ok_elims split: option.splits if_splits)

lemma v4_rekey:
  assumes "v4_apply cd (Rekey root old_key new_key) st = Ok st'"
    and "get_commitment cd st root = Ok (Some m)" "cm_bao_root m = root"
    and "read_meta cd (write_meta cd (m\<lparr>cm_ots_order_key := Some new_key\<rparr>)) =
      Some (m\<lparr>cm_ots_order_key := Some new_key\<rparr>)"
    and "encode_order_key_for_lmdb new_key = Ok e"
  shows "get_commitment cd st' root = Ok (Some (m\<lparr>cm_ots_order_key := Some new_key\<rparr>))"
    "r \<noteq> root \<Longrightarrow> get_commitment cd st' r = get_commitment cd st r"
    "old_key \<noteq> [] \<Longrightarrow> encode_order_key_for_lmdb old_key = Ok e' \<Longrightarrow> e' \<noteq> e \<Longrightarrow>
       map_of (sto_order st') e' = None"
proof -
  let ?st1 = "if cm_ots_order_key m \<noteq> Some new_key
      then put_commitment cd (m\<lparr>cm_ots_order_key := Some new_key\<rparr>) st else st"
  let ?st2 = "delete_stored_commitment_order_keys old_key ?st1"
  from assms(1,2) have put: "put_commitment_order new_key root ?st2 = Ok st'"
    by (auto simp: v4_apply_def ok_elims Let_def split: if_splits)
  have same: "m\<lparr>cm_ots_order_key := Some new_key\<rparr> = m" if "cm_ots_order_key m = Some new_key"
    using that by (cases m) simp
  show "get_commitment cd st' root = Ok (Some (m\<lparr>cm_ots_order_key := Some new_key\<rparr>))"
    using put_order_get(1) [OF put, of cd root] assms(2,3) get_put_commitment [OF assms(4)] same
    by simp
  show "r \<noteq> root \<Longrightarrow> get_commitment cd st' r = get_commitment cd st r"
    using put_order_get(1) [OF put, of cd r] assms(3) get_put_commitment [OF assms(4)]
    by simp
  show "map_of (sto_order st') e' = None"
    if "old_key \<noteq> []" "encode_order_key_for_lmdb old_key = Ok e'" "e' \<noteq> e"
    using put_order_get(2) [OF put assms(5), of e'] that delete_stored_encoded by simp
qed

text \<open>The migration to version 4 can drop a commitment from the order database. When it
  gives one commitment the key that the next one had before, re-keying the second deletes
  the entry just written for the first: the migration succeeds, the metadata of the first
  records its new key, and the order database has no entry for it.\<close>

theorem migration_drops_entry:
  assumes "v4_apply_all cd [Rekey a old_a new_a, Rekey b new_a new_b] st = Ok st'"
    and "a \<noteq> b" "new_a \<noteq> []" "new_b \<noteq> new_a"
    and "get_commitment cd st a = Ok (Some ma)" "cm_bao_root ma = a"
    and "get_commitment cd st b = Ok (Some mb)" "cm_bao_root mb = b"
    and "read_meta cd (write_meta cd (ma\<lparr>cm_ots_order_key := Some new_a\<rparr>)) =
      Some (ma\<lparr>cm_ots_order_key := Some new_a\<rparr>)"
    and "read_meta cd (write_meta cd (mb\<lparr>cm_ots_order_key := Some new_b\<rparr>)) =
      Some (mb\<lparr>cm_ots_order_key := Some new_b\<rparr>)"
    and "encode_order_key_for_lmdb new_a = Ok ea" "encode_order_key_for_lmdb new_b = Ok eb"
  shows "get_commitment cd st' a = Ok (Some (ma\<lparr>cm_ots_order_key := Some new_a\<rparr>)) \<and>
    map_of (sto_order st') ea = None"
proof -
  from assms(1) obtain st1 where 1: "v4_apply cd (Rekey a old_a new_a) st = Ok st1"
    and 2: "v4_apply cd (Rekey b new_a new_b) st1 = Ok st'"
    by (auto simp: and_then_eq_Ok)
  note r1 = v4_rekey [OF 1 assms(5,6,9,11)]
  have "get_commitment cd st1 b = Ok (Some mb)" using r1(2) [of b] assms(2,7) by simp
  note r2 = v4_rekey [OF 2 this assms(8,10,12)]
  have "ea \<noteq> eb" using encode_inj [OF assms(11)] assms(4,12) by blast
  then show ?thesis
    using r1(1) r2(2) [of a] r2(3) [OF assms(3,11)] assms(2) by simp
qed

theorem migration_drops_entry_witness:
  "\<exists>st'. v4_apply_all toy_codec [Rekey (replicate 32 1) [0] [1], Rekey (replicate 32 2) [1] [0]]
       \<lparr>sto_meta = [(replicate 32 1, [1, 0]), (replicate 32 2, [2, 1])],
        sto_order = [([0], replicate 32 1), ([1], replicate 32 2)], sto_schema = Some 3\<rparr> = Ok st' \<and>
     map_of (sto_order st') [2, 0] = None"
proof -
  let ?st = "\<lparr>sto_meta = [(replicate 32 1, [1, 0]), (replicate 32 2, [2, 1])],
        sto_order = [([0], replicate 32 1), ([1], replicate 32 2)], sto_schema = Some 3\<rparr>"
  have e: "encode_order_key_for_lmdb [1] = Ok [2, 0]" "encode_order_key_for_lmdb [0] = Ok [1, 0]"
    by (simp_all add: encode_eq NO_ATTESTATION_SENTINEL_def replicate_8)
  have ne: "replicate 32 (2 :: u8) \<noteq> replicate 32 1" by (simp add: replicate_eq_replicate)
  have "\<exists>st'. v4_apply_all toy_codec [Rekey (replicate 32 1) [0] [1],
      Rekey (replicate 32 2) [1] [0]] ?st = Ok st'"
    using ne by (simp add: v4_apply_def get_commitment_def toy_codec_def toy_meta_def new_meta_def
        ok_or_def ensure_def put_commitment_def delete_stored_commitment_order_keys_def e
        MAX_OTS_ORDER_PATH_LEN_def put_commitment_order_def Let_def)
  then obtain st' where st': "v4_apply_all toy_codec [Rekey (replicate 32 1) [0] [1],
      Rekey (replicate 32 2) [1] [0]] ?st = Ok st'" by blast
  have "map_of (sto_order st') [2, 0] = None"
    using migration_drops_entry [OF st' _ _ _ _ _ _ _ _ _ e,
        of "toy_meta 1 0" "toy_meta 2 1"] ne
    by (simp add: get_commitment_def toy_codec_def toy_meta_def new_meta_def ok_or_def)
  with st' show ?thesis by blast
qed

end
