(* ===== verification/Breccia.thy ===== *)
theory Breccia
  imports Text
begin

text \<open>
  The append-only log of commitments (\<open>lord-commit/src/breccia_log.rs\<close>, \<open>entry.rs\<close>, and its
  second reader \<open>lord-storage/src/breccia_timestamps.rs\<close>). A file is its bytes; an append is
  given how many bytes reach the file before the write fails, if it fails. \<open>bincode\<close> is a
  parameter: the serializers and parsers of the two kinds of entries.
\<close>

section \<open>The file\<close>

datatype breccia_error =
    BadMagic
  | BadHeaderVersion u32
  | ShortRead
  | BlobTooLong nat
  | BadEntry
  | AppendInterrupted

definition MAGIC :: bytes where
  "MAGIC = [0x4C, 0x4F, 0x52, 0x42, 0x52, 0x45, 0x43, 0x43]"

definition BRECCIA_HEADER_VERSION_V1 :: u32 where "BRECCIA_HEADER_VERSION_V1 = 1"
definition BRECCIA_HEADER_VERSION_V2 :: u32 where "BRECCIA_HEADER_VERSION_V2 = 2"
definition HEADER_LEN :: nat where "HEADER_LEN = length MAGIC + 4"
definition MAX_BRECCIA_BLOB_LEN :: nat where "MAX_BRECCIA_BLOB_LEN = 2 ^ 20"

definition u32_le :: "u32 \<Rightarrow> bytes" where "u32_le v = le_bytes 4 (unat v)"

text \<open>A log that does not exist is created with the header of version 1.\<close>

definition create_log :: bytes where
  "create_log = MAGIC @ u32_le BRECCIA_HEADER_VERSION_V1"

definition check_header :: "u32 list \<Rightarrow> bytes \<Rightarrow> (breccia_error, unit) result" where
  "check_header versions file =
     (if length file < length MAGIC then Err ShortRead
      else if take (length MAGIC) file \<noteq> MAGIC then Err BadMagic
      else if length file < HEADER_LEN then Err ShortRead
      else
        let v = word_of_nat (le_val (take 4 (drop (length MAGIC) file))) in
        if v \<in> set versions then Ok () else Err (BadHeaderVersion v))"

definition open_log :: "bytes \<Rightarrow> (breccia_error, bytes) result" where
  "open_log file =
     and_then (check_header [BRECCIA_HEADER_VERSION_V1, BRECCIA_HEADER_VERSION_V2] file) (\<lambda>_. Ok file)"

definition open_or_create :: "bytes option \<Rightarrow> (breccia_error, bytes) result" where
  "open_or_create path = (case path of None \<Rightarrow> Ok create_log | Some file \<Rightarrow> open_log file)"

definition ensure_v2_header :: "bytes \<Rightarrow> bytes" where
  "ensure_v2_header file =
     take (length MAGIC) file @ u32_le BRECCIA_HEADER_VERSION_V2 @ drop HEADER_LEN file"

definition blob_frame :: "bytes \<Rightarrow> bytes" where
  "blob_frame blob = le_bytes 8 (length blob) @ blob"

definition append_blob ::
  "nat option \<Rightarrow> bytes \<Rightarrow> bytes \<Rightarrow> bytes \<times> (breccia_error, nat) result" where
  "append_blob torn blob file =
     (if MAX_BRECCIA_BLOB_LEN < length blob then (file, Err (BlobTooLong (length blob)))
      else case torn of
        None \<Rightarrow> (file @ blob_frame blob, Ok (length file))
      | Some k \<Rightarrow> (file @ take k (blob_frame blob), Err AppendInterrupted))"

text \<open>A length that is cut short ends the log, a blob that is cut short is an error.\<close>

function read_blobs :: "bytes \<Rightarrow> (breccia_error, bytes list) result" where
  "read_blobs rest =
     (if length rest < 8 then Ok []
      else
        let len = le_val (take 8 rest) in
        if MAX_BRECCIA_BLOB_LEN < len then Err (BlobTooLong len)
        else if length rest < 8 + len then Err ShortRead
        else and_then (read_blobs (drop (8 + len) rest))
          (\<lambda>blobs. Ok (take len (drop 8 rest) # blobs)))"
  by pat_completeness auto
termination by (relation "measure length") auto

declare read_blobs.simps [simp del]

definition read_all_blobs :: "bytes \<Rightarrow> (breccia_error, bytes list) result" where
  "read_all_blobs file = read_blobs (drop HEADER_LEN file)"

definition read_all :: "bytes option \<Rightarrow> (breccia_error, bytes list) result" where
  "read_all path =
     (case path of None \<Rightarrow> Ok [] | Some file \<Rightarrow> and_then (open_log file) read_all_blobs)"

section \<open>Entries\<close>

record commitment_entry =
  ce_bao_root :: bytes
  ce_ots_order_key :: bytes
  ce_timestamped_at :: u64
  ce_carbonado_path :: string

record commitment_entry_v2 = commitment_entry +
  ce_attestation_height :: u32
  ce_attestation_txid :: string
  ce_replication_target :: u32

datatype breccia_record = V1 commitment_entry | V2 commitment_entry_v2

definition record_bao_root :: "breccia_record \<Rightarrow> bytes" where
  "record_bao_root r = (case r of V1 e \<Rightarrow> ce_bao_root e | V2 e \<Rightarrow> ce_bao_root e)"

definition record_attestation_height :: "breccia_record \<Rightarrow> u32 option" where
  "record_attestation_height r =
     (case r of V1 e \<Rightarrow> None | V2 e \<Rightarrow> Some (ce_attestation_height e))"

definition BRECCIA_ENTRY_V2_MAGIC :: bytes where
  "BRECCIA_ENTRY_V2_MAGIC = [0x4C, 0x42, 0x56, 0x32]"

record entry_codec =
  ser_v1 :: "commitment_entry \<Rightarrow> bytes"
  de_v1 :: "bytes \<Rightarrow> commitment_entry option"
  ser_v2 :: "commitment_entry_v2 \<Rightarrow> bytes"
  de_v2 :: "bytes \<Rightarrow> commitment_entry_v2 option"

definition encode_entry :: "entry_codec \<Rightarrow> commitment_entry \<Rightarrow> bytes" where
  "encode_entry cd e = ser_v1 cd e"

definition encode_entry_v2 :: "entry_codec \<Rightarrow> commitment_entry_v2 \<Rightarrow> bytes" where
  "encode_entry_v2 cd e = BRECCIA_ENTRY_V2_MAGIC @ ser_v2 cd e"

definition decode_entry :: "entry_codec \<Rightarrow> bytes \<Rightarrow> (breccia_error, commitment_entry) result" where
  "decode_entry cd blob = ok_or (de_v1 cd blob) BadEntry"

definition decode_entry_v2 :: "entry_codec \<Rightarrow> bytes \<Rightarrow> (breccia_error, commitment_entry_v2) result" where
  "decode_entry_v2 cd blob = ok_or (de_v2 cd blob) BadEntry"

definition decode_breccia_blob :: "entry_codec \<Rightarrow> bytes \<Rightarrow> (breccia_error, breccia_record) result" where
  "decode_breccia_blob cd blob =
     (if length BRECCIA_ENTRY_V2_MAGIC \<le> length blob \<and> take 4 blob = BRECCIA_ENTRY_V2_MAGIC
      then and_then (decode_entry_v2 cd (drop (length BRECCIA_ENTRY_V2_MAGIC) blob)) (\<lambda>e. Ok (V2 e))
      else and_then (decode_entry cd blob) (\<lambda>e. Ok (V1 e)))"

text \<open>\<open>collect\<close> into a \<open>Result\<close>: the first error, or all values.\<close>

fun collect_results :: "('a \<Rightarrow> ('e, 'b) result) \<Rightarrow> 'a list \<Rightarrow> ('e, 'b list) result" where
  "collect_results f [] = Ok []"
| "collect_results f (x # xs) =
     and_then (f x) (\<lambda>y. and_then (collect_results f xs) (\<lambda>ys. Ok (y # ys)))"

definition read_breccia_records ::
  "entry_codec \<Rightarrow> bytes option \<Rightarrow> (breccia_error, breccia_record list) result" where
  "read_breccia_records cd path = and_then (read_all path) (collect_results (decode_breccia_blob cd))"

definition read_breccia_entries ::
  "entry_codec \<Rightarrow> bytes option \<Rightarrow> (breccia_error, commitment_entry list) result" where
  "read_breccia_entries cd path =
     and_then (read_breccia_records cd path) (\<lambda>records.
     Ok (List.map_filter (\<lambda>r. case r of V1 e \<Rightarrow> Some e | V2 _ \<Rightarrow> None) records))"

text \<open>The reader of the storage crate: the time of the last entry of a root, entries that do
  not parse left out, and only the header of version 1.\<close>

definition load_breccia_timestamps ::
  "(bytes \<Rightarrow> commitment_entry option) \<Rightarrow> bytes option \<Rightarrow> (breccia_error, (bytes \<rightharpoonup> u64)) result" where
  "load_breccia_timestamps parse path =
     (case path of
        None \<Rightarrow> Ok Map.empty
      | Some file \<Rightarrow>
          and_then (check_header [BRECCIA_HEADER_VERSION_V1] file) (\<lambda>_.
          and_then (read_blobs (drop HEADER_LEN file)) (\<lambda>blobs.
          Ok (fold (\<lambda>blob m. case parse blob of
                      None \<Rightarrow> m
                    | Some e \<Rightarrow> m(ce_bao_root e \<mapsto> ce_timestamped_at e)) blobs Map.empty))))"

section \<open>The log as a list of entries\<close>

definition log_bytes :: "u32 \<Rightarrow> bytes list \<Rightarrow> bytes" where
  "log_bytes v blobs = MAGIC @ u32_le v @ concat (map blob_frame blobs)"

definition log_holds :: "bytes \<Rightarrow> bytes list \<Rightarrow> bool" where
  "log_holds file blobs \<longleftrightarrow>
     (\<exists>v \<in> {1, 2}. file = log_bytes v blobs) \<and> (\<forall>b \<in> set blobs. length b \<le> MAX_BRECCIA_BLOB_LEN)"

lemma length_MAGIC [simp]: "length MAGIC = 8"
  by (simp add: MAGIC_def)

lemma HEADER_LEN_eq [simp]: "HEADER_LEN = 12"
  by (simp add: HEADER_LEN_def)

lemma length_u32_le [simp]: "length (u32_le v) = 4"
  by (simp add: u32_le_def)

lemma u32_le_inverse: "word_of_nat (le_val (u32_le v)) = v"
proof -
  have "unat v < 256 ^ 4" using unsigned_less [of v, where 'a = nat] by simp
  then show ?thesis by (simp add: u32_le_def le_val_le_bytes)
qed

lemma check_header_log:
  "check_header vs (log_bytes v blobs) = (if v \<in> set vs then Ok () else Err (BadHeaderVersion v))"
  by (simp add: check_header_def log_bytes_def u32_le_inverse)

lemma drop_header_log: "drop 12 (log_bytes v blobs) = concat (map blob_frame blobs)"
  by (simp add: log_bytes_def)

lemma read_blobs_frame:
  assumes "length b \<le> MAX_BRECCIA_BLOB_LEN"
  shows "read_blobs (blob_frame b @ rest) = and_then (read_blobs rest) (\<lambda>bs. Ok (b # bs))"
proof -
  have "length b < 256 ^ 8" using assms by (simp add: MAX_BRECCIA_BLOB_LEN_def)
  then have "le_val (le_bytes 8 (length b)) = length b" by (simp add: le_val_le_bytes)
  with assms show ?thesis
    by (subst read_blobs.simps) (simp add: blob_frame_def Let_def)
qed

lemma read_blobs_frames:
  "\<forall>b \<in> set blobs. length b \<le> MAX_BRECCIA_BLOB_LEN \<Longrightarrow>
   read_blobs (concat (map blob_frame blobs) @ rest) =
   and_then (read_blobs rest) (\<lambda>bs. Ok (blobs @ bs))"
proof (induction blobs)
  case Nil
  then show ?case by (cases "read_blobs rest") simp_all
next
  case (Cons b blobs)
  then show ?case by (cases "read_blobs rest") (simp_all add: read_blobs_frame)
qed

lemma read_blobs_short: "length rest < 8 \<Longrightarrow> read_blobs rest = Ok []"
  by (subst read_blobs.simps) simp

lemma read_all_log:
  assumes "log_holds file blobs"
  shows "read_all (Some file) = Ok blobs"
proof -
  from assms obtain v where v: "v \<in> {1, 2}" "file = log_bytes v blobs"
    and fit: "\<forall>b \<in> set blobs. length b \<le> MAX_BRECCIA_BLOB_LEN"
    by (auto simp: log_holds_def)
  have "read_blobs (concat (map blob_frame blobs)) = Ok blobs"
    using read_blobs_frames [OF fit, of "[]"] by (simp add: read_blobs_short)
  with v show ?thesis
    by (auto simp: read_all_def open_log_def read_all_blobs_def check_header_log drop_header_log
        BRECCIA_HEADER_VERSION_V1_def BRECCIA_HEADER_VERSION_V2_def)
qed

lemma log_bytes_append: "log_bytes v (blobs @ [b]) = log_bytes v blobs @ blob_frame b"
  by (simp add: log_bytes_def)

lemma log_holds_append:
  "log_holds file blobs \<Longrightarrow> length b \<le> MAX_BRECCIA_BLOB_LEN \<Longrightarrow>
   log_holds (file @ blob_frame b) (blobs @ [b])"
  by (auto simp: log_holds_def log_bytes_append)

lemma log_holds_create [simp]: "log_holds create_log []"
  by (simp add: log_holds_def create_log_def log_bytes_def BRECCIA_HEADER_VERSION_V1_def)

lemma log_holds_v2: "log_holds file blobs \<Longrightarrow> log_holds (ensure_v2_header file) blobs"
  by (auto simp: log_holds_def ensure_v2_header_def log_bytes_def BRECCIA_HEADER_VERSION_V2_def)

lemma open_log_holds: "log_holds file blobs \<Longrightarrow> open_log file = Ok file"
  by (auto simp: log_holds_def open_log_def check_header_log
      BRECCIA_HEADER_VERSION_V1_def BRECCIA_HEADER_VERSION_V2_def)

interpretation log: append_log log_holds "\<lambda>b file. fst (append_blob None b file)"
  "\<lambda>b. length b \<le> MAX_BRECCIA_BLOB_LEN"
  "\<lambda>file. case read_all (Some file) of Ok bs \<Rightarrow> Some bs | Err _ \<Rightarrow> None"
  by unfold_locales (simp_all add: append_blob_def log_holds_append read_all_log)

text \<open>C18: The log refines a list of blobs: whatever was appended, in one or several sessions
  and with a change of the header in between, reading returns exactly the blobs in their
  order, an append reports the end of the file as its offset, and a blob over the limit is
  refused and leaves the file as it was.\<close>

theorem log_refines_list:
  assumes "log_holds file blobs"
  shows "read_all (Some (ensure_v2_header file)) = Ok blobs \<and>
    append_blob None b file =
      (if length b \<le> MAX_BRECCIA_BLOB_LEN then (file @ blob_frame b, Ok (length file))
       else (file, Err (BlobTooLong (length b)))) \<and>
    read_all (Some (fst (append_blob None b file))) =
      Ok (if length b \<le> MAX_BRECCIA_BLOB_LEN then blobs @ [b] else blobs)"
  using assms log.holds_app [OF assms, of b]
  by (auto simp: append_blob_def read_all_log log_holds_v2)

theorem log_refines_list_witness:
  "read_all (Some (fst (append_blob None [1, 2] create_log))) = Ok [[1, 2]]"
  using log_refines_list [OF log_holds_create, of "[1, 2]"]
  unfolding MAX_BRECCIA_BLOB_LEN_def by auto

section \<open>Interrupted appends\<close>

lemma take_le_bytes: "m \<le> n \<Longrightarrow> take m (le_bytes n x) = le_bytes m x"
proof (induction n arbitrary: m x)
  case 0
  then show ?case by simp
next
  case (Suc n)
  then show ?case by (cases m) auto
qed

lemma torn_frame:
  "k \<le> 8 \<Longrightarrow> take k (blob_frame b) = le_bytes k (length b)"
  by (simp add: blob_frame_def take_le_bytes)

lemma read_blobs_torn:
  assumes t: "1 \<le> length t" "length t \<le> 5" and b: "b \<noteq> []" "length b \<le> MAX_BRECCIA_BLOB_LEN"
  shows "\<exists>e. read_blobs (t @ blob_frame b) = Err e"
proof -
  let ?k = "length t" and ?n = "length b"
  have first: "take 8 (t @ blob_frame b) = t @ le_bytes (8 - ?k) ?n"
    using t by (simp add: blob_frame_def take_le_bytes)
  have "(2 :: nat) ^ 20 < 256 ^ 3" by simp
  also have "(256 :: nat) ^ 3 \<le> 256 ^ (8 - ?k)" using t by (intro power_increasing) auto
  finally have "?n < 256 ^ (8 - ?k)" using b(2) by (simp add: MAX_BRECCIA_BLOB_LEN_def)
  then have len: "le_val (take 8 (t @ blob_frame b)) = le_val t + 256 ^ ?k * ?n"
    unfolding first by (simp add: le_val_append le_val_le_bytes)
  have "(256 :: nat) ^ 1 \<le> 256 ^ ?k" using t by (intro power_increasing) auto
  then have "256 * ?n \<le> 256 ^ ?k * ?n" by simp
  moreover have "1 \<le> ?n" using b(1) by (cases b) auto
  ultimately have "?k + ?n < 256 ^ ?k * ?n"
    using t by linarith
  then have "length (t @ blob_frame b) < 8 + le_val (take 8 (t @ blob_frame b))"
    unfolding len by (simp add: blob_frame_def)
  then show ?thesis
    by (subst read_blobs.simps) (simp add: Let_def blob_frame_def)
qed

text \<open>An append that is interrupted inside the first five bytes of the length poisons the
  log. Reading takes the torn tail for the end of the log, and the next append succeeds, since
  it writes at the end of the file; but from then on the log cannot be read, and all that was
  in it before is lost to the program.\<close>

theorem torn_append_poisons:
  assumes "log_holds file blobs" and "1 \<le> k" "k \<le> 5"
    and "length b \<le> MAX_BRECCIA_BLOB_LEN" and "b' \<noteq> []" "length b' \<le> MAX_BRECCIA_BLOB_LEN"
    and "file' = fst (append_blob (Some k) b file)"
  shows "read_all (Some file') = Ok blobs \<and>
    snd (append_blob None b' file') = Ok (length file') \<and>
    (\<exists>e. read_all (Some (fst (append_blob None b' file'))) = Err e)"
proof -
  from assms(1) obtain v where v: "v \<in> {1, 2}" "file = log_bytes v blobs"
    and fit: "\<forall>b \<in> set blobs. length b \<le> MAX_BRECCIA_BLOB_LEN"
    by (auto simp: log_holds_def)
  let ?t = "le_bytes k (length b)"
  have file': "file' = log_bytes v blobs @ ?t"
    using assms v by (simp add: append_blob_def torn_frame)
  have head: "check_header vs (log_bytes v blobs @ r) = check_header vs (log_bytes v blobs)" for vs r
    by (simp add: check_header_def log_bytes_def)
  have drop_header: "drop 12 (log_bytes v blobs @ r) = concat (map blob_frame blobs) @ r" for r
    by (simp add: log_bytes_def)
  have read: "read_all (Some (log_bytes v blobs @ r)) =
      and_then (read_blobs r) (\<lambda>bs. Ok (blobs @ bs))" for r
    using v(1) fit
    by (auto simp: read_all_def open_log_def read_all_blobs_def head check_header_log drop_header
        BRECCIA_HEADER_VERSION_V1_def BRECCIA_HEADER_VERSION_V2_def read_blobs_frames
        simp del: drop_append)
  have "read_all (Some file') = Ok blobs"
    using assms(3) by (simp add: file' read read_blobs_short)
  moreover have "append_blob None b' file' = (log_bytes v blobs @ (?t @ blob_frame b'), Ok (length file'))"
    using assms(6) by (simp add: append_blob_def file')
  moreover obtain e where "read_blobs (?t @ blob_frame b') = Err e"
    using read_blobs_torn [of ?t b'] assms by auto
  ultimately show ?thesis by (simp add: read)
qed

theorem torn_append_poisons_witness:
  "let file = fst (append_blob (Some 1) [7] create_log)
   in read_all (Some file) = Ok [] \<and> (\<exists>e. read_all (Some (fst (append_blob None [9] file))) = Err e)"
  using torn_append_poisons [OF log_holds_create, of 1 "[7]" "[9]"]
  unfolding MAX_BRECCIA_BLOB_LEN_def Let_def by auto

section \<open>Kinds of entries\<close>

text \<open>\<open>bincode\<close> parses what it has written, and writes the array of the root first, raw.\<close>

definition entry_codec_ok :: "entry_codec \<Rightarrow> bool" where
  "entry_codec_ok cd \<longleftrightarrow>
     (\<forall>e. length (ce_bao_root e) = 32 \<longrightarrow> de_v1 cd (ser_v1 cd e) = Some e \<and> take 32 (ser_v1 cd e) = ce_bao_root e) \<and>
     (\<forall>e. length (ce_bao_root e) = 32 \<longrightarrow> de_v2 cd (ser_v2 cd e) = Some e)"

lemma length_v2_magic [simp]: "length BRECCIA_ENTRY_V2_MAGIC = 4"
  by (simp add: BRECCIA_ENTRY_V2_MAGIC_def)

lemma decode_encode_v2:
  "entry_codec_ok cd \<Longrightarrow> length (ce_bao_root e) = 32 \<Longrightarrow>
   decode_breccia_blob cd (encode_entry_v2 cd e) = Ok (V2 e)"
  by (simp add: decode_breccia_blob_def encode_entry_v2_def entry_codec_ok_def decode_entry_v2_def)

lemma decode_encode_v1:
  assumes "entry_codec_ok cd" "length (ce_bao_root e) = 32"
  shows "decode_breccia_blob cd (encode_entry cd e) = Ok (V1 e) \<longleftrightarrow>
    take 4 (ce_bao_root e) \<noteq> BRECCIA_ENTRY_V2_MAGIC"
proof -
  let ?b = "ser_v1 cd e"
  from assms have t: "take 32 ?b = ce_bao_root e" and d: "de_v1 cd ?b = Some e"
    by (simp_all add: entry_codec_ok_def)
  from t assms(2) have "32 \<le> length ?b" by (metis length_take min.cobounded1)
  moreover from t have "take 4 ?b = take 4 (ce_bao_root e)" by (simp flip: t)
  ultimately show ?thesis
    using d
    by (cases "de_v2 cd (drop 4 ?b)")
      (auto simp: decode_breccia_blob_def encode_entry_def decode_entry_def decode_entry_v2_def)
qed

lemma collect_results_append:
  "collect_results f (xs @ ys) =
   and_then (collect_results f xs) (\<lambda>as. and_then (collect_results f ys) (\<lambda>bs. Ok (as @ bs)))"
proof (induction xs)
  case Nil
  then show ?case by (cases "collect_results f ys") simp_all
next
  case (Cons x xs)
  then show ?case
    by (cases "f x"; cases "collect_results f xs"; cases "collect_results f ys") simp_all
qed

text \<open>A log with the header of version 2 is refused by the reader of the storage crate.\<close>

lemma timestamps_refuse_v2:
  "log_holds file blobs \<Longrightarrow>
   load_breccia_timestamps parse (Some (ensure_v2_header file)) = Err (BadHeaderVersion 2)"
proof -
  assume "log_holds file blobs"
  then obtain v where "file = log_bytes v blobs" by (auto simp: log_holds_def)
  then have "ensure_v2_header file = log_bytes 2 blobs"
    by (simp add: ensure_v2_header_def log_bytes_def BRECCIA_HEADER_VERSION_V2_def)
  then show ?thesis
    by (simp add: load_breccia_timestamps_def check_header_log BRECCIA_HEADER_VERSION_V1_def)
qed

end
