(* ===== verification/Ltp.thy ===== *)
theory Ltp
  imports Text "HOL-Library.Multiset"
begin

text \<open>
  The local side of the Lord Transport Protocol (\<open>lord-ltp/src\<close>): chain profiles, frames
  and their payloads, the validation of what arrives, the staging files of received
  records, and the mempool of entries waiting to be sent. The hash of a root, the hex
  encoding and JSON are parameters; a staging file is the list of its lines; the mempool is
  the snapshot in memory beside the one on disk.
\<close>

section \<open>Chains\<close>

datatype ltp_chain = Mainnet | Regtest | Signet | Testnet | Testnet4

text \<open>By the last component of the data directory, absent for a root or a name that is not
  UTF-8.\<close>

definition from_chain_scoped_data_dir :: "string option \<Rightarrow> ltp_chain" where
  "from_chain_scoped_data_dir file_name =
     (if file_name = Some ''regtest'' then Regtest
      else if file_name = Some ''signet'' then Signet
      else if file_name = Some ''testnet3'' then Testnet
      else if file_name = Some ''testnet4'' then Testnet4
      else Mainnet)"

record chain_profile =
  chain_id :: u32
  ttl_secs :: u64
  max_depth :: nat

definition profile_of :: "ltp_chain \<Rightarrow> chain_profile" where
  "profile_of c =
     (case c of
        Mainnet \<Rightarrow> \<lparr>chain_id = 0, ttl_secs = 86400, max_depth = 10000\<rparr>
      | Signet \<Rightarrow> \<lparr>chain_id = 1, ttl_secs = 3600, max_depth = 5000\<rparr>
      | Testnet \<Rightarrow> \<lparr>chain_id = 2, ttl_secs = 7200, max_depth = 5000\<rparr>
      | Testnet4 \<Rightarrow> \<lparr>chain_id = 2, ttl_secs = 7200, max_depth = 5000\<rparr>
      | Regtest \<Rightarrow> \<lparr>chain_id = 3, ttl_secs = 300, max_depth = 1000\<rparr>)"

section \<open>Frames\<close>

definition LTP_FRAME_VERSION :: u8 where "LTP_FRAME_VERSION = 1"

datatype message_type = BrecciaTail | OtsUpgradeHint | ReplicationOffer | BaoChallenge | PaymentProof

record ltp_frame =
  lf_version :: u8
  lf_chain_id :: u32
  lf_message_type :: message_type
  lf_payload :: bytes

definition new_frame :: "u32 \<Rightarrow> message_type \<Rightarrow> bytes \<Rightarrow> ltp_frame" where
  "new_frame cid mt payload =
     \<lparr>lf_version = LTP_FRAME_VERSION, lf_chain_id = cid, lf_message_type = mt, lf_payload = payload\<rparr>"

record breccia_tail =
  bt_bao_root :: bytes
  bt_start_digest :: bytes
  bt_ots_order_key :: bytes
  bt_attestation_height :: "u32 option"
  bt_attestation_txid :: "string option"
  bt_tree_root :: "(bytes \<times> string) option"

record bao_challenge =
  bc_bao_root :: bytes
  bc_sample_offset :: u64
  bc_sample_rate :: u32

record payment_proof =
  pp_bao_root :: bytes
  pp_purpose :: string
  pp_ecash_reference :: string
  pp_amount_sats :: u64

datatype ltp_error =
    DigestNot32
  | DigestMismatch
  | UnsupportedVersion u8
  | ZeroAmount
  | UnsupportedPurpose string
  | ReferenceMismatch
  | ZeroSampleRate
  | WrongMessageType message_type
  | BadPayload
  | BadLine nat
  | AppendFailed
  | MempoolUnreadable
  | MempoolFull
  | SaveFailed

section \<open>Validation\<close>

definition commitment_digest :: "(bytes \<Rightarrow> bytes) \<Rightarrow> bytes \<Rightarrow> (ltp_error, bytes) result" where
  "commitment_digest sha root =
     (if length (sha root) = 32 then Ok (sha root) else Err DigestNot32)"

definition validate_breccia_tail_payload ::
  "(bytes \<Rightarrow> bytes) \<Rightarrow> breccia_tail \<Rightarrow> (ltp_error, unit) result" where
  "validate_breccia_tail_payload sha tail =
     and_then (commitment_digest sha (bt_bao_root tail)) (\<lambda>expected.
     ensure (bt_start_digest tail = expected) DigestMismatch)"

definition validate_ltp_frame_version :: "ltp_frame \<Rightarrow> (ltp_error, unit) result" where
  "validate_ltp_frame_version f =
     ensure (lf_version f = LTP_FRAME_VERSION) (UnsupportedVersion (lf_version f))"

definition expected_ecash_reference :: "(bytes \<Rightarrow> string) \<Rightarrow> bytes \<Rightarrow> string \<Rightarrow> string" where
  "expected_ecash_reference hex root purpose = ''ecash:binding:'' @ hex root @ '':'' @ purpose"

definition PAYMENT_PURPOSE_LABELS :: "string list" where
  "PAYMENT_PURPOSE_LABELS = [''storage_contract'', ''challenge_fee'', ''ltp_micro_payment'']"

definition is_valid_payment_purpose_label :: "string \<Rightarrow> bool" where
  "is_valid_payment_purpose_label label = (label \<in> set PAYMENT_PURPOSE_LABELS)"

definition validate_payment_proof_payload ::
  "(bytes \<Rightarrow> string) \<Rightarrow> payment_proof \<Rightarrow> (ltp_error, unit) result" where
  "validate_payment_proof_payload hex p =
     and_then (ensure (pp_amount_sats p \<noteq> 0) ZeroAmount) (\<lambda>_.
     and_then (ensure (is_valid_payment_purpose_label (pp_purpose p))
         (UnsupportedPurpose (pp_purpose p))) (\<lambda>_.
     ensure (pp_ecash_reference p = expected_ecash_reference hex (pp_bao_root p) (pp_purpose p))
       ReferenceMismatch))"

definition validate_bao_challenge_payload :: "bao_challenge \<Rightarrow> (ltp_error, unit) result" where
  "validate_bao_challenge_payload c = ensure (bc_sample_rate c \<noteq> 0) ZeroSampleRate"

definition decode_frame ::
  "message_type \<Rightarrow> (bytes \<Rightarrow> 'p option) \<Rightarrow> ltp_frame \<Rightarrow> (ltp_error, 'p) result" where
  "decode_frame mt parse f =
     (if lf_message_type f \<noteq> mt then Err (WrongMessageType (lf_message_type f))
      else ok_or (parse (lf_payload f)) BadPayload)"

definition decode_breccia_tail_frame ::
  "(bytes \<Rightarrow> breccia_tail option) \<Rightarrow> ltp_frame \<Rightarrow> (ltp_error, breccia_tail) result" where
  "decode_breccia_tail_frame = decode_frame BrecciaTail"

definition decode_payment_proof_frame ::
  "(bytes \<Rightarrow> payment_proof option) \<Rightarrow> ltp_frame \<Rightarrow> (ltp_error, payment_proof) result" where
  "decode_payment_proof_frame = decode_frame PaymentProof"

definition decode_bao_challenge_frame ::
  "(bytes \<Rightarrow> bao_challenge option) \<Rightarrow> ltp_frame \<Rightarrow> (ltp_error, bao_challenge) result" where
  "decode_bao_challenge_frame = decode_frame BaoChallenge"

section \<open>Staging files\<close>

record 'p inbound =
  in_received_at :: u64
  in_frame :: ltp_frame
  in_payload :: 'p

definition append_line :: "string \<Rightarrow> bool \<Rightarrow> string list option \<Rightarrow> (ltp_error, string list option) result" where
  "append_line line written file =
     (if written then Ok (Some ((case file of None \<Rightarrow> [] | Some ls \<Rightarrow> ls) @ [line]))
      else Err AppendFailed)"

definition append_inbound_tail ::
  "(breccia_tail inbound \<Rightarrow> string) \<Rightarrow> bool \<Rightarrow> ltp_frame \<Rightarrow> breccia_tail \<Rightarrow> u64 \<Rightarrow>
   string list option \<Rightarrow> (ltp_error, string list option) result" where
  "append_inbound_tail json written f tail t file =
     append_line (json \<lparr>in_received_at = t, in_frame = f, in_payload = tail\<rparr>) written file"

definition append_inbound_payment_proof ::
  "(bytes \<Rightarrow> string) \<Rightarrow> (payment_proof inbound \<Rightarrow> string) \<Rightarrow> bool \<Rightarrow> ltp_frame \<Rightarrow> payment_proof \<Rightarrow> u64 \<Rightarrow>
   string list option \<Rightarrow> (ltp_error, string list option) result" where
  "append_inbound_payment_proof hex json written f p t file =
     and_then (validate_payment_proof_payload hex p) (\<lambda>_.
     append_line (json \<lparr>in_received_at = t, in_frame = f, in_payload = p\<rparr>) written file)"

definition append_inbound_bao_challenge ::
  "(bao_challenge inbound \<Rightarrow> string) \<Rightarrow> bool \<Rightarrow> ltp_frame \<Rightarrow> bao_challenge \<Rightarrow> u64 \<Rightarrow>
   string list option \<Rightarrow> (ltp_error, string list option) result" where
  "append_inbound_bao_challenge json written f c t file =
     and_then (validate_bao_challenge_payload c) (\<lambda>_.
     append_line (json \<lparr>in_received_at = t, in_frame = f, in_payload = c\<rparr>) written file)"

text \<open>\<open>str::trim\<close> on the blank characters of ASCII.\<close>

definition is_blank :: "string \<Rightarrow> bool" where
  "is_blank line = list_all (\<lambda>c. c \<in> {CHR '' '', CHR 0x09, CHR 0x0A, CHR 0x0B, CHR 0x0C, CHR 0x0D}) line"

fun parse_lines :: "(string \<Rightarrow> 'r option) \<Rightarrow> nat \<Rightarrow> string list \<Rightarrow> (ltp_error, 'r list) result" where
  "parse_lines parse index [] = Ok []"
| "parse_lines parse index (line # ls) =
     (if is_blank line then parse_lines parse (Suc index) ls
      else and_then (ok_or (parse line) (BadLine (index + 1))) (\<lambda>r.
        and_then (parse_lines parse (Suc index) ls) (\<lambda>rs. Ok (r # rs))))"

definition read_inbound :: "(string \<Rightarrow> 'r option) \<Rightarrow> string list option \<Rightarrow> (ltp_error, 'r list) result" where
  "read_inbound parse file = (case file of None \<Rightarrow> Ok [] | Some ls \<Rightarrow> parse_lines parse 0 ls)"

lemma parse_lines_append:
  "parse_lines parse i (ls @ ls') =
   and_then (parse_lines parse i ls) (\<lambda>rs.
   and_then (parse_lines parse (i + length ls) ls') (\<lambda>rs'. Ok (rs @ rs')))"
proof (induction ls arbitrary: i)
  case Nil
  then show ?case by (cases "parse_lines parse i ls'") simp_all
next
  case (Cons l ls)
  show ?case
    by (cases "parse l"; cases "parse_lines parse (Suc i) ls";
        cases "parse_lines parse (Suc i + length ls) ls'")
      (simp_all add: Cons)
qed

text \<open>What is staged is what is read back, in the order of arrival: appending a record whose
  JSON parses back to it adds exactly that record to the end of what reading the file
  returned before, and a payment proof is staged only when it is valid.\<close>

theorem staging_roundtrip:
  assumes "append_inbound_payment_proof hex json written f p t file = Ok file'"
    and "read_inbound parse file = Ok rs"
    and "parse (json \<lparr>in_received_at = t, in_frame = f, in_payload = p\<rparr>) =
      Some \<lparr>in_received_at = t, in_frame = f, in_payload = p\<rparr>"
    and "\<not> is_blank (json \<lparr>in_received_at = t, in_frame = f, in_payload = p\<rparr>)"
  shows "read_inbound parse file' = Ok (rs @ [\<lparr>in_received_at = t, in_frame = f, in_payload = p\<rparr>]) \<and>
    validate_payment_proof_payload hex p = Ok ()"
proof -
  let ?r = "\<lparr>in_received_at = t, in_frame = f, in_payload = p\<rparr>"
  from assms(1) have v: "validate_payment_proof_payload hex p = Ok ()"
    and f': "file' = Some ((case file of None \<Rightarrow> [] | Some ls \<Rightarrow> ls) @ [json ?r])"
    by (auto simp: append_inbound_payment_proof_def append_line_def ok_elims split: if_splits)
  from assms(2) have "parse_lines parse 0 (case file of None \<Rightarrow> [] | Some ls \<Rightarrow> ls) = Ok rs"
    by (simp add: read_inbound_def split: option.splits)
  with v f' assms(3,4) show ?thesis
    by (simp add: read_inbound_def parse_lines_append)
qed

theorem staging_roundtrip_witness:
  "let p = \<lparr>pp_bao_root = [7], pp_purpose = ''challenge_fee'',
         pp_ecash_reference = ''ecash:binding:07:challenge_fee'', pp_amount_sats = 5\<rparr>;
       f = new_frame 3 PaymentProof [];
       r = \<lparr>in_received_at = 9, in_frame = f, in_payload = p\<rparr>
   in read_inbound (\<lambda>l. Some r) (ok_of (append_inbound_payment_proof (\<lambda>b. ''07'') (\<lambda>r. ''{}'') True f p 9 None))
     = Ok [r]"
proof -
  let ?p = "\<lparr>pp_bao_root = [7], pp_purpose = ''challenge_fee'',
         pp_ecash_reference = ''ecash:binding:07:challenge_fee'', pp_amount_sats = 5\<rparr>"
  let ?f = "new_frame 3 PaymentProof []"
  let ?r = "\<lparr>in_received_at = 9, in_frame = ?f, in_payload = ?p\<rparr>"
  have "append_inbound_payment_proof (\<lambda>b. ''07'') (\<lambda>r. ''{}'') True ?f ?p 9 None = Ok (Some [''{}''])"
    by (simp add: append_inbound_payment_proof_def validate_payment_proof_payload_def ensure_def
        is_valid_payment_purpose_label_def PAYMENT_PURPOSE_LABELS_def expected_ecash_reference_def
        append_line_def)
  moreover have "read_inbound (\<lambda>l. Some ?r) None = Ok []" by (simp add: read_inbound_def)
  ultimately show ?thesis
    using staging_roundtrip [of "\<lambda>b. ''07''" "\<lambda>r. ''{}''" True ?f ?p 9 None "Some [''{}'']"
        "\<lambda>l. Some ?r" "[]"]
    by (simp add: is_blank_def Let_def)
qed

end
