(* ===== verification/Mempool.thy ===== *)
theory Mempool
  imports Ltp "HOL-Library.Product_Lexorder"
begin

text \<open>
  The mempool of entries waiting to be sent (\<open>lord-ltp/src/mempool.rs\<close>): three queues in
  memory beside the file they are saved to. JSON is a parameter (\<open>json\<close> and \<open>parse\<close>, on
  contents of an arbitrary type), and so is the outcome of a write (\<open>written\<close>). The step
  relation \<open>mp_step\<close> interleaves the operations with failing writes and restarts.
\<close>

section \<open>Entries and queues\<close>

datatype queue_kind = Commitment | Storage | Market

record mempool_entry =
  me_bao_root :: bytes
  me_start_digest :: bytes
  me_enqueued_at :: u64
  me_priority :: u32
  me_queue :: queue_kind

record mempool_snapshot =
  ms_commitment :: "mempool_entry list"
  ms_storage :: "mempool_entry list"
  ms_market :: "mempool_entry list"

record ltp_mempool =
  mp_profile :: chain_profile
  mp_snapshot :: mempool_snapshot

record mempool_status =
  st_commitment :: nat
  st_storage :: nat
  st_market :: nat
  st_max_depth :: nat
  st_ttl_secs :: u64

definition queue_of :: "queue_kind \<Rightarrow> mempool_snapshot \<Rightarrow> mempool_entry list" where
  "queue_of k s =
     (case k of Commitment \<Rightarrow> ms_commitment s | Storage \<Rightarrow> ms_storage s | Market \<Rightarrow> ms_market s)"

definition queue_mut ::
  "queue_kind \<Rightarrow> (mempool_entry list \<Rightarrow> mempool_entry list) \<Rightarrow> mempool_snapshot \<Rightarrow> mempool_snapshot" where
  "queue_mut k f s =
     (case k of
        Commitment \<Rightarrow> s\<lparr>ms_commitment := f (ms_commitment s)\<rparr>
      | Storage \<Rightarrow> s\<lparr>ms_storage := f (ms_storage s)\<rparr>
      | Market \<Rightarrow> s\<lparr>ms_market := f (ms_market s)\<rparr>)"

definition empty_snapshot :: mempool_snapshot where
  "empty_snapshot = \<lparr>ms_commitment = [], ms_storage = [], ms_market = []\<rparr>"

text \<open>The file is absent, or its contents.\<close>

definition open_mempool ::
  "('j \<Rightarrow> mempool_snapshot option) \<Rightarrow> ltp_chain \<Rightarrow> 'j option \<Rightarrow> (ltp_error, ltp_mempool) result" where
  "open_mempool parse chain file =
     and_then (case file of None \<Rightarrow> Ok empty_snapshot | Some j \<Rightarrow> ok_or (parse j) MempoolUnreadable)
       (\<lambda>s. Ok \<lparr>mp_profile = profile_of chain, mp_snapshot = s\<rparr>)"

definition mempool_status_of :: "ltp_mempool \<Rightarrow> mempool_status" where
  "mempool_status_of m =
     \<lparr>st_commitment = length (ms_commitment (mp_snapshot m)),
      st_storage = length (ms_storage (mp_snapshot m)),
      st_market = length (ms_market (mp_snapshot m)),
      st_max_depth = max_depth (mp_profile m), st_ttl_secs = ttl_secs (mp_profile m)\<rparr>"

section \<open>Operations\<close>

text \<open>An operation returns the mempool in memory, the file, and its result; a write that
  fails leaves the file as it was and the memory as the operation has already changed it.\<close>

definition save ::
  "(mempool_snapshot \<Rightarrow> 'j) \<Rightarrow> bool \<Rightarrow> ltp_mempool \<Rightarrow> 'j option \<Rightarrow> 'a \<Rightarrow>
   ltp_mempool \<times> 'j option \<times> (ltp_error, 'a) result" where
  "save json written m file x =
     (if written then (m, Some (json (mp_snapshot m)), Ok x) else (m, file, Err SaveFailed))"

definition mempool_enqueue ::
  "(mempool_snapshot \<Rightarrow> 'j) \<Rightarrow> bool \<Rightarrow> mempool_entry \<Rightarrow> ltp_mempool \<Rightarrow> 'j option \<Rightarrow>
   ltp_mempool \<times> 'j option \<times> (ltp_error, bool) result" where
  "mempool_enqueue json written e m file =
     (let entries = queue_of (me_queue e) (mp_snapshot m) in
      if list_ex (\<lambda>e'. me_start_digest e' = me_start_digest e) entries then (m, file, Ok False)
      else if max_depth (mp_profile m) \<le> length entries then (m, file, Err MempoolFull)
      else save json written
        (m\<lparr>mp_snapshot := queue_mut (me_queue e) (\<lambda>es. es @ [e]) (mp_snapshot m)\<rparr>) file True)"

definition mempool_drain ::
  "(mempool_snapshot \<Rightarrow> 'j) \<Rightarrow> bool \<Rightarrow> queue_kind \<Rightarrow> nat \<Rightarrow> ltp_mempool \<Rightarrow> 'j option \<Rightarrow>
   ltp_mempool \<times> 'j option \<times> (ltp_error, mempool_entry list) result" where
  "mempool_drain json written k mx m file =
     (let entries = queue_of k (mp_snapshot m); n = min (length entries) mx;
          drained = take n entries;
          m' = m\<lparr>mp_snapshot := queue_mut k (drop n) (mp_snapshot m)\<rparr>
      in if drained \<noteq> [] then save json written m' file drained else (m', file, Ok drained))"

definition prune_snapshot :: "u64 \<Rightarrow> mempool_snapshot \<Rightarrow> mempool_snapshot" where
  "prune_snapshot cutoff s =
     (let keep = filter (\<lambda>e. cutoff \<le> me_enqueued_at e)
      in \<lparr>ms_commitment = keep (ms_commitment s), ms_storage = keep (ms_storage s),
          ms_market = keep (ms_market s)\<rparr>)"

definition snapshot_size :: "mempool_snapshot \<Rightarrow> nat" where
  "snapshot_size s = length (ms_commitment s) + length (ms_storage s) + length (ms_market s)"

definition prune_expired ::
  "(mempool_snapshot \<Rightarrow> 'j) \<Rightarrow> bool \<Rightarrow> u64 \<Rightarrow> ltp_mempool \<Rightarrow> 'j option \<Rightarrow>
   ltp_mempool \<times> 'j option \<times> (ltp_error, nat) result" where
  "prune_expired json written now m file =
     (let cutoff = saturating_sub now (ttl_secs (mp_profile m));
          s = prune_snapshot cutoff (mp_snapshot m);
          removed = snapshot_size (mp_snapshot m) - snapshot_size s;
          m' = m\<lparr>mp_snapshot := s\<rparr>
      in if 0 < removed then save json written m' file removed else (m', file, Ok removed))"

definition remove_start_digest ::
  "(mempool_snapshot \<Rightarrow> 'j) \<Rightarrow> bool \<Rightarrow> queue_kind \<Rightarrow> bytes \<Rightarrow> ltp_mempool \<Rightarrow> 'j option \<Rightarrow>
   ltp_mempool \<times> 'j option \<times> (ltp_error, bool) result" where
  "remove_start_digest json written k d m file =
     (case position (\<lambda>e. me_start_digest e = d) (queue_of k (mp_snapshot m)) of
        Some i \<Rightarrow> save json written
          (m\<lparr>mp_snapshot := queue_mut k (remove_at i) (mp_snapshot m)\<rparr>) file True
      | None \<Rightarrow> (m, file, Ok False))"

text \<open>\<open>sort_by\<close> is a stable sort; the key orders by descending priority first.\<close>

definition priority_key :: "mempool_entry \<Rightarrow> int \<times> u64" where
  "priority_key e = (- uint (me_priority e), me_enqueued_at e)"

definition commitment_start_digests :: "ltp_mempool \<Rightarrow> bytes list" where
  "commitment_start_digests m =
     map me_start_digest (sort_key priority_key (ms_commitment (mp_snapshot m)))"

section \<open>The invariant\<close>

definition queue_ok :: "nat \<Rightarrow> queue_kind \<Rightarrow> mempool_entry list \<Rightarrow> bool" where
  "queue_ok depth k es \<longleftrightarrow>
     distinct (map me_start_digest es) \<and> length es \<le> depth \<and> (\<forall>e \<in> set es. me_queue e = k)"

definition snapshot_ok :: "nat \<Rightarrow> mempool_snapshot \<Rightarrow> bool" where
  "snapshot_ok depth s \<longleftrightarrow> (\<forall>k. queue_ok depth k (queue_of k s))"

lemma queue_of_mut [simp]:
  "queue_of k (queue_mut k' f s) = (if k = k' then f (queue_of k s) else queue_of k s)"
  by (cases k; cases k') (simp_all add: queue_of_def queue_mut_def)

lemma queue_of_prune [simp]:
  "queue_of k (prune_snapshot c s) = filter (\<lambda>e. c \<le> me_enqueued_at e) (queue_of k s)"
  by (cases k) (simp_all add: queue_of_def prune_snapshot_def Let_def)

lemma queue_of_empty [simp]: "queue_of k empty_snapshot = []"
  by (cases k) (simp_all add: queue_of_def empty_snapshot_def)

lemma queue_ok_Nil [simp]: "queue_ok depth k []"
  by (simp add: queue_ok_def)

lemma queue_ok_filter: "queue_ok d k es \<Longrightarrow> queue_ok d k (filter P es)"
  by (auto simp: queue_ok_def distinct_map_filter intro: le_trans [OF length_filter_le])

lemma queue_ok_drop: "queue_ok d k es \<Longrightarrow> queue_ok d k (drop n es)"
  by (auto simp: queue_ok_def drop_map [symmetric] dest: in_set_dropD)

lemma queue_ok_remove_at: "queue_ok d k es \<Longrightarrow> queue_ok d k (remove_at i es)"
proof (induction es arbitrary: i d)
  case Nil
  then show ?case by (simp add: remove_at_def)
next
  case (Cons e es)
  from Cons.prems obtain d' where d: "d = Suc d'" "queue_ok d' k es"
    by (cases d) (auto simp: queue_ok_def)
  show ?case
  proof (cases i)
    case 0
    with d show ?thesis by (simp add: queue_ok_def)
  next
    case (Suc j)
    have "set (remove_at j es) \<subseteq> set es"
      by (auto simp: remove_at_def dest: in_set_takeD in_set_dropD)
    with Cons.IH [OF d(2), of j] Cons.prems d(1) Suc show ?thesis
      by (auto simp: queue_ok_def)
  qed
qed

lemma snapshot_ok_mut:
  "snapshot_ok d s \<Longrightarrow> (\<And>es. queue_ok d k es \<Longrightarrow> queue_ok d k (f es)) \<Longrightarrow> snapshot_ok d (queue_mut k f s)"
  by (simp add: snapshot_ok_def)

text \<open>A client, the worker of the calendar and restarts of the program, in any order.\<close>

inductive mp_step ::
  "(mempool_snapshot \<Rightarrow> 'j) \<Rightarrow> ('j \<Rightarrow> mempool_snapshot option) \<Rightarrow> ltp_chain \<Rightarrow>
   ltp_mempool \<times> 'j option \<Rightarrow> ltp_mempool \<times> 'j option \<Rightarrow> bool"
  for json parse c where
  enqueue: "mempool_enqueue json w e m f = (m', f', r) \<Longrightarrow> mp_step json parse c (m, f) (m', f')"
| drain: "mempool_drain json w k n m f = (m', f', rd) \<Longrightarrow> mp_step json parse c (m, f) (m', f')"
| prune: "prune_expired json w now m f = (m', f', rn) \<Longrightarrow> mp_step json parse c (m, f) (m', f')"
| remove: "remove_start_digest json w k d m f = (m', f', rb) \<Longrightarrow> mp_step json parse c (m, f) (m', f')"
| reopen: "open_mempool parse c f = Ok m' \<Longrightarrow> mp_step json parse c (m, f) (m', f)"

inductive mp_reachable ::
  "(mempool_snapshot \<Rightarrow> 'j) \<Rightarrow> ('j \<Rightarrow> mempool_snapshot option) \<Rightarrow> ltp_chain \<Rightarrow>
   ltp_mempool \<times> 'j option \<Rightarrow> bool"
  for json parse c where
  start: "open_mempool parse c None = Ok m \<Longrightarrow> mp_reachable json parse c (m, None)"
| step: "mp_reachable json parse c s \<Longrightarrow> mp_step json parse c s s' \<Longrightarrow> mp_reachable json parse c s'"

definition file_ok :: "('j \<Rightarrow> mempool_snapshot option) \<Rightarrow> nat \<Rightarrow> 'j option \<Rightarrow> bool" where
  "file_ok parse depth file =
     (case file of None \<Rightarrow> True
      | Some j \<Rightarrow> (case parse j of None \<Rightarrow> False | Some s \<Rightarrow> snapshot_ok depth s))"

definition mempool_ok :: "('j \<Rightarrow> mempool_snapshot option) \<Rightarrow> ltp_chain \<Rightarrow> ltp_mempool \<times> 'j option \<Rightarrow> bool" where
  "mempool_ok parse c st =
     (mp_profile (fst st) = profile_of c \<and>
      snapshot_ok (max_depth (profile_of c)) (mp_snapshot (fst st)) \<and>
      file_ok parse (max_depth (profile_of c)) (snd st))"

lemma open_mempool_ok:
  "file_ok parse (max_depth (profile_of c)) f \<Longrightarrow>
   \<exists>m. open_mempool parse c f = Ok m \<and> mempool_ok parse c (m, f)"
  by (auto simp: open_mempool_def file_ok_def mempool_ok_def snapshot_ok_def split: option.splits)

lemma save_ok:
  assumes "\<forall>s. parse (json s) = Some s"
    and "mp_profile m = profile_of c" "snapshot_ok (max_depth (profile_of c)) (mp_snapshot m)"
    and "file_ok parse (max_depth (profile_of c)) f"
    and "save json w m f x = (m', f', r)"
  shows "mempool_ok parse c (m', f')"
  using assms by (auto simp: save_def mempool_ok_def file_ok_def split: if_splits)

lemma mp_step_ok:
  assumes json: "\<forall>s. parse (json s) = Some s"
  shows "mp_step json parse c st st' \<Longrightarrow> mempool_ok parse c st \<Longrightarrow> mempool_ok parse c st'"
proof (induction rule: mp_step.induct)
  case (enqueue w e m f m' f' r)
  show ?case
  proof (cases "list_ex (\<lambda>e'. me_start_digest e' = me_start_digest e) (queue_of (me_queue e) (mp_snapshot m))
      \<or> max_depth (mp_profile m) \<le> length (queue_of (me_queue e) (mp_snapshot m))")
    case True
    with enqueue show ?thesis by (auto simp: mempool_enqueue_def Let_def split: if_splits)
  next
    case False
    let ?s = "queue_mut (me_queue e) (\<lambda>es. es @ [e]) (mp_snapshot m)"
    from False enqueue.prems have "snapshot_ok (max_depth (profile_of c)) ?s"
      by (auto simp: snapshot_ok_def queue_ok_def mempool_ok_def list_ex_iff)
    with False enqueue show ?thesis
      by (intro save_ok [where parse = parse and json = json, OF json])
        (auto simp: mempool_enqueue_def Let_def mempool_ok_def)
  qed
next
  case (drain w k n m f m' f' r)
  let ?s = "queue_mut k (drop (min (length (queue_of k (mp_snapshot m))) n)) (mp_snapshot m)"
  from drain.prems have "snapshot_ok (max_depth (profile_of c)) ?s"
    by (auto simp: mempool_ok_def intro: snapshot_ok_mut queue_ok_drop)
  with drain json show ?case
    by (auto simp: mempool_drain_def save_def Let_def mempool_ok_def file_ok_def split: if_splits)
next
  case (prune w now m f m' f' r)
  let ?s = "prune_snapshot (saturating_sub now (ttl_secs (mp_profile m))) (mp_snapshot m)"
  from prune.prems have "snapshot_ok (max_depth (profile_of c)) ?s"
    by (auto simp: mempool_ok_def snapshot_ok_def intro: queue_ok_filter)
  with prune json show ?case
    by (auto simp: prune_expired_def save_def Let_def mempool_ok_def file_ok_def split: if_splits)
next
  case (remove w k d m f m' f' r)
  have "snapshot_ok (max_depth (profile_of c)) (queue_mut k (remove_at i) (mp_snapshot m))" for i
    using remove.prems by (auto simp: mempool_ok_def intro: snapshot_ok_mut queue_ok_remove_at)
  with remove json show ?case
    by (auto simp: remove_start_digest_def save_def mempool_ok_def file_ok_def
        split: if_splits option.splits)
next
  case (reopen f m' m)
  then show ?case
    using open_mempool_ok [of parse c f] by (auto simp: mempool_ok_def)
qed

text \<open>C19: In every state the mempool can reach, with writes that fail and restarts at any
  point, each queue holds every start digest at most once, only entries of its own kind, and
  no more of them than the depth of the chain allows, in memory and in the file; and opening
  the mempool again succeeds.\<close>

theorem mempool_invariant:
  assumes "\<forall>s. parse (json s) = Some s" and "mp_reachable json parse c st"
  shows "mempool_ok parse c st \<and> is_ok (open_mempool parse c (snd st))"
proof -
  have "mempool_ok parse c st"
    using assms(2)
  proof induction
    case (start m)
    then show ?case using open_mempool_ok [of parse c None] by (auto simp: file_ok_def)
  next
    case (step s s')
    then show ?case using mp_step_ok assms(1) by metis
  qed
  moreover from this obtain m where "open_mempool parse c (snd st) = Ok m"
    using open_mempool_ok [of parse c "snd st"] by (auto simp: mempool_ok_def)
  ultimately show ?thesis by simp
qed

definition mp_entry :: "u8 \<Rightarrow> u64 \<Rightarrow> u32 \<Rightarrow> mempool_entry" where
  "mp_entry b t p =
     \<lparr>me_bao_root = [b], me_start_digest = [b], me_enqueued_at = t, me_priority = p,
      me_queue = Commitment\<rparr>"

theorem mempool_invariant_witness:
  "let m = \<lparr>mp_profile = profile_of Regtest,
        mp_snapshot = empty_snapshot\<lparr>ms_commitment := [mp_entry 1 5 0]\<rparr>\<rparr>
   in mempool_ok Some Regtest (m, None)"
proof -
  let ?init = "\<lparr>mp_profile = profile_of Regtest, mp_snapshot = empty_snapshot\<rparr>"
  let ?m = "\<lparr>mp_profile = profile_of Regtest,
        mp_snapshot = empty_snapshot\<lparr>ms_commitment := [mp_entry 1 5 0]\<rparr>\<rparr>"
  have "mp_reachable (\<lambda>s. s) Some Regtest (?init, None)"
    by (rule mp_reachable.start) (simp add: open_mempool_def)
  moreover have "mp_step (\<lambda>s. s) Some Regtest (?init, None) (?m, None)"
    by (rule mp_step.enqueue [where w = False and e = "mp_entry 1 5 0" and r = "Err SaveFailed"])
      (simp add: mempool_enqueue_def save_def queue_mut_def mp_entry_def profile_of_def
        empty_snapshot_def queue_of_def Let_def)
  ultimately have "mp_reachable (\<lambda>s. s) Some Regtest (?m, None)" by (rule mp_reachable.step)
  from mempool_invariant [OF _ this] show ?thesis by (simp add: Let_def)
qed

section \<open>Order and failure\<close>

text \<open>The digests the calendar takes first are those of the commitment queue, each entry
  once, by descending priority and then by the time of arrival; entries that agree in both
  keep the order of the queue.\<close>

theorem digests_by_priority:
  "\<exists>es. commitment_start_digests m = map me_start_digest es \<and>
     mset es = mset (ms_commitment (mp_snapshot m)) \<and>
     sorted_wrt (\<lambda>a b. me_priority a > me_priority b \<or>
       me_priority a = me_priority b \<and> me_enqueued_at a \<le> me_enqueued_at b) es \<and>
     (\<forall>p t. filter (\<lambda>e. me_priority e = p \<and> me_enqueued_at e = t) es =
       filter (\<lambda>e. me_priority e = p \<and> me_enqueued_at e = t) (ms_commitment (mp_snapshot m)))"
proof (intro exI conjI allI)
  let ?q = "ms_commitment (mp_snapshot m)"
  let ?es = "sort_key priority_key ?q"
  show "commitment_start_digests m = map me_start_digest ?es"
    by (simp add: commitment_start_digests_def)
  show "mset ?es = mset ?q" by simp
  have "sorted (map priority_key ?es)" by simp
  then show "sorted_wrt (\<lambda>a b. me_priority a > me_priority b \<or>
       me_priority a = me_priority b \<and> me_enqueued_at a \<le> me_enqueued_at b) ?es"
    by (auto simp: sorted_map priority_key_def word_less_def less_eq_prod_simp word_uint_eq_iff
        elim!: sorted_wrt_mono_rel [rotated])
  fix p t
  have "(me_priority e = p \<and> me_enqueued_at e = t) = (priority_key e = (- uint p, t))" for e
    by (auto simp: priority_key_def word_uint_eq_iff)
  then show "filter (\<lambda>e. me_priority e = p \<and> me_enqueued_at e = t) ?es =
      filter (\<lambda>e. me_priority e = p \<and> me_enqueued_at e = t) ?q"
    by (simp add: sort_key_stable)
qed

lemma enqueue_full:
  assumes "max_depth (mp_profile m) \<le> length (queue_of (me_queue e) (mp_snapshot m))"
    and "me_start_digest e \<notin> set (map me_start_digest (queue_of (me_queue e) (mp_snapshot m)))"
  shows "mempool_enqueue json written e m file = (m, file, Err MempoolFull)"
  using assms by (auto simp: mempool_enqueue_def list_ex_iff Let_def image_iff)

text \<open>A successful operation leaves the file with what is in memory; after a failed write they
  differ, and the next start forgets the entry.\<close>

lemma enqueue_saved:
  "mempool_enqueue json written e m file = (m', file', Ok True) \<Longrightarrow>
   file' = Some (json (mp_snapshot m')) \<and>
   queue_of (me_queue e) (mp_snapshot m') = queue_of (me_queue e) (mp_snapshot m) @ [e]"
  by (auto simp: mempool_enqueue_def save_def Let_def split: if_splits)

end
