(* ===== verification/Commit.thy ===== *)
theory Commit
  imports CommitmentStore Breccia Mempool
begin

text \<open>
  The operations on timestamped commitments (\<open>lord-commit/src/ots.rs\<close>) on a data directory
  that holds four stores at once: the metadata and order databases, the proof files, the
  log, and the mempool. A timestamp or an upgrade writes them one after the other and rolls
  back when a later write fails; verification compares them with each other. The record
  \<open>commit_env\<close> holds what other crates provide, \<open>io_outcome\<close> which of the writes of an
  operation succeed.
\<close>

section \<open>The data directory\<close>

text \<open>\<open>dd_name\<close> is the last component of its path, \<open>dd_existing\<close> whether its databases have
  been created, \<open>dd_files\<close> the files by their path below it.\<close>

record data_dir =
  dd_name :: "string option"
  dd_existing :: bool
  dd_store :: commitment_store
  dd_files :: "string \<rightharpoonup> bytes"
  dd_breccia :: "bytes option"
  dd_mempool :: "bytes option"

text \<open>A detached proof file: whether its digest is a SHA-256, and its timestamp.\<close>

record detached_file =
  df_sha256 :: bool
  df_timestamp :: timestamp

record commit_env =
  env_codec :: meta_codec
  env_parse :: "bytes \<Rightarrow> detached_file option"
  env_serialize :: "detached_file \<Rightarrow> bytes option"
  env_entries :: entry_codec
  env_sha :: "bytes \<Rightarrow> bytes"
  env_json :: "mempool_snapshot \<Rightarrow> bytes"
  env_unjson :: "bytes \<Rightarrow> mempool_snapshot option"
  env_unhex :: "string \<Rightarrow> bytes option"
  env_hex :: "bytes \<Rightarrow> string"

record io_outcome =
  io_pending :: bool
  io_commit :: bool
  io_append :: "nat option"
  io_publish :: bool
  io_rollback :: bool
  io_enqueue :: bool
  io_now :: u64

text \<open>The errors of encoding, verifying and packing files, in \<open>Carbonado\<close> and \<open>Filepack\<close>.\<close>

datatype storage_error =
    InvalidFormat u8
  | InputUnreadable
  | BadKeyHex
  | BadKeyLength
  | MissingKey
  | KeyTooPermissive u32
  | KeyNotWritten
  | EncodeRefused
  | BadHeader
  | FileWriteFailed
  | ClockBeforeEpoch
  | ZeroSampleRate
  | UnsafePath
  | FileUnreadable string
  | HeaderHashMismatch
  | HeaderFormatMismatch u8 u8
  | MacFailed
  | HeaderAuthFailed
  | NotVerifiable u8
  | DecodeRefused
  | SliceRefused u32
  | NotADirectory
  | NoFiles
  | DuplicatePath string
  | FileInPath string
  | ArchiveUnreadable
  | BlobHashMismatch
  | BlobMissing
  | EntryMissing string
  | EntryNotDirectory string
  | LooseFiles
  | BindingCountMismatch
  | BindingMissing string
  | PackageFileMissing string
  | ManifestUnreadable
  | WrongManifestKind
  | FingerprintMismatch
  | NotInPack bytes

datatype commit_error =
    StoreError store_error
  | StorageError storage_error
  | BrecciaError breccia_error
  | LtpError ltp_error
  | BadRootHex
  | UnknownRoot bytes
  | AlreadyTimestamped bytes
  | NotTimestamped bytes
  | CalendarRefused
  | StubFailed
  | NoUpgradeUrl
  | UnparsableProof
  | ProofPanic
  | UnsupportedDigest
  | ProofNotBound
  | ProofUnreadable string
  | MissingOrderKey
  | MissingProofPath
  | PendingWriteFailed
  | CommitFailed
  | PublishFailed
  | RollbackFailed
  | StartDigestNot32

text \<open>An operation on a state that may fail after it has changed the state.\<close>

type_synonym ('s, 'a) io = "'s \<Rightarrow> 's \<times> (commit_error, 'a) result"

definition io_then :: "('s, 'a) io \<Rightarrow> ('a \<Rightarrow> ('s, 'b) io) \<Rightarrow> ('s, 'b) io" where
  "io_then m f s = (case m s of (s', Err e) \<Rightarrow> (s', Err e) | (s', Ok x) \<Rightarrow> f x s')"

definition map_error :: "('e \<Rightarrow> 'f) \<Rightarrow> ('e, 'a) result \<Rightarrow> ('f, 'a) result" where
  "map_error f r = (case r of Err e \<Rightarrow> Err (f e) | Ok x \<Rightarrow> Ok x)"

definition io_lift :: "('s \<Rightarrow> (commit_error, 'a) result) \<Rightarrow> ('s, 'a) io" where
  "io_lift f s = (s, f s)"

section \<open>Calendars and paths\<close>

definition DEFAULT_CALENDAR_URL :: string where
  "DEFAULT_CALENDAR_URL = ''https://alice.btc.calendar.opentimestamps.org/timestamp''"

definition EMBEDDED_DEFAULT_CALENDAR_URL :: string where
  "EMBEDDED_DEFAULT_CALENDAR_URL = ''http://127.0.0.1:14788/timestamp''"

definition effective_calendar_url ::
  "ltp_chain \<Rightarrow> bool \<Rightarrow> string option \<Rightarrow> string option \<Rightarrow> string" where
  "effective_calendar_url chain calendar_enabled settings_url cli_url =
     (case cli_url of Some url \<Rightarrow> url | None \<Rightarrow>
      case settings_url of Some url \<Rightarrow> url | None \<Rightarrow>
      if calendar_enabled \<or> chain = Regtest then EMBEDDED_DEFAULT_CALENDAR_URL
      else DEFAULT_CALENDAR_URL)"

definition calendar_upgrade_url_from_timestamp :: "string \<Rightarrow> string \<Rightarrow> string" where
  "calendar_upgrade_url_from_timestamp timestamp_url digest_hex =
     (let base = trim_end_matches (CHR ''/'')
        (case strip_suffix ''/timestamp'' timestamp_url of Some u \<Rightarrow> u | None \<Rightarrow> timestamp_url)
      in base @ ''/upgrade?digest='' @ digest_hex)"

definition effective_calendar_upgrade_url ::
  "ltp_chain \<Rightarrow> bool \<Rightarrow> string option \<Rightarrow> string option \<Rightarrow> string \<Rightarrow> string" where
  "effective_calendar_upgrade_url chain calendar_enabled settings_url cli_url digest_hex =
     calendar_upgrade_url_from_timestamp
       (effective_calendar_url chain calendar_enabled settings_url cli_url) digest_hex"

definition proof_path_of :: "string \<Rightarrow> string" where
  "proof_path_of root_hex = ''ots/'' @ root_hex @ ''.ots''"

text \<open>The pending file lies beside the proof under a hidden name.\<close>

definition pending_ots_path :: "string \<Rightarrow> string" where
  "pending_ots_path path =
     (let name = takeWhile (\<lambda>c. c \<noteq> CHR ''/'') (rev path)
      in take (length path - length name) path @ ''.'' @ rev name @ ''.pending'')"

definition parse_bao_root :: "commit_env \<Rightarrow> string \<Rightarrow> (commit_error, bytes) result" where
  "parse_bao_root env hex =
     (case env_unhex env hex of None \<Rightarrow> Err BadRootHex
      | Some root \<Rightarrow> if length root = 32 then Ok root else Err BadRootHex)"

definition commitment_start_digest :: "commit_env \<Rightarrow> bytes \<Rightarrow> bytes" where
  "commitment_start_digest env root = env_sha env root"

section \<open>Proofs\<close>

definition detached_timestamp :: "commit_env \<Rightarrow> bytes \<Rightarrow> timestamp option" where
  "detached_timestamp env proof = map_option df_timestamp (env_parse env proof)"

definition proof_order_key :: "commit_env \<Rightarrow> bytes \<Rightarrow> (commit_error, bytes) result" where
  "proof_order_key env proof =
     (case order_key_from_proof_bytes (detached_timestamp env) proof of
        None \<Rightarrow> Err UnparsableProof
      | Some None \<Rightarrow> Err ProofPanic
      | Some (Some key) \<Rightarrow> Ok key)"

definition validate_proof_digest_binding ::
  "commit_env \<Rightarrow> bytes \<Rightarrow> bytes \<Rightarrow> (commit_error, unit) result" where
  "validate_proof_digest_binding env proof expected_digest =
     (case env_parse env proof of None \<Rightarrow> Err UnparsableProof
      | Some file \<Rightarrow>
          and_then (ensure (df_sha256 file) UnsupportedDigest) (\<lambda>_.
          ensure (start_digest (df_timestamp file) = expected_digest) ProofNotBound))"

fun attestation_height_from_step :: "step \<Rightarrow> u32 option"
  and attestation_height_from_steps :: "step list \<Rightarrow> u32 option" where
  "attestation_height_from_step (Step d out cs) =
     (case d of Attestation (Bitcoin h) \<Rightarrow> Some (ucast h)
      | _ \<Rightarrow> attestation_height_from_steps cs)"
| "attestation_height_from_steps [] = None"
| "attestation_height_from_steps (c # cs) =
     (case attestation_height_from_step c of Some h \<Rightarrow> Some h
      | None \<Rightarrow> attestation_height_from_steps cs)"

definition attestation_height_from_proof :: "commit_env \<Rightarrow> bytes \<Rightarrow> u32 option" where
  "attestation_height_from_proof env proof =
     (case env_parse env proof of None \<Rightarrow> None
      | Some file \<Rightarrow> attestation_height_from_step (first_step (df_timestamp file)))"

definition attestation_step :: "bytes \<Rightarrow> step" where
  "attestation_step digest =
     Step (Attestation (Pending ''https://localhost.stub/opentimestamps'')) digest []"

definition empty_attestation_chain :: "(bytes \<Rightarrow> bytes) \<Rightarrow> bytes \<Rightarrow> step" where
  "empty_attestation_chain sha digest = Step (Op Sha256) (sha digest) [attestation_step (sha digest)]"

definition stub_timestamp :: "(bytes \<Rightarrow> bytes) \<Rightarrow> bytes \<Rightarrow> bytes \<Rightarrow> timestamp" where
  "stub_timestamp sha digest root =
     (let branch = unat (hd root mod 4) in
      \<lparr>start_digest = digest,
       first_step = Step Fork digest
         (map (\<lambda>i. if i = branch then attestation_step digest else empty_attestation_chain sha digest)
           [0..<4])\<rparr>)"

definition stub_proof_bytes :: "commit_env \<Rightarrow> bytes \<Rightarrow> bytes \<Rightarrow> (commit_error, bytes) result" where
  "stub_proof_bytes env digest root =
     ok_or (env_serialize env \<lparr>df_sha256 = True, df_timestamp = stub_timestamp (env_sha env) digest root\<rparr>)
       StubFailed"

section \<open>Writes\<close>

text \<open>\<open>StorageStore::open\<close>, with the migrations it may run.\<close>

definition open_data_dir :: "commit_env \<Rightarrow> (data_dir, commitment_store) io" where
  "open_data_dir env d =
     (let E = \<lparr>se_codec = env_codec env, se_parse = detached_timestamp env, se_files = dd_files d,
          se_breccia_timestamps =
            (case load_breccia_timestamps (de_v1 (env_entries env)) (dd_breccia d) of
               Err _ \<Rightarrow> None | Ok ts \<Rightarrow> Some ts)\<rparr>
      in case open_store E (dd_existing d) (dd_store d) of
           Err e \<Rightarrow> (d, Err (StoreError e))
         | Ok st \<Rightarrow> (d\<lparr>dd_store := st, dd_existing := True\<rparr>, Ok st))"

definition known_commitment ::
  "commit_env \<Rightarrow> bytes \<Rightarrow> data_dir \<Rightarrow> (commit_error, commitment_meta) result" where
  "known_commitment env root d =
     and_then (map_error StoreError (get_commitment (env_codec env) (dd_store d) root)) (\<lambda>found.
     ok_or found (UnknownRoot root))"

definition write_file :: "bool \<Rightarrow> commit_error \<Rightarrow> string \<Rightarrow> bytes \<Rightarrow> (data_dir, unit) io" where
  "write_file ok e path contents d =
     (if ok then (d\<lparr>dd_files := (dd_files d)(path \<mapsto> contents)\<rparr>, Ok ()) else (d, Err e))"

definition remove_file :: "string \<Rightarrow> data_dir \<Rightarrow> data_dir" where
  "remove_file path d = d\<lparr>dd_files := (dd_files d)(path := None)\<rparr>"

text \<open>A write transaction: its changes are kept when all of its writes and the commit
  succeed.\<close>

definition transaction ::
  "bool \<Rightarrow> commit_error \<Rightarrow> (commitment_store \<Rightarrow> (store_error, commitment_store) result) \<Rightarrow>
   (data_dir, unit) io" where
  "transaction committed e body d =
     (case body (dd_store d) of
        Err err \<Rightarrow> (d, Err (StoreError err))
      | Ok st \<Rightarrow> if committed then (d\<lparr>dd_store := st\<rparr>, Ok ()) else (d, Err e))"

definition order_key_body ::
  "commit_env \<Rightarrow> bytes \<Rightarrow> bytes option \<Rightarrow> commitment_meta \<Rightarrow> bytes \<Rightarrow>
   commitment_store \<Rightarrow> (store_error, commitment_store) result" where
  "order_key_body env root previous_order_key updated new_order_bytes st =
     and_then (case previous_order_key of
         Some old_key \<Rightarrow> delete_commitment_order old_key st | None \<Rightarrow> Ok st) (\<lambda>st.
     put_commitment_order new_order_bytes root (put_commitment (env_codec env) updated st))"

definition commit_upgrade_order_key ::
  "commit_env \<Rightarrow> bool \<Rightarrow> bytes \<Rightarrow> bytes option \<Rightarrow> commitment_meta \<Rightarrow> bytes \<Rightarrow> (data_dir, unit) io" where
  "commit_upgrade_order_key env committed root previous_order_key updated new_order_bytes =
     transaction committed CommitFailed (order_key_body env root previous_order_key updated new_order_bytes)"

definition rollback_timestamp_lmdb ::
  "commit_env \<Rightarrow> bool \<Rightarrow> commitment_meta \<Rightarrow> bytes option \<Rightarrow> commitment_meta \<Rightarrow> (data_dir, unit) io" where
  "rollback_timestamp_lmdb env committed previous_meta previous_order_key updated =
     transaction committed RollbackFailed (\<lambda>st.
       let st = put_commitment (env_codec env) previous_meta st in
       and_then (case cm_ots_order_key updated of
           Some new_key \<Rightarrow> delete_commitment_order new_key st | None \<Rightarrow> Ok st) (\<lambda>st.
       case previous_order_key of
         Some old_key \<Rightarrow> put_commitment_order old_key (cm_bao_root previous_meta) st
       | None \<Rightarrow> Ok st))"

definition breccia_records ::
  "commit_env \<Rightarrow> data_dir \<Rightarrow> (commit_error, breccia_record list) result" where
  "breccia_records env d =
     map_error BrecciaError (read_breccia_records (env_entries env) (dd_breccia d))"

definition breccia_contains_bao_root ::
  "commit_env \<Rightarrow> bytes \<Rightarrow> data_dir \<Rightarrow> (commit_error, bool) result" where
  "breccia_contains_bao_root env root d =
     and_then (breccia_records env d) (\<lambda>rs. Ok (list_ex (\<lambda>r. record_bao_root r = root) rs))"

definition is_v2_of :: "bytes \<Rightarrow> breccia_record \<Rightarrow> bool" where
  "is_v2_of root r = (case r of V2 e \<Rightarrow> ce_bao_root e = root | V1 _ \<Rightarrow> False)"

definition is_v1_of :: "bytes \<Rightarrow> breccia_record \<Rightarrow> bool" where
  "is_v1_of root r = (case r of V1 e \<Rightarrow> ce_bao_root e = root | V2 _ \<Rightarrow> False)"

definition breccia_has_v2_for_root ::
  "commit_env \<Rightarrow> bytes \<Rightarrow> data_dir \<Rightarrow> (commit_error, bool) result" where
  "breccia_has_v2_for_root env root d =
     and_then (breccia_records env d) (\<lambda>rs. Ok (list_ex (is_v2_of root) rs))"

text \<open>\<open>open_or_create\<close> writes the header of a new log before the append; \<open>v2\<close> asks for the
  header of version 2.\<close>

definition append_breccia :: "nat option \<Rightarrow> bool \<Rightarrow> bytes \<Rightarrow> (data_dir, unit) io" where
  "append_breccia torn v2 blob d =
     (case open_or_create (dd_breccia d) of
        Err e \<Rightarrow> (d, Err (BrecciaError e))
      | Ok file \<Rightarrow>
          let file = (if v2 then ensure_v2_header file else file) in
          case append_blob torn blob file of
            (file', Err e) \<Rightarrow> (d\<lparr>dd_breccia := Some file'\<rparr>, Err (BrecciaError e))
          | (file', Ok offset) \<Rightarrow> (d\<lparr>dd_breccia := Some file'\<rparr>, Ok ()))"

definition enqueue_breccia_tail_ltp :: "commit_env \<Rightarrow> io_outcome \<Rightarrow> bytes \<Rightarrow> (data_dir, unit) io" where
  "enqueue_breccia_tail_ltp env w root d =
     (let chain = from_chain_scoped_data_dir (dd_name d);
          digest = commitment_start_digest env root in
      if length digest \<noteq> 32 then (d, Err StartDigestNot32)
      else case open_mempool (env_unjson env) chain (dd_mempool d) of
          Err e \<Rightarrow> (d, Err (LtpError e))
        | Ok m \<Rightarrow>
            let e = \<lparr>me_bao_root = root, me_start_digest = digest, me_enqueued_at = io_now w,
                  me_priority = 0, me_queue = Commitment\<rparr> in
            case mempool_enqueue (env_json env) (io_enqueue w) e m (dd_mempool d) of
              (m', file, r) \<Rightarrow>
                (d\<lparr>dd_mempool := file\<rparr>,
                 map_error LtpError (and_then r (\<lambda>_. Ok ()))))"

definition maybe_append_breccia_v2_and_enqueue_ltp ::
  "commit_env \<Rightarrow> io_outcome \<Rightarrow> bytes \<Rightarrow> commitment_meta \<Rightarrow> bytes \<Rightarrow> bytes \<Rightarrow> (data_dir, unit) io" where
  "maybe_append_breccia_v2_and_enqueue_ltp env w root m proof order_key =
     (case attestation_height_from_proof env proof of
        None \<Rightarrow> (\<lambda>d. (d, Ok ()))
      | Some height \<Rightarrow>
          io_then (io_lift (breccia_has_v2_for_root env root)) (\<lambda>found.
          if found then enqueue_breccia_tail_ltp env w root
          else
            let entry = \<lparr>ce_bao_root = root, ce_ots_order_key = order_key,
                  ce_timestamped_at = (case cm_timestamped_at m of Some t \<Rightarrow> t | None \<Rightarrow> cm_created_at m),
                  ce_carbonado_path = cm_carbonado_path m, ce_attestation_height = height,
                  ce_attestation_txid = [], ce_replication_target = 0\<rparr>
            in io_then (append_breccia (io_append w) True (encode_entry_v2 (env_entries env) entry)) (\<lambda>_.
               enqueue_breccia_tail_ltp env w root)))"

section \<open>Timestamping\<close>

record timestamp_result =
  tr_bao_root :: string
  tr_ots_proof_path :: string
  tr_ots_order_key :: string
  tr_timestamped_at :: u64

definition v1_entry :: "bytes \<Rightarrow> bytes \<Rightarrow> u64 \<Rightarrow> string \<Rightarrow> commitment_entry" where
  "v1_entry root key t path =
     \<lparr>ce_bao_root = root, ce_ots_order_key = key, ce_timestamped_at = t, ce_carbonado_path = path\<rparr>"

definition repair_breccia_from_meta ::
  "commit_env \<Rightarrow> io_outcome \<Rightarrow> string \<Rightarrow> commitment_meta \<Rightarrow> (data_dir, timestamp_result) io" where
  "repair_breccia_from_meta env w root_hex m =
     io_then (io_lift (\<lambda>_. ok_or (cm_ots_order_key m) MissingOrderKey)) (\<lambda>order_key.
     io_then (io_lift (\<lambda>_. ok_or (cm_ots_proof_path m) MissingProofPath)) (\<lambda>path.
     let t = (case cm_timestamped_at m of Some t \<Rightarrow> t | None \<Rightarrow> cm_created_at m);
         entry = v1_entry (cm_bao_root m) order_key t (cm_carbonado_path m)
     in io_then (append_breccia (io_append w) False (encode_entry (env_entries env) entry)) (\<lambda>_ d.
        (d, Ok \<lparr>tr_bao_root = root_hex, tr_ots_proof_path = path,
               tr_ots_order_key = env_hex env order_key, tr_timestamped_at = t\<rparr>))))"

text \<open>Where a proof comes from: a stub, or the calendar, which may refuse.\<close>

datatype proof_source = DryRun | Calendar "bytes \<Rightarrow> bytes option"

definition obtain_proof ::
  "commit_env \<Rightarrow> proof_source \<Rightarrow> bytes \<Rightarrow> bytes \<Rightarrow> (commit_error, bytes) result" where
  "obtain_proof env source digest root =
     (case source of
        DryRun \<Rightarrow> stub_proof_bytes env digest root
      | Calendar submit \<Rightarrow> ok_or (submit digest) CalendarRefused)"

text \<open>The writes that a failure rolls back.\<close>

definition publish_timestamp ::
  "commit_env \<Rightarrow> io_outcome \<Rightarrow> bytes \<Rightarrow> bytes option \<Rightarrow> commitment_meta \<Rightarrow> bytes \<Rightarrow> bytes \<Rightarrow>
   commitment_entry \<Rightarrow> string \<Rightarrow> (data_dir, unit) io" where
  "publish_timestamp env w root previous_order_key updated order_key proof entry path =
     io_then (commit_upgrade_order_key env (io_commit w) root previous_order_key updated order_key) (\<lambda>_.
     io_then (append_breccia (io_append w) False (encode_entry (env_entries env) entry)) (\<lambda>_.
     io_then (write_file (io_publish w) PublishFailed path proof) (\<lambda>_ d.
     (remove_file (pending_ots_path path) d, Ok ()))))"

definition timestamp_commitment ::
  "commit_env \<Rightarrow> io_outcome \<Rightarrow> proof_source \<Rightarrow> bool \<Rightarrow> string \<Rightarrow> (data_dir, timestamp_result) io" where
  "timestamp_commitment env w source force root_hex =
     io_then (io_lift (\<lambda>_. parse_bao_root env root_hex)) (\<lambda>root.
     io_then (open_data_dir env) (\<lambda>_.
     io_then (io_lift (known_commitment env root)) (\<lambda>m.
     if is_timestamped m \<and> \<not> force then
       io_then (io_lift (breccia_contains_bao_root env root)) (\<lambda>found.
       if found then (\<lambda>d. (d, Err (AlreadyTimestamped root)))
       else repair_breccia_from_meta env w root_hex m)
     else
       let digest = commitment_start_digest env root in
       io_then (io_lift (\<lambda>_. obtain_proof env source digest root)) (\<lambda>proof.
       io_then (io_lift (\<lambda>_. proof_order_key env proof)) (\<lambda>order_key.
       let path = proof_path_of root_hex;
           updated = m\<lparr>cm_ots_proof_path := Some path, cm_ots_order_key := Some order_key,
               cm_timestamped_at := Some (io_now w)\<rparr>;
           entry = v1_entry root order_key (io_now w) (cm_carbonado_path updated)
       in
       io_then (write_file (io_pending w) PendingWriteFailed (pending_ots_path path) proof) (\<lambda>_ d.
       case publish_timestamp env w root (cm_ots_order_key m) updated order_key proof entry path d of
         (d, Err e) \<Rightarrow>
           io_then (rollback_timestamp_lmdb env (io_rollback w) m (cm_ots_order_key m) updated)
             (\<lambda>_ d. (d, Err e)) (remove_file (pending_ots_path path) d)
       | (d, Ok u) \<Rightarrow>
           (d, Ok \<lparr>tr_bao_root = root_hex, tr_ots_proof_path = path,
                   tr_ots_order_key = env_hex env order_key, tr_timestamped_at = io_now w\<rparr>)))))))"

section \<open>Upgrading\<close>

record upgrade_result =
  ur_bao_root :: string
  ur_ots_proof_path :: string
  ur_ots_order_key :: string
  ur_upgraded :: bool

text \<open>The in-process calendar, or the answer of the URL, if one is configured.\<close>

datatype upgrade_source = InProcess "bytes \<Rightarrow> (commit_error, bytes) result"
  | Url string "(commit_error, bytes) result"

definition fetch_upgraded_proof :: "upgrade_source \<Rightarrow> bytes \<Rightarrow> (commit_error, bytes) result" where
  "fetch_upgraded_proof source digest =
     (case source of
        InProcess upgrade \<Rightarrow> if length digest = 32 then upgrade digest else Err StartDigestNot32
      | Url url answer \<Rightarrow> if url = [] then Err NoUpgradeUrl else answer)"

definition publish_upgrade ::
  "commit_env \<Rightarrow> io_outcome \<Rightarrow> bytes \<Rightarrow> commitment_meta \<Rightarrow> commitment_meta \<Rightarrow> bool \<Rightarrow> bytes \<Rightarrow> bytes \<Rightarrow>
   string \<Rightarrow> (data_dir, unit) io" where
  "publish_upgrade env w root m updated order_key_changed order_key proof path =
     io_then (write_file (io_pending w) PendingWriteFailed (pending_ots_path path) proof) (\<lambda>_ d.
     case (if order_key_changed
           then commit_upgrade_order_key env (io_commit w) root (cm_ots_order_key m) updated order_key d
           else (d, Ok ())) of
       (d, Err e) \<Rightarrow> (remove_file (pending_ots_path path) d, Err e)
     | (d, Ok u) \<Rightarrow>
         (case write_file (io_publish w) PublishFailed path proof d of
            (d, Err e) \<Rightarrow>
              (let d = remove_file (pending_ots_path path) d in
               if order_key_changed
               then io_then (rollback_timestamp_lmdb env (io_rollback w) m (cm_ots_order_key m) updated)
                 (\<lambda>_ d. (d, Err e)) d
               else (d, Err e))
          | (d, Ok u) \<Rightarrow> (remove_file (pending_ots_path path) d, Ok ())))"

definition upgrade_commitment ::
  "commit_env \<Rightarrow> io_outcome \<Rightarrow> upgrade_source \<Rightarrow> string \<Rightarrow> (data_dir, upgrade_result) io" where
  "upgrade_commitment env w source root_hex =
     io_then (io_lift (\<lambda>_. parse_bao_root env root_hex)) (\<lambda>root.
     io_then (open_data_dir env) (\<lambda>_.
     io_then (io_lift (known_commitment env root)) (\<lambda>m.
     io_then (io_lift (\<lambda>_. ok_or (cm_ots_proof_path m) (NotTimestamped root))) (\<lambda>path.
     io_then (io_lift (\<lambda>d. ok_or (dd_files d path) (ProofUnreadable path))) (\<lambda>current.
     let digest = commitment_start_digest env root in
     io_then (io_lift (\<lambda>_. fetch_upgraded_proof source digest)) (\<lambda>proof.
     io_then (io_lift (\<lambda>_. validate_proof_digest_binding env proof digest)) (\<lambda>_.
     io_then (io_lift (\<lambda>_. proof_order_key env proof)) (\<lambda>order_key.
     let proof_unchanged = (proof = current);
         order_key_changed = (cm_ots_order_key m \<noteq> Some order_key);
         updated = m\<lparr>cm_ots_order_key := Some order_key\<rparr>;
         result = (\<lambda>upgraded d. (d, Ok \<lparr>ur_bao_root = root_hex, ur_ots_proof_path = path,
             ur_ots_order_key = env_hex env order_key, ur_upgraded = upgraded\<rparr>))
     in
     if proof_unchanged \<and> \<not> order_key_changed then
       io_then (maybe_append_breccia_v2_and_enqueue_ltp env w root m proof order_key) (\<lambda>_. result False)
     else if proof_unchanged then
       io_then (commit_upgrade_order_key env (io_commit w) root (cm_ots_order_key m) updated order_key) (\<lambda>_.
       io_then (maybe_append_breccia_v2_and_enqueue_ltp env w root updated proof order_key) (\<lambda>_.
       result False))
     else
       io_then (publish_upgrade env w root m updated order_key_changed order_key proof path) (\<lambda>_.
       io_then (maybe_append_breccia_v2_and_enqueue_ltp env w root updated proof order_key) (\<lambda>_.
       result True))))))))))"

section \<open>Verification\<close>

datatype 'e status_json =
    JNone
  | JPending
  | JConfirmed u32 "u32 option"
  | JFailed "verify_error option"
  | JUnavailable "'e unavailable option"
  | JUnknown

text \<open>A source of headers with the height of its tip, \<open>None\<close> when it cannot tell.\<close>

record 'e headers =
  hs_source :: "'e header_source"
  hs_tip :: "u32 option"

definition attestation_to_json :: "'e verify_status \<Rightarrow> 'e headers option \<Rightarrow> 'e status_json" where
  "attestation_to_json st headers =
     (case st of
        NoAttestation \<Rightarrow> JNone
      | PendingStatus \<Rightarrow> JPending
      | Confirmed h \<Rightarrow> JConfirmed h
          (case headers of None \<Rightarrow> None
           | Some s \<Rightarrow> map_option (\<lambda>tip. saturating_add (saturating_sub tip h) 1) (hs_tip s))
      | Failed e \<Rightarrow> JFailed (Some e)
      | Unavailable u \<Rightarrow> JUnavailable (Some u)
      | Unknown \<Rightarrow> JUnknown)"

definition overall_valid :: "bool \<Rightarrow> 'e verify_status \<Rightarrow> bool" where
  "overall_valid digest_valid st =
     (digest_valid \<and>
      (case st of Confirmed _ \<Rightarrow> True | Failed _ \<Rightarrow> False | Unknown \<Rightarrow> False
       | _ \<Rightarrow> allows_valid_digest_only st))"

text \<open>The status when no source of headers is configured is \<open>None\<close>.\<close>

definition proof_status ::
  "executor \<Rightarrow> timestamp \<Rightarrow> 'e headers option \<Rightarrow> 'e verify_status option" where
  "proof_status ex ts headers =
     map_option (\<lambda>s. verify_timestamp_attestations ex ts (hs_source s)) headers"

definition status_valid :: "bool \<Rightarrow> 'e verify_status option \<Rightarrow> bool" where
  "status_valid digest_valid st =
     (case st of None \<Rightarrow> digest_valid | Some st \<Rightarrow> overall_valid digest_valid st)"

definition status_json_of :: "'e verify_status option \<Rightarrow> 'e headers option \<Rightarrow> 'e status_json" where
  "status_json_of st headers =
     (case st of None \<Rightarrow> JUnavailable None | Some st \<Rightarrow> attestation_to_json st headers)"

definition verify_ots_proof_file ::
  "commit_env \<Rightarrow> executor \<Rightarrow> 'e headers option \<Rightarrow> string \<Rightarrow> string \<Rightarrow> data_dir \<Rightarrow>
   (commit_error, 'e status_json) result" where
  "verify_ots_proof_file env ex headers root_hex path d =
     and_then (parse_bao_root env root_hex) (\<lambda>root.
     and_then (ok_or (dd_files d path) (ProofUnreadable path)) (\<lambda>proof.
     and_then (ok_or (env_parse env proof) UnparsableProof) (\<lambda>file.
     if start_digest (df_timestamp file) \<noteq> commitment_start_digest env root \<or> \<not> df_sha256 file
     then Ok (JFailed None)
     else Ok (status_json_of (proof_status ex (df_timestamp file) headers) headers))))"

record 'e ots_result =
  or_bao_root :: string
  or_ots_proof_path :: string
  or_ots_order_key :: string
  or_valid :: bool
  or_digest_valid :: bool
  or_attestation :: "'e status_json"

definition verify_ots_commitment ::
  "commit_env \<Rightarrow> executor \<Rightarrow> 'e headers option \<Rightarrow> string \<Rightarrow> (data_dir, 'e ots_result) io" where
  "verify_ots_commitment env ex headers root_hex =
     io_then (io_lift (\<lambda>_. parse_bao_root env root_hex)) (\<lambda>root.
     io_then (open_data_dir env) (\<lambda>_.
     io_then (io_lift (known_commitment env root)) (\<lambda>m.
     io_then (io_lift (\<lambda>_. ok_or (cm_ots_proof_path m) (NotTimestamped root))) (\<lambda>path.
     io_then (io_lift (\<lambda>d. ok_or (dd_files d path) (ProofUnreadable path))) (\<lambda>proof.
     io_then (io_lift (\<lambda>_. ok_or (env_parse env proof) UnparsableProof)) (\<lambda>file d.
     let digest_valid = (start_digest (df_timestamp file) = commitment_start_digest env root \<and> df_sha256 file);
         st = proof_status ex (df_timestamp file) headers
     in (d, Ok \<lparr>or_bao_root = root_hex, or_ots_proof_path = path,
            or_ots_order_key = (case cm_ots_order_key m of None \<Rightarrow> [] | Some k \<Rightarrow> env_hex env k),
            or_valid = status_valid digest_valid st, or_digest_valid = digest_valid,
            or_attestation = status_json_of st headers\<rparr>)))))))"

datatype mismatch =
    MissingProofPathInLmdb
  | ProofFileMissing
  | OrderKeyMissing
  | OrderKeyDiffers
  | OrderKeyNotDerived
  | NoBrecciaEntry
  | V2OrderKeyDiffers
  | V2PathDiffers
  | V1OrderKeyDiffers
  | V1TimestampDiffers
  | V1PathDiffers
  | HeightDiffers u32
  | V2EntryMissing
  | CarbonadoMissing string
  | CarbonadoBindingInvalid

record cross_store =
  cs_lmdb_has_proof_path :: bool
  cs_ots_file_exists :: bool
  cs_lmdb_order_key_matches_proof :: bool
  cs_breccia_entry_found :: bool
  cs_breccia_matches_lmdb :: bool
  cs_breccia_v2_found :: bool
  cs_breccia_attestation_height_valid :: bool
  cs_carbonado_file_exists :: bool
  cs_carbonado_binding_valid :: bool
  cs_valid :: bool
  cs_mismatches :: "mismatch list"

text \<open>Each check returns its verdict and the mismatches that it reports.\<close>

definition check :: "bool \<Rightarrow> mismatch \<Rightarrow> bool \<times> mismatch list" where
  "check b m = (b, if b then [] else [m])"

definition check_order_key ::
  "commit_env \<Rightarrow> commitment_meta \<Rightarrow> bytes \<Rightarrow> bool \<times> mismatch list" where
  "check_order_key env m proof =
     (case cm_ots_order_key m of
        None \<Rightarrow> (False, [OrderKeyMissing])
      | Some lmdb_key \<Rightarrow>
          if proof = [] then (False, [])
          else (case proof_order_key env proof of
              Ok proof_key \<Rightarrow> check (proof_key = lmdb_key) OrderKeyDiffers
            | Err _ \<Rightarrow> (False, [OrderKeyNotDerived])))"

definition check_breccia ::
  "commitment_meta \<Rightarrow> commitment_entry option \<Rightarrow> commitment_entry_v2 option \<Rightarrow> bool \<times> mismatch list" where
  "check_breccia m v1 v2 =
     (case v2 of
        Some e \<Rightarrow>
          let r = (if cm_ots_order_key m \<noteq> Some (ce_ots_order_key e) then [V2OrderKeyDiffers] else []) @
            (if cm_carbonado_path m \<noteq> ce_carbonado_path e \<and> ce_carbonado_path e \<noteq> [] then [V2PathDiffers] else [])
          in (r = [], r)
      | None \<Rightarrow> (case v1 of
          Some e \<Rightarrow>
            let r = (if cm_ots_order_key m \<noteq> Some (ce_ots_order_key e) then [V1OrderKeyDiffers] else []) @
              (if cm_timestamped_at m \<noteq> Some (ce_timestamped_at e) then [V1TimestampDiffers] else []) @
              (if cm_carbonado_path m \<noteq> ce_carbonado_path e then [V1PathDiffers] else [])
            in (r = [], r)
        | None \<Rightarrow> (False, [])))"

definition check_height :: "commitment_entry_v2 option \<Rightarrow> u32 option \<Rightarrow> bool \<times> mismatch list" where
  "check_height v2 proof_height =
     (case (v2, proof_height) of
        (Some e, Some height) \<Rightarrow> check (ce_attestation_height e = height) (HeightDiffers height)
      | (Some e, None) \<Rightarrow> (True, [])
      | (None, Some _) \<Rightarrow> (False, [V2EntryMissing])
      | (None, None) \<Rightarrow> (True, []))"

fun first_v1 :: "bytes \<Rightarrow> breccia_record list \<Rightarrow> commitment_entry option" where
  "first_v1 root [] = None"
| "first_v1 root (r # rs) =
     (case r of V1 e \<Rightarrow> if ce_bao_root e = root then Some e else first_v1 root rs
      | V2 _ \<Rightarrow> first_v1 root rs)"

fun first_v2 :: "bytes \<Rightarrow> breccia_record list \<Rightarrow> commitment_entry_v2 option" where
  "first_v2 root [] = None"
| "first_v2 root (r # rs) =
     (case r of V2 e \<Rightarrow> if ce_bao_root e = root then Some e else first_v2 root rs
      | V1 _ \<Rightarrow> first_v2 root rs)"

definition validate_carbonado_relative_path :: "string \<Rightarrow> bool" where
  "validate_carbonado_relative_path path =
     (path \<noteq> [] \<and> \<not> contains ''..'' path \<and> CHR ''/'' \<notin> set path \<and> CHR 0x5C \<notin> set path \<and> path \<noteq> ''.'')"

definition carbonado_file :: "string \<Rightarrow> string option" where
  "carbonado_file path =
     (if validate_carbonado_relative_path path then Some (''carbonado/'' @ path) else None)"

text \<open>\<open>binding\<close> is \<open>verify_carbonado_header_binding\<close> on the contents of the file.\<close>

definition verify_cross_store ::
  "commit_env \<Rightarrow> (bytes \<Rightarrow> commitment_meta \<Rightarrow> bytes \<Rightarrow> bool) \<Rightarrow> bytes \<Rightarrow> commitment_meta \<Rightarrow> bytes \<Rightarrow>
   data_dir \<Rightarrow> cross_store" where
  "verify_cross_store env binding root m proof d =
     (let has_path = (cm_ots_proof_path m \<noteq> None);
          file_exists = (case cm_ots_proof_path m of None \<Rightarrow> False | Some p \<Rightarrow> dd_files d p \<noteq> None);
          key = check_order_key env m proof;
          records = (case breccia_records env d of Ok rs \<Rightarrow> rs | Err _ \<Rightarrow> []);
          v1 = first_v1 root records;
          v2 = first_v2 root records;
          found = (v1 \<noteq> None \<or> v2 \<noteq> None);
          brec = check_breccia m v1 v2;
          height = check_height v2 (attestation_height_from_proof env proof);
          carbonado = (case carbonado_file (cm_carbonado_path m) of None \<Rightarrow> None | Some p \<Rightarrow> dd_files d p);
          bound = (case carbonado of None \<Rightarrow> False | Some blob \<Rightarrow> binding blob m root)
      in \<lparr>cs_lmdb_has_proof_path = has_path,
          cs_ots_file_exists = file_exists,
          cs_lmdb_order_key_matches_proof = fst key,
          cs_breccia_entry_found = found,
          cs_breccia_matches_lmdb = fst brec,
          cs_breccia_v2_found = (v2 \<noteq> None),
          cs_breccia_attestation_height_valid = fst height,
          cs_carbonado_file_exists = (carbonado \<noteq> None),
          cs_carbonado_binding_valid = bound,
          cs_valid = (has_path \<and> file_exists \<and> fst key \<and> found \<and> fst brec \<and> fst height \<and>
            carbonado \<noteq> None \<and> bound),
          cs_mismatches =
            (if has_path then [] else [MissingProofPathInLmdb]) @
            (if has_path \<and> \<not> file_exists then [ProofFileMissing] else []) @
            snd key @ (if found then [] else [NoBrecciaEntry]) @ snd brec @ snd height @
            (if carbonado \<noteq> None then [] else [CarbonadoMissing (cm_carbonado_path m)]) @
            (if carbonado \<noteq> None \<and> \<not> bound then [CarbonadoBindingInvalid] else [])\<rparr>)"

record 'e full_result =
  vf_ots :: "'e ots_result"
  vf_cross_store :: cross_store
  vf_valid :: bool

definition verify_commitment_full ::
  "commit_env \<Rightarrow> executor \<Rightarrow> (bytes \<Rightarrow> commitment_meta \<Rightarrow> bytes \<Rightarrow> bool) \<Rightarrow> 'e headers option \<Rightarrow> string \<Rightarrow>
   (data_dir, 'e full_result) io" where
  "verify_commitment_full env ex binding headers root_hex =
     io_then (io_lift (\<lambda>_. parse_bao_root env root_hex)) (\<lambda>root.
     io_then (open_data_dir env) (\<lambda>_.
     io_then (io_lift (known_commitment env root)) (\<lambda>m.
     io_then (io_lift (\<lambda>d. case cm_ots_proof_path m of None \<Rightarrow> Ok []
         | Some path \<Rightarrow> ok_or (dd_files d path) (ProofUnreadable path))) (\<lambda>proof d.
     let cross = verify_cross_store env binding root m proof d in
     io_then
       (if cm_ots_proof_path m \<noteq> None then verify_ots_commitment env ex headers root_hex
        else (\<lambda>d. (d, Ok \<lparr>or_bao_root = root_hex, or_ots_proof_path = [], or_ots_order_key = [],
               or_valid = False, or_digest_valid = False, or_attestation = JNone\<rparr>)))
       (\<lambda>ots d. (d, Ok \<lparr>vf_ots = ots, vf_cross_store = cross,
           vf_valid = (or_valid ots \<and> cs_valid cross)\<rparr>)) d))))"

section \<open>Listing and importing\<close>

record list_entry =
  le_bao_root :: string
  le_ots_order_key :: string
  le_carbonado_path :: string
  le_format :: u8
  le_timestamped_at :: "u64 option"

fun list_entries ::
  "commit_env \<Rightarrow> commitment_store \<Rightarrow> (bytes \<times> bytes) list \<Rightarrow> (commit_error, list_entry list) result" where
  "list_entries env st [] = Ok []"
| "list_entries env st ((order_key, root) # es) =
     and_then (map_error StoreError (get_commitment (env_codec env) st root)) (\<lambda>found.
     and_then (ok_or found (UnknownRoot root)) (\<lambda>m.
     and_then (list_entries env st es) (\<lambda>rest.
     Ok (\<lparr>le_bao_root = env_hex env root, le_ots_order_key = env_hex env order_key,
          le_carbonado_path = cm_carbonado_path m, le_format = cm_format m,
          le_timestamped_at = cm_timestamped_at m\<rparr> # rest))))"

definition list_commitments :: "commit_env \<Rightarrow> (data_dir, list_entry list) io" where
  "list_commitments env =
     io_then (open_data_dir env) (\<lambda>st.
     io_then (io_lift (\<lambda>_. map_error StoreError (list_commitments_by_order st))) (\<lambda>ordered.
     io_lift (\<lambda>_. list_entries env st ordered)))"

text \<open>Why a tail is skipped does not matter for the stores; \<open>None\<close> skips it.\<close>

definition acceptable_tail ::
  "commit_env \<Rightarrow> breccia_tail inbound \<Rightarrow> u32 option" where
  "acceptable_tail env r =
     (if is_ok (validate_ltp_frame_version (in_frame r)) \<and>
         is_ok (validate_breccia_tail_payload (env_sha env) (in_payload r))
      then bt_attestation_height (in_payload r) else None)"

definition proof_contradicts :: "commit_env \<Rightarrow> commitment_meta \<Rightarrow> u32 \<Rightarrow> data_dir \<Rightarrow> bool" where
  "proof_contradicts env m height d =
     (case cm_ots_proof_path m of None \<Rightarrow> False
      | Some path \<Rightarrow> (case dd_files d path of None \<Rightarrow> False
          | Some proof \<Rightarrow> (case attestation_height_from_proof env proof of None \<Rightarrow> False
              | Some h \<Rightarrow> h \<noteq> height)))"

definition tail_entry :: "breccia_tail \<Rightarrow> commitment_meta \<Rightarrow> u32 \<Rightarrow> commitment_entry_v2" where
  "tail_entry tail m height =
     \<lparr>ce_bao_root = bt_bao_root tail, ce_ots_order_key = bt_ots_order_key tail,
      ce_timestamped_at = (case cm_timestamped_at m of Some t \<Rightarrow> t | None \<Rightarrow> cm_created_at m),
      ce_carbonado_path = cm_carbonado_path m, ce_attestation_height = height,
      ce_attestation_txid = (case bt_attestation_txid tail of Some t \<Rightarrow> t | None \<Rightarrow> []),
      ce_replication_target = 0\<rparr>"

definition import_tail ::
  "commit_env \<Rightarrow> nat option \<Rightarrow> breccia_tail inbound \<Rightarrow> (data_dir, bool) io" where
  "import_tail env torn r =
     (let tail = in_payload r; root = bt_bao_root tail in
      case acceptable_tail env r of
        None \<Rightarrow> (\<lambda>d. (d, Ok False))
      | Some height \<Rightarrow>
          io_then (io_lift (breccia_has_v2_for_root env root)) (\<lambda>known.
          if known then (\<lambda>d. (d, Ok False))
          else io_then (io_lift (\<lambda>d. map_error StoreError (get_commitment (env_codec env) (dd_store d) root)))
            (\<lambda>found d. case found of
               None \<Rightarrow> (d, Ok False)
             | Some m \<Rightarrow>
                 if cm_ots_order_key m \<noteq> Some (bt_ots_order_key tail) \<or> proof_contradicts env m height d
                 then (d, Ok False)
                 else
                   io_then (append_breccia torn True (encode_entry_v2 (env_entries env) (tail_entry tail m height)))
                     (\<lambda>_ d. (d, Ok True)) d)))"

fun import_tails ::
  "commit_env \<Rightarrow> nat option \<Rightarrow> breccia_tail inbound list \<Rightarrow> nat \<Rightarrow> (data_dir, nat) io" where
  "import_tails env torn [] imported = (\<lambda>d. (d, Ok imported))"
| "import_tails env torn (r # rs) imported =
     io_then (import_tail env torn r) (\<lambda>b.
     import_tails env torn rs (if b then imported + 1 else imported))"

definition import_inbound_tails ::
  "commit_env \<Rightarrow> nat option \<Rightarrow> (string \<Rightarrow> breccia_tail inbound option) \<Rightarrow> string list option \<Rightarrow>
   (data_dir, nat) io" where
  "import_inbound_tails env torn parse staged =
     io_then (io_lift (\<lambda>_. map_error LtpError (read_inbound parse staged))) (\<lambda>records.
     io_then (open_data_dir env) (\<lambda>_.
     import_tails env torn records 0))"

end
