(* ===== verification/CommitSafety.thy ===== *)
theory CommitSafety
  imports Commit
begin

text \<open>
  What the operations of \<open>Commit\<close> do to the four stores taken together: what a failed
  timestamp rolls back and what it destroys, when a timestamp and an upgrade leave the
  stores consistent, and that importing received tails twice changes nothing.
\<close>

section \<open>Running the operations\<close>

named_theorems io_simps \<open>rewrites that run an operation on the data directory\<close>

lemma io_then_pair [io_simps]:
  "io_then (\<lambda>s. (s, Ok x)) f = f x"
  "io_then (\<lambda>s. (s, Err e)) f = (\<lambda>s. (s, Err e))"
  by (simp_all add: io_then_def fun_eq_iff)

lemma io_then_Ok [io_simps]: "m s = (s', Ok x) \<Longrightarrow> io_then m f s = f x s'"
  by (simp add: io_then_def)

lemma io_then_Err [io_simps]: "m s = (s', Err e) \<Longrightarrow> io_then m f s = (s', Err e)"
  by (simp add: io_then_def)

lemma io_then_cases:
  assumes "io_then m f s = (s', r)"
  obtains (err) e where "m s = (s', Err e)" "r = Err e"
    | (ok) s1 x where "m s = (s1, Ok x)" "f x s1 = (s', r)"
  using assms by (cases "m s"; cases "snd (m s)") (auto simp: io_then_def)

lemma io_lift_simps [io_simps]: "io_lift f s = (s, f s)"
  by (simp add: io_lift_def)

lemma map_error_simps [simp]:
  "map_error f (Ok x) = Ok x" "map_error f (Err e) = Err (f e)"
  by (simp_all add: map_error_def)

lemma map_error_Ok: "map_error f r = Ok x \<longleftrightarrow> r = Ok x"
  by (cases r) simp_all

text \<open>Opening a data directory of the current schema changes nothing.\<close>

definition current :: "data_dir \<Rightarrow> bool" where
  "current d \<longleftrightarrow> dd_existing d \<and> statistic (dd_store d) = SCHEMA_VERSION"

lemma open_current [io_simps]: "current d \<Longrightarrow> open_data_dir env d = (d, Ok (dd_store d))"
  by (simp add: open_data_dir_def current_def open_store_def ensure_schema_version.simps Let_def)

section \<open>Rolling back\<close>

text \<open>The databases agree on a commitment: its record, and the entry of its order key.\<close>

definition entry_consistent :: "commit_env \<Rightarrow> bytes \<Rightarrow> commitment_meta \<Rightarrow> commitment_store \<Rightarrow> bool" where
  "entry_consistent env root m st \<longleftrightarrow>
     map_of (sto_meta st) root = Some (write_meta (env_codec env) m) \<and> cm_bao_root m = root \<and>
     read_meta (env_codec env) (write_meta (env_codec env) m) = Some m \<and>
     btree_ok (sto_meta st) \<and> btree_ok (sto_order st) \<and>
     (\<forall>k. cm_ots_order_key m = Some k \<longrightarrow>
       (\<exists>e. encode_order_key_for_lmdb k = Ok e \<and> map_of (sto_order st) e = Some root))"

definition key_available :: "commitment_meta \<Rightarrow> bytes \<Rightarrow> commitment_store \<Rightarrow> bool" where
  "key_available m key st \<longleftrightarrow>
     cm_ots_order_key m = Some key \<or>
     (\<forall>e. encode_order_key_for_lmdb key = Ok e \<longrightarrow> map_of (sto_order st) e = None)"

lemma entry_consistent_get:
  "entry_consistent env root m (dd_store d) \<Longrightarrow> known_commitment env root d = Ok m"
  by (simp add: entry_consistent_def known_commitment_def get_commitment_def)

lemma put_order_Ok:
  "put_commitment_order key root st = Ok st' \<longleftrightarrow>
   (\<exists>e. encode_order_key_for_lmdb key = Ok e \<and> map_of (sto_order st) e \<in> {None, Some root} \<and>
     st' = st\<lparr>sto_order := btree_insert e root (sto_order st)\<rparr>)"
proof (cases "encode_order_key_for_lmdb key")
  case (Ok e)
  then show ?thesis
    by (cases "map_of (sto_order st) e") (auto simp: put_commitment_order_def)
qed (simp add: put_commitment_order_def)

lemma delete_order_Ok:
  "delete_commitment_order key st = Ok st' \<longleftrightarrow>
   (\<exists>e. encode_order_key_for_lmdb key = Ok e \<and> st' = st\<lparr>sto_order := btree_remove e (sto_order st)\<rparr>)"
  by (auto simp: delete_commitment_order_def ok_elims)

text \<open>The order database without the previous key of a commitment.\<close>

definition without_key :: "bytes option \<Rightarrow> (bytes \<times> bytes) list \<Rightarrow> (bytes \<times> bytes) list" where
  "without_key prev order =
     (case prev of None \<Rightarrow> order
      | Some k \<Rightarrow> btree_remove (ok_of (encode_order_key_for_lmdb k)) order)"

lemma order_key_body_Ok:
  assumes "order_key_body env root prev updated key st = Ok st'"
  obtains e where "encode_order_key_for_lmdb key = Ok e"
    "map_of (without_key prev (sto_order st)) e \<in> {None, Some root}"
    "st' = st\<lparr>sto_meta := btree_insert (cm_bao_root updated) (write_meta (env_codec env) updated) (sto_meta st),
              sto_order := btree_insert e root (without_key prev (sto_order st))\<rparr>"
  using assms
  by (cases prev)
    (auto simp: order_key_body_def without_key_def put_order_Ok delete_order_Ok put_commitment_def
      and_then_eq_Ok)

lemma store_eqI:
  assumes "btree_ok (sto_meta s)" "btree_ok (sto_meta t)" "map_of (sto_meta s) = map_of (sto_meta t)"
    and "btree_ok (sto_order s)" "btree_ok (sto_order t)" "map_of (sto_order s) = map_of (sto_order t)"
    and "sto_schema s = sto_schema t"
  shows "s = (t :: commitment_store)"
  using btree_eqI [OF assms(1-3)] btree_eqI [OF assms(4-6)] assms(7)
  by (cases s; cases t) simp

lemma rollback_undoes:
  assumes con: "entry_consistent env root m st" and free: "key_available m key st"
    and upd: "cm_bao_root updated = root" "cm_ots_order_key updated = Some key"
    and st1: "st1 = st \<or> order_key_body env root (cm_ots_order_key m) updated key st = Ok st1"
    and d: "dd_store d = st1"
  shows "fst (rollback_timestamp_lmdb env True m (cm_ots_order_key m) updated d) = d\<lparr>dd_store := st\<rparr>"
proof (cases "encode_order_key_for_lmdb key")
  case (Err err)
  with st1 have "st1 = st" by (auto elim: order_key_body_Ok)
  with d Err upd show ?thesis
    by (cases d) (simp add: rollback_timestamp_lmdb_def transaction_def Let_def delete_commitment_order_def)
next
  case (Ok e)
  let ?w = "write_meta (env_codec env) m"
  let ?o = "btree_remove e (sto_order st1)"
  from con have ok: "btree_ok (sto_meta st)" "btree_ok (sto_order st)"
    and root: "map_of (sto_meta st) root = Some ?w" "cm_bao_root m = root"
    by (simp_all add: entry_consistent_def)
  have st1': "btree_ok (sto_meta st1)" "btree_ok (sto_order st1)" "sto_schema st1 = sto_schema st"
    and meta: "(map_of (sto_meta st1))(root \<mapsto> ?w) = map_of (sto_meta st)"
    and o1: "map_of (sto_order st1) = map_of (sto_order st) \<or>
      map_of (sto_order st1) = (map_of (without_key (cm_ots_order_key m) (sto_order st)))(e \<mapsto> root)"
    using st1 ok root upd Ok
    by (auto elim!: order_key_body_Ok simp: without_key_def fun_eq_iff split: option.splits)
  show ?thesis
  proof (cases "cm_ots_order_key m")
    case None
    let ?st' = "st1\<lparr>sto_meta := btree_insert root ?w (sto_meta st1), sto_order := ?o\<rparr>"
    have "map_of ?o = map_of (sto_order st)"
      using None o1 free Ok by (auto simp: without_key_def key_available_def fun_eq_iff)
    with ok st1' meta have "?st' = st" by (intro store_eqI) simp_all
    with d upd Ok root(2) None show ?thesis
      by (simp add: rollback_timestamp_lmdb_def transaction_def Let_def put_commitment_def
          delete_commitment_order_def)
  next
    case (Some k)
    with con obtain ek where ek: "encode_order_key_for_lmdb k = Ok ek"
      "map_of (sto_order st) ek = Some root"
      by (auto simp: entry_consistent_def)
    let ?st' = "st1\<lparr>sto_meta := btree_insert root ?w (sto_meta st1),
        sto_order := btree_insert ek root ?o\<rparr>"
    have e: "e = ek \<or> map_of (sto_order st) e = None"
      using free Some Ok ek by (auto simp: key_available_def)
    have o': "map_of ?o ek \<in> {None, Some root}"
      and "(map_of ?o)(ek \<mapsto> root) = map_of (sto_order st)"
      using Some o1 ek e by (auto simp: without_key_def fun_eq_iff)
    with ok st1' meta have "?st' = st" by (intro store_eqI) simp_all
    moreover have "fst (rollback_timestamp_lmdb env True m (Some k) updated d) = d\<lparr>dd_store := ?st'\<rparr>"
    proof -
      let ?s = "st1\<lparr>sto_meta := btree_insert root ?w (sto_meta st1), sto_order := ?o\<rparr>"
      have "put_commitment_order k root ?s = Ok ?st'"
        using ek o' by (simp add: put_order_Ok)
      with d upd Ok root(2) show ?thesis
        by (simp add: rollback_timestamp_lmdb_def transaction_def Let_def put_commitment_def
            delete_commitment_order_def)
    qed
    ultimately show ?thesis using Some by simp
  qed
qed

section \<open>Failed timestamps\<close>

lemma io_then_lift [io_simps]:
  "io_then (io_lift f) g s = (case f s of Err e \<Rightarrow> (s, Err e) | Ok x \<Rightarrow> g x s)"
  by (simp add: io_then_def io_lift_def split: result.splits)

lemma append_breccia_rest:
  "append_breccia torn v2 blob d = (d', r) \<Longrightarrow> d' = d\<lparr>dd_breccia := dd_breccia d'\<rparr>"
  by (cases d) (auto simp: append_breccia_def Let_def split: result.splits prod.splits)

lemma write_file_Err: "write_file ok e path contents d = (d', Err e') \<Longrightarrow> d' = d"
  by (simp add: write_file_def split: if_splits)

lemma write_file_Ok:
  "write_file ok e path contents d = (d', Ok u) \<longleftrightarrow>
   ok \<and> d' = d\<lparr>dd_files := (dd_files d)(path \<mapsto> contents)\<rparr>"
  by (auto simp: write_file_def)

lemma io_then_write [io_simps]:
  "io_then (write_file ok e path contents) f d =
   (if ok then f () (d\<lparr>dd_files := (dd_files d)(path \<mapsto> contents)\<rparr>) else (d, Err e))"
  by (simp add: io_then_def write_file_def)

lemma transaction_cases:
  assumes "transaction committed e body d = (d', r)"
  obtains (ok) "r = Ok ()" "committed" "body (dd_store d) = Ok (dd_store d')" "d' = d\<lparr>dd_store := dd_store d'\<rparr>"
    | (err) e' where "r = Err e'" "d' = d"
  using assms by (cases d) (auto simp: transaction_def split: result.splits if_splits)

lemma publish_timestamp_Err:
  assumes "publish_timestamp env w root prev updated key proof entry path d = (d', Err e)"
  shows "(dd_store d' = dd_store d \<or> order_key_body env root prev updated key (dd_store d) = Ok (dd_store d')) \<and>
    d' = d\<lparr>dd_store := dd_store d', dd_breccia := dd_breccia d'\<rparr>"
  using assms unfolding publish_timestamp_def
proof (cases rule: io_then_cases)
  case (err e')
  from err(1) show ?thesis
    unfolding commit_upgrade_order_key_def by (rule transaction_cases) simp_all
next
  case (ok d1 x)
  from ok(1) have d1: "order_key_body env root prev updated key (dd_store d) = Ok (dd_store d1)"
    "d1 = d\<lparr>dd_store := dd_store d1\<rparr>"
    unfolding commit_upgrade_order_key_def by (auto elim: transaction_cases)
  from ok(2) have "d' = d1\<lparr>dd_breccia := dd_breccia d'\<rparr>"
  proof (cases rule: io_then_cases)
    case (err e')
    then show ?thesis by (auto dest: append_breccia_rest)
  next
    case (ok d2 x)
    from ok(1) have d2: "d2 = d1\<lparr>dd_breccia := dd_breccia d2\<rparr>" by (rule append_breccia_rest)
    from ok(2) have "d' = d2"
      by (cases rule: io_then_cases) (auto dest: write_file_Err)
    with d2 show ?thesis by simp
  qed
  with d1 show ?thesis by (metis data_dir.surjective data_dir.update_convs(3,5) data_dir.select_convs)
qed

lemma rollback_frame:
  "rollback_timestamp_lmdb env ok m prev updated d = (d', r) \<Longrightarrow> d' = d\<lparr>dd_store := dd_store d'\<rparr>"
  unfolding rollback_timestamp_lmdb_def by (erule transaction_cases) simp_all

lemma failed_publish_rolled_back:
  assumes con: "entry_consistent env root m (dd_store d)" and free: "key_available m key (dd_store d)"
    and upd: "cm_bao_root updated = root" "cm_ots_order_key updated = Some key"
    and pend: "dd_files d path = None"
    and pub: "publish_timestamp env w root (cm_ots_order_key m) updated key pf entry final
      (d\<lparr>dd_files := (dd_files d)(path \<mapsto> pf)\<rparr>) = (d2, Err e)"
  shows "\<exists>b. fst (rollback_timestamp_lmdb env True m (cm_ots_order_key m) updated (remove_file path d2))
    = d\<lparr>dd_breccia := b\<rparr>"
proof -
  let ?d1 = "d\<lparr>dd_files := (dd_files d)(path \<mapsto> pf)\<rparr>"
  from publish_timestamp_Err [OF pub]
  have d2: "dd_store d2 = dd_store d \<or>
      order_key_body env root (cm_ots_order_key m) updated key (dd_store d) = Ok (dd_store d2)"
    "d2 = ?d1\<lparr>dd_store := dd_store d2, dd_breccia := dd_breccia d2\<rparr>" by simp_all
  have "fst (rollback_timestamp_lmdb env True m (cm_ots_order_key m) updated (remove_file path d2))
      = (remove_file path d2)\<lparr>dd_store := dd_store d\<rparr>"
    using con d2(1) free upd
    by (intro rollback_undoes [where root = root and key = key and st = "dd_store d"]) (simp_all add: remove_file_def)
  also obtain s b where "d2 = ?d1\<lparr>dd_store := s, dd_breccia := b\<rparr>" using d2(2) by blast
  then have "(remove_file path d2)\<lparr>dd_store := dd_store d\<rparr> = d\<lparr>dd_files := (dd_files d)(path := None), dd_breccia := b\<rparr>"
    by (cases d) (simp add: remove_file_def)
  also have "(dd_files d)(path := None) = dd_files d" using pend by auto
  finally have "fst (rollback_timestamp_lmdb env True m (cm_ots_order_key m) updated (remove_file path d2))
      = d\<lparr>dd_breccia := b\<rparr>" by (cases d) simp
  then show ?thesis ..
qed

text \<open>C6: A timestamp that fails leaves the databases, the proof files and the mempool exactly
  as they were, whichever of its writes failed: what had been committed is undone by the
  rollback. This needs that the databases agree on the commitment beforehand
  (\<open>entry_consistent\<close>) and no pending proof of it is left over; that the order key of the new proof
  is not in use by another commitment (\<open>key_available\<close>; otherwise see
  \<open>colliding_timestamp_drops_other\<close>); and that the rollback can be written and the pending proof
  removed. The log is not rolled back.\<close>

theorem failed_timestamp_restores:
  assumes run: "timestamp_commitment env w source force root_hex d = (d', Err e)"
    and "current d" "io_rollback w" "parse_bao_root env root_hex = Ok root"
    and con: "entry_consistent env root m (dd_store d)"
    and free: "\<And>proof key. obtain_proof env source (commitment_start_digest env root) root = Ok proof \<Longrightarrow>
      proof_order_key env proof = Ok key \<Longrightarrow> key_available m key (dd_store d)"
    and pend: "dd_files d (pending_ots_path (proof_path_of root_hex)) = None"
  shows "d' = d\<lparr>dd_breccia := dd_breccia d'\<rparr>"
proof -
  note start = run [unfolded timestamp_commitment_def, simplified io_simps assms(2,4)
      entry_consistent_get [OF con] result.case]
  let ?path = "proof_path_of root_hex" and ?pf = "obtain_proof env source (commitment_start_digest env root) root"
  consider (repair) "is_timestamped m \<and> \<not> force"
    | (early) "\<not> (is_timestamped m \<and> \<not> force)" "\<And>pf key. ?pf = Ok pf \<Longrightarrow> proof_order_key env pf = Ok key \<Longrightarrow> \<not> io_pending w"
    | (publish) pf key where "\<not> (is_timestamped m \<and> \<not> force)" "?pf = Ok pf" "proof_order_key env pf = Ok key" "io_pending w"
    by blast
  then show ?thesis
  proof cases
    case repair
    with start show ?thesis
      by (auto simp: io_simps repair_breccia_from_meta_def Let_def split: result.splits if_splits
          elim!: io_then_cases dest: append_breccia_rest)
  next
    case early
    show ?thesis
    proof (cases ?pf)
      case (Err e')
      with start early(1) show ?thesis by (simp add: io_simps Let_def)
    next
      case (Ok pf)
      with start early(1) early(2) [OF Ok] show ?thesis
        by (cases "proof_order_key env pf") (simp_all add: io_simps Let_def)
    qed
  next
    case publish
    let ?u = "m\<lparr>cm_ots_proof_path := Some ?path, cm_ots_order_key := Some key, cm_timestamped_at := Some (io_now w)\<rparr>"
    let ?e = "v1_entry root key (io_now w) (cm_carbonado_path ?u)"
    obtain d2 r where pub: "publish_timestamp env w root (cm_ots_order_key m) ?u key pf ?e ?path
        (d\<lparr>dd_files := (dd_files d)(pending_ots_path ?path \<mapsto> pf)\<rparr>) = (d2, r)" by fastforce
    from start publish pub assms(3) obtain e' where r: "r = Err e'"
      "io_then (rollback_timestamp_lmdb env True m (cm_ots_order_key m) ?u)
        (\<lambda>_ d. (d, Err e' :: (commit_error, timestamp_result) result)) (remove_file (pending_ots_path ?path) d2) = (d', Err e)"
      by (cases r) (simp_all add: io_simps Let_def)
    from r(2) have "d' = fst (rollback_timestamp_lmdb env True m (cm_ots_order_key m) ?u (remove_file (pending_ots_path ?path) d2))"
      by (cases rule: io_then_cases) auto
    moreover have "cm_bao_root m = root" using con by (simp add: entry_consistent_def)
    ultimately show ?thesis
      using failed_publish_rolled_back [OF con free [OF publish(2,3)] _ _ pend pub [unfolded r(1)]]
      by (cases d) auto
  qed
qed

text \<open>What a timestamp leaves behind: its record, the entry of its key, its proof, and one more
  entry at the end of the log.\<close>

definition timestamped_meta :: "commitment_meta \<Rightarrow> string \<Rightarrow> bytes \<Rightarrow> u64 \<Rightarrow> commitment_meta" where
  "timestamped_meta m root_hex key t =
     m\<lparr>cm_ots_proof_path := Some (proof_path_of root_hex), cm_ots_order_key := Some key,
       cm_timestamped_at := Some t\<rparr>"

text \<open>A directory of two commitments; the second holds the order key of pending proofs.\<close>

definition toy_record :: "u8 \<Rightarrow> commitment_meta" where
  "toy_record b = new_meta (replicate 32 b) ''f'' 0 Inboard 0"

definition toy_proof :: detached_file where
  "toy_proof = \<lparr>df_sha256 = True, df_timestamp =
     \<lparr>start_digest = replicate 32 9, first_step = Step (Attestation (Pending [])) (replicate 32 9) []\<rparr>\<rparr>"

definition toy_cenv :: commit_env where
  "toy_cenv = \<lparr>
     env_codec = \<lparr>read_v1 = (\<lambda>b. None), read_v2 = (\<lambda>b. None),
       read_meta = (\<lambda>b. Some (if length b = 1 then toy_record (hd b)
         else timestamped_meta (toy_record (hd b)) [] [] 5)),
       write_meta = (\<lambda>m. hd (cm_bao_root m) # (if cm_timestamped_at m = None then [] else [0]))\<rparr>,
     env_parse = (\<lambda>b. Some toy_proof), env_serialize = (\<lambda>f. Some []),
     env_entries = \<lparr>ser_v1 = (\<lambda>e. [ucast (ce_timestamped_at e)]),
       de_v1 = (\<lambda>b. Some (v1_entry (replicate 32 1) [] (ucast (hd b)) ''f'')),
       ser_v2 = ce_bao_root,
       de_v2 = (\<lambda>b. Some \<lparr>ce_bao_root = b, ce_ots_order_key = [], ce_timestamped_at = 5,
         ce_carbonado_path = ''f'', ce_attestation_height = 7, ce_attestation_txid = [],
         ce_replication_target = 0\<rparr>)\<rparr>,
     env_sha = (\<lambda>b. replicate 32 9), env_json = (\<lambda>s. []), env_unjson = (\<lambda>b. Some empty_snapshot),
     env_unhex = (\<lambda>s. Some (replicate 32 1)), env_hex = (\<lambda>b. [])\<rparr>"

definition toy_dir :: data_dir where
  "toy_dir = \<lparr>dd_name = Some ''regtest'', dd_existing = True,
     dd_store = \<lparr>sto_meta = [(replicate 32 1, [1]), (replicate 32 2, [2])],
       sto_order = [([0], replicate 32 2)], sto_schema = Some 4\<rparr>,
     dd_files = (\<lambda>p. None), dd_breccia = None, dd_mempool = None\<rparr>"

definition toy_io :: io_outcome where
  "toy_io = \<lparr>io_pending = True, io_commit = True, io_append = None, io_publish = True,
     io_rollback = True, io_enqueue = True, io_now = 5\<rparr>"

lemma replicate_32_less: "replicate 32 (1 :: u8) < replicate 32 2"
  by (simp add: numeral_eq_Suc)

lemma toy_simps:
  "current toy_dir"
  "parse_bao_root toy_cenv hex = Ok (replicate 32 1)"
  "entry_consistent toy_cenv (replicate 32 1) (toy_record 1) (dd_store toy_dir)"
  "\<not> is_timestamped (toy_record 1)" "cm_ots_order_key (toy_record 1) = None"
  "proof_order_key toy_cenv pf = Ok []"
  "dd_files toy_dir path = None"
  using replicate_32_less
  by (auto simp: current_def toy_dir_def statistic_def SCHEMA_VERSION_def parse_bao_root_def toy_cenv_def
      entry_consistent_def toy_record_def new_meta_def is_timestamped_def proof_order_key_def
      order_key_from_proof_bytes_def detached_timestamp_def toy_proof_def
      order_key_from_timestamp_def)

text \<open>C31: A timestamp whose proof has the order key of another commitment destroys the order
  entry of that other commitment: the transaction is refused, and the rollback that follows
  deletes the key although this timestamp never wrote it. The operation reports the error of
  the transaction; the other commitment keeps its record and is no longer listed. All pending
  proofs of a calendar have the empty order key, so the second pending timestamp does this to
  the first.\<close>

theorem colliding_timestamp_drops_other:
  assumes "current d" "io_pending w" "io_rollback w" "parse_bao_root env root_hex = Ok root"
    and con: "entry_consistent env root m (dd_store d)" and new: "is_timestamped m \<longrightarrow> force"
    and pf: "obtain_proof env source (commitment_start_digest env root) root = Ok pf"
      "proof_order_key env pf = Ok key"
    and key: "encode_order_key_for_lmdb key = Ok e" "map_of (sto_order (dd_store d)) e = Some other"
      "other \<noteq> root"
  shows "\<exists>d'. timestamp_commitment env w source force root_hex d =
      (d', Err (StoreError (OrderKeyTaken key other))) \<and>
    map_of (sto_order (dd_store d')) e = None \<and>
    get_commitment (env_codec env) (dd_store d') other = get_commitment (env_codec env) (dd_store d) other"
proof -
  let ?path = "proof_path_of root_hex"
  let ?u = "m\<lparr>cm_ots_proof_path := Some ?path, cm_ots_order_key := Some key,
      cm_timestamped_at := Some (io_now w)\<rparr>"
  let ?st = "dd_store d"
  let ?meta = "btree_insert root (write_meta (env_codec env) m) (sto_meta ?st)"
  let ?o = "case cm_ots_order_key m of None \<Rightarrow> btree_remove e (sto_order ?st)
    | Some k \<Rightarrow> btree_insert (ok_of (encode_order_key_for_lmdb k)) root (btree_remove e (sto_order ?st))"
  from con have root: "cm_bao_root m = root" by (simp add: entry_consistent_def)
  have prev: "\<exists>ek. encode_order_key_for_lmdb k = Ok ek \<and> ek \<noteq> e \<and> map_of (sto_order ?st) ek = Some root"
    if "cm_ots_order_key m = Some k" for k
    using con key that by (auto simp: entry_consistent_def)
  have taken: "order_key_body env root (cm_ots_order_key m) ?u key ?st = Err (OrderKeyTaken key other)"
  proof (cases "cm_ots_order_key m")
    case (Some k)
    with prev [OF Some] key show ?thesis
      by (auto simp: order_key_body_def delete_commitment_order_def put_commitment_order_def put_commitment_def)
  qed (use key in \<open>simp add: order_key_body_def put_commitment_order_def put_commitment_def\<close>)
  have roll: "rollback_timestamp_lmdb env True m (cm_ots_order_key m) ?u d1 =
      (d1\<lparr>dd_store := ?st\<lparr>sto_meta := ?meta, sto_order := ?o\<rparr>\<rparr>, Ok ())"
    if "dd_store d1 = ?st" for d1
  proof (cases "cm_ots_order_key m")
    case (Some k)
    with prev [OF Some] that key root show ?thesis
      by (auto simp: rollback_timestamp_lmdb_def transaction_def Let_def delete_commitment_order_def
          put_commitment_order_def put_commitment_def)
  qed (use that key root in \<open>simp add: rollback_timestamp_lmdb_def transaction_def Let_def
      delete_commitment_order_def put_commitment_def\<close>)
  let ?d1 = "d\<lparr>dd_files := (dd_files d)(pending_ots_path ?path \<mapsto> pf)\<rparr>"
  let ?e = "v1_entry root key (io_now w) (cm_carbonado_path m)"
  have pub: "publish_timestamp env w root (cm_ots_order_key m) ?u key pf ?e ?path ?d1 =
      (?d1, Err (StoreError (OrderKeyTaken key other)))"
    by (simp add: publish_timestamp_def io_then_def commit_upgrade_order_key_def transaction_def taken)
  let ?d2 = "remove_file (pending_ots_path ?path) ?d1"
  let ?d' = "?d2\<lparr>dd_store := ?st\<lparr>sto_meta := ?meta, sto_order := ?o\<rparr>\<rparr>"
  have "timestamp_commitment env w source force root_hex d =
      (?d', Err (StoreError (OrderKeyTaken key other)))"
    using assms(1-4) new pf pub roll [of ?d2] entry_consistent_get [OF con]
    by (cases "is_timestamped m") (simp_all add: timestamp_commitment_def io_simps Let_def remove_file_def)
  moreover have "map_of ?o e = None"
    using prev by (auto split: option.splits)
  moreover have "map_of ?meta other = map_of (sto_meta ?st) other" using key(3) by simp
  ultimately show ?thesis by (simp add: get_commitment_def)
qed

theorem colliding_timestamp_drops_other_witness:
  "\<exists>d'. timestamp_commitment toy_cenv toy_io (Calendar (\<lambda>d. Some [])) False [] toy_dir =
      (d', Err (StoreError (OrderKeyTaken [] (replicate 32 2)))) \<and>
    map_of (sto_order (dd_store d')) [0] = None"
proof -
  have "encode_order_key_for_lmdb [] = Ok [0]"
    by (simp add: encode_eq NO_ATTESTATION_SENTINEL_def)
  moreover have "replicate 32 (2 :: u8) \<noteq> replicate 32 1" by (simp add: replicate_eq_replicate)
  ultimately show ?thesis
    using colliding_timestamp_drops_other [OF toy_simps(1) _ _ toy_simps(2,3) _ _ toy_simps(6),
        of toy_io False "Calendar (\<lambda>d. Some [])" "[]" "[0]" "replicate 32 2" "[]"] toy_simps(4)
    by (auto simp: toy_io_def obtain_proof_def toy_dir_def)
qed

section \<open>The log under the operations\<close>

text \<open>The log is absent, or well formed with blobs that decode to these records.\<close>

definition log_ready :: "commit_env \<Rightarrow> data_dir \<Rightarrow> breccia_record list \<Rightarrow> bool" where
  "log_ready env d rs \<longleftrightarrow>
     (dd_breccia d = None \<and> rs = []) \<or>
     (\<exists>file blobs. dd_breccia d = Some file \<and> log_holds file blobs \<and>
       collect_results (decode_breccia_blob (env_entries env)) blobs = Ok rs)"

lemma records_ready: "log_ready env d rs \<Longrightarrow> breccia_records env d = Ok rs"
  using read_all_def [of None]
  by (auto simp: log_ready_def breccia_records_def read_breccia_records_def read_all_log)

lemma log_ready_open:
  assumes "log_ready env d rs"
  shows "\<exists>fl blobs. open_or_create (dd_breccia d) = Ok fl \<and> log_holds fl blobs \<and>
    collect_results (decode_breccia_blob (env_entries env)) blobs = Ok rs"
proof (cases "dd_breccia d")
  case None
  with assms have "rs = []" by (simp add: log_ready_def)
  with None show ?thesis
    by (intro exI [of _ create_log] exI [of _ "[]"]) (simp add: open_or_create_def)
qed (use assms in \<open>auto simp: log_ready_def open_or_create_def open_log_holds\<close>)

lemma append_breccia_Ok:
  assumes "append_breccia torn v2 blob d = (d', Ok u)" "log_ready env d rs"
    and "decode_breccia_blob (env_entries env) blob = Ok r"
  shows "torn = None" "length blob \<le> MAX_BRECCIA_BLOB_LEN" "log_ready env d' (rs @ [r])"
    "d' = d\<lparr>dd_breccia := dd_breccia d'\<rparr>"
proof -
  show "d' = d\<lparr>dd_breccia := dd_breccia d'\<rparr>" using assms(1) by (rule append_breccia_rest)
  from assms(2) obtain fl blobs where f: "open_or_create (dd_breccia d) = Ok fl"
    "log_holds fl blobs" "collect_results (decode_breccia_blob (env_entries env)) blobs = Ok rs"
    using log_ready_open by blast
  define file1 where "file1 = (if v2 then ensure_v2_header fl else fl)"
  have h: "log_holds file1 blobs" using f(2) by (simp add: file1_def log_holds_v2)
  from assms(1) f(1) have 1: "torn = None" "length blob \<le> MAX_BRECCIA_BLOB_LEN"
    "dd_breccia d' = Some (file1 @ blob_frame blob)"
    by (auto simp: append_breccia_def Let_def file1_def append_blob_def split: if_splits option.splits)
  then show "torn = None" "length blob \<le> MAX_BRECCIA_BLOB_LEN" by simp_all
  have "collect_results (decode_breccia_blob (env_entries env)) (blobs @ [blob]) = Ok (rs @ [r])"
    using f(3) assms(3) by (simp add: collect_results_append)
  with log_holds_append [OF h 1(2)] 1(3) show "log_ready env d' (rs @ [r])"
    by (auto simp: log_ready_def)
qed

lemma append_breccia_succeeds:
  assumes "log_ready env d rs" "length blob \<le> MAX_BRECCIA_BLOB_LEN"
  shows "\<exists>fl. append_breccia None v2 blob d = (d\<lparr>dd_breccia := Some fl\<rparr>, Ok ())"
proof -
  from assms(1) obtain fl blobs where "open_or_create (dd_breccia d) = Ok fl"
    using log_ready_open by blast
  with assms(2) show ?thesis by (auto simp: append_breccia_def Let_def append_blob_def)
qed

lemma log_ready_cong: "dd_breccia d = dd_breccia d' \<Longrightarrow> log_ready env d rs = log_ready env d' rs"
  by (simp add: log_ready_def)

section \<open>Successful timestamps\<close>

lemma contains_records: "log_ready env d rs \<Longrightarrow>
  breccia_contains_bao_root env root d = Ok (list_ex (\<lambda>r. record_bao_root r = root) rs)"
  by (simp add: breccia_contains_bao_root_def records_ready)

lemma publish_timestamp_Ok:
  assumes run: "publish_timestamp env w root prev updated key pf entry path d = (d', Ok u)"
    and log: "log_ready env d rs"
    and dec: "decode_breccia_blob (env_entries env) (encode_entry (env_entries env) entry) = Ok (V1 entry)"
  shows "order_key_body env root prev updated key (dd_store d) = Ok (dd_store d')"
    "log_ready env d' (rs @ [V1 entry])"
    "dd_files d' = (dd_files d)(path \<mapsto> pf, pending_ots_path path := None)"
proof -
  from run obtain d1 d2 d3 where
    1: "commit_upgrade_order_key env (io_commit w) root prev updated key d = (d1, Ok ())"
    and 2: "append_breccia (io_append w) False (encode_entry (env_entries env) entry) d1 = (d2, Ok ())"
    and 3: "write_file (io_publish w) PublishFailed path pf d2 = (d3, Ok ())"
    and d': "d' = remove_file (pending_ots_path path) d3"
    unfolding publish_timestamp_def by (auto elim!: io_then_cases)
  from 1 have s1: "order_key_body env root prev updated key (dd_store d) = Ok (dd_store d1)"
    "d1 = d\<lparr>dd_store := dd_store d1\<rparr>"
    unfolding commit_upgrade_order_key_def by (auto elim: transaction_cases)
  have "dd_breccia d1 = dd_breccia d" "dd_files d1 = dd_files d"
    by (subst s1(2), simp)+
  with log have "log_ready env d1 rs" using log_ready_cong by metis
  note s2 = append_breccia_Ok [OF 2 this dec]
  have d2: "dd_store d2 = dd_store d1" "dd_files d2 = dd_files d1"
    by (subst s2(4), simp)+
  from 3 have d3: "d3 = d2\<lparr>dd_files := (dd_files d2)(path \<mapsto> pf)\<rparr>" by (simp add: write_file_Ok)
  show "order_key_body env root prev updated key (dd_store d) = Ok (dd_store d')"
    using s1 d2 by (simp add: d' d3 remove_file_def)
  show "log_ready env d' (rs @ [V1 entry])"
    using s2(3) log_ready_cong [of d' d2] by (simp add: d' d3 remove_file_def)
  show "dd_files d' = (dd_files d)(path \<mapsto> pf, pending_ots_path path := None)"
    using d2 \<open>dd_files d1 = dd_files d\<close> by (simp add: d' d3 remove_file_def)
qed

lemma timestamp_Ok_state:
  assumes run: "timestamp_commitment env w source force root_hex d = (d', Ok res)"
    and "current d" "parse_bao_root env root_hex = Ok root"
    and m: "known_commitment env root d = Ok m" "cm_bao_root m = root"
    and new: "is_timestamped m \<longrightarrow> force"
    and pf: "obtain_proof env source (commitment_start_digest env root) root = Ok pf"
      "proof_order_key env pf = Ok key"
    and log: "log_ready env d rs"
    and entry: "entry = v1_entry root key (io_now w) (cm_carbonado_path m)"
      "decode_breccia_blob (env_entries env) (encode_entry (env_entries env) entry) = Ok (V1 entry)"
    and u: "u = timestamped_meta m root_hex key (io_now w)"
      "read_meta (env_codec env) (write_meta (env_codec env) u) = Some u"
  shows "known_commitment env root d' = Ok u" "log_ready env d' (rs @ [V1 entry])"
    "\<exists>e. encode_order_key_for_lmdb key = Ok e \<and> map_of (sto_order (dd_store d')) e = Some root"
    "dd_files d' = (dd_files d)(proof_path_of root_hex \<mapsto> pf,
       pending_ots_path (proof_path_of root_hex) := None)"
proof -
  let ?path = "proof_path_of root_hex"
  let ?d1 = "d\<lparr>dd_files := (dd_files d)(pending_ots_path ?path \<mapsto> pf)\<rparr>"
  obtain d2 r where pub: "publish_timestamp env w root (cm_ots_order_key m) u key pf entry ?path ?d1 = (d2, r)"
    by fastforce
  have u': "u = m\<lparr>cm_ots_proof_path := Some ?path, cm_ots_order_key := Some key,
       cm_timestamped_at := Some (io_now w)\<rparr>"
    by (simp add: u(1) timestamped_meta_def)
  have pend: "io_pending w"
    using run assms(2,3) m new pf
    by (cases "is_timestamped m") (simp_all add: timestamp_commitment_def io_simps Let_def split: if_splits)
  have "r = Ok () \<and> d' = d2"
  proof (cases r)
    case (Err e)
    with run assms(2,3) m new pf pub entry(1) u' pend show ?thesis
      by (cases "is_timestamped m")
        (auto simp: timestamp_commitment_def io_simps Let_def elim!: io_then_cases)
  next
    case (Ok x)
    with run assms(2,3) m new pf pub entry(1) u' pend show ?thesis
      by (cases "is_timestamped m") (simp_all add: timestamp_commitment_def io_simps Let_def)
  qed
  with pub have pub': "publish_timestamp env w root (cm_ots_order_key m) u key pf entry ?path ?d1 = (d', Ok ())"
    by simp
  have log1: "log_ready env ?d1 rs" using log log_ready_cong [of d ?d1] by simp
  note P = publish_timestamp_Ok [OF pub' log1 entry(2)]
  from P(1) obtain e where e: "encode_order_key_for_lmdb key = Ok e"
    "dd_store d' = (dd_store d)\<lparr>sto_meta := btree_insert (cm_bao_root u) (write_meta (env_codec env) u) (sto_meta (dd_store d)),
        sto_order := btree_insert e root (without_key (cm_ots_order_key m) (sto_order (dd_store d)))\<rparr>"
    by (auto elim!: order_key_body_Ok)
  show "known_commitment env root d' = Ok u"
    using e(2) m(2) u(2) u' by (simp add: known_commitment_def get_commitment_def)
  show "\<exists>e. encode_order_key_for_lmdb key = Ok e \<and> map_of (sto_order (dd_store d')) e = Some root"
    using e by simp
  show "log_ready env d' (rs @ [V1 entry])" by (rule P(2))
  show "dd_files d' = (dd_files d)(?path \<mapsto> pf, pending_ots_path ?path := None)"
    using P(3) by (auto simp: fun_eq_iff)
qed

section \<open>Verification after a timestamp\<close>

lemma first_v1_append:
  "first_v1 root (rs @ rs') = (case first_v1 root rs of Some e \<Rightarrow> Some e | None \<Rightarrow> first_v1 root rs')"
  by (induction rs) (auto split: breccia_record.splits)

lemma first_v2_append:
  "first_v2 root (rs @ rs') = (case first_v2 root rs of Some e \<Rightarrow> Some e | None \<Rightarrow> first_v2 root rs')"
  by (induction rs) (auto split: breccia_record.splits)

lemma no_records_of:
  "list_all (\<lambda>r. record_bao_root r \<noteq> root) rs \<Longrightarrow> first_v1 root rs = None \<and> first_v2 root rs = None"
  by (induction rs) (auto simp: record_bao_root_def split: breccia_record.splits)

lemma length_pending: "length (pending_ots_path x) = length x + 9"
proof -
  let ?name = "takeWhile (\<lambda>c. c \<noteq> CHR ''/'') (rev x)"
  have "length ?name \<le> length x" using length_takeWhile_le [of _ "rev x"] by simp
  then show ?thesis by (simp add: pending_ots_path_def Let_def)
qed

lemma pending_under_ots: "\<exists>rest. pending_ots_path (proof_path_of hex) = CHR ''o'' # rest"
proof -
  let ?x = "hex @ ''.ots''"
  let ?p = "''ots/'' @ ?x"
  let ?name = "takeWhile (\<lambda>c. c \<noteq> CHR ''/'') (rev ?p)"
  have "length (takeWhile P (xs @ y # ys)) \<le> length xs" if "\<not> P y" for P xs and y :: char and ys
    using that by (induction xs) auto
  from this [of "\<lambda>c. c \<noteq> CHR ''/''" "CHR ''/''" "rev ?x" "''sto''"]
  have "length ?name \<le> length ?x" by simp
  then obtain k where "length ?p - length ?name = Suc k"
    by (cases "length ?p - length ?name") auto
  then show ?thesis by (simp add: pending_ots_path_def proof_path_of_def Let_def)
qed

text \<open>The files of the storage directory are not touched by a timestamp.\<close>

lemma timestamp_keeps_carbonado:
  "((dd_files d)(proof_path_of hex \<mapsto> pf, pending_ots_path (proof_path_of hex) := None)) (''carbonado/'' @ p) =
   dd_files d (''carbonado/'' @ p)"
  using pending_under_ots [of hex] by (auto simp: proof_path_of_def)

text \<open>C17: A first timestamp that succeeds leaves the four stores consistent: if the log is readable and has
  no entry of the commitment yet, the record and the log entry written read back, and the stored
  file is in place and bound to the record, then the cross-store verification of a pending proof accepts
  the result and reports no mismatch. Of a proof that the calendar already returns as confirmed it
  reports exactly that the log entry of version 2 is missing, which only an upgrade writes.\<close>

theorem timestamp_then_consistent:
  assumes "timestamp_commitment env w source force root_hex d = (d', Ok res)"
    and "current d" "parse_bao_root env root_hex = Ok root"
    and "known_commitment env root d = Ok m" "cm_bao_root m = root" "is_timestamped m \<longrightarrow> force"
    and "obtain_proof env source (commitment_start_digest env root) root = Ok pf"
      "proof_order_key env pf = Ok key" "pf \<noteq> []"
    and "log_ready env d rs" "list_all (\<lambda>r. record_bao_root r \<noteq> root) rs"
    and "entry = v1_entry root key (io_now w) (cm_carbonado_path m)"
      "decode_breccia_blob (env_entries env) (encode_entry (env_entries env) entry) = Ok (V1 entry)"
    and "u = timestamped_meta m root_hex key (io_now w)"
      "read_meta (env_codec env) (write_meta (env_codec env) u) = Some u"
    and "carbonado_file (cm_carbonado_path m) = Some path" "dd_files d path = Some blob" "binding blob u root"
  shows "known_commitment env root d' = Ok u \<and>
    cs_mismatches (verify_cross_store env binding root u pf d')
      = (if attestation_height_from_proof env pf = None then [] else [V2EntryMissing]) \<and>
    cs_valid (verify_cross_store env binding root u pf d') = (attestation_height_from_proof env pf = None)"
proof -
  note S = timestamp_Ok_state [OF assms(1-8,10,12-15)]
  have rs: "breccia_records env d' = Ok (rs @ [V1 entry])" by (rule records_ready [OF S(2)])
  have e: "ce_bao_root entry = root" "ce_ots_order_key entry = key" "ce_timestamped_at entry = io_now w"
    "ce_carbonado_path entry = cm_carbonado_path m"
    by (simp_all add: assms(12) v1_entry_def)
  have f: "first_v1 root (rs @ [V1 entry]) = Some entry" "first_v2 root (rs @ [V1 entry]) = None"
    using no_records_of [OF assms(11)] e by (simp_all add: first_v1_append first_v2_append)
  have u: "cm_ots_proof_path u = Some (proof_path_of root_hex)" "cm_ots_order_key u = Some key"
    "cm_timestamped_at u = Some (io_now w)" "cm_carbonado_path u = cm_carbonado_path m"
    by (simp_all add: assms(14) timestamped_meta_def)
  obtain p where p: "path = ''carbonado/'' @ p"
    using assms(16) by (auto simp: carbonado_file_def split: if_splits)
  have "dd_files d' path = Some blob"
    using S(4) assms(17) timestamp_keeps_carbonado [of d root_hex pf p] p by simp
  moreover have "dd_files d' (proof_path_of root_hex) = Some pf"
  proof -
    have "length (pending_ots_path x) \<noteq> length x" for x
      by (simp add: length_pending)
    then have "pending_ots_path (proof_path_of root_hex) \<noteq> proof_path_of root_hex"
      by metis
    then show ?thesis using S(4) by simp
  qed
  ultimately have "cs_mismatches (verify_cross_store env binding root u pf d')
      = (if attestation_height_from_proof env pf = None then [] else [V2EntryMissing])"
    and "cs_valid (verify_cross_store env binding root u pf d') = (attestation_height_from_proof env pf = None)"
    using assms(8,9,16,18) rs f u e
    by (simp_all add: verify_cross_store_def Let_def check_order_key_def check_breccia_def
        check_height_def check_def split: option.split)
  with S(1) show ?thesis by simp
qed

text \<open>The directory with the empty key free, the file of the commitment in place, and a log.\<close>

definition toy_free_dir :: "bytes option \<Rightarrow> data_dir" where
  "toy_free_dir log = toy_dir\<lparr>dd_store := (dd_store toy_dir)\<lparr>sto_order := []\<rparr>,
     dd_files := (\<lambda>p. if p = ''carbonado/f'' then Some [] else None), dd_breccia := log\<rparr>"

abbreviation toy_entry :: "u64 \<Rightarrow> commitment_entry" where
  "toy_entry t \<equiv> v1_entry (replicate 32 1) [] t ''f''"

abbreviation toy_timestamped :: commitment_meta where
  "toy_timestamped \<equiv> timestamped_meta (toy_record 1) [] [] 5"

lemma toy_free_simps:
  "current (toy_free_dir log)"
  "known_commitment toy_cenv (replicate 32 1) (toy_free_dir log) = Ok (toy_record 1)"
  "cm_bao_root (toy_record 1) = replicate 32 1"
  "obtain_proof toy_cenv (Calendar (\<lambda>d. Some [1])) x root = Ok [1]"
  "attestation_height_from_proof toy_cenv [1] = None"
  "read_meta (env_codec toy_cenv) (write_meta (env_codec toy_cenv) toy_timestamped) = Some toy_timestamped"
  "carbonado_file ''f'' = Some ''carbonado/f''"
  "dd_files (toy_free_dir log) ''carbonado/f'' = Some []"
  "cm_carbonado_path (toy_record 1) = ''f''"
  "dd_breccia (toy_free_dir log) = log"
  by (simp_all add: toy_free_dir_def current_def toy_dir_def statistic_def SCHEMA_VERSION_def
      known_commitment_def get_commitment_def toy_cenv_def toy_record_def new_meta_def obtain_proof_def
      attestation_height_from_proof_def toy_proof_def timestamped_meta_def carbonado_file_def
      validate_carbonado_relative_path_def contains_def starts_with_def)

lemma toy_decode:
  "decode_breccia_blob (env_entries toy_cenv) (encode_entry (env_entries toy_cenv) (toy_entry 5)) = Ok (V1 (toy_entry 5))"
  "decode_breccia_blob (env_entries toy_cenv) [3] = Ok (V1 (toy_entry 3))"
  by (simp_all add: toy_cenv_def decode_breccia_blob_def encode_entry_def decode_entry_def v1_entry_def)

lemma toy_run:
  assumes "log_ready toy_cenv (toy_free_dir log) rs"
  shows "\<exists>d' res. timestamp_commitment toy_cenv toy_io (Calendar (\<lambda>d. Some [1])) False [] (toy_free_dir log) = (d', Ok res)"
proof -
  let ?path = "proof_path_of []"
  let ?d1 = "(toy_free_dir log)\<lparr>dd_files := (dd_files (toy_free_dir log))(pending_ots_path ?path \<mapsto> [1])\<rparr>"
  let ?u = "(toy_record 1)\<lparr>cm_ots_proof_path := Some ?path, cm_ots_order_key := Some [], cm_timestamped_at := Some 5\<rparr>"
  have "encode_order_key_for_lmdb [] = Ok [0]" by (simp add: encode_eq NO_ATTESTATION_SENTINEL_def)
  then obtain st where st: "order_key_body toy_cenv (replicate 32 1) None ?u [] (dd_store ?d1) = Ok st"
    by (simp add: order_key_body_def put_commitment_order_def put_commitment_def toy_free_dir_def)
  let ?d2 = "?d1\<lparr>dd_store := st\<rparr>"
  have "log_ready toy_cenv ?d2 rs" using assms log_ready_cong [of "toy_free_dir log" ?d2] by simp
  from append_breccia_succeeds [OF this, of "encode_entry (env_entries toy_cenv) (toy_entry 5)" False]
  obtain fl where "append_breccia None False (encode_entry (env_entries toy_cenv) (toy_entry 5)) ?d2 =
      (?d2\<lparr>dd_breccia := Some fl\<rparr>, Ok ())"
    by (auto simp: toy_cenv_def encode_entry_def MAX_BRECCIA_BLOB_LEN_def)
  with st have "\<exists>d2. publish_timestamp toy_cenv toy_io (replicate 32 1) None ?u [] [1] (toy_entry 5) ?path ?d1 = (d2, Ok ())"
    by (simp add: publish_timestamp_def io_simps commit_upgrade_order_key_def transaction_def toy_io_def
        io_then_def write_file_def)
  then show ?thesis
    using toy_simps(2,4,5,6) toy_free_simps(1,2,4,9)
    by (auto simp: timestamp_commitment_def io_simps Let_def toy_io_def)
qed

text \<open>The proof cannot be published after the databases were committed and the log was appended, and the rollback
  takes the record and the key back.\<close>

theorem failed_timestamp_restores_witness:
  "\<exists>d'. timestamp_commitment toy_cenv (toy_io\<lparr>io_publish := False\<rparr>) (Calendar (\<lambda>d. Some [1])) False [] (toy_free_dir None)
       = (d', Err PublishFailed) \<and> dd_breccia d' \<noteq> None \<and> dd_store d' = dd_store (toy_free_dir None)
     \<and> dd_files d' = dd_files (toy_free_dir None)"
proof -
  let ?w = "toy_io\<lparr>io_publish := False\<rparr>" and ?d = "toy_free_dir None"
  let ?path = "proof_path_of []"
  let ?d1 = "?d\<lparr>dd_files := (dd_files ?d)(pending_ots_path ?path \<mapsto> [1])\<rparr>"
  let ?u = "(toy_record 1)\<lparr>cm_ots_proof_path := Some ?path, cm_ots_order_key := Some [], cm_timestamped_at := Some 5\<rparr>"
  have key: "encode_order_key_for_lmdb [] = Ok [0]" by (simp add: encode_eq NO_ATTESTATION_SENTINEL_def)
  then obtain st where st: "order_key_body toy_cenv (replicate 32 1) None ?u [] (dd_store ?d1) = Ok st"
    by (simp add: order_key_body_def put_commitment_order_def put_commitment_def toy_free_dir_def)
  have "log_ready toy_cenv (?d1\<lparr>dd_store := st\<rparr>) []" by (simp add: log_ready_def toy_free_simps)
  from append_breccia_succeeds [OF this, of "encode_entry (env_entries toy_cenv) (toy_entry 5)" False]
  obtain fl where "append_breccia None False (encode_entry (env_entries toy_cenv) (toy_entry 5)) (?d1\<lparr>dd_store := st\<rparr>) =
      (?d1\<lparr>dd_store := st, dd_breccia := Some fl\<rparr>, Ok ())"
    by (auto simp: toy_cenv_def encode_entry_def MAX_BRECCIA_BLOB_LEN_def)
  with st have pub: "publish_timestamp toy_cenv ?w (replicate 32 1) None ?u [] [1] (toy_entry 5) ?path ?d1
      = (?d1\<lparr>dd_store := st, dd_breccia := Some fl\<rparr>, Err PublishFailed)"
    by (simp add: publish_timestamp_def io_simps commit_upgrade_order_key_def transaction_def toy_io_def
        io_then_def write_file_def)
  let ?d2 = "remove_file (pending_ots_path ?path) (?d1\<lparr>dd_store := st, dd_breccia := Some fl\<rparr>)"
  obtain d' u where roll: "rollback_timestamp_lmdb toy_cenv True (toy_record 1) None ?u ?d2 = (d', Ok u)"
    using key by (simp add: rollback_timestamp_lmdb_def transaction_def Let_def delete_commitment_order_def)
  have run: "timestamp_commitment toy_cenv ?w (Calendar (\<lambda>d. Some [1])) False [] ?d = (d', Err PublishFailed)"
    using toy_simps(2,4,5,6) toy_free_simps(1,2,4,9) pub roll
    by (auto simp: timestamp_commitment_def io_simps Let_def toy_io_def)
  have con: "entry_consistent toy_cenv (replicate 32 1) (toy_record 1) (dd_store ?d)"
    using toy_simps(3) toy_simps(5) by (simp add: entry_consistent_def toy_free_dir_def)
  have pending: "dd_files ?d (pending_ots_path ?path) = None"
    using pending_under_ots [of "[]"] by (auto simp: toy_free_dir_def)
  have "d' = ?d\<lparr>dd_breccia := dd_breccia d'\<rparr>"
    by (rule failed_timestamp_restores [OF run toy_free_simps(1) _ toy_simps(2) con _ pending])
      (simp_all add: toy_io_def key_available_def toy_free_dir_def)
  then have "dd_store d' = dd_store ?d" "dd_files d' = dd_files ?d" by (cases ?d; cases d'; simp)+
  moreover have "dd_breccia d' = Some fl"
    using rollback_frame [OF roll] by (cases d') (simp add: remove_file_def)
  ultimately show ?thesis using run by simp
qed

theorem timestamp_then_consistent_witness:
  "\<exists>d'. known_commitment toy_cenv (replicate 32 1) d' = Ok toy_timestamped \<and>
     cs_valid (verify_cross_store toy_cenv (\<lambda>b m r. True) (replicate 32 1) toy_timestamped [1] d')"
proof -
  have log: "log_ready toy_cenv (toy_free_dir None) []" by (simp add: log_ready_def toy_free_simps)
  from toy_run [OF this] obtain d' res where run:
    "timestamp_commitment toy_cenv toy_io (Calendar (\<lambda>d. Some [1])) False [] (toy_free_dir None) = (d', Ok res)"
    by blast
  have "io_now toy_io = 5" by (simp add: toy_io_def)
  with timestamp_then_consistent [OF run toy_free_simps(1) toy_simps(2) toy_free_simps(2,3) _
      toy_free_simps(4) toy_simps(6) _ log _ _ _ _ _ _ toy_free_simps(8),
      of "toy_entry 5" toy_timestamped "\<lambda>b m r. True"]
    toy_simps(4) toy_decode(1) toy_free_simps(5,6,7,9)
  show ?thesis by auto
qed

text \<open>C32: A commitment with an entry in the log from an earlier attempt fails the verification
  after a timestamp at another time: the verification compares with the first entry of the log,
  which is never changed, so that each retry after a failed publication and each forced
  timestamp ends in a state that the cross-store verification rejects. It goes on to reject it
  whatever is appended to the log, until an upgrade appends an entry of version 2 of the commitment.\<close>

theorem retimestamp_inconsistent:
  assumes "timestamp_commitment env w source force root_hex d = (d', Ok res)"
    and "current d" "parse_bao_root env root_hex = Ok root"
    and "known_commitment env root d = Ok m" "cm_bao_root m = root" "is_timestamped m \<longrightarrow> force"
    and "obtain_proof env source (commitment_start_digest env root) root = Ok pf"
      "proof_order_key env pf = Ok key"
    and "log_ready env d rs" "first_v1 root rs = Some old" "ce_timestamped_at old \<noteq> io_now w"
      "first_v2 root rs = None"
    and "entry = v1_entry root key (io_now w) (cm_carbonado_path m)"
      "decode_breccia_blob (env_entries env) (encode_entry (env_entries env) entry) = Ok (V1 entry)"
    and "u = timestamped_meta m root_hex key (io_now w)"
      "read_meta (env_codec env) (write_meta (env_codec env) u) = Some u"
  shows "known_commitment env root d' = Ok u \<and>
    \<not> cs_valid (verify_cross_store env binding root u pf d') \<and>
    V1TimestampDiffers \<in> set (cs_mismatches (verify_cross_store env binding root u pf d')) \<and>
    (\<forall>d'' more. log_ready env d'' (rs @ V1 entry # more) \<and> first_v2 root more = None \<longrightarrow>
       \<not> cs_valid (verify_cross_store env binding root u pf d'') \<and>
       V1TimestampDiffers \<in> set (cs_mismatches (verify_cross_store env binding root u pf d'')))"
proof -
  note S = timestamp_Ok_state [OF assms(1-9,13-16)]
  have differs: "cm_timestamped_at u \<noteq> Some (ce_timestamped_at old)"
    using assms(11,15) by (simp add: timestamped_meta_def)
  have reject: "\<not> cs_valid (verify_cross_store env binding root u pf d'') \<and>
       V1TimestampDiffers \<in> set (cs_mismatches (verify_cross_store env binding root u pf d''))"
    if "log_ready env d'' (rs @ V1 entry # more)" "first_v2 root more = None" for d'' more
  proof -
    have "breccia_records env d'' = Ok (rs @ V1 entry # more)" by (rule records_ready [OF that(1)])
    moreover have "first_v1 root (rs @ V1 entry # more) = Some old" "first_v2 root (rs @ V1 entry # more) = None"
      using assms(10,12) that(2) by (simp_all add: first_v1_append first_v2_append)
    ultimately show ?thesis using differs by (simp add: verify_cross_store_def Let_def check_breccia_def)
  qed
  have "\<not> cs_valid (verify_cross_store env binding root u pf d') \<and>
    V1TimestampDiffers \<in> set (cs_mismatches (verify_cross_store env binding root u pf d'))"
    using reject [of d' "[]"] S(2) by simp
  with S(1) reject show ?thesis by blast
qed

theorem retimestamp_inconsistent_witness:
  "\<exists>d'. known_commitment toy_cenv (replicate 32 1) d' = Ok toy_timestamped \<and>
     \<not> cs_valid (verify_cross_store toy_cenv (\<lambda>b m r. True) (replicate 32 1) toy_timestamped [1] d')"
proof -
  let ?log = "create_log @ blob_frame [3]"
  have "log_holds ?log [[3]]"
    using log_holds_append [OF log_holds_create, of "[3]"] by (simp add: MAX_BRECCIA_BLOB_LEN_def)
  then have log: "log_ready toy_cenv (toy_free_dir (Some ?log)) [V1 (toy_entry 3)]"
    using toy_decode(2) by (auto simp: log_ready_def toy_free_simps intro!: exI [of _ "[[3]]"])
  from toy_run [OF this] obtain d' res where run:
    "timestamp_commitment toy_cenv toy_io (Calendar (\<lambda>d. Some [1])) False [] (toy_free_dir (Some ?log)) = (d', Ok res)"
    by blast
  have "io_now toy_io = 5" by (simp add: toy_io_def)
  with retimestamp_inconsistent [OF run toy_free_simps(1) toy_simps(2) toy_free_simps(2,3) _
      toy_free_simps(4) toy_simps(6) log,
      of "toy_entry 3" "toy_entry 5" toy_timestamped "\<lambda>b m r. True"]
    toy_simps(4) toy_decode(1) toy_free_simps(6,9)
  show ?thesis by (auto simp: v1_entry_def)
qed

section \<open>Importing tails\<close>

text \<open>A tail that an import leaves alone.\<close>

definition settled :: "commit_env \<Rightarrow> data_dir \<Rightarrow> breccia_record list \<Rightarrow> breccia_tail inbound \<Rightarrow> bool" where
  "settled env d rs r \<longleftrightarrow>
     (case acceptable_tail env r of None \<Rightarrow> True | Some height \<Rightarrow>
        list_ex (is_v2_of (bt_bao_root (in_payload r))) rs \<or>
        (case get_commitment (env_codec env) (dd_store d) (bt_bao_root (in_payload r)) of
           Err _ \<Rightarrow> False | Ok None \<Rightarrow> True
         | Ok (Some m) \<Rightarrow> cm_ots_order_key m \<noteq> Some (bt_ots_order_key (in_payload r)) \<or>
             proof_contradicts env m height d))"

lemma has_v2_ready: "log_ready env d rs \<Longrightarrow>
  breccia_has_v2_for_root env root d = Ok (list_ex (is_v2_of root) rs)"
  by (simp add: breccia_has_v2_for_root_def records_ready)

lemma import_tail_step:
  assumes "log_ready env d rs"
  shows "import_tail env torn r d =
    (if settled env d rs r then (d, Ok False)
     else (case acceptable_tail env r of None \<Rightarrow> (d, Ok False) | Some height \<Rightarrow>
       (case get_commitment (env_codec env) (dd_store d) (bt_bao_root (in_payload r)) of
          Err e \<Rightarrow> (d, Err (StoreError e)) | Ok None \<Rightarrow> (d, Ok False)
        | Ok (Some m) \<Rightarrow> io_then (append_breccia torn True
            (encode_entry_v2 (env_entries env) (tail_entry (in_payload r) m height))) (\<lambda>_ d. (d, Ok True)) d)))"
proof (cases "acceptable_tail env r")
  case (Some height)
  show ?thesis
  proof (cases "get_commitment (env_codec env) (dd_store d) (bt_bao_root (in_payload r))")
    case (Ok found)
    then show ?thesis
      using Some assms
      by (cases found) (simp_all add: settled_def import_tail_def Let_def io_simps has_v2_ready)
  qed (use Some assms in \<open>simp add: settled_def import_tail_def Let_def io_simps has_v2_ready\<close>)
qed (simp add: settled_def import_tail_def Let_def)

lemma import_settled:
  "log_ready env d rs \<Longrightarrow> settled env d rs r \<Longrightarrow> import_tail env torn r d = (d, Ok False)"
  by (simp add: import_tail_step)

lemma settled_mono:
  "settled env d rs r \<Longrightarrow> d' = d\<lparr>dd_breccia := dd_breccia d'\<rparr> \<Longrightarrow> settled env d' (rs @ rs') r"
proof -
  assume s: "settled env d rs r" and d': "d' = d\<lparr>dd_breccia := dd_breccia d'\<rparr>"
  have 1: "dd_store d' = dd_store d" "dd_files d' = dd_files d" by (subst d', simp)+
  have pc: "proof_contradicts env m h d' = proof_contradicts env m h d" for m h
    unfolding proof_contradicts_def 1(2) by (rule refl)
  show ?thesis
    using s unfolding settled_def 1(1) pc by (auto split: option.split_asm option.split)
qed

definition v2_readable :: "commit_env \<Rightarrow> bytes \<Rightarrow> bool" where
  "v2_readable env root \<longleftrightarrow>
     (\<forall>e. ce_bao_root e = root \<longrightarrow>
       (\<exists>e'. decode_breccia_blob (env_entries env) (encode_entry_v2 (env_entries env) e) = Ok (V2 e') \<and>
         ce_bao_root e' = root))"

lemma import_tail_Ok:
  assumes run: "import_tail env torn r d = (d', Ok b)" and log: "log_ready env d rs"
    and dec: "v2_readable env (bt_bao_root (in_payload r))"
  shows "\<exists>rs'. log_ready env d' (rs @ rs') \<and> d' = d\<lparr>dd_breccia := dd_breccia d'\<rparr> \<and>
    settled env d' (rs @ rs') r"
proof (cases "settled env d rs r")
  case True
  with run import_settled [OF log True] log show ?thesis
    by (intro exI [of _ "[]"]) simp
next
  case False
  let ?root = "bt_bao_root (in_payload r)"
  from False obtain height where acc: "acceptable_tail env r = Some height"
    by (auto simp: settled_def split: option.splits)
  with False run log obtain m where
    io: "io_then (append_breccia torn True (encode_entry_v2 (env_entries env) (tail_entry (in_payload r) m height)))
      (\<lambda>_ d. (d, Ok True)) d = (d', Ok b)"
    by (cases "get_commitment (env_codec env) (dd_store d) (bt_bao_root (in_payload r))")
      (auto simp: import_tail_step settled_def split: option.splits if_splits)
  define e where "e = tail_entry (in_payload r) m height"
  have e: "ce_bao_root e = ?root" by (simp add: e_def tail_entry_def)
  from io have app: "append_breccia torn True (encode_entry_v2 (env_entries env) e) d = (d', Ok ())"
    by (auto simp: e_def elim!: io_then_cases)
  from dec e obtain e' where e': "decode_breccia_blob (env_entries env) (encode_entry_v2 (env_entries env) e) = Ok (V2 e')"
    "ce_bao_root e' = ?root"
    unfolding v2_readable_def by blast
  from append_breccia_Ok [OF app log e'(1)] e'(2) show ?thesis
    by (intro exI [of _ "[V2 e']"]) (auto simp: settled_def is_v2_of_def split: option.splits)
qed

lemma breccia_only_trans:
  "d1 = d\<lparr>dd_breccia := dd_breccia d1\<rparr> \<Longrightarrow> d2 = d1\<lparr>dd_breccia := dd_breccia d2\<rparr> \<Longrightarrow>
   d2 = d\<lparr>dd_breccia := dd_breccia d2\<rparr>" for d :: data_dir
  by (cases d; cases d1; cases d2) simp

lemma import_tails_Ok:
  assumes "import_tails env torn records n d = (d', Ok n')" "log_ready env d rs"
    and "\<forall>r \<in> set records. v2_readable env (bt_bao_root (in_payload r))"
  shows "\<exists>rs'. log_ready env d' (rs @ rs') \<and> d' = d\<lparr>dd_breccia := dd_breccia d'\<rparr> \<and>
    (\<forall>r \<in> set records. settled env d' (rs @ rs') r)"
  using assms
proof (induction records arbitrary: n d rs)
  case Nil
  then show ?case by (intro exI [of _ "[]"]) simp
next
  case (Cons r records)
  from Cons.prems(1) obtain d1 b where 1: "import_tail env torn r d = (d1, Ok b)"
    and 2: "import_tails env torn records (if b then n + 1 else n) d1 = (d', Ok n')"
    by (auto elim!: io_then_cases)
  from import_tail_Ok [OF 1 Cons.prems(2)] Cons.prems(3) obtain rs1 where
    r1: "log_ready env d1 (rs @ rs1)" "d1 = d\<lparr>dd_breccia := dd_breccia d1\<rparr>" "settled env d1 (rs @ rs1) r"
    by auto
  from Cons.IH [OF 2 r1(1)] Cons.prems(3) obtain rs2 where
    r2: "log_ready env d' ((rs @ rs1) @ rs2)" "d' = d1\<lparr>dd_breccia := dd_breccia d'\<rparr>"
      "\<forall>r \<in> set records. settled env d' ((rs @ rs1) @ rs2) r"
    by auto
  from settled_mono [OF r1(3) r2(2)] r2 breccia_only_trans [OF r1(2) r2(2)] show ?case
    by (intro exI [of _ "rs1 @ rs2"]) simp
qed

lemma import_tails_settled:
  "log_ready env d rs \<Longrightarrow> \<forall>r \<in> set records. settled env d rs r \<Longrightarrow>
   import_tails env torn records n d = (d, Ok n)"
  by (induction records) (simp_all add: io_then_def import_settled)

text \<open>Importing the staged tails twice is importing them once: a second import of the same
  staging file adds nothing to the log and changes nothing, whatever mixture of duplicate,
  invalid, unknown and contradicting tails the file holds.\<close>

theorem import_idempotent:
  assumes "import_inbound_tails env torn parse staged d = (d', Ok n)" and "current d"
    and "log_ready env d rs"
    and "\<forall>root. v2_readable env root"
  shows "import_inbound_tails env torn' parse staged d' = (d', Ok 0) \<and>
    dd_store d' = dd_store d \<and> dd_files d' = dd_files d"
proof -
  from assms(1,2) obtain records where records: "read_inbound parse staged = Ok records"
    and run: "import_tails env torn records 0 d = (d', Ok n)"
    by (auto simp: import_inbound_tails_def io_simps split: result.splits) (metis map_error_Ok)
  from import_tails_Ok [OF run assms(3)] assms(4) obtain rs' where
    r: "log_ready env d' (rs @ rs')" "d' = d\<lparr>dd_breccia := dd_breccia d'\<rparr>"
      "\<forall>r \<in> set records. settled env d' (rs @ rs') r" by auto
  have "dd_store d' = dd_store d" "dd_files d' = dd_files d" by (subst r(2), simp)+
  moreover have "current d'" using assms(2) by (subst r(2)) (simp add: current_def)
  ultimately show ?thesis
    using records import_tails_settled [OF r(1,3)]
    by (simp add: import_inbound_tails_def io_simps)
qed

definition toy_tail :: "breccia_tail inbound" where
  "toy_tail = \<lparr>in_received_at = 0, in_frame = new_frame 3 BrecciaTail [],
     in_payload = \<lparr>bt_bao_root = replicate 32 1, bt_start_digest = replicate 32 9, bt_ots_order_key = [],
       bt_attestation_height = Some 7, bt_attestation_txid = None, bt_tree_root = None\<rparr>\<rparr>"

definition toy_done_dir :: data_dir where
  "toy_done_dir = (toy_free_dir None)\<lparr>dd_store := (dd_store toy_dir)\<lparr>sto_meta := [(replicate 32 1, [1, 0])]\<rparr>\<rparr>"

theorem import_idempotent_witness:
  "\<exists>d'. import_inbound_tails toy_cenv None (\<lambda>l. Some toy_tail) (Some [''{}'']) toy_done_dir = (d', Ok 1) \<and>
     import_inbound_tails toy_cenv None (\<lambda>l. Some toy_tail) (Some [''{}'']) d' = (d', Ok 0)"
proof -
  have cur: "current toy_done_dir"
    by (simp add: toy_done_dir_def toy_free_dir_def current_def toy_dir_def statistic_def SCHEMA_VERSION_def)
  have log: "log_ready toy_cenv toy_done_dir []"
    by (simp add: toy_done_dir_def log_ready_def toy_free_simps)
  have acc: "acceptable_tail toy_cenv toy_tail = Some 7"
    by (simp add: acceptable_tail_def toy_tail_def new_frame_def validate_ltp_frame_version_def
        validate_breccia_tail_payload_def Ltp.commitment_digest_def toy_cenv_def)
  have get: "get_commitment (env_codec toy_cenv) (dd_store toy_done_dir) (bt_bao_root (in_payload toy_tail))
      = Ok (Some toy_timestamped)"
    by (simp add: get_commitment_def toy_done_dir_def toy_tail_def toy_cenv_def)
  have "\<not> proof_contradicts toy_cenv toy_timestamped 7 toy_done_dir"
    by (simp add: proof_contradicts_def toy_done_dir_def toy_free_dir_def timestamped_meta_def proof_path_of_def)
  with acc get have todo: "\<not> settled toy_cenv toy_done_dir [] toy_tail"
    by (simp add: settled_def timestamped_meta_def toy_tail_def)
  obtain fl where "append_breccia None True
      (encode_entry_v2 (env_entries toy_cenv) (tail_entry (in_payload toy_tail) toy_timestamped 7)) toy_done_dir
      = (toy_done_dir\<lparr>dd_breccia := Some fl\<rparr>, Ok ())"
    using append_breccia_succeeds [OF log, of "encode_entry_v2 (env_entries toy_cenv)
        (tail_entry (in_payload toy_tail) toy_timestamped 7)" True]
    by (auto simp: toy_cenv_def encode_entry_v2_def tail_entry_def toy_tail_def MAX_BRECCIA_BLOB_LEN_def)
  with acc get todo log have tail: "import_tail toy_cenv None toy_tail toy_done_dir = (toy_done_dir\<lparr>dd_breccia := Some fl\<rparr>, Ok True)"
    by (simp add: import_tail_step io_then_def)
  have run: "import_inbound_tails toy_cenv None (\<lambda>l. Some toy_tail) (Some [''{}'']) toy_done_dir =
      (toy_done_dir\<lparr>dd_breccia := Some fl\<rparr>, Ok 1)"
    using tail open_current [OF cur]
    by (simp add: import_inbound_tails_def io_simps read_inbound_def is_blank_def io_then_def)
  have "v2_readable toy_cenv root" for root
    by (auto simp: v2_readable_def toy_cenv_def decode_breccia_blob_def encode_entry_v2_def decode_entry_v2_def)
  with import_idempotent [OF run cur log, of None] run show ?thesis by blast
qed

section \<open>A full mempool\<close>

text \<open>Nothing but its tests removes expired entries from the mempool, so its commitment queue
  fills up. From then on a confirmed upgrade reports an error after its work is done: its
  entry is in the log, and every retry fails again.\<close>

lemma full_mempool_fails:
  assumes "attestation_height_from_proof env pf = Some h" and "log_ready env d rs"
    and "length (env_sha env root) = 32"
    and "open_mempool (env_unjson env) (from_chain_scoped_data_dir (dd_name d)) (dd_mempool d) = Ok mp"
    and "max_depth (mp_profile mp) \<le> length (ms_commitment (mp_snapshot mp))"
    and "env_sha env root \<notin> set (map me_start_digest (ms_commitment (mp_snapshot mp)))"
    and "v2_readable env root" "io_append w = None"
    and "\<And>e. length (encode_entry_v2 (env_entries env) e) \<le> MAX_BRECCIA_BLOB_LEN"
  shows "\<exists>d' rs'. maybe_append_breccia_v2_and_enqueue_ltp env w root m pf key d = (d', Err (LtpError MempoolFull)) \<and>
    log_ready env d' (rs @ rs') \<and> list_ex (is_v2_of root) (rs @ rs')"
proof -
  have q: "enqueue_breccia_tail_ltp env w root d1 = (d1, Err (LtpError MempoolFull))"
    if "d1 = d\<lparr>dd_breccia := b\<rparr>" for d1 b
    using assms(3-6) that
    by (simp add: enqueue_breccia_tail_ltp_def Let_def commitment_start_digest_def enqueue_full queue_of_def)
  show ?thesis
  proof (cases "list_ex (is_v2_of root) rs")
    case True
    with assms(1,2) q [of d "dd_breccia d"] show ?thesis
      by (intro exI [of _ d] exI [of _ "[]"])
        (simp add: maybe_append_breccia_v2_and_enqueue_ltp_def io_simps has_v2_ready)
  next
    case False
    let ?e = "\<lparr>ce_bao_root = root, ce_ots_order_key = key,
        ce_timestamped_at = (case cm_timestamped_at m of Some t \<Rightarrow> t | None \<Rightarrow> cm_created_at m),
        ce_carbonado_path = cm_carbonado_path m, ce_attestation_height = h,
        ce_attestation_txid = [], ce_replication_target = 0\<rparr>"
    obtain fl where app: "append_breccia None True (encode_entry_v2 (env_entries env) ?e) d =
        (d\<lparr>dd_breccia := Some fl\<rparr>, Ok ())"
      using append_breccia_succeeds [OF assms(2,9)] by blast
    obtain e' where e': "decode_breccia_blob (env_entries env) (encode_entry_v2 (env_entries env) ?e) = Ok (V2 e')"
      "ce_bao_root e' = root"
      using assms(7) unfolding v2_readable_def by (metis commitment_entry.select_convs(1))
    note A = append_breccia_Ok [OF app assms(2) e'(1)]
    have "maybe_append_breccia_v2_and_enqueue_ltp env w root m pf key d =
        (d\<lparr>dd_breccia := Some fl\<rparr>, Err (LtpError MempoolFull))"
      using False assms(1,2,8) app q [OF refl, of "Some fl"]
      by (simp add: maybe_append_breccia_v2_and_enqueue_ltp_def io_simps has_v2_ready Let_def)
    with A(3) e'(2) show ?thesis
      by (intro exI [of _ "d\<lparr>dd_breccia := Some fl\<rparr>"] exI [of _ "[V2 e']"]) (simp add: is_v2_of_def)
  qed
qed

end
