(* ===== verification/Payments.thy ===== *)
theory Payments
  imports Ltp
begin

text \<open>
  Settlement of storage contracts: the coordinator that routes a payment to a rail by its
  amount (\<open>lord-payments/src\<close>), the provider of ecash payments with its ledger
  (\<open>lord-ecash/src/provider.rs\<close>, \<open>ledger.rs\<close>, \<open>config.rs\<close>), and the provider of Lightning
  payments (\<open>lord-lightning/src/payments.rs\<close>). A provider is a record of functions on its own
  state, as the traits are; the Lightning node is a parameter (the invoices it issues, the
  payments it lists), and so is the hex encoding. The lines of the ledger are what
  \<open>serde_json\<close> reads back from them.
\<close>

section \<open>Bindings\<close>

datatype payment_purpose = StorageContract | ChallengeFee | LtpMicroPayment

record payment_binding =
  pb_bao_root :: bytes
  pb_purpose :: payment_purpose
  pb_amount_sats :: u64

datatype settlement_rail = Lightning | Ecash

record settlement_result =
  sr_rail :: settlement_rail
  sr_amount_sats :: u64
  sr_reference :: string
  sr_payment_hash :: "bytes option"

definition purpose_label :: "payment_purpose \<Rightarrow> string" where
  "purpose_label p =
     (case p of
        StorageContract \<Rightarrow> ''storage_contract''
      | ChallengeFee \<Rightarrow> ''challenge_fee''
      | LtpMicroPayment \<Rightarrow> ''ltp_micro_payment'')"

definition ecash_binding_reference :: "(bytes \<Rightarrow> string) \<Rightarrow> payment_binding \<Rightarrow> string" where
  "ecash_binding_reference hex b =
     ''ecash:binding:'' @ hex (pb_bao_root b) @ '':'' @ purpose_label (pb_purpose b)"

record settlement_credentials =
  cr_invoice_hash :: "bytes option"
  cr_ecash_receipt :: "string option"
  cr_bao_gate_satisfied :: bool

datatype payment_error =
    NotImplemented
  | ZeroPaymentAmount
  | ZeroThreshold
  | WrongPurpose payment_purpose
  | AmountOverflow
  | ReceiptMismatch string
  | EmptyInvoice
  | InvoiceUnparsable
  | InvoiceAmountMismatch u64
  | ZeroInlineSampleRate
  | GateNotSatisfied
  | NoReceiptPersisted
  | EcashDisabled
  | LedgerWriteFailed
  | NoLedgerRecord
  | NodeRefused
  | NodeNotStarted
  | NodeMismatch
  | BadNodeConfig
  | BadEcashConfig
  | LedgerUnavailable
  | PaymentNotSettled "bytes option"
  | NoPayer
  | NoContract bytes
  | ZeroPricing
  | InvoiceHashAlreadySet
  | ReceiptAlreadySet
  | InlineChallengeFailed

lemma purpose_label_valid: "is_valid_payment_purpose_label (purpose_label p)"
  by (cases p) (simp_all add: is_valid_payment_purpose_label_def PAYMENT_PURPOSE_LABELS_def purpose_label_def)

lemma purpose_label_inject: "purpose_label p = purpose_label q \<longleftrightarrow> p = q"
  by (cases p; cases q) (simp_all add: purpose_label_def)

section \<open>The coordinator\<close>

text \<open>The two traits; \<open>'s\<close> is the state behind the providers.\<close>

record 's micro_provider =
  pay_micro :: "payment_binding \<Rightarrow> 's \<Rightarrow> 's \<times> (payment_error, settlement_result) result"
  verify_micro :: "payment_binding \<Rightarrow> string \<Rightarrow> 's \<Rightarrow> (payment_error, unit) result"

record 's lightning_provider =
  create_contract_invoice :: "payment_binding \<Rightarrow> 's \<Rightarrow> 's \<times> (payment_error, settlement_result) result"
  settle_lightning :: "payment_binding \<Rightarrow> bytes option \<Rightarrow> 's \<Rightarrow> (payment_error, unit) result"

record 's coordinator =
  co_lightning :: "'s lightning_provider"
  co_micro :: "'s micro_provider"
  co_threshold_sats :: u64

definition new_coordinator ::
  "'s lightning_provider \<Rightarrow> 's micro_provider \<Rightarrow> u64 \<Rightarrow> (payment_error, 's coordinator) result" where
  "new_coordinator lightning micro threshold =
     (if threshold = 0 then Err ZeroThreshold
      else Ok \<lparr>co_lightning = lightning, co_micro = micro, co_threshold_sats = threshold\<rparr>)"

definition rail_for_amount :: "u64 \<Rightarrow> u64 \<Rightarrow> settlement_rail" where
  "rail_for_amount threshold amount = (if threshold \<le> amount then Lightning else Ecash)"

definition ensure_binding :: "payment_binding \<Rightarrow> (payment_error, unit) result" where
  "ensure_binding b = ensure (pb_amount_sats b \<noteq> 0) ZeroPaymentAmount"

definition ensure_storage_contract_binding :: "payment_binding \<Rightarrow> (payment_error, unit) result" where
  "ensure_storage_contract_binding b =
     and_then (ensure_binding b) (\<lambda>_.
     ensure (pb_purpose b = StorageContract) (WrongPurpose (pb_purpose b)))"

definition coordinator_create_invoice ::
  "'s coordinator \<Rightarrow> payment_binding \<Rightarrow> 's \<Rightarrow> 's \<times> (payment_error, settlement_result) result" where
  "coordinator_create_invoice c b s =
     (case ensure_storage_contract_binding b of
        Err e \<Rightarrow> (s, Err e)
      | Ok _ \<Rightarrow> (case rail_for_amount (co_threshold_sats c) (pb_amount_sats b) of
          Lightning \<Rightarrow> create_contract_invoice (co_lightning c) b s
        | Ecash \<Rightarrow> pay_micro (co_micro c) b s))"

definition coordinator_settle_contract ::
  "'s coordinator \<Rightarrow> payment_binding \<Rightarrow> settlement_credentials \<Rightarrow> 's \<Rightarrow> (payment_error, unit) result" where
  "coordinator_settle_contract c b cr s =
     and_then (ensure_storage_contract_binding b) (\<lambda>_.
     and_then (ensure (cr_bao_gate_satisfied cr) GateNotSatisfied) (\<lambda>_.
     case rail_for_amount (co_threshold_sats c) (pb_amount_sats b) of
       Lightning \<Rightarrow> settle_lightning (co_lightning c) b (cr_invoice_hash cr) s
     | Ecash \<Rightarrow>
         and_then (ok_or (cr_ecash_receipt cr) NoReceiptPersisted) (\<lambda>receipt.
         verify_micro (co_micro c) b receipt s)))"

definition coordinator_pay_challenge_fee ::
  "'s coordinator \<Rightarrow> payment_binding \<Rightarrow> 's \<Rightarrow> 's \<times> (payment_error, settlement_result) result" where
  "coordinator_pay_challenge_fee c b s =
     (case ensure_binding b of
        Err e \<Rightarrow> (s, Err e)
      | Ok _ \<Rightarrow> if pb_purpose b \<noteq> ChallengeFee then (s, Err (WrongPurpose (pb_purpose b)))
                else pay_micro (co_micro c) b s)"

section \<open>Stubs and mocks\<close>

definition stub_lightning :: "'s lightning_provider" where
  "stub_lightning = \<lparr>create_contract_invoice = (\<lambda>b s. (s, Err NotImplemented)),
     settle_lightning = (\<lambda>b h s. Err NotImplemented)\<rparr>"

definition stub_micro :: "'s micro_provider" where
  "stub_micro = \<lparr>pay_micro = (\<lambda>b s. (s, Err NotImplemented)), verify_micro = (\<lambda>b r s. Err NotImplemented)\<rparr>"

definition mock_lightning :: "(bytes \<Rightarrow> string) \<Rightarrow> 's lightning_provider" where
  "mock_lightning hex =
     \<lparr>create_contract_invoice = (\<lambda>b s. (s, Ok \<lparr>sr_rail = Lightning, sr_amount_sats = pb_amount_sats b,
        sr_reference = ''bolt11:mock:'' @ hex (pb_bao_root b), sr_payment_hash = Some (replicate 32 0xAA)\<rparr>)),
      settle_lightning = (\<lambda>b h s. Ok ())\<rparr>"

definition mock_pay_invoice :: "payment_binding \<Rightarrow> string \<Rightarrow> (payment_error, unit) result" where
  "mock_pay_invoice b bolt11 = ensure (bolt11 \<noteq> []) EmptyInvoice"

definition mock_micro :: "(bytes \<Rightarrow> string) \<Rightarrow> 's micro_provider" where
  "mock_micro hex =
     \<lparr>pay_micro = (\<lambda>b s. (s, Ok \<lparr>sr_rail = Ecash, sr_amount_sats = pb_amount_sats b,
        sr_reference = ecash_binding_reference hex b, sr_payment_hash = None\<rparr>)),
      verify_micro = (\<lambda>b r s. ensure (r = ecash_binding_reference hex b) (ReceiptMismatch r))\<rparr>"

section \<open>Ecash\<close>

text \<open>\<open>str::trim\<close> on ASCII text.\<close>

definition trim :: "string \<Rightarrow> string" where
  "trim s = (let blank = (\<lambda>c. is_blank [c]) in rev (dropWhile blank (rev (dropWhile blank s))))"

definition normalize_mint_url :: "string \<Rightarrow> string" where
  "normalize_mint_url url =
     (let u = trim_end_matches (CHR ''/'') (trim url)
      in case strip_prefix ''https://'' u of Some rest \<Rightarrow> ''https://'' @ rest | None \<Rightarrow>
         case strip_prefix ''http://'' u of Some rest \<Rightarrow> ''http://'' @ rest | None \<Rightarrow>
         case strip_prefix ''HTTPS://'' u of Some rest \<Rightarrow> ''https://'' @ rest | None \<Rightarrow>
         case strip_prefix ''HTTP://'' u of Some rest \<Rightarrow> ''http://'' @ rest | None \<Rightarrow> u)"

record ecash_config =
  ec_enabled :: bool
  ec_mint_urls :: "string list"
  ec_settlement_threshold_sats :: u64
  ec_mint_allowlist :: "string list option"

datatype config_error = NoMintUrls | MintNotAllowed string

fun check_mints :: "string list \<Rightarrow> string list \<Rightarrow> (config_error, unit) result" where
  "check_mints allowlist [] = Ok ()"
| "check_mints allowlist (url # urls) =
     (if list_ex (\<lambda>allowed. normalize_mint_url allowed = normalize_mint_url url) allowlist
      then check_mints allowlist urls else Err (MintNotAllowed url))"

definition validate_mint_allowlist :: "ecash_config \<Rightarrow> (config_error, unit) result" where
  "validate_mint_allowlist c =
     (case ec_mint_allowlist c of
        None \<Rightarrow> Ok ()
      | Some allowlist \<Rightarrow> if allowlist = [] then Ok () else check_mints allowlist (ec_mint_urls c))"

definition validate_for_use :: "ecash_config \<Rightarrow> (config_error, unit) result" where
  "validate_for_use c =
     (if ec_enabled c \<and> ec_mint_urls c = [] then Err NoMintUrls else validate_mint_allowlist c)"

definition new_ecash_config ::
  "bool \<Rightarrow> string list \<Rightarrow> u64 \<Rightarrow> string list option \<Rightarrow> (config_error, ecash_config) result" where
  "new_ecash_config enabled urls threshold allowlist =
     (let c = \<lparr>ec_enabled = enabled, ec_mint_urls = urls, ec_settlement_threshold_sats = threshold,
          ec_mint_allowlist = allowlist\<rparr>
      in and_then (validate_for_use c) (\<lambda>_. Ok c))"

record micro_payment_record =
  mr_reference :: string
  mr_bao_root :: bytes
  mr_purpose :: string
  mr_amount_sats :: u64

text \<open>The lines of the ledger, \<open>None\<close> where one does not parse, and whether the last one lacks
  its newline. An interrupted write may leave nothing, some bytes of the record, or all of it
  but the newline; a failed sync leaves the whole line.\<close>

record ledger =
  lg_lines :: "micro_payment_record option list"
  lg_unterminated :: bool

datatype cut = NothingWritten | SomeBytes | NoNewline | NotSynced

definition append_text :: "micro_payment_record option \<Rightarrow> bool \<Rightarrow> ledger \<Rightarrow> ledger" where
  "append_text line unterminated lg =
     (if lg_unterminated lg
      then \<lparr>lg_lines = butlast (lg_lines lg) @ [None], lg_unterminated = unterminated\<rparr>
      else \<lparr>lg_lines = lg_lines lg @ [line], lg_unterminated = unterminated\<rparr>)"

definition payment_record :: "payment_binding \<Rightarrow> string \<Rightarrow> micro_payment_record" where
  "payment_record b reference =
     \<lparr>mr_reference = reference, mr_bao_root = pb_bao_root b, mr_purpose = purpose_label (pb_purpose b),
      mr_amount_sats = pb_amount_sats b\<rparr>"

definition record_payment ::
  "cut option \<Rightarrow> payment_binding \<Rightarrow> string \<Rightarrow> ledger \<Rightarrow> ledger \<times> (payment_error, unit) result" where
  "record_payment outcome b reference lg =
     (let r = payment_record b reference in
      case outcome of
        None \<Rightarrow> (append_text (Some r) False lg, Ok ())
      | Some NothingWritten \<Rightarrow> (lg, Err LedgerWriteFailed)
      | Some SomeBytes \<Rightarrow> (append_text None True lg, Err LedgerWriteFailed)
      | Some NoNewline \<Rightarrow> (append_text (Some r) True lg, Err LedgerWriteFailed)
      | Some NotSynced \<Rightarrow> (append_text (Some r) False lg, Err LedgerWriteFailed))"

definition has_payment :: "payment_binding \<Rightarrow> string \<Rightarrow> ledger \<Rightarrow> bool" where
  "has_payment b reference lg =
     list_ex (\<lambda>line. case line of None \<Rightarrow> False
       | Some r \<Rightarrow> mr_reference r = reference \<and> mr_bao_root r = pb_bao_root b \<and>
           mr_purpose r = purpose_label (pb_purpose b) \<and> mr_amount_sats r = pb_amount_sats b)
     (lg_lines lg)"

text \<open>The state of the provider is its ledger, if one is open.\<close>

definition cdk_pay_micro ::
  "(bytes \<Rightarrow> string) \<Rightarrow> bool \<Rightarrow> cut option \<Rightarrow> payment_binding \<Rightarrow> ledger option \<Rightarrow>
   ledger option \<times> (payment_error, settlement_result) result" where
  "cdk_pay_micro hex enabled outcome b s =
     (if \<not> enabled then (s, Err EcashDisabled)
      else if pb_amount_sats b = 0 then (s, Err ZeroPaymentAmount)
      else
        let reference = ecash_binding_reference hex b;
            res = \<lparr>sr_rail = Ecash, sr_amount_sats = pb_amount_sats b, sr_reference = reference,
              sr_payment_hash = None\<rparr>
        in case s of
             None \<Rightarrow> (None, Ok res)
           | Some lg \<Rightarrow> (case record_payment outcome b reference lg of
                 (lg', Err e) \<Rightarrow> (Some lg', Err e)
               | (lg', Ok _) \<Rightarrow> (Some lg', Ok res)))"

definition cdk_verify_micro ::
  "(bytes \<Rightarrow> string) \<Rightarrow> bool \<Rightarrow> payment_binding \<Rightarrow> string \<Rightarrow> ledger option \<Rightarrow> (payment_error, unit) result" where
  "cdk_verify_micro hex enabled b reference s =
     (if \<not> enabled then Err EcashDisabled
      else if reference \<noteq> ecash_binding_reference hex b then Err (ReceiptMismatch reference)
      else case s of
          None \<Rightarrow> Ok ()
        | Some lg \<Rightarrow> ensure (has_payment b reference lg) NoLedgerRecord)"

definition cdk_micro :: "(bytes \<Rightarrow> string) \<Rightarrow> bool \<Rightarrow> cut option \<Rightarrow> ledger option micro_provider" where
  "cdk_micro hex enabled outcome =
     \<lparr>pay_micro = cdk_pay_micro hex enabled outcome, verify_micro = cdk_verify_micro hex enabled\<rparr>"

definition melt_and_pay_bolt11 ::
  "bool \<Rightarrow> (payment_binding \<Rightarrow> string \<Rightarrow> (payment_error, unit) result) option \<Rightarrow> payment_binding \<Rightarrow> string \<Rightarrow>
   (payment_error, unit) result" where
  "melt_and_pay_bolt11 enabled payer b bolt11 =
     (if \<not> enabled then Err EcashDisabled
      else and_then (ok_or payer NoPayer) (\<lambda>pay. pay b bolt11))"

section \<open>Lightning\<close>

record node_payment =
  np_inbound :: bool
  np_succeeded :: bool
  np_bolt11_hash :: "bytes option"
  np_amount_msat :: "u64 option"

text \<open>The node: issuing an invoice gives its text and payment hash.\<close>

record 'n node_api =
  node_receive :: "u64 \<Rightarrow> string \<Rightarrow> u32 \<Rightarrow> 'n \<Rightarrow> 'n \<times> (string \<times> bytes) option"
  node_payments :: "'n \<Rightarrow> node_payment list"

definition INVOICE_EXPIRY_SECS :: u32 where "INVOICE_EXPIRY_SECS = 3600"

definition invoice_memo :: "(bytes \<Rightarrow> string) \<Rightarrow> payment_binding \<Rightarrow> string" where
  "invoice_memo hex b =
     ''lord '' @ purpose_label (pb_purpose b) @ '' bao_root='' @ hex (pb_bao_root b) @
     '' amount_sats='' @ show_word (pb_amount_sats b)"

definition amount_msat_of :: "payment_binding \<Rightarrow> (payment_error, u64) result" where
  "amount_msat_of b = ok_or (checked_mul (pb_amount_sats b) 1000) AmountOverflow"

definition create_contract_invoice_on_node ::
  "(bytes \<Rightarrow> string) \<Rightarrow> 'n node_api \<Rightarrow> payment_binding \<Rightarrow> 'n \<Rightarrow>
   'n \<times> (payment_error, settlement_result) result" where
  "create_contract_invoice_on_node hex api b n =
     (case and_then (ensure_storage_contract_binding b) (\<lambda>_. amount_msat_of b) of
        Err e \<Rightarrow> (n, Err e)
      | Ok amount_msat \<Rightarrow>
          (case node_receive api amount_msat (invoice_memo hex b) INVOICE_EXPIRY_SECS n of
             (n', None) \<Rightarrow> (n', Err NodeRefused)
           | (n', Some (bolt11, hash)) \<Rightarrow>
               (n', Ok \<lparr>sr_rail = Lightning, sr_amount_sats = pb_amount_sats b,
                 sr_reference = ''bolt11:'' @ bolt11, sr_payment_hash = Some hash\<rparr>)))"

definition pays :: "u64 \<Rightarrow> bytes option \<Rightarrow> node_payment \<Rightarrow> bool" where
  "pays expected_msat expected_hash p =
     (np_inbound p \<and> np_succeeded p \<and>
      (case np_bolt11_hash p of None \<Rightarrow> False
       | Some hash \<Rightarrow> (case expected_hash of None \<Rightarrow> True | Some expected \<Rightarrow> hash = expected)) \<and>
      np_amount_msat p = Some expected_msat)"

definition settle_contract_on_node ::
  "'n node_api \<Rightarrow> payment_binding \<Rightarrow> bytes option \<Rightarrow> 'n \<Rightarrow> (payment_error, unit) result" where
  "settle_contract_on_node api b expected_hash n =
     and_then (ensure_storage_contract_binding b) (\<lambda>_.
     and_then (amount_msat_of b) (\<lambda>expected_msat.
     ensure (list_ex (pays expected_msat expected_hash) (node_payments api n))
       (PaymentNotSettled expected_hash)))"

text \<open>A provider runs on a shared node, or starts one of its own for each call: \<open>None\<close> is the shared
  node, \<open>Some\<close> says whether the start succeeds.\<close>

definition with_node :: "bool option \<Rightarrow> (payment_error, unit) result" where
  "with_node start = ensure (start \<noteq> Some False) NodeNotStarted"

definition ldk_lightning :: "(bytes \<Rightarrow> string) \<Rightarrow> 'n node_api \<Rightarrow> bool option \<Rightarrow> 'n lightning_provider" where
  "ldk_lightning hex api start =
     \<lparr>create_contract_invoice = (\<lambda>b n. case with_node start of
        Err e \<Rightarrow> (n, Err e) | Ok _ \<Rightarrow> create_contract_invoice_on_node hex api b n),
      settle_lightning = (\<lambda>b h n. and_then (with_node start) (\<lambda>_. settle_contract_on_node api b h n))\<rparr>"

text \<open>\<open>parse\<close> gives the amount of an invoice in millisatoshis, if it states one.\<close>

definition parse_and_validate_pay_invoice ::
  "(string \<Rightarrow> u64 option option) \<Rightarrow> payment_binding \<Rightarrow> string \<Rightarrow> (payment_error, u64 option) result" where
  "parse_and_validate_pay_invoice parse b bolt11 =
     and_then (ensure (bolt11 \<noteq> []) EmptyInvoice) (\<lambda>_.
     and_then (ok_or (parse bolt11) InvoiceUnparsable) (\<lambda>amount.
     case amount of
       None \<Rightarrow> Ok None
     | Some msat \<Rightarrow>
         and_then (amount_msat_of b) (\<lambda>expected.
         and_then (ensure (msat = expected) (InvoiceAmountMismatch msat)) (\<lambda>_. Ok amount))))"

definition send_invoice_on_node :: "(string \<Rightarrow> bool) \<Rightarrow> string \<Rightarrow> (payment_error, unit) result" where
  "send_invoice_on_node send bolt11 = ensure (send bolt11) NodeRefused"

definition pay_invoice_on_node ::
  "(string \<Rightarrow> u64 option option) \<Rightarrow> (string \<Rightarrow> bool) \<Rightarrow> payment_binding \<Rightarrow> string \<Rightarrow> (payment_error, unit) result" where
  "pay_invoice_on_node parse send b bolt11 =
     and_then (parse_and_validate_pay_invoice parse b bolt11) (\<lambda>_. send_invoice_on_node send bolt11)"

definition ldk_pay_invoice ::
  "(string \<Rightarrow> u64 option option) \<Rightarrow> (string \<Rightarrow> bool) \<Rightarrow> bool option \<Rightarrow> payment_binding \<Rightarrow> string \<Rightarrow>
   (payment_error, unit) result" where
  "ldk_pay_invoice parse send start b bolt11 =
     and_then (parse_and_validate_pay_invoice parse b bolt11) (\<lambda>_.
     and_then (with_node start) (\<lambda>_. send_invoice_on_node send bolt11))"

section \<open>Addresses and credentials\<close>

datatype rpc_error = EmptyRpcUrl | InvalidRpcUrl string | CookieUnreadable | CookieMalformed | CookieEmptyPart

text \<open>\<open>socket\<close> is \<open>SocketAddr::from_str\<close>, as the text of the address and the port.\<close>

definition parse_rpc_host_port ::
  "(string \<Rightarrow> (string \<times> u16) option) \<Rightarrow> string \<Rightarrow> u16 \<Rightarrow> (rpc_error, string \<times> u16) result" where
  "parse_rpc_host_port socket rpc_url default_port =
     (let trimmed = trim_end_matches (CHR ''/'') (trim rpc_url);
          without_scheme = (case strip_prefix ''http://'' trimmed of Some rest \<Rightarrow> rest | None \<Rightarrow>
            (case strip_prefix ''https://'' trimmed of Some rest \<Rightarrow> rest | None \<Rightarrow> trimmed))
      in
      if without_scheme = [] then Err EmptyRpcUrl
      else case socket without_scheme of
          Some addr \<Rightarrow> Ok addr
        | None \<Rightarrow>
            if CHR '':'' \<in> set without_scheme then Err (InvalidRpcUrl rpc_url)
            else Ok (without_scheme, default_port))"

definition read_cookie_credentials :: "string option \<Rightarrow> (rpc_error, string \<times> string) result" where
  "read_cookie_credentials content =
     and_then (ok_or content CookieUnreadable) (\<lambda>content.
     and_then (ok_or (split_once '':'' (trim content)) CookieMalformed) (\<lambda>(user, password).
     if user = [] \<or> password = [] then Err CookieEmptyPart else Ok (user, password)))"

section \<open>The contract of a provider of micro-payments\<close>

text \<open>What the coordinator relies on: a payment is answered with a receipt for its binding, and
  the receipt verifies afterwards; only such a receipt verifies.\<close>

locale micro_payments =
  fixes hex :: "bytes \<Rightarrow> string" and prov :: "'s micro_provider"
  assumes receipt: "pay_micro prov b s = (s', Ok r) \<Longrightarrow>
      sr_rail r = Ecash \<and> sr_reference r = ecash_binding_reference hex b \<and> sr_payment_hash r = None"
    and paid_verifies: "pay_micro prov b s = (s', Ok r) \<Longrightarrow> verify_micro prov b (sr_reference r) s' = Ok ()"
    and verified: "verify_micro prov b ref s = Ok () \<Longrightarrow> ref = ecash_binding_reference hex b"
begin

lemma invoice_then_settle:
  assumes "coordinator_create_invoice \<lparr>co_lightning = l, co_micro = prov, co_threshold_sats = t\<rparr> b s = (s', Ok r)"
    and "pb_amount_sats b < t"
  shows "coordinator_settle_contract \<lparr>co_lightning = l, co_micro = prov, co_threshold_sats = t\<rparr> b
      \<lparr>cr_invoice_hash = h, cr_ecash_receipt = Some (sr_reference r), cr_bao_gate_satisfied = True\<rparr> s' = Ok ()"
  using assms paid_verifies
  by (auto simp: coordinator_create_invoice_def coordinator_settle_contract_def rail_for_amount_def
      split: result.splits if_splits)

lemma settled_with_receipt:
  assumes "coordinator_settle_contract \<lparr>co_lightning = l, co_micro = prov, co_threshold_sats = t\<rparr> b cr s = Ok ()"
    and "pb_amount_sats b < t"
  shows "cr_bao_gate_satisfied cr \<and> cr_ecash_receipt cr = Some (ecash_binding_reference hex b)"
  using assms verified
  by (auto simp: coordinator_settle_contract_def rail_for_amount_def ok_elims split: if_splits)

end

interpretation mock: micro_payments hex "mock_micro hex"
  by unfold_locales (auto simp: mock_micro_def ensure_eq)

lemma has_payment_append:
  "has_payment b reference (append_text (Some (payment_record b reference)) False lg) \<longleftrightarrow>
   \<not> lg_unterminated lg \<or> has_payment b reference \<lparr>lg_lines = butlast (lg_lines lg), lg_unterminated = False\<rparr>"
  by (auto simp: has_payment_def append_text_def payment_record_def)

text \<open>Without a ledger the provider verifies every receipt of the right form; with one it
  verifies what it has recorded, as long as no write of the ledger was cut short.\<close>

definition intact :: "ledger option \<Rightarrow> bool" where
  "intact s = (case s of None \<Rightarrow> True | Some lg \<Rightarrow> \<not> lg_unterminated lg)"

lemma cdk_pay_Ok:
  assumes "cdk_pay_micro hex enabled outcome b s = (s', Ok r)"
  shows "enabled" "pb_amount_sats b \<noteq> 0"
    "r = \<lparr>sr_rail = Ecash, sr_amount_sats = pb_amount_sats b,
       sr_reference = ecash_binding_reference hex b, sr_payment_hash = None\<rparr>"
    "s' = map_option (append_text (Some (payment_record b (ecash_binding_reference hex b))) False) s"
  using assms
  by (auto simp: cdk_pay_micro_def record_payment_def Let_def
      split: if_splits option.splits prod.splits result.splits cut.splits)

interpretation cdk: micro_payments hex
  "\<lparr>pay_micro = (\<lambda>b s. if intact s then cdk_pay_micro hex enabled outcome b s else (s, Err LedgerWriteFailed)),
    verify_micro = cdk_verify_micro hex enabled\<rparr>"
proof unfold_locales
  fix b s s' r
  assume "pay_micro \<lparr>pay_micro = (\<lambda>b s. if intact s then cdk_pay_micro hex enabled outcome b s else (s, Err LedgerWriteFailed)),
    verify_micro = cdk_verify_micro hex enabled\<rparr> b s = (s', Ok r)"
  then have i: "intact s" and p: "cdk_pay_micro hex enabled outcome b s = (s', Ok r)"
    by (auto split: if_splits)
  note P = cdk_pay_Ok [OF p]
  show "sr_rail r = Ecash \<and> sr_reference r = ecash_binding_reference hex b \<and> sr_payment_hash r = None"
    by (simp add: P(3))
  show "verify_micro \<lparr>pay_micro = (\<lambda>b s. if intact s then cdk_pay_micro hex enabled outcome b s else (s, Err LedgerWriteFailed)),
    verify_micro = cdk_verify_micro hex enabled\<rparr> b (sr_reference r) s' = Ok ()"
    using P(1) i
    by (cases s) (simp_all add: P(3,4) cdk_verify_micro_def has_payment_append intact_def)
next
  fix b ref s
  assume "verify_micro \<lparr>pay_micro = (\<lambda>b s. if intact s then cdk_pay_micro hex enabled outcome b s else (s, Err LedgerWriteFailed)),
    verify_micro = cdk_verify_micro hex enabled\<rparr> b ref s = Ok ()"
  then show "ref = ecash_binding_reference hex b"
    by (auto simp: cdk_verify_micro_def split: if_splits)
qed

text \<open>On the ecash rail no money moves: paying writes a receipt and a line of the local
  ledger, and settling checks just these, so that a storage contract below the threshold is
  settled by the invoice that its own side has created.\<close>

theorem ecash_invoice_settles_itself:
  assumes "coordinator_create_invoice c b s = (s', Ok r)" and "pb_amount_sats b < co_threshold_sats c"
    and "co_micro c = cdk_micro hex enabled outcome" and "intact s"
  shows "coordinator_settle_contract c b
      \<lparr>cr_invoice_hash = h, cr_ecash_receipt = Some (sr_reference r), cr_bao_gate_satisfied = True\<rparr> s' = Ok ()"
proof -
  from assms(1-3) have p: "cdk_pay_micro hex enabled outcome b s = (s', Ok r)"
    and b: "ensure_storage_contract_binding b = Ok ()"
    by (auto simp: coordinator_create_invoice_def rail_for_amount_def cdk_micro_def split: result.splits if_splits)
  note P = cdk_pay_Ok [OF p]
  have "cdk_verify_micro hex enabled b (sr_reference r) s' = Ok ()"
    using P(1) assms(4)
    by (cases s) (simp_all add: P(3,4) cdk_verify_micro_def has_payment_append intact_def)
  then show ?thesis
    using assms(2,3) b
    by (auto simp: coordinator_settle_contract_def rail_for_amount_def cdk_micro_def not_le [symmetric])
qed

theorem ecash_invoice_settles_itself_witness:
  "let b = \<lparr>pb_bao_root = [1], pb_purpose = StorageContract, pb_amount_sats = 5\<rparr>;
       c = \<lparr>co_lightning = stub_lightning, co_micro = cdk_micro (\<lambda>r. ''01'') True None, co_threshold_sats = 1000\<rparr>;
       out = coordinator_create_invoice c b (Some \<lparr>lg_lines = [], lg_unterminated = False\<rparr>)
   in coordinator_settle_contract c b
      \<lparr>cr_invoice_hash = None, cr_ecash_receipt = Some (sr_reference (ok_of (snd out))), cr_bao_gate_satisfied = True\<rparr>
      (fst out) = Ok ()"
proof -
  let ?b = "\<lparr>pb_bao_root = [1], pb_purpose = StorageContract, pb_amount_sats = 5\<rparr>"
  let ?c = "\<lparr>co_lightning = stub_lightning, co_micro = cdk_micro (\<lambda>r. ''01'') True None, co_threshold_sats = 1000\<rparr>"
  let ?s = "Some \<lparr>lg_lines = [], lg_unterminated = False\<rparr>"
  have "\<exists>s' r. coordinator_create_invoice ?c ?b ?s = (s', Ok r)"
    by (simp add: coordinator_create_invoice_def ensure_storage_contract_binding_def ensure_binding_def
        rail_for_amount_def cdk_micro_def cdk_pay_micro_def record_payment_def Let_def)
  then obtain s' r where run: "coordinator_create_invoice ?c ?b ?s = (s', Ok r)" by blast
  have "pb_amount_sats ?b < co_threshold_sats ?c" by simp
  from ecash_invoice_settles_itself [OF run this, of "\<lambda>r. ''01''" True None None] run
  show ?thesis by (simp add: intact_def Let_def)
qed

text \<open>A payment whose predecessor was cut short of its newline is lost: the two records share a
  line that does not parse.\<close>

lemma torn_ledger_loses_payment:
  assumes "\<not> lg_unterminated lg" "\<not> has_payment b2 ref2 lg" "payment_record b1 ref1 \<noteq> payment_record b2 ref2"
  shows "let lg1 = fst (record_payment (Some NoNewline) b1 ref1 lg);
      out = record_payment None b2 ref2 lg1
    in has_payment b1 ref1 lg1 \<and> snd out = Ok () \<and> \<not> has_payment b2 ref2 (fst out)"
  using assms by (auto simp: record_payment_def append_text_def has_payment_def payment_record_def Let_def)

end
