(* ===== verification/Market.thy ===== *)
theory Market
  imports CommitmentStore Payments
begin

text \<open>
  The market for storage (\<open>lord-market/src\<close>): contracts keyed by a root, offers of providers in
  two namespaces, challenges, and the settlement of contracts over the coordinator of
  \<open>Payments\<close>. A database is an association list in key order that holds the records
  themselves; the check of a stored file (\<open>verify_commitment\<close>), random identifiers and clocks
  are parameters. The replication factor, a quotient of floating-point numbers, is left out.
\<close>

section \<open>Records\<close>

datatype namespace = PublicSpace | OddSpace

definition namespace_from_format :: "u8 \<Rightarrow> namespace" where
  "namespace_from_format format = (if format mod 2 = 0 then PublicSpace else OddSpace)"

definition prefix_byte :: "namespace \<Rightarrow> u8" where
  "prefix_byte n = (case n of PublicSpace \<Rightarrow> 0 | OddSpace \<Rightarrow> 1)"

datatype contract_visibility = PublicContract | OddContract

definition visibility_namespace :: "contract_visibility \<Rightarrow> namespace" where
  "visibility_namespace v = (case v of PublicContract \<Rightarrow> PublicSpace | OddContract \<Rightarrow> OddSpace)"

definition matches_format :: "contract_visibility \<Rightarrow> u8 \<Rightarrow> bool" where
  "matches_format v format = (visibility_namespace v = namespace_from_format format)"

datatype contract_status = PendingContract | ActiveContract | FulfilledContract | CancelledContract

record storage_contract =
  sc_bao_root :: bytes
  sc_target_replication :: u8
  sc_visibility :: contract_visibility
  sc_mutual_aid_only :: bool
  sc_created_at :: u64
  sc_status :: contract_status
  sc_invoice_hash :: "bytes option"

record provider_offer =
  po_offer_id :: bytes
  po_namespace :: namespace
  po_capacity_gib :: u64
  po_encrypted_only :: bool
  po_open_to_unencrypted :: bool
  po_created_at :: u64

record ecash_receipt =
  er_bao_root :: bytes
  er_reference :: string

record contract_pricing =
  cp_bao_root :: bytes
  cp_amount_sats :: u64

record challenge_proof =
  ch_bao_root :: bytes
  ch_verified_at :: u64
  ch_slices_verified :: u32
  ch_sample_rate :: u32

record replication_state =
  rs_bao_root :: bytes
  rs_observed_replication :: u8
  rs_provider_peers :: "string list"

definition new_pending_contract ::
  "bytes \<Rightarrow> u8 \<Rightarrow> contract_visibility \<Rightarrow> bool \<Rightarrow> u64 \<Rightarrow> storage_contract" where
  "new_pending_contract root target vis mutual created =
     \<lparr>sc_bao_root = root, sc_target_replication = target, sc_visibility = vis,
      sc_mutual_aid_only = mutual, sc_created_at = created, sc_status = PendingContract,
      sc_invoice_hash = None\<rparr>"

section \<open>The store\<close>

record market_store =
  mk_contracts :: "(bytes \<times> storage_contract) list"
  mk_offers :: "(bytes \<times> provider_offer) list"
  mk_replication :: "(bytes \<times> replication_state) list"
  mk_challenge_proofs :: "(bytes \<times> challenge_proof) list"
  mk_ecash_receipts :: "(bytes \<times> ecash_receipt) list"
  mk_pricing :: "(bytes \<times> contract_pricing) list"

definition empty_market :: market_store where
  "empty_market = \<lparr>mk_contracts = [], mk_offers = [], mk_replication = [],
     mk_challenge_proofs = [], mk_ecash_receipts = [], mk_pricing = []\<rparr>"

definition put_contract :: "storage_contract \<Rightarrow> market_store \<Rightarrow> market_store" where
  "put_contract c mk = mk\<lparr>mk_contracts := btree_insert (sc_bao_root c) c (mk_contracts mk)\<rparr>"

definition get_contract :: "market_store \<Rightarrow> bytes \<Rightarrow> storage_contract option" where
  "get_contract mk root = map_of (mk_contracts mk) root"

definition encode_offer_key :: "namespace \<Rightarrow> bytes \<Rightarrow> bytes" where
  "encode_offer_key n offer_id = prefix_byte n # offer_id"

definition put_offer :: "provider_offer \<Rightarrow> market_store \<Rightarrow> market_store" where
  "put_offer o1 mk = mk\<lparr>mk_offers :=
     btree_insert (encode_offer_key (po_namespace o1) (po_offer_id o1)) o1 (mk_offers mk)\<rparr>"

definition get_offer :: "market_store \<Rightarrow> namespace \<Rightarrow> bytes \<Rightarrow> provider_offer option" where
  "get_offer mk n offer_id = map_of (mk_offers mk) (encode_offer_key n offer_id)"

definition list_offers_in_namespace :: "market_store \<Rightarrow> namespace \<Rightarrow> provider_offer list" where
  "list_offers_in_namespace mk n =
     map snd (filter (\<lambda>e. take 1 (fst e) = [prefix_byte n]) (mk_offers mk))"

definition put_replication_state :: "replication_state \<Rightarrow> market_store \<Rightarrow> market_store" where
  "put_replication_state r mk = mk\<lparr>mk_replication := btree_insert (rs_bao_root r) r (mk_replication mk)\<rparr>"

definition get_replication_state :: "market_store \<Rightarrow> bytes \<Rightarrow> replication_state option" where
  "get_replication_state mk root = map_of (mk_replication mk) root"

definition initialize_replication_state :: "bytes \<Rightarrow> market_store \<Rightarrow> market_store" where
  "initialize_replication_state root mk =
     (if get_replication_state mk root \<noteq> None then mk
      else put_replication_state
        \<lparr>rs_bao_root = root, rs_observed_replication = 0, rs_provider_peers = []\<rparr> mk)"

definition put_ecash_receipt :: "ecash_receipt \<Rightarrow> market_store \<Rightarrow> market_store" where
  "put_ecash_receipt r mk = mk\<lparr>mk_ecash_receipts := btree_insert (er_bao_root r) r (mk_ecash_receipts mk)\<rparr>"

definition get_ecash_receipt :: "market_store \<Rightarrow> bytes \<Rightarrow> ecash_receipt option" where
  "get_ecash_receipt mk root = map_of (mk_ecash_receipts mk) root"

definition put_challenge_proof :: "challenge_proof \<Rightarrow> market_store \<Rightarrow> market_store" where
  "put_challenge_proof p mk =
     mk\<lparr>mk_challenge_proofs := btree_insert (ch_bao_root p) p (mk_challenge_proofs mk)\<rparr>"

definition get_challenge_proof :: "market_store \<Rightarrow> bytes \<Rightarrow> challenge_proof option" where
  "get_challenge_proof mk root = map_of (mk_challenge_proofs mk) root"

definition put_contract_pricing ::
  "contract_pricing \<Rightarrow> market_store \<Rightarrow> (payment_error, market_store) result" where
  "put_contract_pricing p mk =
     (if cp_amount_sats p = 0 then Err ZeroPricing
      else Ok (mk\<lparr>mk_pricing := btree_insert (cp_bao_root p) p (mk_pricing mk)\<rparr>))"

definition get_contract_pricing :: "market_store \<Rightarrow> bytes \<Rightarrow> contract_pricing option" where
  "get_contract_pricing mk root = map_of (mk_pricing mk) root"

section \<open>Contracts, offers and challenges\<close>

datatype market_error =
    ZeroReplication
  | MutualAidDisabled
  | MarketStorageError store_error
  | UnknownBaoRoot bytes
  | NotYetTimestamped bytes
  | VisibilityMismatch u8
  | ContractExists bytes
  | ReplicationMissing bytes
  | ZeroCapacity
  | ExclusivePreferences
  | NoRandomness
  | NoStorageContract bytes
  | SampleRateZero
  | BadBaoRootHex
  | ChallengeFailed

record market_settings =
  mset_mutual_aid_enabled :: bool
  mset_encrypted_only_preference :: bool
  mset_open_to_unencrypted :: bool

record request_options =
  ro_target_replication :: u8
  ro_visibility :: contract_visibility
  ro_mutual_aid_only :: bool

definition check_request ::
  "meta_codec \<Rightarrow> market_settings \<Rightarrow> commitment_store \<Rightarrow> bytes \<Rightarrow> request_options \<Rightarrow> (market_error, unit) result" where
  "check_request cd settings storage root opts =
     and_then (ensure (0 < ro_target_replication opts) ZeroReplication) (\<lambda>_.
     and_then (ensure (\<not> (ro_mutual_aid_only opts \<and> \<not> mset_mutual_aid_enabled settings)) MutualAidDisabled) (\<lambda>_.
     case get_commitment cd storage root of
       Err e \<Rightarrow> Err (MarketStorageError e)
     | Ok None \<Rightarrow> Err (UnknownBaoRoot root)
     | Ok (Some m) \<Rightarrow>
         and_then (ensure (is_timestamped m) (NotYetTimestamped root)) (\<lambda>_.
         ensure (matches_format (ro_visibility opts) (cm_format m)) (VisibilityMismatch (cm_format m)))))"

definition request_storage_contract ::
  "meta_codec \<Rightarrow> market_settings \<Rightarrow> commitment_store \<Rightarrow> bytes \<Rightarrow> request_options \<Rightarrow> u64 \<Rightarrow> market_store \<Rightarrow>
   market_store \<times> (market_error, storage_contract \<times> replication_state) result" where
  "request_storage_contract cd settings storage root opts created mk =
     (case check_request cd settings storage root opts of
        Err e \<Rightarrow> (mk, Err e)
      | Ok _ \<Rightarrow>
          if get_contract mk root \<noteq> None then (mk, Err (ContractExists root))
          else
            let c = new_pending_contract root (ro_target_replication opts) (ro_visibility opts)
                  (ro_mutual_aid_only opts) created;
                mk' = initialize_replication_state root (put_contract c mk)
            in (mk', and_then (ok_or (get_replication_state mk' root) (ReplicationMissing root))
                 (\<lambda>r. Ok (c, r))))"

record offer_options =
  oo_capacity_gib :: u64
  oo_encrypted_only :: "bool option"
  oo_open_to_unencrypted :: "bool option"
  oo_namespace :: "namespace option"

definition publish_provider_offer ::
  "market_settings \<Rightarrow> offer_options \<Rightarrow> bytes option \<Rightarrow> u64 \<Rightarrow> market_store \<Rightarrow>
   market_store \<times> (market_error, provider_offer) result" where
  "publish_provider_offer settings opts random_id created mk =
     (let encrypted_only = (case oo_encrypted_only opts of Some b \<Rightarrow> b
          | None \<Rightarrow> mset_encrypted_only_preference settings);
          open_to_unencrypted = (case oo_open_to_unencrypted opts of Some b \<Rightarrow> b
          | None \<Rightarrow> mset_open_to_unencrypted settings)
      in
      if oo_capacity_gib opts = 0 then (mk, Err ZeroCapacity)
      else if encrypted_only \<and> open_to_unencrypted then (mk, Err ExclusivePreferences)
      else
        let n = (case oo_namespace opts of Some n \<Rightarrow> n
              | None \<Rightarrow> if encrypted_only then OddSpace else PublicSpace)
        in case random_id of
             None \<Rightarrow> (mk, Err NoRandomness)
           | Some offer_id \<Rightarrow>
               let offer = \<lparr>po_offer_id = offer_id, po_namespace = n, po_capacity_gib = oo_capacity_gib opts,
                     po_encrypted_only = encrypted_only, po_open_to_unencrypted = open_to_unencrypted,
                     po_created_at = created\<rparr>
               in (put_offer offer mk, Ok offer))"

definition market_status ::
  "market_store \<Rightarrow> bytes \<Rightarrow> (market_error, storage_contract \<times> replication_state) result" where
  "market_status mk root =
     and_then (ok_or (get_contract mk root) (NoStorageContract root)) (\<lambda>c.
     and_then (ok_or (get_replication_state mk root) (ReplicationMissing root)) (\<lambda>r.
     Ok (c, r)))"

definition storage_contract_exists :: "market_store \<Rightarrow> bytes \<Rightarrow> bool" where
  "storage_contract_exists mk root = (get_contract mk root \<noteq> None)"

text \<open>\<open>decoded\<close> is what the hex text of the root decodes to; \<open>verify\<close> is the number of slices that
  \<open>verify_commitment\<close> has verified, if it succeeds.\<close>

definition challenge_replication ::
  "(bytes \<Rightarrow> u32 \<Rightarrow> u32 option) \<Rightarrow> bytes option \<Rightarrow> u32 \<Rightarrow> u64 \<Rightarrow> market_store \<Rightarrow>
   market_store \<times> (market_error, u32) result" where
  "challenge_replication verify decoded sample_rate now mk =
     (if sample_rate = 0 then (mk, Err SampleRateZero)
      else case decoded of
        None \<Rightarrow> (mk, Err BadBaoRootHex)
      | Some root \<Rightarrow>
          if length root \<noteq> 32 then (mk, Err BadBaoRootHex)
          else if get_contract mk root = None then (mk, Err (NoStorageContract root))
          else (case verify root sample_rate of
              None \<Rightarrow> (mk, Err ChallengeFailed)
            | Some slices \<Rightarrow>
                (put_challenge_proof \<lparr>ch_bao_root = root, ch_verified_at = now, ch_slices_verified = slices,
                   ch_sample_rate = sample_rate\<rparr> mk, Ok slices)))"

section \<open>Settlement\<close>

record settlement_settings =
  ss_threshold_sats :: u64
  ss_contract_amount_sats :: u64
  ss_challenge_fee_sats :: u64

definition default_settlement_settings :: settlement_settings where
  "default_settlement_settings =
     \<lparr>ss_threshold_sats = 1000, ss_contract_amount_sats = 10000, ss_challenge_fee_sats = 10\<rparr>"

text \<open>Where the providers of a chain come from: its directory, network, endpoint and credentials.
  The content of the cookie file is \<open>Some None\<close> where the file cannot be read.\<close>

datatype bitcoin_network = NetBitcoin | NetTestnet | NetTestnet4 | NetSignet | NetRegtest

record chain_context =
  cc_chain_data_dir :: string
  cc_network :: bitcoin_network
  cc_bitcoin_rpc_url :: string
  cc_lightning_listen :: string
  cc_bitcoin_cookie :: "string option option"
  cc_bitcoin_rpc_user :: "string option"
  cc_bitcoin_rpc_password :: "string option"

record lightning_rpc_config =
  lr_host :: string
  lr_port :: u16
  lr_user :: string
  lr_password :: string

record lightning_node_config =
  ln_chain_data_dir :: string
  ln_network :: bitcoin_network
  ln_rpc :: lightning_rpc_config
  ln_listen :: "string \<times> u16"

definition default_rpc_port :: "bitcoin_network \<Rightarrow> u16" where
  "default_rpc_port network =
     (case network of
        NetBitcoin \<Rightarrow> 8332 | NetTestnet \<Rightarrow> 18332 | NetTestnet4 \<Rightarrow> 18332 | NetSignet \<Rightarrow> 38332
      | NetRegtest \<Rightarrow> 18443)"

definition lightning_config ::
  "(string \<Rightarrow> (string \<times> u16) option) \<Rightarrow> string \<Rightarrow> bitcoin_network \<Rightarrow> string \<Rightarrow> string \<Rightarrow>
   (string \<times> string) option \<Rightarrow> (payment_error, lightning_node_config) result" where
  "lightning_config socket dir network rpc_url listen rpc_credentials =
     and_then (ok_or (socket listen) BadNodeConfig) (\<lambda>listen.
     case parse_rpc_host_port socket rpc_url (default_rpc_port network) of
       Err _ \<Rightarrow> Err BadNodeConfig
     | Ok (rpc_host, rpc_port) \<Rightarrow>
         let (rpc_user, rpc_password) = (case rpc_credentials of
               Some (user, password) \<Rightarrow> (user, password) | None \<Rightarrow> (''__cookie__'', ''__cookie__''))
         in Ok \<lparr>ln_chain_data_dir = dir, ln_network = network,
              ln_rpc = \<lparr>lr_host = rpc_host, lr_port = rpc_port, lr_user = rpc_user, lr_password = rpc_password\<rparr>,
              ln_listen = listen\<rparr>)"

definition lightning_config_for_chain ::
  "(string \<Rightarrow> (string \<times> u16) option) \<Rightarrow> chain_context \<Rightarrow> (payment_error, lightning_node_config) result" where
  "lightning_config_for_chain socket chain =
     (let rpc_credentials = (case (cc_bitcoin_rpc_user chain, cc_bitcoin_rpc_password chain) of
            (Some user, Some password) \<Rightarrow> Some (user, password) | _ \<Rightarrow> None)
      in and_then (lightning_config socket (cc_chain_data_dir chain) (cc_network chain)
           (cc_bitcoin_rpc_url chain) (cc_lightning_listen chain) rpc_credentials) (\<lambda>config.
      case (rpc_credentials, cc_bitcoin_cookie chain) of
        (None, Some content) \<Rightarrow>
          (case read_cookie_credentials content of
             Err _ \<Rightarrow> Err BadNodeConfig
           | Ok (user, password) \<Rightarrow>
               Ok (config\<lparr>ln_rpc := (ln_rpc config)\<lparr>lr_user := user, lr_password := password\<rparr>\<rparr>))
      | _ \<Rightarrow> Ok config))"

record app_settings =
  as_ecash_enabled :: bool
  as_ecash_mint_urls :: "string list"
  as_ecash_mint_allowlist :: "string list option"

definition live_ecash_requested :: "app_settings \<Rightarrow> bool" where
  "live_ecash_requested app = (as_ecash_enabled app \<and> as_ecash_mint_urls app \<noteq> [])"

text \<open>The state behind the providers of a chain is the node and the ledger file. \<open>outcome\<close> says how the
  append to the ledger ends.\<close>

definition on_node :: "'n lightning_provider \<Rightarrow> ('n \<times> ledger) lightning_provider" where
  "on_node l =
     \<lparr>create_contract_invoice = (\<lambda>b (n, lg). case create_contract_invoice l b n of (n', r) \<Rightarrow> ((n', lg), r)),
      settle_lightning = (\<lambda>b h (n, lg). settle_lightning l b h n)\<rparr>"

definition live_micro :: "(bytes \<Rightarrow> string) \<Rightarrow> bool \<Rightarrow> cut option \<Rightarrow> ('n \<times> ledger) micro_provider" where
  "live_micro hex enabled outcome =
     \<lparr>pay_micro = (\<lambda>b (n, lg). case pay_micro (cdk_micro hex enabled outcome) b (Some lg) of
        (lg', r) \<Rightarrow> ((n, case lg' of Some l \<Rightarrow> l | None \<Rightarrow> lg), r)),
      verify_micro = (\<lambda>b r (n, lg). verify_micro (cdk_micro hex enabled outcome) b r (Some lg))\<rparr>"

definition chain_lightning ::
  "(string \<Rightarrow> (string \<times> u16) option) \<Rightarrow> (bytes \<Rightarrow> string) \<Rightarrow> 'n node_api \<Rightarrow> bool \<Rightarrow> chain_context \<Rightarrow>
   lightning_node_config option \<Rightarrow> (payment_error, 'n lightning_provider) result" where
  "chain_lightning socket hex api starts chain shared =
     (case shared of
        Some config \<Rightarrow>
          and_then (ensure (ln_chain_data_dir config = cc_chain_data_dir chain) NodeMismatch) (\<lambda>_.
          and_then (ensure (ln_network config = cc_network chain) NodeMismatch) (\<lambda>_.
          Ok (ldk_lightning hex api None)))
      | None \<Rightarrow>
          and_then (lightning_config_for_chain socket chain) (\<lambda>_. Ok (ldk_lightning hex api (Some starts))))"

text \<open>With the feature \<open>ecash-lightning\<close>.\<close>

definition coordinator_for_chain_with_lightning ::
  "(string \<Rightarrow> (string \<times> u16) option) \<Rightarrow> (bytes \<Rightarrow> string) \<Rightarrow> 'n node_api \<Rightarrow> bool \<Rightarrow> bool \<Rightarrow> cut option \<Rightarrow>
   chain_context \<Rightarrow> settlement_settings \<Rightarrow> app_settings \<Rightarrow> lightning_node_config option \<Rightarrow>
   (payment_error, ('n \<times> ledger) coordinator) result" where
  "coordinator_for_chain_with_lightning socket hex api starts ledger_opens outcome chain settings app shared =
     and_then (chain_lightning socket hex api starts chain shared) (\<lambda>lightning.
     case new_ecash_config (as_ecash_enabled app) (as_ecash_mint_urls app) (ss_threshold_sats settings)
            (as_ecash_mint_allowlist app) of
       Err _ \<Rightarrow> Err BadEcashConfig
     | Ok config \<Rightarrow>
         and_then (if live_ecash_requested app
             then and_then (ensure ledger_opens LedgerUnavailable) (\<lambda>_. Ok (live_micro hex (ec_enabled config) outcome))
             else Ok stub_micro) (\<lambda>micro.
         new_coordinator (on_node lightning) micro (ss_threshold_sats settings)))"

text \<open>The option is the sample rate of an inline challenge.\<close>

definition validate_settle_options :: "u32 option \<Rightarrow> (payment_error, unit) result" where
  "validate_settle_options inline_sample_rate =
     ensure (inline_sample_rate \<noteq> Some 0) ZeroInlineSampleRate"

text \<open>The price of a contract, or the default, also when the store cannot be opened for it (\<open>opened\<close>).\<close>

definition contract_amount_sats ::
  "bool \<Rightarrow> settlement_settings \<Rightarrow> market_store \<Rightarrow> bytes \<Rightarrow> (payment_error, u64) result" where
  "contract_amount_sats opened settings mk root =
     (if \<not> opened then Ok (ss_contract_amount_sats settings)
      else case get_contract_pricing mk root of
          Some p \<Rightarrow> if cp_amount_sats p = 0 then Err ZeroPricing else Ok (cp_amount_sats p)
        | None \<Rightarrow> Ok (ss_contract_amount_sats settings))"

definition contract_binding ::
  "bool \<Rightarrow> settlement_settings \<Rightarrow> market_store \<Rightarrow> bytes \<Rightarrow> (payment_error, payment_binding) result" where
  "contract_binding opened settings mk root =
     and_then (contract_amount_sats opened settings mk root) (\<lambda>amount.
     Ok \<lparr>pb_bao_root = root, pb_purpose = StorageContract, pb_amount_sats = amount\<rparr>)"

definition challenge_binding :: "settlement_settings \<Rightarrow> bytes \<Rightarrow> payment_binding" where
  "challenge_binding settings root =
     \<lparr>pb_bao_root = root, pb_purpose = ChallengeFee, pb_amount_sats = ss_challenge_fee_sats settings\<rparr>"

definition ensure_contract_exists :: "market_store \<Rightarrow> bytes \<Rightarrow> (payment_error, unit) result" where
  "ensure_contract_exists mk root = ensure (get_contract mk root \<noteq> None) (NoContract root)"

definition persist_invoice_hash ::
  "bytes \<Rightarrow> bytes \<Rightarrow> market_store \<Rightarrow> market_store \<times> (payment_error, unit) result" where
  "persist_invoice_hash root payment_hash mk =
     (case get_contract mk root of
        None \<Rightarrow> (mk, Err (NoContract root))
      | Some c \<Rightarrow> (case sc_invoice_hash c of
            Some existing \<Rightarrow> if existing = payment_hash then (mk, Ok ()) else (mk, Err InvoiceHashAlreadySet)
          | None \<Rightarrow> (put_contract (c\<lparr>sc_invoice_hash := Some payment_hash\<rparr>) mk, Ok ())))"

definition persist_ecash_receipt ::
  "(bytes \<Rightarrow> string) \<Rightarrow> payment_binding \<Rightarrow> string \<Rightarrow> market_store \<Rightarrow>
   market_store \<times> (payment_error, unit) result" where
  "persist_ecash_receipt hex b reference mk =
     (if reference \<noteq> ecash_binding_reference hex b then (mk, Err (ReceiptMismatch reference))
      else case get_ecash_receipt mk (pb_bao_root b) of
          Some existing \<Rightarrow>
            if er_reference existing = reference then (mk, Ok ()) else (mk, Err ReceiptAlreadySet)
        | None \<Rightarrow> (put_ecash_receipt \<lparr>er_bao_root = pb_bao_root b, er_reference = reference\<rparr> mk, Ok ()))"

definition contract_ecash_receipt :: "market_store \<Rightarrow> bytes \<Rightarrow> string option" where
  "contract_ecash_receipt mk root = map_option er_reference (get_ecash_receipt mk root)"

definition contract_invoice_hash :: "market_store \<Rightarrow> bytes \<Rightarrow> (payment_error, bytes option) result" where
  "contract_invoice_hash mk root =
     and_then (ok_or (get_contract mk root) (NoContract root)) (\<lambda>c. Ok (sc_invoice_hash c))"

definition challenge_proof_exists :: "market_store \<Rightarrow> bytes \<Rightarrow> bool" where
  "challenge_proof_exists mk root = (get_challenge_proof mk root \<noteq> None)"

text \<open>What is stored after an invoice has been created on either rail.\<close>

definition persist_result ::
  "(bytes \<Rightarrow> string) \<Rightarrow> payment_binding \<Rightarrow> settlement_result \<Rightarrow> market_store \<Rightarrow>
   market_store \<times> (payment_error, unit) result" where
  "persist_result hex b r mk =
     (case (if sr_rail r = Lightning then
              (case sr_payment_hash r of Some h \<Rightarrow> persist_invoice_hash (pb_bao_root b) h mk | None \<Rightarrow> (mk, Ok ()))
            else (mk, Ok ())) of
        (mk, Err e) \<Rightarrow> (mk, Err e)
      | (mk, Ok _) \<Rightarrow>
          if sr_rail r = Ecash then persist_ecash_receipt hex b (sr_reference r) mk else (mk, Ok ()))"

definition create_and_persist ::
  "(bytes \<Rightarrow> string) \<Rightarrow> (payment_error, 's coordinator) result \<Rightarrow> payment_binding \<Rightarrow> market_store \<times> 's \<Rightarrow>
   (market_store \<times> 's) \<times> (payment_error, settlement_result) result" where
  "create_and_persist hex coordinator b st =
     (case coordinator of
        Err e \<Rightarrow> (st, Err e)
      | Ok c \<Rightarrow> (case coordinator_create_invoice c b (snd st) of
          (s, Err e) \<Rightarrow> ((fst st, s), Err e)
        | (s, Ok r) \<Rightarrow> (case persist_result hex b r (fst st) of
            (mk, Err e) \<Rightarrow> ((mk, s), Err e)
          | (mk, Ok _) \<Rightarrow> ((mk, s), Ok r))))"

definition create_invoice_for_contract ::
  "(bytes \<Rightarrow> string) \<Rightarrow> bool \<Rightarrow> settlement_settings \<Rightarrow> (payment_error, 's coordinator) result \<Rightarrow> bytes \<Rightarrow>
   market_store \<times> 's \<Rightarrow> (market_store \<times> 's) \<times> (payment_error, settlement_result) result" where
  "create_invoice_for_contract hex opened settings coordinator root st =
     (case and_then (ensure_contract_exists (fst st) root) (\<lambda>_. contract_binding opened settings (fst st) root) of
        Err e \<Rightarrow> (st, Err e)
      | Ok b \<Rightarrow> create_and_persist hex coordinator b st)"

definition create_invoice_with_providers ::
  "payment_binding \<Rightarrow> 's lightning_provider \<Rightarrow> 's micro_provider \<Rightarrow> u64 \<Rightarrow> 's \<Rightarrow>
   's \<times> (payment_error, settlement_result) result" where
  "create_invoice_with_providers b lightning micro threshold s =
     (case new_coordinator lightning micro threshold of
        Err e \<Rightarrow> (s, Err e) | Ok c \<Rightarrow> coordinator_create_invoice c b s)"

definition create_invoice_for_contract_with_providers ::
  "(bytes \<Rightarrow> string) \<Rightarrow> payment_binding \<Rightarrow> 's lightning_provider \<Rightarrow> 's micro_provider \<Rightarrow> u64 \<Rightarrow>
   market_store \<times> 's \<Rightarrow> (market_store \<times> 's) \<times> (payment_error, settlement_result) result" where
  "create_invoice_for_contract_with_providers hex b lightning micro threshold st =
     (case ensure_contract_exists (fst st) (pb_bao_root b) of
        Err e \<Rightarrow> (st, Err e)
      | Ok _ \<Rightarrow> create_and_persist hex (new_coordinator lightning micro threshold) b st)"

definition ensure_bao_challenge_gate ::
  "(bytes \<Rightarrow> u32 \<Rightarrow> u32 option) \<Rightarrow> bytes \<Rightarrow> u32 option \<Rightarrow> u64 \<Rightarrow> market_store \<Rightarrow>
   market_store \<times> (payment_error, unit) result" where
  "ensure_bao_challenge_gate verify root inline_sample_rate now mk =
     (case validate_settle_options inline_sample_rate of
        Err e \<Rightarrow> (mk, Err e)
      | Ok _ \<Rightarrow> (case inline_sample_rate of
          Some sample_rate \<Rightarrow> (case challenge_replication verify (Some root) sample_rate now mk of
              (mk', Err _) \<Rightarrow> (mk', Err InlineChallengeFailed)
            | (mk', Ok _) \<Rightarrow> (mk', Ok ()))
        | None \<Rightarrow> (mk, ensure (challenge_proof_exists mk root) GateNotSatisfied)))"

definition settle_storage_contract ::
  "bool \<Rightarrow> settlement_settings \<Rightarrow> (payment_error, 's coordinator) result \<Rightarrow> (bytes \<Rightarrow> u32 \<Rightarrow> u32 option) \<Rightarrow> bytes \<Rightarrow>
   u32 option \<Rightarrow> u64 \<Rightarrow> market_store \<times> 's \<Rightarrow> (market_store \<times> 's) \<times> (payment_error, unit) result" where
  "settle_storage_contract opened settings coordinator verify root inline_sample_rate now st =
     (case and_then (ensure_contract_exists (fst st) root) (\<lambda>_. validate_settle_options inline_sample_rate) of
        Err e \<Rightarrow> (st, Err e)
      | Ok _ \<Rightarrow> (case ensure_bao_challenge_gate verify root inline_sample_rate now (fst st) of
          (mk, Err e) \<Rightarrow> ((mk, snd st), Err e)
        | (mk, Ok _) \<Rightarrow>
            ((mk, snd st),
             and_then (contract_binding opened settings mk root) (\<lambda>b.
             and_then (contract_invoice_hash mk root) (\<lambda>h.
             let cr = \<lparr>cr_invoice_hash = h, cr_ecash_receipt = contract_ecash_receipt mk root,
                   cr_bao_gate_satisfied = True\<rparr>
             in and_then coordinator (\<lambda>c. coordinator_settle_contract c b cr (snd st)))))))"

definition pay_challenge_fee ::
  "settlement_settings \<Rightarrow> (payment_error, 's coordinator) result \<Rightarrow> bytes \<Rightarrow> market_store \<times> 's \<Rightarrow>
   (market_store \<times> 's) \<times> (payment_error, settlement_result) result" where
  "pay_challenge_fee settings coordinator root st =
     (case and_then (ensure_contract_exists (fst st) root) (\<lambda>_. coordinator) of
        Err e \<Rightarrow> (st, Err e)
      | Ok c \<Rightarrow> (case coordinator_pay_challenge_fee c (challenge_binding settings root) (snd st) of
          (s, r) \<Rightarrow> ((fst st, s), r)))"

end
