(* ===== verification/MarketSafety.thy ===== *)
theory MarketSafety
  imports Market
begin

text \<open>
  What the market guarantees: an invariant of its store under every sequence of its
  operations, the order in which offers are listed, and what a settlement that succeeds has checked;
  and where it falls short: a contract whose invoice has expired gets no other, and a contract without
  an invoice is settled by anybody's payment of the same amount.
\<close>

section \<open>The invariant of the store\<close>

definition contract_reference :: "(bytes \<Rightarrow> string) \<Rightarrow> bytes \<Rightarrow> string" where
  "contract_reference hex root =
     ecash_binding_reference hex \<lparr>pb_bao_root = root, pb_purpose = StorageContract, pb_amount_sats = 0\<rparr>"

definition contract_ok :: "market_store \<Rightarrow> bytes \<Rightarrow> storage_contract \<Rightarrow> bool" where
  "contract_ok mk root c \<longleftrightarrow> sc_bao_root c = root \<and> 0 < sc_target_replication c \<and>
     sc_status c = PendingContract \<and> get_replication_state mk root \<noteq> None"

definition offer_ok :: "bytes \<Rightarrow> provider_offer \<Rightarrow> bool" where
  "offer_ok k offer \<longleftrightarrow> k = encode_offer_key (po_namespace offer) (po_offer_id offer) \<and>
     0 < po_capacity_gib offer \<and> \<not> (po_encrypted_only offer \<and> po_open_to_unencrypted offer)"

definition market_inv :: "(bytes \<Rightarrow> string) \<Rightarrow> market_store \<Rightarrow> bool" where
  "market_inv hex mk \<longleftrightarrow>
     btree_ok (mk_contracts mk) \<and> btree_ok (mk_offers mk) \<and>
     (\<forall>root c. get_contract mk root = Some c \<longrightarrow> contract_ok mk root c) \<and>
     (\<forall>k offer. map_of (mk_offers mk) k = Some offer \<longrightarrow> offer_ok k offer) \<and>
     (\<forall>root r. get_ecash_receipt mk root = Some r \<longrightarrow>
        get_contract mk root \<noteq> None \<and> er_bao_root r = root \<and> er_reference r = contract_reference hex root) \<and>
     (\<forall>root p. get_challenge_proof mk root = Some p \<longrightarrow> get_contract mk root \<noteq> None \<and> 0 < ch_sample_rate p) \<and>
     (\<forall>root p. get_contract_pricing mk root = Some p \<longrightarrow> 0 < cp_amount_sats p)"

text \<open>How a contract may change: not at all, or by receiving its first invoice.\<close>

definition contract_kept :: "market_store \<Rightarrow> market_store \<Rightarrow> bool" where
  "contract_kept mk mk' \<longleftrightarrow>
     (\<forall>root c. get_contract mk root = Some c \<longrightarrow>
        (\<exists>c'. get_contract mk' root = Some c' \<and>
           (c' = c \<or> sc_invoice_hash c = None \<and> (\<exists>h. c' = c\<lparr>sc_invoice_hash := Some h\<rparr>))))"

lemma contract_kept_refl [simp]: "contract_kept mk mk"
  by (auto simp: contract_kept_def)

lemma contract_kept_hash:
  assumes "contract_kept mk mk'" "get_contract mk root = Some c" "sc_invoice_hash c = Some h"
  shows "\<exists>c'. get_contract mk' root = Some c' \<and> sc_invoice_hash c' = Some h"
  using assms by (fastforce simp: contract_kept_def)

lemma contract_kept_same:
  "mk_contracts mk' = mk_contracts mk \<Longrightarrow> contract_kept mk mk'"
  by (auto simp: contract_kept_def get_contract_def)

lemmas market_get_defs = get_contract_def get_offer_def get_replication_state_def get_ecash_receipt_def
  get_challenge_proof_def get_contract_pricing_def

lemmas market_put_defs = put_contract_def put_offer_def put_replication_state_def put_ecash_receipt_def
  put_challenge_proof_def put_contract_pricing_def

lemma market_inv_empty: "market_inv hex empty_market"
  by (simp add: market_inv_def empty_market_def market_get_defs)

definition keeps_market :: "(bytes \<Rightarrow> string) \<Rightarrow> market_store \<Rightarrow> market_store \<Rightarrow> bool" where
  "keeps_market hex mk mk' \<longleftrightarrow> (market_inv hex mk \<longrightarrow> market_inv hex mk') \<and> (market_inv hex mk \<longrightarrow> contract_kept mk mk')"

lemma keeps_market_refl [simp]: "keeps_market hex mk mk"
  by (simp add: keeps_market_def)

lemma keeps_request: "keeps_market hex mk (fst (request_storage_contract cd ms storage root opts created mk))"
proof (cases "check_request cd ms storage root opts")
  case (Err e)
  then show ?thesis by (simp add: request_storage_contract_def)
next
  case (Ok u)
  then have pos: "0 < ro_target_replication opts"
    by (auto simp: check_request_def ok_elims split: result.splits)
  show ?thesis
  proof (cases "get_contract mk root")
    case None
    then show ?thesis using Ok pos
      unfolding request_storage_contract_def keeps_market_def
      by (auto simp: market_inv_def contract_kept_def contract_ok_def initialize_replication_state_def
          new_pending_contract_def market_get_defs market_put_defs Let_def)
  qed (simp add: Ok request_storage_contract_def)
qed

lemma keeps_offer: "keeps_market hex mk (fst (publish_provider_offer ms opts random_id created mk))"
  by (auto simp: publish_provider_offer_def keeps_market_def market_inv_def contract_ok_def offer_ok_def
      market_get_defs market_put_defs Let_def word_neq_0_conv intro!: contract_kept_same split: option.splits)

lemma keeps_pricing: "put_contract_pricing p mk = Ok mk' \<Longrightarrow> keeps_market hex mk mk'"
  by (auto simp: keeps_market_def market_inv_def contract_ok_def word_neq_0_conv
      market_get_defs market_put_defs intro!: contract_kept_same split: if_splits)

lemma keeps_challenge: "keeps_market hex mk (fst (challenge_replication verify decoded rate now mk))"
  by (auto simp: challenge_replication_def keeps_market_def market_inv_def contract_ok_def word_neq_0_conv
      market_get_defs market_put_defs intro!: contract_kept_same split: option.splits)

lemma keeps_gate: "keeps_market hex mk (fst (ensure_bao_challenge_gate verify root rate now mk))"
  using keeps_challenge [of hex mk verify "Some root" _ now]
  by (auto simp: ensure_bao_challenge_gate_def split: result.splits option.splits prod.splits)
    (metis fst_conv)+

lemma keeps_persist_hash: "keeps_market hex mk (fst (persist_invoice_hash root h mk))"
proof (cases "get_contract mk root")
  case (Some c)
  show ?thesis
  proof (cases "sc_invoice_hash c")
    case None
    have "contract_kept mk (put_contract (c\<lparr>sc_invoice_hash := Some h\<rparr>) mk)" if "market_inv hex mk"
      using that Some None
      by (auto simp: contract_kept_def market_inv_def contract_ok_def market_get_defs market_put_defs)
    moreover have "market_inv hex (put_contract (c\<lparr>sc_invoice_hash := Some h\<rparr>) mk)" if "market_inv hex mk"
      using that Some
      by (auto simp: market_inv_def contract_ok_def market_get_defs market_put_defs)
    ultimately show ?thesis by (simp add: persist_invoice_hash_def Some None keeps_market_def)
  qed (simp add: persist_invoice_hash_def Some)
qed (simp add: persist_invoice_hash_def)

lemma reference_contract:
  "pb_purpose b = StorageContract \<Longrightarrow> ecash_binding_reference hex b = contract_reference hex (pb_bao_root b)"
  by (simp add: ecash_binding_reference_def contract_reference_def)

lemma keeps_persist_receipt:
  assumes "get_contract mk (pb_bao_root b) \<noteq> None" "pb_purpose b = StorageContract"
  shows "keeps_market hex mk (fst (persist_ecash_receipt hex b ref mk))"
  using assms reference_contract [OF assms(2), of hex]
  by (auto simp: persist_ecash_receipt_def keeps_market_def market_inv_def contract_ok_def
      market_get_defs market_put_defs intro!: contract_kept_same split: option.splits)

lemma persist_hash_contracts:
  "get_contract mk root \<noteq> None \<Longrightarrow> get_contract (fst (persist_invoice_hash r h mk)) root \<noteq> None"
  by (auto simp: persist_invoice_hash_def market_get_defs market_put_defs split: option.splits)

lemma keeps_persist_result:
  assumes "get_contract mk (pb_bao_root b) \<noteq> None" "pb_purpose b = StorageContract"
  shows "keeps_market hex mk (fst (persist_result hex b r mk))"
  using keeps_persist_hash [of hex mk "pb_bao_root b"] keeps_persist_receipt [OF assms]
  by (cases "sr_rail r")
    (auto simp: persist_result_def split: option.splits prod.splits result.splits, (metis fst_conv)+)

lemma create_invoice_purpose:
  "coordinator_create_invoice c b s = (s', Ok r) \<Longrightarrow> pb_purpose b = StorageContract \<and> pb_amount_sats b \<noteq> 0"
  by (auto simp: coordinator_create_invoice_def ensure_storage_contract_binding_def ensure_binding_def ok_elims
      split: result.splits)

lemma keeps_create_and_persist:
  assumes "get_contract (fst st) (pb_bao_root b) \<noteq> None"
  shows "keeps_market hex (fst st) (fst (fst (create_and_persist hex coordinator b st)))"
proof (cases coordinator)
  case (Ok c)
  obtain s r where run: "coordinator_create_invoice c b (snd st) = (s, r)" by fastforce
  show ?thesis
  proof (cases r)
    case (Ok x)
    with run create_invoice_purpose [of c b "snd st" s x] have "pb_purpose b = StorageContract" by simp
    from keeps_persist_result [OF assms this, of hex x] show ?thesis
      using run \<open>coordinator = Ok c\<close> Ok
      by (auto simp: create_and_persist_def split: prod.splits result.splits)
  qed (simp add: create_and_persist_def \<open>coordinator = Ok c\<close> run)
qed (simp add: create_and_persist_def)

lemma contract_binding_Ok:
  "contract_binding opened settings mk root = Ok b \<longleftrightarrow>
   pb_bao_root b = root \<and> pb_purpose b = StorageContract \<and> contract_amount_sats opened settings mk root = Ok (pb_amount_sats b)"
  by (cases b) (auto simp: contract_binding_def ok_elims)

lemma keeps_create_invoice:
  "keeps_market hex (fst st) (fst (fst (create_invoice_for_contract hex opened settings coordinator root st)))"
  using keeps_create_and_persist [of st _ hex coordinator]
  by (auto simp: create_invoice_for_contract_def ensure_contract_exists_def ok_elims contract_binding_Ok
      split: result.splits)

lemma keeps_create_with_providers:
  "keeps_market hex (fst st) (fst (fst (create_invoice_for_contract_with_providers hex b lightning micro threshold st)))"
  using keeps_create_and_persist [of st b hex]
  by (auto simp: create_invoice_for_contract_with_providers_def ensure_contract_exists_def ensure_eq
      split: result.splits)

lemma settle_market:
  "fst (fst (settle_storage_contract opened settings coordinator verify root rate now st)) = fst st \<or>
   fst (fst (settle_storage_contract opened settings coordinator verify root rate now st)) =
   fst (ensure_bao_challenge_gate verify root rate now (fst st))"
  by (auto simp: settle_storage_contract_def split: result.splits prod.splits)

lemma keeps_settle:
  "keeps_market hex (fst st) (fst (fst (settle_storage_contract opened settings coordinator verify root rate now st)))"
  using settle_market [of opened settings coordinator verify root rate now st] keeps_gate [of hex "fst st" verify root rate now]
  by (auto simp del: fst_conv) 

text \<open>The steps of the market: its operations, and whatever happens behind the providers.\<close>

inductive market_step :: "(bytes \<Rightarrow> string) \<Rightarrow> market_store \<times> 's \<Rightarrow> market_store \<times> 's \<Rightarrow> bool" for hex where
  request: "market_step hex (mk, s) (fst (request_storage_contract cd ms storage root opts created mk), s)"
| publish: "market_step hex (mk, s) (fst (publish_provider_offer ms offer random_id created mk), s)"
| price: "put_contract_pricing p mk = Ok mk' \<Longrightarrow> market_step hex (mk, s) (mk', s)"
| challenge: "market_step hex (mk, s) (fst (challenge_replication verify decoded rate now mk), s)"
| invoice: "market_step hex st (fst (create_invoice_for_contract hex opened settings coordinator root st))"
| settle: "market_step hex st (fst (settle_storage_contract opened settings coordinator verify root inline now st))"
| fee: "market_step hex st (fst (pay_challenge_fee settings coordinator root st))"
| outside: "market_step hex (mk, s) (mk, s')"

lemma keeps_step: "market_step hex st st' \<Longrightarrow> keeps_market hex (fst st) (fst st')"
proof (induction rule: market_step.induct)
  case (fee st settings coordinator root)
  show ?case by (auto simp: pay_challenge_fee_def split: result.splits prod.splits)
qed (simp_all add: keeps_request keeps_offer keeps_pricing keeps_challenge keeps_create_invoice keeps_settle)

lemma step_inv: "market_step hex st st' \<Longrightarrow> market_inv hex (fst st) \<Longrightarrow> market_inv hex (fst st')"
  using keeps_step [of hex st st'] by (simp add: keeps_market_def)

abbreviation market_steps :: "(bytes \<Rightarrow> string) \<Rightarrow> market_store \<times> 's \<Rightarrow> market_store \<times> 's \<Rightarrow> bool" where
  "market_steps hex \<equiv> (market_step hex)\<^sup>*\<^sup>*"

lemma market_inv_steps: "market_steps hex st st' \<Longrightarrow> market_inv hex (fst st) \<Longrightarrow> market_inv hex (fst st')"
  by (induction rule: rtranclp_induct) (simp_all add: step_inv)

lemma invoice_hash_steps:
  "market_steps hex st st' \<Longrightarrow> market_inv hex (fst st) \<Longrightarrow>
   get_contract (fst st) root = Some c \<Longrightarrow> sc_invoice_hash c = Some h \<Longrightarrow>
   \<exists>c'. get_contract (fst st') root = Some c' \<and> sc_invoice_hash c' = Some h"
proof (induction rule: rtranclp_induct)
  case (step st' st'')
  then obtain c' where c': "get_contract (fst st') root = Some c'" "sc_invoice_hash c' = Some h" by blast
  from step have "market_inv hex (fst st')" using market_inv_steps by blast
  with keeps_step [OF step.hyps(2)] have "contract_kept (fst st') (fst st'')" by (simp add: keeps_market_def)
  from contract_kept_hash [OF this c'] show ?case .
qed simp

text \<open>C24: In every state the market can reach, records are stored under their keys in key order; every
  contract asks for at least one replica, is pending and has its replication state; every offer has
  capacity and one preference at most; an ecash receipt or a challenge belongs to a contract, and the
  receipt is the reference of its binding; and no price is zero.\<close>

theorem market_invariant:
  assumes "market_steps hex (empty_market, s0) (mk, s)"
  shows "market_inv hex mk"
  using market_inv_steps [OF assms] by (simp add: market_inv_empty)

definition toy_root :: bytes where "toy_root = replicate 32 7"

definition toy_settings :: settlement_settings where
  "toy_settings = default_settlement_settings"

definition toy_contract :: storage_contract where
  "toy_contract = new_pending_contract toy_root 2 PublicContract False 100"

definition toy_offer :: offer_options where
  "toy_offer = \<lparr>oo_capacity_gib = 4, oo_encrypted_only = Some True, oo_open_to_unencrypted = Some False,
     oo_namespace = None\<rparr>"

definition toy_preferences :: market_settings where
  "toy_preferences = \<lparr>mset_mutual_aid_enabled = False, mset_encrypted_only_preference = False,
     mset_open_to_unencrypted = False\<rparr>"

theorem market_invariant_witness:
  "market_inv (\<lambda>r. ''07'')
     (fst (publish_provider_offer toy_preferences toy_offer (Some (replicate 16 1)) 100 empty_market)) \<and>
   mk_offers (fst (publish_provider_offer toy_preferences toy_offer (Some (replicate 16 1)) 100 empty_market)) =
     [(1 # replicate 16 1, \<lparr>po_offer_id = replicate 16 1, po_namespace = OddSpace, po_capacity_gib = 4,
        po_encrypted_only = True, po_open_to_unencrypted = False, po_created_at = 100\<rparr>)]"
proof -
  let ?mk = "fst (publish_provider_offer toy_preferences toy_offer (Some (replicate 16 1)) 100 empty_market)"
  have "market_steps (\<lambda>r. ''07'') (empty_market, ()) (?mk, ())"
    by (rule r_into_rtranclp) (rule market_step.publish)
  from market_invariant [OF this] show ?thesis
    by (simp add: publish_provider_offer_def toy_offer_def empty_market_def put_offer_def encode_offer_key_def
        prefix_byte_def Let_def)
qed

section \<open>Offers by namespace\<close>

lemma prefix_byte_inject [simp]: "prefix_byte n = prefix_byte m \<longleftrightarrow> n = m"
  by (cases n; cases m) (simp_all add: prefix_byte_def)

text \<open>The listing of a namespace has exactly the offers stored in it, each one once, in the order of
  their identifiers.\<close>

lemma offers_listed:
  assumes "market_inv hex mk"
  shows "offer \<in> set (list_offers_in_namespace mk n) \<longleftrightarrow> get_offer mk n (po_offer_id offer) = Some offer"
    and "sorted_wrt (<) (map po_offer_id (list_offers_in_namespace mk n))"
proof -
  from assms have ok: "btree_ok (mk_offers mk)"
    and keys: "\<And>k offer. map_of (mk_offers mk) k = Some offer \<Longrightarrow>
      k = encode_offer_key (po_namespace offer) (po_offer_id offer)"
    by (simp_all add: market_inv_def offer_ok_def)
  note mem = map_of_eq_Some_iff [OF btree_ok_distinct [OF ok]]
  have key: "k = prefix_byte n # po_offer_id offer"
    if "(k, offer) \<in> set (filter (\<lambda>e. take 1 (fst e) = [prefix_byte n]) (mk_offers mk))" for k offer
    using that keys [of k offer] by (auto simp: mem encode_offer_key_def)
  show "offer \<in> set (list_offers_in_namespace mk n) \<longleftrightarrow> get_offer mk n (po_offer_id offer) = Some offer"
  proof
    assume "offer \<in> set (list_offers_in_namespace mk n)"
    then obtain k where "(k, offer) \<in> set (filter (\<lambda>e. take 1 (fst e) = [prefix_byte n]) (mk_offers mk))"
      by (auto simp: list_offers_in_namespace_def)
    with key [OF this] show "get_offer mk n (po_offer_id offer) = Some offer"
      by (simp add: get_offer_def mem encode_offer_key_def)
  next
    assume "get_offer mk n (po_offer_id offer) = Some offer"
    then show "offer \<in> set (list_offers_in_namespace mk n)"
      by (force simp: get_offer_def mem encode_offer_key_def list_offers_in_namespace_def)
  qed
  have "sorted_wrt (\<lambda>e f. po_offer_id (snd e) < po_offer_id (snd f))
      (filter (\<lambda>e. take 1 (fst e) = [prefix_byte n]) (mk_offers mk))"
  proof (rule sorted_wrt_mono_rel)
    show "sorted_wrt (\<lambda>e f. fst e < fst f) (filter (\<lambda>e. take 1 (fst e) = [prefix_byte n]) (mk_offers mk))"
      using ok by (simp add: btree_ok_def sorted_wrt_map sorted_wrt_filter)
    fix x y
    assume "x \<in> set (filter (\<lambda>e. take 1 (fst e) = [prefix_byte n]) (mk_offers mk))"
      and "y \<in> set (filter (\<lambda>e. take 1 (fst e) = [prefix_byte n]) (mk_offers mk))" and "fst x < fst y"
    with key [of "fst x" "snd x"] key [of "fst y" "snd y"]
    show "po_offer_id (snd x) < po_offer_id (snd y)" by simp
  qed
  then show "sorted_wrt (<) (map po_offer_id (list_offers_in_namespace mk n))"
    by (simp add: list_offers_in_namespace_def sorted_wrt_map)
qed

section \<open>What a settlement has checked\<close>

definition gate_passed :: "(bytes \<Rightarrow> u32 \<Rightarrow> u32 option) \<Rightarrow> bytes \<Rightarrow> u32 option \<Rightarrow> market_store \<Rightarrow> bool" where
  "gate_passed verify root inline mk =
     (case inline of None \<Rightarrow> challenge_proof_exists mk root | Some rate \<Rightarrow> 0 < rate \<and> verify root rate \<noteq> None)"

lemma challenge_keeps:
  assumes "challenge_replication verify decoded rate now mk = (mk', r)"
  shows "mk_contracts mk' = mk_contracts mk" "mk_pricing mk' = mk_pricing mk"
    "mk_ecash_receipts mk' = mk_ecash_receipts mk"
  using assms by (auto simp: challenge_replication_def put_challenge_proof_def split: if_splits option.splits)

lemma challenge_Ok:
  "challenge_replication verify (Some root) rate now mk = (mk', Ok n) \<Longrightarrow> 0 < rate \<and> verify root rate \<noteq> None"
  by (auto simp: challenge_replication_def word_neq_0_conv split: if_splits option.splits)

lemma gate_Ok:
  assumes "ensure_bao_challenge_gate verify root inline now mk = (mk', Ok ())"
  shows "gate_passed verify root inline mk" "mk_contracts mk' = mk_contracts mk"
    "mk_pricing mk' = mk_pricing mk" "mk_ecash_receipts mk' = mk_ecash_receipts mk"
  using assms challenge_Ok challenge_keeps
  by (fastforce simp: ensure_bao_challenge_gate_def gate_passed_def ensure_eq
      split: result.splits option.splits prod.splits)+

text \<open>The payment that a settlement finds at the node, or the receipt and the line of the ledger.\<close>

definition paid_on_lightning :: "'n node_api \<Rightarrow> 'n \<Rightarrow> u64 \<Rightarrow> bytes option \<Rightarrow> bool" where
  "paid_on_lightning api n amount hash \<longleftrightarrow>
     (\<exists>p \<in> set (node_payments api n). np_inbound p \<and> np_succeeded p \<and> np_bolt11_hash p \<noteq> None \<and>
        (hash = None \<or> np_bolt11_hash p = hash) \<and>
        (\<exists>msat. np_amount_msat p = Some msat \<and> unat msat = 1000 * unat amount))"

definition paid_in_ecash :: "(bytes \<Rightarrow> string) \<Rightarrow> market_store \<Rightarrow> ledger \<Rightarrow> payment_binding \<Rightarrow> bool" where
  "paid_in_ecash hex mk lg b \<longleftrightarrow>
     contract_ecash_receipt mk (pb_bao_root b) = Some (ecash_binding_reference hex b) \<and>
     has_payment b (ecash_binding_reference hex b) lg"

lemma checked_mul_1000:
  "checked_mul amount (1000 :: u64) = Some msat \<Longrightarrow> unat msat = 1000 * unat amount"
  by (auto simp: checked_mul_def mult.commute unat_mult_small split: if_splits)

lemma node_settled:
  assumes "settle_contract_on_node api b hash n = Ok ()"
  shows "paid_on_lightning api n (pb_amount_sats b) hash"
proof -
  from assms obtain msat where msat: "checked_mul (pb_amount_sats b) 1000 = Some msat"
    and p: "list_ex (pays msat hash) (node_payments api n)"
    by (auto simp: settle_contract_on_node_def amount_msat_of_def ok_elims)
  from p obtain p where "p \<in> set (node_payments api n)" "pays msat hash p" by (auto simp: list_ex_iff)
  then show ?thesis using checked_mul_1000 [OF msat]
    by (auto simp: paid_on_lightning_def pays_def split: option.splits intro!: bexI [of _ p])
qed

lemma ecash_config_Ok: "new_ecash_config enabled urls threshold allowlist = Ok config \<Longrightarrow> ec_enabled config = enabled"
  by (auto simp: new_ecash_config_def Let_def ok_elims)

lemma chain_coordinator:
  assumes "coordinator_for_chain_with_lightning socket hex api starts opens outcome chain settings app shared = Ok c"
  shows "\<exists>start. co_lightning c = on_node (ldk_lightning hex api start)"
    "co_micro c = live_micro hex True outcome \<or> co_micro c = stub_micro"
    "co_threshold_sats c = ss_threshold_sats settings"
proof -
  from assms obtain l config where l: "chain_lightning socket hex api starts chain shared = Ok l"
    and config: "new_ecash_config (as_ecash_enabled app) (as_ecash_mint_urls app) (ss_threshold_sats settings)
      (as_ecash_mint_allowlist app) = Ok config"
    and rest: "and_then (if live_ecash_requested app
        then and_then (ensure opens LedgerUnavailable) (\<lambda>_. Ok (live_micro hex (ec_enabled config) outcome))
        else Ok stub_micro) (\<lambda>micro. new_coordinator (on_node l) micro (ss_threshold_sats settings)) = Ok c"
    by (cases "chain_lightning socket hex api starts chain shared";
        cases "new_ecash_config (as_ecash_enabled app) (as_ecash_mint_urls app) (ss_threshold_sats settings)
          (as_ecash_mint_allowlist app)")
      (auto simp: coordinator_for_chain_with_lightning_def)
  note R = rest [unfolded and_then_eq_Ok new_coordinator_def]
  from l have "\<exists>start. l = ldk_lightning hex api start"
    by (auto simp: chain_lightning_def ok_elims split: option.splits)
  with R show "\<exists>start. co_lightning c = on_node (ldk_lightning hex api start)"
    by (auto split: if_splits)
  show "co_micro c = live_micro hex True outcome \<or> co_micro c = stub_micro"
    using R ecash_config_Ok [OF config] by (auto simp: live_ecash_requested_def ok_elims split: if_splits)
  show "co_threshold_sats c = ss_threshold_sats settings"
    using R by (auto split: if_splits)
qed

lemma chain_settled:
  assumes c: "coordinator_for_chain_with_lightning socket hex api starts opens outcome chain settings app shared = Ok c"
    and s: "coordinator_settle_contract c b
      \<lparr>cr_invoice_hash = hash, cr_ecash_receipt = contract_ecash_receipt mk (pb_bao_root b), cr_bao_gate_satisfied = True\<rparr>
      (n, lg) = Ok ()"
  shows "pb_amount_sats b \<noteq> 0"
    "if ss_threshold_sats settings \<le> pb_amount_sats b then paid_on_lightning api n (pb_amount_sats b) hash
     else paid_in_ecash hex mk lg b"
proof -
  show "pb_amount_sats b \<noteq> 0"
    using s by (auto simp: coordinator_settle_contract_def ensure_storage_contract_binding_def ensure_binding_def ok_elims)
  note C = chain_coordinator [OF c]
  from C(1) obtain start where l: "co_lightning c = on_node (ldk_lightning hex api start)" by blast
  show "if ss_threshold_sats settings \<le> pb_amount_sats b then paid_on_lightning api n (pb_amount_sats b) hash
     else paid_in_ecash hex mk lg b"
  proof (cases "ss_threshold_sats settings \<le> pb_amount_sats b")
    case True
    with s l C(3) have "settle_contract_on_node api b hash n = Ok ()"
      by (auto simp: coordinator_settle_contract_def rail_for_amount_def on_node_def ldk_lightning_def ok_elims)
    from node_settled [OF this] True show ?thesis by simp
  next
    case False
    with s C(2,3) show ?thesis
      by (auto simp: coordinator_settle_contract_def rail_for_amount_def live_micro_def cdk_micro_def stub_micro_def
          cdk_verify_micro_def paid_in_ecash_def ok_elims split: if_splits)
  qed
qed

text \<open>C10: A storage contract that settles through the providers of its chain exists; the challenge
  gate was passed, by a stored proof or by a check of slices in this call; and its amount was paid, which
  is its own price, or the default if it has none or the store cannot be opened for the price:
  at or above the threshold the node lists a received payment of exactly that amount, with the
  hash of the contract's invoice if one is stored, and with any hash if none is; below it the receipt of
  the contract is stored and recorded in the ledger.\<close>

theorem settlement_sound:
  assumes c: "coordinator_for_chain_with_lightning socket hex api starts opens outcome chain settings app shared = Ok c"
    and run: "settle_storage_contract opened settings (Ok c) verify root inline now (mk, n, lg) = (st', Ok ())"
  shows "\<exists>contract amount.
      get_contract mk root = Some contract \<and> contract_amount_sats opened settings mk root = Ok amount \<and> amount \<noteq> 0 \<and>
      gate_passed verify root inline mk \<and>
      (if ss_threshold_sats settings \<le> amount
       then paid_on_lightning api n amount (sc_invoice_hash contract)
       else paid_in_ecash hex mk lg \<lparr>pb_bao_root = root, pb_purpose = StorageContract, pb_amount_sats = amount\<rparr>)"
proof -
  from run obtain mk' where gate: "ensure_bao_challenge_gate verify root inline now mk = (mk', Ok ())"
    and rest: "and_then (contract_binding opened settings mk' root) (\<lambda>b. and_then (contract_invoice_hash mk' root) (\<lambda>h.
       coordinator_settle_contract c b \<lparr>cr_invoice_hash = h, cr_ecash_receipt = contract_ecash_receipt mk' root,
         cr_bao_gate_satisfied = True\<rparr> (n, lg))) = Ok ()"
    by (auto simp: settle_storage_contract_def Let_def split: result.splits prod.splits)
  note G = gate_Ok [OF gate]
  have same: "get_contract mk' = get_contract mk" "contract_ecash_receipt mk' = contract_ecash_receipt mk"
    "contract_amount_sats opened settings mk' = contract_amount_sats opened settings mk"
    using G by (auto simp: market_get_defs contract_ecash_receipt_def contract_amount_sats_def fun_eq_iff)
  from rest same obtain b contract where b: "contract_binding opened settings mk' root = Ok b"
    and ct: "get_contract mk root = Some contract"
    and s: "coordinator_settle_contract c b \<lparr>cr_invoice_hash = sc_invoice_hash contract,
      cr_ecash_receipt = contract_ecash_receipt mk (pb_bao_root b), cr_bao_gate_satisfied = True\<rparr> (n, lg) = Ok ()"
    by (auto simp: contract_invoice_hash_def ok_elims contract_binding_Ok)
  have b': "b = \<lparr>pb_bao_root = root, pb_purpose = StorageContract, pb_amount_sats = pb_amount_sats b\<rparr>"
    and amount: "contract_amount_sats opened settings mk root = Ok (pb_amount_sats b)"
    using b same by (simp_all add: contract_binding_Ok)
  show ?thesis
    using chain_settled [OF c s] ct amount G(1) b' by metis
qed

text \<open>A chain with a shared node that lists one payment of ten thousand sats.\<close>

definition toy_chain :: chain_context where
  "toy_chain = \<lparr>cc_chain_data_dir = ''/d'', cc_network = NetRegtest, cc_bitcoin_rpc_url = ''127.0.0.1'',
     cc_lightning_listen = ''127.0.0.1:9735'', cc_bitcoin_cookie = None, cc_bitcoin_rpc_user = None,
     cc_bitcoin_rpc_password = None\<rparr>"

definition toy_node :: lightning_node_config where
  "toy_node = \<lparr>ln_chain_data_dir = ''/d'', ln_network = NetRegtest,
     ln_rpc = \<lparr>lr_host = ''127.0.0.1'', lr_port = 18443, lr_user = ''u'', lr_password = ''p''\<rparr>,
     ln_listen = (''127.0.0.1'', 9735)\<rparr>"

definition toy_app :: app_settings where
  "toy_app = \<lparr>as_ecash_enabled = False, as_ecash_mint_urls = [], as_ecash_mint_allowlist = None\<rparr>"

definition toy_api :: "node_payment list node_api" where
  "toy_api = \<lparr>node_receive = (\<lambda>amount memo expiry n. (n, Some (''lnbc'', replicate 32 9))), node_payments = (\<lambda>n. n)\<rparr>"

definition toy_payment :: node_payment where
  "toy_payment = \<lparr>np_inbound = True, np_succeeded = True, np_bolt11_hash = Some (replicate 32 8),
     np_amount_msat = Some 10000000\<rparr>"

definition toy_coordinator :: "(payment_error, (node_payment list \<times> ledger) coordinator) result" where
  "toy_coordinator = coordinator_for_chain_with_lightning (\<lambda>a. None) (\<lambda>r. ''07'') toy_api False False None toy_chain
     toy_settings toy_app (Some toy_node)"

definition toy_market :: "bytes option \<Rightarrow> market_store" where
  "toy_market hash = put_challenge_proof
     \<lparr>ch_bao_root = toy_root, ch_verified_at = 100, ch_slices_verified = 1, ch_sample_rate = 1\<rparr>
     (put_contract (toy_contract\<lparr>sc_invoice_hash := hash\<rparr>) empty_market)"

lemmas toy_market_defs = toy_settings_def default_settlement_settings_def toy_market_def toy_contract_def
  new_pending_contract_def empty_market_def put_challenge_proof_def put_contract_def

lemma toy_coordinator_eq:
  "toy_coordinator = Ok \<lparr>co_lightning = on_node (ldk_lightning (\<lambda>r. ''07'') toy_api None), co_micro = stub_micro,
     co_threshold_sats = 1000\<rparr>"
  by (simp add: toy_coordinator_def coordinator_for_chain_with_lightning_def chain_lightning_def toy_node_def toy_chain_def
      new_ecash_config_def validate_for_use_def validate_mint_allowlist_def toy_app_def Let_def live_ecash_requested_def
      new_coordinator_def toy_settings_def default_settlement_settings_def)

lemma toy_settle:
  "settle_storage_contract True toy_settings toy_coordinator (\<lambda>r n. None) toy_root None 200
     (toy_market (Some (replicate 32 8)), [toy_payment], lg) =
   ((toy_market (Some (replicate 32 8)), [toy_payment], lg), Ok ())"
  by (simp add: settle_storage_contract_def toy_market_defs ensure_contract_exists_def get_contract_def
      validate_settle_options_def ensure_bao_challenge_gate_def challenge_proof_exists_def get_challenge_proof_def
      contract_binding_def contract_amount_sats_def get_contract_pricing_def contract_invoice_hash_def Let_def
      toy_coordinator_eq coordinator_settle_contract_def ensure_storage_contract_binding_def ensure_binding_def
      rail_for_amount_def on_node_def ldk_lightning_def with_node_def settle_contract_on_node_def amount_msat_of_def
      checked_mul_def toy_api_def toy_payment_def pays_def)

theorem settlement_sound_witness:
  "\<exists>contract amount.
     get_contract (toy_market (Some (replicate 32 8))) toy_root = Some contract \<and>
     contract_amount_sats True toy_settings (toy_market (Some (replicate 32 8))) toy_root = Ok amount \<and> amount \<noteq> 0 \<and>
     gate_passed (\<lambda>r n. None) toy_root None (toy_market (Some (replicate 32 8))) \<and>
     (if ss_threshold_sats toy_settings \<le> amount
      then paid_on_lightning toy_api [toy_payment] amount (sc_invoice_hash contract)
      else paid_in_ecash (\<lambda>r. ''07'') (toy_market (Some (replicate 32 8))) \<lparr>lg_lines = [], lg_unterminated = False\<rparr>
        \<lparr>pb_bao_root = toy_root, pb_purpose = StorageContract, pb_amount_sats = amount\<rparr>)"
  by (rule settlement_sound [OF toy_coordinator_eq [unfolded toy_coordinator_def]
        toy_settle [of "\<lparr>lg_lines = [], lg_unterminated = False\<rparr>", unfolded toy_coordinator_eq]])

section \<open>Invoices\<close>

lemma settle_with_gate:
  assumes "get_contract mk root = Some contract" "challenge_proof_exists mk root"
  shows "settle_storage_contract opened settings (Ok c) verify root None now (mk, s) = ((mk, s),
     and_then (contract_binding opened settings mk root) (\<lambda>b.
       coordinator_settle_contract c b \<lparr>cr_invoice_hash = sc_invoice_hash contract,
         cr_ecash_receipt = contract_ecash_receipt mk root, cr_bao_gate_satisfied = True\<rparr> s))"
  using assms by (simp add: settle_storage_contract_def ensure_contract_exists_def validate_settle_options_def
      ensure_bao_challenge_gate_def contract_invoice_hash_def Let_def)

text \<open>A payment that settles a contract without an invoice settles any other such contract of the same
  amount.\<close>

lemma unbound_payment_settles_any:
  assumes c: "coordinator_for_chain_with_lightning socket hex api starts opens outcome chain settings app shared = Ok c"
    and r1: "settle_storage_contract opened settings (Ok c) verify root1 None now (mk, n, lg) = (st', Ok ())"
    and amount: "contract_amount_sats opened settings mk root1 = Ok amount" "contract_amount_sats opened settings mk root2 = Ok amount"
      "ss_threshold_sats settings \<le> amount"
    and c2: "get_contract mk root2 = Some contract2" "sc_invoice_hash contract2 = None" "challenge_proof_exists mk root2"
  shows "snd (settle_storage_contract opened settings (Ok c) verify root2 None now (mk, n, lg)) = Ok ()"
proof -
  note C = chain_coordinator [OF c]
  from C(1) obtain start where l: "co_lightning c = on_node (ldk_lightning hex api start)" by blast
  from r1 have "get_contract mk root1 \<noteq> None" "challenge_proof_exists mk root1"
    by (auto simp: settle_storage_contract_def ensure_contract_exists_def ensure_bao_challenge_gate_def
        validate_settle_options_def ensure_eq and_then_def split: result.splits prod.splits)
  then obtain contract1 where c1: "get_contract mk root1 = Some contract1" "challenge_proof_exists mk root1" by auto
  from r1 [unfolded settle_with_gate [OF c1]] l C(3) amount
  have ok: "settle_contract_on_node api \<lparr>pb_bao_root = root1, pb_purpose = StorageContract, pb_amount_sats = amount\<rparr>
      (sc_invoice_hash contract1) n = Ok ()" and start: "with_node start = Ok ()"
    by (auto simp: contract_binding_def coordinator_settle_contract_def rail_for_amount_def on_node_def ldk_lightning_def
        ok_elims)
  have "pays msat None p" if "pays msat h p" for msat h p
    using that by (auto simp: pays_def split: option.splits)
  with ok have "settle_contract_on_node api \<lparr>pb_bao_root = root2, pb_purpose = StorageContract, pb_amount_sats = amount\<rparr>
      None n = Ok ()"
    by (fastforce simp: settle_contract_on_node_def ensure_storage_contract_binding_def ensure_binding_def
        amount_msat_of_def ok_elims list_ex_iff)
  then show ?thesis
    using l start C(3) amount ok
    by (auto simp: settle_with_gate [OF c2(1,3)] c2 contract_binding_def coordinator_settle_contract_def
        rail_for_amount_def on_node_def ldk_lightning_def settle_contract_on_node_def ok_elims
        ensure_storage_contract_binding_def ensure_binding_def)
qed

lemma node_invoice_Ok:
  "create_contract_invoice_on_node hex api b n = (n', Ok r) \<Longrightarrow>
   sr_rail r = Lightning \<and> ensure_storage_contract_binding b = Ok ()"
  by (cases "ensure_storage_contract_binding b"; cases "amount_msat_of b")
    (auto simp: create_contract_invoice_on_node_def split: prod.splits option.splits)

lemma invoice_on_chain_node:
  "create_contract_invoice (on_node (ldk_lightning hex api start)) b (n, lg) = (s', Ok r) \<Longrightarrow>
   sr_rail r = Lightning \<and> ensure_storage_contract_binding b = Ok ()"
  using node_invoice_Ok [of hex api b n]
  by (cases "with_node start") (auto simp: on_node_def ldk_lightning_def split: prod.splits)

text \<open>C33: Once a contract has an invoice, the market refuses every other one for good: whatever is done
  later, an invoice with another hash is issued by the node, answered with an error and not stored.
  An invoice expires after an hour, so that a contract that was not paid by then cannot be paid
  at all.\<close>

theorem reinvoice_refused:
  assumes steps: "market_steps hex (mk, s) (mk', n, lg)" and inv: "market_inv hex mk"
    and hash: "get_contract mk root = Some contract" "sc_invoice_hash contract = Some h"
    and c: "coordinator_for_chain_with_lightning socket hex api starts opens outcome chain settings app shared = Ok c"
    and b: "contract_binding opened settings mk' root = Ok b" "ss_threshold_sats settings \<le> pb_amount_sats b"
    and node: "create_contract_invoice (co_lightning c) b (n, lg) = ((n', lg), Ok r)" "sr_payment_hash r = Some h'" "h' \<noteq> h"
  shows "create_invoice_for_contract hex opened settings (Ok c) root (mk', n, lg) = ((mk', n', lg), Err InvoiceHashAlreadySet)"
proof -
  from invoice_hash_steps [OF steps, of root contract h] inv hash
  have "\<exists>c'. get_contract mk' root = Some c' \<and> sc_invoice_hash c' = Some h" by simp
  then obtain contract'
    where ct: "get_contract mk' root = Some contract'" "sc_invoice_hash contract' = Some h" by blast
  from chain_coordinator(1) [OF c] obtain start where l: "co_lightning c = on_node (ldk_lightning hex api start)" by blast
  have rail: "sr_rail r = Lightning" and sc: "ensure_storage_contract_binding b = Ok ()"
    using invoice_on_chain_node [OF node(1) [unfolded l]] by simp_all
  have root: "pb_bao_root b = root" using b(1) by (simp add: contract_binding_Ok)
  have "coordinator_create_invoice c b (n, lg) = ((n', lg), Ok r)"
    using sc node(1) b(2) chain_coordinator(3) [OF c] by (simp add: coordinator_create_invoice_def rail_for_amount_def)
  then show ?thesis
    using ct node(2,3) rail root b(1)
    by (simp add: create_invoice_for_contract_def ensure_contract_exists_def create_and_persist_def persist_result_def
        persist_invoice_hash_def)
qed

lemma toy_market_inv: "market_inv (\<lambda>r. ''07'') (initialize_replication_state toy_root (toy_market (Some (replicate 32 8))))"
  by (auto simp: market_inv_def toy_market_defs contract_ok_def initialize_replication_state_def put_replication_state_def
      market_get_defs)

theorem reinvoice_refused_witness:
  "let mk = initialize_replication_state toy_root (toy_market (Some (replicate 32 8)))
   in create_invoice_for_contract (\<lambda>r. ''07'') True toy_settings toy_coordinator toy_root
        (mk, [], \<lparr>lg_lines = [], lg_unterminated = False\<rparr>) =
      ((mk, [], \<lparr>lg_lines = [], lg_unterminated = False\<rparr>), Err InvoiceHashAlreadySet)"
proof -
  let ?mk = "initialize_replication_state toy_root (toy_market (Some (replicate 32 8)))"
  let ?b = "\<lparr>pb_bao_root = toy_root, pb_purpose = StorageContract, pb_amount_sats = 10000\<rparr>"
  let ?lg = "\<lparr>lg_lines = [], lg_unterminated = False\<rparr>"
  have contract: "get_contract ?mk toy_root = Some (toy_contract\<lparr>sc_invoice_hash := Some (replicate 32 8)\<rparr>)"
    by (simp add: get_contract_def initialize_replication_state_def put_replication_state_def toy_market_def
        toy_contract_def new_pending_contract_def put_challenge_proof_def put_contract_def)
  have b: "contract_binding True toy_settings ?mk toy_root = Ok ?b"
    by (simp add: contract_binding_def contract_amount_sats_def get_contract_pricing_def initialize_replication_state_def
        put_replication_state_def toy_market_defs)
  show ?thesis
    unfolding Let_def toy_coordinator_eq
  proof (rule reinvoice_refused [OF rtranclp.rtrancl_refl toy_market_inv contract _
        toy_coordinator_eq [unfolded toy_coordinator_def] b, where r = "\<lparr>sr_rail = Lightning, sr_amount_sats = 10000,
          sr_reference = ''bolt11:lnbc'', sr_payment_hash = Some (replicate 32 9)\<rparr>" and h' = "replicate 32 9"
          and h = "replicate 32 8"])
  qed (simp_all add: toy_settings_def default_settlement_settings_def on_node_def ldk_lightning_def with_node_def
      create_contract_invoice_on_node_def ensure_storage_contract_binding_def ensure_binding_def amount_msat_of_def
      checked_mul_def toy_api_def)
qed

end
