(* ===== verification/Settings.thy ===== *)
theory Settings
  imports MarketSafety
begin

text \<open>
  Chains and settings (\<open>src/chain.rs\<close>, \<open>options.rs\<close>, \<open>settings.rs\<close>,
  \<open>lord-calendar/src/chain.rs\<close>): the options of the command line, the environment and the
  configuration file are layers that are merged and then completed with defaults; what the
  rest of the program reads of them, among it the parameters of the market. Paths are texts; the
  home and data directories, the memory of the machine, the files and the parser of YAML are
  parameters. \<open>usize\<close> has 64 bits, and the platform is Linux.
\<close>

section \<open>Chains\<close>

text \<open>The enumeration of \<open>src/chain.rs\<close> and its mirror in the calendar have the constructors of
  \<open>LtpChain\<close>.\<close>

type_synonym chain = ltp_chain

definition chain_network :: "chain \<Rightarrow> bitcoin_network" where
  "chain_network c =
     (case c of Mainnet \<Rightarrow> NetBitcoin | Regtest \<Rightarrow> NetRegtest | Signet \<Rightarrow> NetSignet
      | Testnet \<Rightarrow> NetTestnet | Testnet4 \<Rightarrow> NetTestnet4)"

definition chain_default_rpc_port :: "chain \<Rightarrow> u16" where
  "chain_default_rpc_port c =
     (case c of Mainnet \<Rightarrow> 8332 | Regtest \<Rightarrow> 18443 | Signet \<Rightarrow> 38332 | Testnet \<Rightarrow> 18332
      | Testnet4 \<Rightarrow> 48332)"

definition inscription_content_size_limit :: "chain \<Rightarrow> u64 option" where
  "inscription_content_size_limit c =
     (case c of Mainnet \<Rightarrow> None | Regtest \<Rightarrow> None | _ \<Rightarrow> Some 1024)"

definition chain_first_inscription_height :: "chain \<Rightarrow> u32" where
  "chain_first_inscription_height c =
     (case c of Mainnet \<Rightarrow> 767430 | Regtest \<Rightarrow> 0 | Signet \<Rightarrow> 112402 | Testnet \<Rightarrow> 2413343
      | Testnet4 \<Rightarrow> 0)"

definition chain_first_rune_height :: "chain \<Rightarrow> u32" where
  "chain_first_rune_height c =
     2016 * (case c of Mainnet \<Rightarrow> 4 | Regtest \<Rightarrow> 0 | Signet \<Rightarrow> 0 | Testnet \<Rightarrow> 12 | Testnet4 \<Rightarrow> 0)"

definition jubilee_height :: "chain \<Rightarrow> u32" where
  "jubilee_height c =
     (case c of Mainnet \<Rightarrow> 824544 | Regtest \<Rightarrow> 110 | Signet \<Rightarrow> 175392 | Testnet \<Rightarrow> 2544192
      | Testnet4 \<Rightarrow> 0)"

definition show_chain :: "chain \<Rightarrow> string" where
  "show_chain c =
     (case c of Mainnet \<Rightarrow> ''mainnet'' | Regtest \<Rightarrow> ''regtest'' | Signet \<Rightarrow> ''signet''
      | Testnet \<Rightarrow> ''testnet'' | Testnet4 \<Rightarrow> ''testnet4'')"

datatype settings_error =
    InvalidChain string
  | BadNumber string
  | BadUnicode string
  | NoHomeDir
  | NoDataDir
  | ConfigUnreadable string
  | ConfigMalformed string
  | NoRpcUsername
  | NoRpcPassword
  | NoUsername
  | NoPassword
  | ExclusiveStorage
  | NoMints
  | ZeroEcashThreshold
  | MintOutsideAllowlist string
  | ZeroContractAmount
  | ZeroChallengeFee
  | BadCookie rpc_error
  | CookieMissing string
  | RpcUnreachable
  | UnknownRpcChain string
  | ChainMismatch chain chain

definition chain_from_str :: "string \<Rightarrow> (settings_error, chain) result" where
  "chain_from_str s =
     (if s = ''mainnet'' then Ok Mainnet
      else if s = ''regtest'' then Ok Regtest
      else if s = ''signet'' then Ok Signet
      else if s = ''testnet'' then Ok Testnet
      else if s = ''testnet4'' then Ok Testnet4
      else Err (InvalidChain s))"

text \<open>\<open>Path::join\<close> with a relative path, and \<open>Path::file_name\<close> of a path without dots.\<close>

definition path_join :: "string \<Rightarrow> string \<Rightarrow> string" where
  "path_join p q = (if p = [] then q else if last p = CHR ''/'' then p @ q else p @ ''/'' @ q)"

definition path_file_name :: "string \<Rightarrow> string option" where
  "path_file_name p =
     (let name = rev (takeWhile (\<lambda>c. c \<noteq> CHR ''/'') (rev (trim_end_matches (CHR ''/'') p)))
      in if name = [] then None else Some name)"

definition join_with_data_dir :: "chain \<Rightarrow> string \<Rightarrow> string" where
  "join_with_data_dir c data_dir =
     (case c of Mainnet \<Rightarrow> data_dir | Regtest \<Rightarrow> path_join data_dir ''regtest''
      | Signet \<Rightarrow> path_join data_dir ''signet'' | Testnet \<Rightarrow> path_join data_dir ''testnet3''
      | Testnet4 \<Rightarrow> path_join data_dir ''testnet4'')"

section \<open>Layers\<close>

record settings =
  cfg_bitcoin_data_dir :: "string option"
  cfg_bitcoin_rpc_limit :: "u32 option"
  cfg_bitcoin_rpc_password :: "string option"
  cfg_bitcoin_rpc_url :: "string option"
  cfg_bitcoin_rpc_username :: "string option"
  cfg_chain :: "chain option"
  cfg_calendar_enabled :: bool
  cfg_calendar_listen :: "string option"
  cfg_calendar_uri :: "string option"
  cfg_calendar_url :: "string option"
  cfg_calendar_max_anchor_fee_sats :: "u64 option"
  cfg_calendar_min_wallet_balance_sats :: "u64 option"
  cfg_calendar_ltp_priority :: bool
  cfg_lightning_listen :: "string option"
  cfg_ecash_enabled :: bool
  cfg_ecash_mint_urls :: "string list option"
  cfg_ecash_mint_allowlist :: "string list option"
  cfg_ecash_settlement_threshold_sats :: "u64 option"
  cfg_market_contract_amount_sats :: "u64 option"
  cfg_market_challenge_fee_sats :: "u64 option"
  cfg_p2p_bootstrap_peers :: "string list option"
  cfg_mutual_aid_enabled :: bool
  cfg_encrypted_only_preference :: bool
  cfg_open_to_unencrypted :: bool
  cfg_commit_interval :: "u64 option"
  cfg_config :: "string option"
  cfg_config_dir :: "string option"
  cfg_cookie_file :: "string option"
  cfg_data_dir :: "string option"
  cfg_height_limit :: "u32 option"
  cfg_http_port :: "u16 option"
  cfg_index :: "string option"
  cfg_index_addresses :: bool
  cfg_index_cache_size :: "u64 option"
  cfg_index_sats :: bool
  cfg_integration_test :: bool
  cfg_max_savepoints :: "u64 option"
  cfg_savepoint_interval :: "u64 option"
  cfg_server_password :: "string option"
  cfg_server_url :: "string option"
  cfg_server_username :: "string option"

record options =
  opt_bitcoin_data_dir :: "string option"
  opt_bitcoin_rpc_password :: "string option"
  opt_bitcoin_rpc_url :: "string option"
  opt_bitcoin_rpc_username :: "string option"
  opt_bitcoin_rpc_limit :: "u32 option"
  opt_commit_interval :: "u64 option"
  opt_savepoint_interval :: "u64 option"
  opt_max_savepoints :: "u64 option"
  opt_config :: "string option"
  opt_config_dir :: "string option"
  opt_cookie_file :: "string option"
  opt_data_dir :: "string option"
  opt_height_limit :: "u32 option"
  opt_index :: "string option"
  opt_index_addresses :: bool
  opt_index_cache_size :: "u64 option"
  opt_index_sats :: bool
  opt_integration_test :: bool
  opt_server_password :: "string option"
  opt_server_username :: "string option"
  opt_chain_argument :: "chain option"
  opt_regtest :: bool
  opt_signet :: bool
  opt_testnet :: bool
  opt_testnet4 :: bool

definition or_else :: "'a option \<Rightarrow> 'a option \<Rightarrow> 'a option" where
  "or_else a b = (case a of Some x \<Rightarrow> Some x | None \<Rightarrow> b)"

definition then_some :: "bool \<Rightarrow> 'a \<Rightarrow> 'a option" where
  "then_some b x = (if b then Some x else None)"

definition unwrap_or :: "'a option \<Rightarrow> 'a \<Rightarrow> 'a" where
  "unwrap_or a d = (case a of Some x \<Rightarrow> x | None \<Rightarrow> d)"

definition default_settings :: settings where
  "default_settings =
     \<lparr>cfg_bitcoin_data_dir = None,
      cfg_bitcoin_rpc_limit = None,
      cfg_bitcoin_rpc_password = None,
      cfg_bitcoin_rpc_url = None,
      cfg_bitcoin_rpc_username = None,
      cfg_chain = None,
      cfg_calendar_enabled = False,
      cfg_calendar_listen = None,
      cfg_calendar_uri = None,
      cfg_calendar_url = None,
      cfg_calendar_max_anchor_fee_sats = None,
      cfg_calendar_min_wallet_balance_sats = None,
      cfg_calendar_ltp_priority = False,
      cfg_lightning_listen = None,
      cfg_ecash_enabled = False,
      cfg_ecash_mint_urls = None,
      cfg_ecash_mint_allowlist = None,
      cfg_ecash_settlement_threshold_sats = None,
      cfg_market_contract_amount_sats = None,
      cfg_market_challenge_fee_sats = None,
      cfg_p2p_bootstrap_peers = None,
      cfg_mutual_aid_enabled = False,
      cfg_encrypted_only_preference = False,
      cfg_open_to_unencrypted = False,
      cfg_commit_interval = None,
      cfg_config = None,
      cfg_config_dir = None,
      cfg_cookie_file = None,
      cfg_data_dir = None,
      cfg_height_limit = None,
      cfg_http_port = None,
      cfg_index = None,
      cfg_index_addresses = False,
      cfg_index_cache_size = None,
      cfg_index_sats = False,
      cfg_integration_test = False,
      cfg_max_savepoints = None,
      cfg_savepoint_interval = None,
      cfg_server_password = None,
      cfg_server_url = None,
      cfg_server_username = None\<rparr>"

definition settings_or :: "settings \<Rightarrow> settings \<Rightarrow> settings" where
  "settings_or s source =
     \<lparr>cfg_bitcoin_data_dir = or_else (cfg_bitcoin_data_dir s) (cfg_bitcoin_data_dir source),
      cfg_bitcoin_rpc_limit = or_else (cfg_bitcoin_rpc_limit s) (cfg_bitcoin_rpc_limit source),
      cfg_bitcoin_rpc_password = or_else (cfg_bitcoin_rpc_password s) (cfg_bitcoin_rpc_password source),
      cfg_bitcoin_rpc_url = or_else (cfg_bitcoin_rpc_url s) (cfg_bitcoin_rpc_url source),
      cfg_bitcoin_rpc_username = or_else (cfg_bitcoin_rpc_username s) (cfg_bitcoin_rpc_username source),
      cfg_chain = or_else (cfg_chain s) (cfg_chain source),
      cfg_calendar_enabled = cfg_calendar_enabled s \<or> cfg_calendar_enabled source,
      cfg_calendar_listen = or_else (cfg_calendar_listen s) (cfg_calendar_listen source),
      cfg_calendar_uri = or_else (cfg_calendar_uri s) (cfg_calendar_uri source),
      cfg_calendar_url = or_else (cfg_calendar_url s) (cfg_calendar_url source),
      cfg_calendar_max_anchor_fee_sats = or_else (cfg_calendar_max_anchor_fee_sats s) (cfg_calendar_max_anchor_fee_sats source),
      cfg_calendar_min_wallet_balance_sats = or_else (cfg_calendar_min_wallet_balance_sats s) (cfg_calendar_min_wallet_balance_sats source),
      cfg_calendar_ltp_priority = cfg_calendar_ltp_priority s \<or> cfg_calendar_ltp_priority source,
      cfg_lightning_listen = or_else (cfg_lightning_listen s) (cfg_lightning_listen source),
      cfg_ecash_enabled = cfg_ecash_enabled s \<or> cfg_ecash_enabled source,
      cfg_ecash_mint_urls = or_else (cfg_ecash_mint_urls s) (cfg_ecash_mint_urls source),
      cfg_ecash_mint_allowlist = or_else (cfg_ecash_mint_allowlist s) (cfg_ecash_mint_allowlist source),
      cfg_ecash_settlement_threshold_sats = or_else (cfg_ecash_settlement_threshold_sats s) (cfg_ecash_settlement_threshold_sats source),
      cfg_market_contract_amount_sats = or_else (cfg_market_contract_amount_sats s) (cfg_market_contract_amount_sats source),
      cfg_market_challenge_fee_sats = or_else (cfg_market_challenge_fee_sats s) (cfg_market_challenge_fee_sats source),
      cfg_p2p_bootstrap_peers = or_else (cfg_p2p_bootstrap_peers s) (cfg_p2p_bootstrap_peers source),
      cfg_mutual_aid_enabled = cfg_mutual_aid_enabled s \<or> cfg_mutual_aid_enabled source,
      cfg_encrypted_only_preference = cfg_encrypted_only_preference s \<or> cfg_encrypted_only_preference source,
      cfg_open_to_unencrypted = cfg_open_to_unencrypted s \<or> cfg_open_to_unencrypted source,
      cfg_commit_interval = or_else (cfg_commit_interval s) (cfg_commit_interval source),
      cfg_config = or_else (cfg_config s) (cfg_config source),
      cfg_config_dir = or_else (cfg_config_dir s) (cfg_config_dir source),
      cfg_cookie_file = or_else (cfg_cookie_file s) (cfg_cookie_file source),
      cfg_data_dir = or_else (cfg_data_dir s) (cfg_data_dir source),
      cfg_height_limit = or_else (cfg_height_limit s) (cfg_height_limit source),
      cfg_http_port = or_else (cfg_http_port s) (cfg_http_port source),
      cfg_index = or_else (cfg_index s) (cfg_index source),
      cfg_index_addresses = cfg_index_addresses s \<or> cfg_index_addresses source,
      cfg_index_cache_size = or_else (cfg_index_cache_size s) (cfg_index_cache_size source),
      cfg_index_sats = cfg_index_sats s \<or> cfg_index_sats source,
      cfg_integration_test = cfg_integration_test s \<or> cfg_integration_test source,
      cfg_max_savepoints = or_else (cfg_max_savepoints s) (cfg_max_savepoints source),
      cfg_savepoint_interval = or_else (cfg_savepoint_interval s) (cfg_savepoint_interval source),
      cfg_server_password = or_else (cfg_server_password s) (cfg_server_password source),
      cfg_server_url = or_else (cfg_server_url s) (cfg_server_url source),
      cfg_server_username = or_else (cfg_server_username s) (cfg_server_username source)\<rparr>"

definition from_options :: "options \<Rightarrow> settings" where
  "from_options opts =
     \<lparr>cfg_bitcoin_data_dir = opt_bitcoin_data_dir opts,
      cfg_bitcoin_rpc_limit = opt_bitcoin_rpc_limit opts,
      cfg_bitcoin_rpc_password = opt_bitcoin_rpc_password opts,
      cfg_bitcoin_rpc_url = opt_bitcoin_rpc_url opts,
      cfg_bitcoin_rpc_username = opt_bitcoin_rpc_username opts,
      cfg_chain = or_else (then_some (opt_signet opts) Signet) (or_else (then_some (opt_regtest opts) Regtest)
        (or_else (then_some (opt_testnet opts) Testnet) (or_else (then_some (opt_testnet4 opts) Testnet4)
        (opt_chain_argument opts)))),
      cfg_calendar_enabled = False,
      cfg_calendar_listen = None,
      cfg_calendar_uri = None,
      cfg_calendar_url = None,
      cfg_calendar_max_anchor_fee_sats = None,
      cfg_calendar_min_wallet_balance_sats = None,
      cfg_calendar_ltp_priority = False,
      cfg_lightning_listen = None,
      cfg_ecash_enabled = False,
      cfg_ecash_mint_urls = None,
      cfg_ecash_mint_allowlist = None,
      cfg_ecash_settlement_threshold_sats = None,
      cfg_market_contract_amount_sats = None,
      cfg_market_challenge_fee_sats = None,
      cfg_p2p_bootstrap_peers = None,
      cfg_mutual_aid_enabled = False,
      cfg_encrypted_only_preference = False,
      cfg_open_to_unencrypted = False,
      cfg_commit_interval = opt_commit_interval opts,
      cfg_config = opt_config opts,
      cfg_config_dir = opt_config_dir opts,
      cfg_cookie_file = opt_cookie_file opts,
      cfg_data_dir = opt_data_dir opts,
      cfg_height_limit = opt_height_limit opts,
      cfg_http_port = None,
      cfg_index = opt_index opts,
      cfg_index_addresses = opt_index_addresses opts,
      cfg_index_cache_size = opt_index_cache_size opts,
      cfg_index_sats = opt_index_sats opts,
      cfg_integration_test = opt_integration_test opts,
      cfg_max_savepoints = opt_max_savepoints opts,
      cfg_savepoint_interval = opt_savepoint_interval opts,
      cfg_server_password = opt_server_password opts,
      cfg_server_url = None,
      cfg_server_username = opt_server_username opts\<rparr>"

type_synonym environment = "string \<rightharpoonup> string"

definition get_bool :: "environment \<Rightarrow> string \<Rightarrow> bool" where
  "get_bool env key = (case env key of None \<Rightarrow> False | Some v \<Rightarrow> v \<noteq> [])"

definition get_parsed ::
  "(string \<Rightarrow> ('e, 'a) result) \<Rightarrow> environment \<Rightarrow> string \<Rightarrow> (settings_error, 'a option) result" where
  "get_parsed parse env key =
     (case env key of
        None \<Rightarrow> Ok None
      | Some v \<Rightarrow> (case parse v of Err _ \<Rightarrow> Err (BadNumber key) | Ok x \<Rightarrow> Ok (Some x)))"

definition parse_u16 :: "string \<Rightarrow> (parse_int_error, u16) result" where
  "parse_u16 s = (case parse_uint 65535 s of Err e \<Rightarrow> Err e | Ok n \<Rightarrow> Ok (word_of_nat n))"

definition from_env :: "environment \<Rightarrow> (settings_error, settings) result" where
  "from_env env =
     and_then (get_parsed parse_u32 env ''BITCOIN_RPC_LIMIT'') (\<lambda>bitcoin_rpc_limit.
     and_then (get_parsed chain_from_str env ''CHAIN'') (\<lambda>chain.
     and_then (get_parsed parse_u64 env ''CALENDAR_MAX_ANCHOR_FEE_SATS'') (\<lambda>calendar_max_anchor_fee_sats.
     and_then (get_parsed parse_u64 env ''CALENDAR_MIN_WALLET_BALANCE_SATS'') (\<lambda>calendar_min_wallet_balance_sats.
     and_then (get_parsed parse_u64 env ''ECASH_SETTLEMENT_THRESHOLD_SATS'') (\<lambda>ecash_settlement_threshold_sats.
     and_then (get_parsed parse_u64 env ''MARKET_CONTRACT_AMOUNT_SATS'') (\<lambda>market_contract_amount_sats.
     and_then (get_parsed parse_u64 env ''MARKET_CHALLENGE_FEE_SATS'') (\<lambda>market_challenge_fee_sats.
     and_then (get_parsed parse_u64 env ''COMMIT_INTERVAL'') (\<lambda>commit_interval.
     and_then (get_parsed parse_u32 env ''HEIGHT_LIMIT'') (\<lambda>height_limit.
     and_then (get_parsed parse_u16 env ''HTTP_PORT'') (\<lambda>http_port.
     and_then (get_parsed parse_u64 env ''INDEX_CACHE_SIZE'') (\<lambda>index_cache_size.
     and_then (get_parsed parse_u64 env ''MAX_SAVEPOINTS'') (\<lambda>max_savepoints.
     and_then (get_parsed parse_u64 env ''SAVEPOINT_INTERVAL'') (\<lambda>savepoint_interval.
     Ok \<lparr>cfg_bitcoin_data_dir = env ''BITCOIN_DATA_DIR'',
      cfg_bitcoin_rpc_limit = bitcoin_rpc_limit,
      cfg_bitcoin_rpc_password = env ''BITCOIN_RPC_PASSWORD'',
      cfg_bitcoin_rpc_url = env ''BITCOIN_RPC_URL'',
      cfg_bitcoin_rpc_username = env ''BITCOIN_RPC_USERNAME'',
      cfg_chain = chain,
      cfg_calendar_enabled = get_bool env ''CALENDAR_ENABLED'',
      cfg_calendar_listen = env ''CALENDAR_LISTEN'',
      cfg_calendar_uri = env ''CALENDAR_URI'',
      cfg_calendar_url = env ''CALENDAR_URL'',
      cfg_calendar_max_anchor_fee_sats = calendar_max_anchor_fee_sats,
      cfg_calendar_min_wallet_balance_sats = calendar_min_wallet_balance_sats,
      cfg_calendar_ltp_priority = get_bool env ''CALENDAR_LTP_PRIORITY'',
      cfg_lightning_listen = env ''LIGHTNING_LISTEN'',
      cfg_ecash_enabled = get_bool env ''ECASH_ENABLED'',
      cfg_ecash_mint_urls = map_option (\<lambda>v. filter (\<lambda>e. e \<noteq> []) (map trim (split_on (CHR '','') v))) (env ''ECASH_MINT_URLS''),
      cfg_ecash_mint_allowlist = map_option (\<lambda>v. filter (\<lambda>e. e \<noteq> []) (map trim (split_on (CHR '','') v))) (env ''ECASH_MINT_ALLOWLIST''),
      cfg_ecash_settlement_threshold_sats = ecash_settlement_threshold_sats,
      cfg_market_contract_amount_sats = market_contract_amount_sats,
      cfg_market_challenge_fee_sats = market_challenge_fee_sats,
      cfg_p2p_bootstrap_peers = map_option (\<lambda>v. map trim (split_on (CHR '','') v)) (env ''P2P_BOOTSTRAP_PEERS''),
      cfg_mutual_aid_enabled = get_bool env ''MUTUAL_AID_ENABLED'',
      cfg_encrypted_only_preference = get_bool env ''ENCRYPTED_ONLY_PREFERENCE'',
      cfg_open_to_unencrypted = get_bool env ''OPEN_TO_UNENCRYPTED'',
      cfg_commit_interval = commit_interval,
      cfg_config = env ''CONFIG'',
      cfg_config_dir = env ''CONFIG_DIR'',
      cfg_cookie_file = env ''COOKIE_FILE'',
      cfg_data_dir = env ''DATA_DIR'',
      cfg_height_limit = height_limit,
      cfg_http_port = http_port,
      cfg_index = env ''INDEX'',
      cfg_index_addresses = get_bool env ''INDEX_ADDRESSES'',
      cfg_index_cache_size = index_cache_size,
      cfg_index_sats = get_bool env ''INDEX_SATS'',
      cfg_integration_test = get_bool env ''INTEGRATION_TEST'',
      cfg_max_savepoints = max_savepoints,
      cfg_savepoint_interval = savepoint_interval,
      cfg_server_password = env ''SERVER_PASSWORD'',
      cfg_server_url = env ''SERVER_URL'',
      cfg_server_username = env ''SERVER_USERNAME''\<rparr>)))))))))))))"

definition for_env :: "string \<Rightarrow> string \<Rightarrow> string \<Rightarrow> settings" where
  "for_env dir rpc_url server_url =
     \<lparr>cfg_bitcoin_data_dir = Some dir,
      cfg_bitcoin_rpc_limit = None,
      cfg_bitcoin_rpc_password = None,
      cfg_bitcoin_rpc_url = Some rpc_url,
      cfg_bitcoin_rpc_username = None,
      cfg_chain = Some Regtest,
      cfg_calendar_enabled = False,
      cfg_calendar_listen = None,
      cfg_calendar_uri = None,
      cfg_calendar_url = None,
      cfg_calendar_max_anchor_fee_sats = None,
      cfg_calendar_min_wallet_balance_sats = None,
      cfg_calendar_ltp_priority = False,
      cfg_lightning_listen = None,
      cfg_ecash_enabled = False,
      cfg_ecash_mint_urls = None,
      cfg_ecash_mint_allowlist = None,
      cfg_ecash_settlement_threshold_sats = None,
      cfg_market_contract_amount_sats = None,
      cfg_market_challenge_fee_sats = None,
      cfg_p2p_bootstrap_peers = None,
      cfg_mutual_aid_enabled = False,
      cfg_encrypted_only_preference = False,
      cfg_open_to_unencrypted = False,
      cfg_commit_interval = None,
      cfg_config = None,
      cfg_config_dir = None,
      cfg_cookie_file = None,
      cfg_data_dir = Some dir,
      cfg_height_limit = None,
      cfg_http_port = None,
      cfg_index = None,
      cfg_index_addresses = True,
      cfg_index_cache_size = None,
      cfg_index_sats = True,
      cfg_integration_test = False,
      cfg_max_savepoints = None,
      cfg_savepoint_interval = None,
      cfg_server_password = None,
      cfg_server_url = Some server_url,
      cfg_server_username = None\<rparr>"

text \<open>What the settings read from the machine.\<close>

record machine =
  home_dir :: "string option"
  sys_data_dir :: "string option"
  total_memory_bytes :: u64
  file_exists :: "string \<Rightarrow> bool"
  read_config :: "string \<Rightarrow> settings option option"

definition default_data_dir :: "machine \<Rightarrow> (settings_error, string) result" where
  "default_data_dir m = and_then (ok_or (sys_data_dir m) NoDataDir) (\<lambda>d. Ok (path_join d ''ord''))"

definition bitcoin_dir :: "machine \<Rightarrow> settings \<Rightarrow> (settings_error, string) result" where
  "bitcoin_dir m s =
     (case cfg_bitcoin_data_dir s of
        Some d \<Rightarrow> Ok d
      | None \<Rightarrow> and_then (ok_or (home_dir m) NoHomeDir) (\<lambda>d. Ok (path_join d ''.bitcoin'')))"

definition or_defaults :: "machine \<Rightarrow> settings \<Rightarrow> (settings_error, settings) result" where
  "or_defaults m s =
     (let chain = unwrap_or (cfg_chain s) Mainnet; total_memory = total_memory_bytes m in
      and_then (bitcoin_dir m s) (\<lambda>bitcoin_data_dir.
      and_then (case cfg_data_dir s of Some d \<Rightarrow> Ok d | None \<Rightarrow> default_data_dir m) (\<lambda>base.
      let cookie_file = unwrap_or (cfg_cookie_file s)
            (path_join (join_with_data_dir chain bitcoin_data_dir) ''.cookie'');
          data_dir = join_with_data_dir chain base;
          index = unwrap_or (cfg_index s) (path_join data_dir ''index'')
      in Ok \<lparr>cfg_bitcoin_data_dir = Some bitcoin_data_dir,
        cfg_bitcoin_rpc_limit = Some (unwrap_or (cfg_bitcoin_rpc_limit s) 12),
        cfg_bitcoin_rpc_password = cfg_bitcoin_rpc_password s,
        cfg_bitcoin_rpc_url = Some (unwrap_or (cfg_bitcoin_rpc_url s) (''127.0.0.1:'' @ show_word (chain_default_rpc_port chain))),
        cfg_bitcoin_rpc_username = cfg_bitcoin_rpc_username s,
        cfg_chain = Some chain,
        cfg_calendar_enabled = cfg_calendar_enabled s,
        cfg_calendar_listen = cfg_calendar_listen s,
        cfg_calendar_uri = cfg_calendar_uri s,
        cfg_calendar_url = cfg_calendar_url s,
        cfg_calendar_max_anchor_fee_sats = cfg_calendar_max_anchor_fee_sats s,
        cfg_calendar_min_wallet_balance_sats = cfg_calendar_min_wallet_balance_sats s,
        cfg_calendar_ltp_priority = cfg_calendar_ltp_priority s,
        cfg_lightning_listen = cfg_lightning_listen s,
        cfg_ecash_enabled = cfg_ecash_enabled s,
        cfg_ecash_mint_urls = cfg_ecash_mint_urls s,
        cfg_ecash_mint_allowlist = cfg_ecash_mint_allowlist s,
        cfg_ecash_settlement_threshold_sats = cfg_ecash_settlement_threshold_sats s,
        cfg_market_contract_amount_sats = cfg_market_contract_amount_sats s,
        cfg_market_challenge_fee_sats = cfg_market_challenge_fee_sats s,
        cfg_p2p_bootstrap_peers = cfg_p2p_bootstrap_peers s,
        cfg_mutual_aid_enabled = cfg_mutual_aid_enabled s,
        cfg_encrypted_only_preference = cfg_encrypted_only_preference s,
        cfg_open_to_unencrypted = cfg_open_to_unencrypted s,
        cfg_commit_interval = Some (unwrap_or (cfg_commit_interval s) 5000),
        cfg_config = None,
        cfg_config_dir = None,
        cfg_cookie_file = Some cookie_file,
        cfg_data_dir = Some data_dir,
        cfg_height_limit = cfg_height_limit s,
        cfg_http_port = cfg_http_port s,
        cfg_index = Some index,
        cfg_index_addresses = cfg_index_addresses s,
        cfg_index_cache_size = Some (unwrap_or (cfg_index_cache_size s) (total_memory div 4)),
        cfg_index_sats = cfg_index_sats s,
        cfg_integration_test = cfg_integration_test s,
        cfg_max_savepoints = Some (unwrap_or (cfg_max_savepoints s) 2),
        cfg_savepoint_interval = Some (unwrap_or (cfg_savepoint_interval s) 10),
        cfg_server_password = cfg_server_password s,
        cfg_server_url = cfg_server_url s,
        cfg_server_username = cfg_server_username s\<rparr>)))"

section \<open>Merging and validation\<close>

definition settings_mint_urls :: "settings \<Rightarrow> string list" where
  "settings_mint_urls s = unwrap_or (cfg_ecash_mint_urls s) []"

definition settings_threshold_sats :: "settings \<Rightarrow> u64" where
  "settings_threshold_sats s = unwrap_or (cfg_ecash_settlement_threshold_sats s) 1000"

definition settings_contract_amount_sats :: "settings \<Rightarrow> u64" where
  "settings_contract_amount_sats s = unwrap_or (cfg_market_contract_amount_sats s) 10000"

definition settings_challenge_fee_sats :: "settings \<Rightarrow> u64" where
  "settings_challenge_fee_sats s = unwrap_or (cfg_market_challenge_fee_sats s) 10"

fun mints_allowed :: "string list \<Rightarrow> string list \<Rightarrow> (settings_error, unit) result" where
  "mints_allowed allowlist [] = Ok ()"
| "mints_allowed allowlist (url # urls) =
     (if list_ex (\<lambda>allowed. normalize_mint_url allowed = normalize_mint_url url) allowlist
      then mints_allowed allowlist urls else Err (MintOutsideAllowlist url))"

definition settings_validate_mint_allowlist :: "settings \<Rightarrow> (settings_error, unit) result" where
  "settings_validate_mint_allowlist s =
     (case cfg_ecash_mint_allowlist s of
        None \<Rightarrow> Ok ()
      | Some allowlist \<Rightarrow> if allowlist = [] then Ok () else mints_allowed allowlist (settings_mint_urls s))"

definition validate_ecash :: "settings \<Rightarrow> (settings_error, unit) result" where
  "validate_ecash s =
     (if cfg_ecash_enabled s \<and> settings_mint_urls s = [] then Err NoMints
      else if cfg_ecash_enabled s \<and> settings_threshold_sats s = 0 then Err ZeroEcashThreshold
      else settings_validate_mint_allowlist s)"

definition validate_settlement_pricing :: "settings \<Rightarrow> (settings_error, unit) result" where
  "validate_settlement_pricing s =
     (if cfg_market_contract_amount_sats s = Some 0 then Err ZeroContractAmount
      else if cfg_market_challenge_fee_sats s = Some 0 then Err ZeroChallengeFee
      else Ok ())"

definition config_path :: "machine \<Rightarrow> settings \<Rightarrow> (settings_error, string option) result" where
  "config_path m s =
     (case cfg_config s of
        Some path \<Rightarrow> Ok (Some path)
      | None \<Rightarrow>
          and_then (case or_else (cfg_config_dir s) (cfg_data_dir s) of
              Some dir \<Rightarrow> Ok dir | None \<Rightarrow> default_data_dir m) (\<lambda>dir.
          let lord_path = path_join dir ''lord.yaml''; ord_path = path_join dir ''ord.yaml''
          in Ok (if file_exists m lord_path then Some lord_path
                 else if file_exists m ord_path then Some ord_path else None)))"

definition load_config :: "machine \<Rightarrow> string option \<Rightarrow> (settings_error, settings) result" where
  "load_config m path =
     (case path of
        None \<Rightarrow> Ok default_settings
      | Some p \<Rightarrow> (case read_config m p of
            None \<Rightarrow> Err (ConfigUnreadable p)
          | Some None \<Rightarrow> Err (ConfigMalformed p)
          | Some (Some s) \<Rightarrow> Ok s))"

definition check_pair :: "'a option \<Rightarrow> 'b option \<Rightarrow> 'e \<Rightarrow> 'e \<Rightarrow> ('e, unit) result" where
  "check_pair user password no_user no_password =
     (case (user, password) of
        (None, Some _) \<Rightarrow> Err no_user | (Some _, None) \<Rightarrow> Err no_password | _ \<Rightarrow> Ok ())"

definition validate_settings :: "settings \<Rightarrow> (settings_error, unit) result" where
  "validate_settings s =
     and_then (check_pair (cfg_bitcoin_rpc_username s) (cfg_bitcoin_rpc_password s) NoRpcUsername NoRpcPassword) (\<lambda>_.
     and_then (check_pair (cfg_server_username s) (cfg_server_password s) NoUsername NoPassword) (\<lambda>_.
     and_then (ensure (\<not> (cfg_encrypted_only_preference s \<and> cfg_open_to_unencrypted s)) ExclusiveStorage) (\<lambda>_.
     and_then (validate_ecash s) (\<lambda>_.
     validate_settlement_pricing s))))"

definition merge_settings :: "machine \<Rightarrow> options \<Rightarrow> environment \<Rightarrow> (settings_error, settings) result" where
  "merge_settings m opts env =
     and_then (from_env env) (\<lambda>from_environment.
     let layers = settings_or (from_options opts) from_environment in
     and_then (config_path m layers) (\<lambda>path.
     and_then (load_config m path) (\<lambda>config.
     and_then (or_defaults m (settings_or layers config)) (\<lambda>s.
     and_then (validate_settings s) (\<lambda>_. Ok s)))))"

text \<open>The variables of the process; a name or a value is \<open>None\<close> where it is not Unicode.\<close>

fun collect_env ::
  "(string option \<times> string option) list \<Rightarrow> environment \<Rightarrow> (settings_error, environment) result" where
  "collect_env [] env = Ok env"
| "collect_env ((var, v) # vars) env =
     (case var of
        None \<Rightarrow> collect_env vars env
      | Some name \<Rightarrow> (case strip_prefix ''ORD_'' name of
            None \<Rightarrow> collect_env vars env
          | Some key \<Rightarrow> (case v of
                None \<Rightarrow> Err (BadUnicode name)
              | Some text \<Rightarrow> collect_env vars (env(key \<mapsto> text)))))"

definition load_settings ::
  "machine \<Rightarrow> options \<Rightarrow> (string option \<times> string option) list \<Rightarrow> (settings_error, settings) result" where
  "load_settings m opts vars = and_then (collect_env vars Map.empty) (merge_settings m opts)"

section \<open>What the program reads\<close>

datatype auth = UserPass string string | CookieFile string

text \<open>\<open>unwrap\<close> of an absent setting panics: \<open>None\<close>.\<close>

definition settings_cookie_file :: "machine \<Rightarrow> settings \<Rightarrow> (settings_error, string) result option" where
  "settings_cookie_file m s =
     (case cfg_cookie_file s of
        Some f \<Rightarrow> Some (Ok f)
      | None \<Rightarrow> (case bitcoin_dir m s of
            Err e \<Rightarrow> Some (Err e)
          | Ok d \<Rightarrow> map_option (\<lambda>c. Ok (path_join (join_with_data_dir c d) ''.cookie'')) (cfg_chain s)))"

definition bitcoin_credentials :: "machine \<Rightarrow> settings \<Rightarrow> (settings_error, auth) result option" where
  "bitcoin_credentials m s =
     (case (cfg_bitcoin_rpc_username s, cfg_bitcoin_rpc_password s) of
        (Some user, Some pass) \<Rightarrow> Some (Ok (UserPass user pass))
      | _ \<Rightarrow> map_option (\<lambda>r. and_then r (\<lambda>f. Ok (CookieFile f))) (settings_cookie_file m s))"

definition settings_rpc_url :: "settings \<Rightarrow> string option \<Rightarrow> string option" where
  "settings_rpc_url s wallet_name =
     map_option (\<lambda>base_url. case wallet_name of
        Some name \<Rightarrow> base_url @ ''/wallet/'' @ name | None \<Rightarrow> base_url @ ''/'') (cfg_bitcoin_rpc_url s)"

definition server_credentials :: "settings \<Rightarrow> (string \<times> string) option" where
  "server_credentials s =
     (case (cfg_server_username s, cfg_server_password s) of
        (Some user, Some pass) \<Rightarrow> Some (user, pass) | _ \<Rightarrow> None)"

definition settings_first_inscription_height :: "settings \<Rightarrow> u32 option" where
  "settings_first_inscription_height s =
     (if cfg_integration_test s then Some 0 else map_option chain_first_inscription_height (cfg_chain s))"

definition settings_first_rune_height :: "settings \<Rightarrow> u32 option" where
  "settings_first_rune_height s =
     (if cfg_integration_test s then Some 0 else map_option chain_first_rune_height (cfg_chain s))"

text \<open>The answers of the node to \<open>getblockchaininfo\<close>, one for each attempt.\<close>

datatype rpc_answer = OnChain string | WarmingUp | TemporarilyUnavailable | RpcFailure

definition rpc_chain_of :: "string \<Rightarrow> (settings_error, chain) result" where
  "rpc_chain_of name =
     (if name = ''bitcoin'' then Ok Mainnet
      else if name = ''regtest'' then Ok Regtest
      else if name = ''signet'' then Ok Signet
      else if name = ''testnet'' then Ok Testnet
      else if name = ''testnet4'' then Ok Testnet4
      else Err (UnknownRpcChain name))"

function poll_chain :: "(nat \<Rightarrow> rpc_answer) \<Rightarrow> nat \<Rightarrow> (settings_error, chain) result" where
  "poll_chain answers checks =
     (case answers checks of
        OnChain name \<Rightarrow> rpc_chain_of name
      | RpcFailure \<Rightarrow> Err RpcUnreachable
      | _ \<Rightarrow> if checks < 100 then poll_chain answers (checks + 1) else Err RpcUnreachable)"
  by pat_completeness auto
termination
  by (relation "measure (\<lambda>(answers, checks). 100 - checks)") auto

declare poll_chain.simps [simp del]

text \<open>\<open>connects\<close> says whether a client can be made for a URL.\<close>

definition bitcoin_rpc_client ::
  "machine \<Rightarrow> (string \<Rightarrow> auth \<Rightarrow> bool) \<Rightarrow> (nat \<Rightarrow> rpc_answer) \<Rightarrow> settings \<Rightarrow> string option \<Rightarrow>
   (settings_error, string \<times> auth) result option" where
  "bitcoin_rpc_client m connects answers s wallet =
     (case (settings_rpc_url s wallet, bitcoin_credentials m s, cfg_chain s) of
        (Some rpc_url, Some credentials, Some ord_chain) \<Rightarrow> Some (
          and_then credentials (\<lambda>credentials.
          and_then (case credentials of CookieFile f \<Rightarrow> ensure (file_exists m f) (CookieMissing f) | _ \<Rightarrow> Ok ()) (\<lambda>_.
          and_then (ensure (connects rpc_url credentials) RpcUnreachable) (\<lambda>_.
          and_then (poll_chain answers 0) (\<lambda>rpc_chain.
          and_then (ensure (rpc_chain = ord_chain) (ChainMismatch rpc_chain ord_chain)) (\<lambda>_.
          Ok (rpc_url, credentials)))))))
      | _ \<Rightarrow> None)"

text \<open>The file \<open>uri\<close> of the calendar: \<open>None\<close> where it is absent, \<open>Some None\<close> where it cannot be read.\<close>

definition load_active_uri :: "string option option \<Rightarrow> (unit, string option) result" where
  "load_active_uri content =
     (case content of None \<Rightarrow> Ok None | Some None \<Rightarrow> Err () | Some (Some uri) \<Rightarrow> Ok (Some (trim uri)))"

definition load_active_timestamp_url :: "string option option \<Rightarrow> (unit, string option) result" where
  "load_active_timestamp_url content =
     and_then (load_active_uri content) (\<lambda>uri.
     Ok (map_option (\<lambda>u. trim_end_matches (CHR ''/'') u @ ''/timestamp'') uri))"

definition calendar_listen_of :: "settings \<Rightarrow> string" where
  "calendar_listen_of s = unwrap_or (cfg_calendar_listen s) ''127.0.0.1:14788''"

definition calendar_uri_of :: "settings \<Rightarrow> string" where
  "calendar_uri_of s = unwrap_or (cfg_calendar_uri s) ''http://127.0.0.1:14788''"

definition calendar_timestamp_url :: "(string \<Rightarrow> string option option) \<Rightarrow> settings \<Rightarrow> string option option" where
  "calendar_timestamp_url file_content s =
     (case cfg_calendar_url s of
        Some url \<Rightarrow> Some (Some url)
      | None \<Rightarrow>
          Option.bind (if cfg_calendar_enabled s then Some True
            else map_option (\<lambda>c. c = Regtest) (cfg_chain s)) (\<lambda>active.
          if \<not> active then Some None
          else Option.bind (cfg_data_dir s) (\<lambda>data_dir.
            case load_active_timestamp_url (file_content (path_join (path_join data_dir ''calendar'') ''uri'')) of
              Ok (Some url) \<Rightarrow> Some (Some url)
            | _ \<Rightarrow> Some (Some (''http://'' @ calendar_listen_of s @ ''/timestamp'')))))"

definition lightning_listen_of :: "settings \<Rightarrow> string" where
  "lightning_listen_of s = unwrap_or (cfg_lightning_listen s) ''127.0.0.1:9735''"

definition ecash_config_of :: "settings \<Rightarrow> (config_error, ecash_config) result" where
  "ecash_config_of s =
     new_ecash_config (cfg_ecash_enabled s) (settings_mint_urls s) (settings_threshold_sats s)
       (cfg_ecash_mint_allowlist s)"

definition settlement_settings_of :: "settings \<Rightarrow> settlement_settings" where
  "settlement_settings_of s =
     \<lparr>ss_threshold_sats = settings_threshold_sats s, ss_contract_amount_sats = settings_contract_amount_sats s,
      ss_challenge_fee_sats = settings_challenge_fee_sats s\<rparr>"

definition settlement_app_settings_of :: "settings \<Rightarrow> app_settings" where
  "settlement_app_settings_of s =
     \<lparr>as_ecash_enabled = cfg_ecash_enabled s, as_ecash_mint_urls = settings_mint_urls s,
      as_ecash_mint_allowlist = cfg_ecash_mint_allowlist s\<rparr>"

text \<open>With the feature \<open>lightning\<close>; \<open>cookie\<close> is the content of a file, if it can be read.\<close>

definition settlement_chain_context ::
  "machine \<Rightarrow> (string \<Rightarrow> string option) \<Rightarrow> settings \<Rightarrow> (settings_error, chain_context) result option" where
  "settlement_chain_context m cookie s =
     (case (cfg_data_dir s, cfg_chain s, settings_rpc_url s None, bitcoin_credentials m s) of
        (Some data_dir, Some chain, Some rpc_url, Some credentials) \<Rightarrow> Some (
          let context = \<lparr>cc_chain_data_dir = data_dir, cc_network = chain_network chain,
                cc_bitcoin_rpc_url = rpc_url, cc_lightning_listen = lightning_listen_of s, cc_bitcoin_cookie = None,
                cc_bitcoin_rpc_user = None, cc_bitcoin_rpc_password = None\<rparr>
          in and_then credentials (\<lambda>credentials. case credentials of
               UserPass user password \<Rightarrow>
                 Ok (context\<lparr>cc_bitcoin_rpc_user := Some user, cc_bitcoin_rpc_password := Some password\<rparr>)
             | CookieFile path \<Rightarrow> (case read_cookie_credentials (cookie path) of
                   Err e \<Rightarrow> Err (BadCookie e)
                 | Ok (user, password) \<Rightarrow>
                     Ok (context\<lparr>cc_bitcoin_cookie := Some (cookie path), cc_bitcoin_rpc_user := Some user,
                       cc_bitcoin_rpc_password := Some password\<rparr>))))
      | _ \<Rightarrow> None)"

section \<open>What merged settings guarantee\<close>

lemma or_else_simps [simp]: "or_else (Some x) b = Some x" "or_else None b = b" "or_else a None = a"
  by (simp_all add: or_else_def split: option.splits)

lemma or_else_assoc: "or_else (or_else a b) c = or_else a (or_else b c)"
  by (cases a) (simp_all add: or_else_def)

text \<open>Layers form a monoid: the order of the merges does not matter, only the order of the layers.\<close>

lemma settings_or_assoc: "settings_or (settings_or a b) c = settings_or a (settings_or b c)"
  by (simp add: settings_or_def or_else_assoc disj_assoc)

lemma settings_or_default [simp]: "settings_or s default_settings = s" "settings_or default_settings s = s"
  by (cases s; simp add: settings_or_def default_settings_def)+

text \<open>Every setting that the program unwraps is present, and what belongs together is consistent.\<close>

definition complete :: "settings \<Rightarrow> bool" where
  "complete s \<longleftrightarrow> cfg_chain s \<noteq> None \<and> cfg_data_dir s \<noteq> None \<and> cfg_index s \<noteq> None \<and>
     cfg_index_cache_size s \<noteq> None \<and> cfg_bitcoin_rpc_url s \<noteq> None \<and> cfg_bitcoin_rpc_limit s \<noteq> None \<and>
     cfg_commit_interval s \<noteq> None \<and> cfg_savepoint_interval s \<noteq> None \<and> cfg_max_savepoints s \<noteq> None \<and>
     cfg_cookie_file s \<noteq> None"

definition consistent :: "settings \<Rightarrow> bool" where
  "consistent s \<longleftrightarrow>
     (cfg_bitcoin_rpc_username s = None \<longleftrightarrow> cfg_bitcoin_rpc_password s = None) \<and>
     (cfg_server_username s = None \<longleftrightarrow> cfg_server_password s = None) \<and>
     \<not> (cfg_encrypted_only_preference s \<and> cfg_open_to_unencrypted s) \<and>
     is_ok (ecash_config_of s) \<and> 0 < settings_contract_amount_sats s \<and> 0 < settings_challenge_fee_sats s \<and>
     (cfg_ecash_enabled s \<longrightarrow> 0 < settings_threshold_sats s)"

lemma or_defaults_complete: "or_defaults m s = Ok s' \<Longrightarrow> complete s'"
  by (auto simp: or_defaults_def complete_def and_then_eq_Ok Let_def)

lemma mints_allowed_check: "mints_allowed allowlist urls = Ok () \<Longrightarrow> check_mints allowlist urls = Ok ()"
  by (induction urls) (auto split: if_splits)

lemma validate_ecash_config: "validate_ecash s = Ok () \<Longrightarrow> is_ok (ecash_config_of s)"
  using mints_allowed_check
  by (auto simp: validate_ecash_def ecash_config_of_def new_ecash_config_def validate_for_use_def
      validate_mint_allowlist_def settings_validate_mint_allowlist_def Let_def split: if_splits option.splits)

lemma check_pair_Ok: "check_pair u p e1 e2 = Ok () \<longleftrightarrow> (u = None \<longleftrightarrow> p = None)"
  by (auto simp: check_pair_def split: option.splits)

lemma validate_settings_consistent: "validate_settings s = Ok () \<Longrightarrow> consistent s"
  using validate_ecash_config [of s]
  by (auto simp: validate_settings_def consistent_def ok_elims check_pair_Ok validate_ecash_def
      validate_settlement_pricing_def settings_contract_amount_sats_def settings_challenge_fee_sats_def unwrap_or_def
      word_neq_0_conv split: if_splits option.splits)

lemma merge_settings_Ok:
  assumes "merge_settings m opts env = Ok s"
  shows "\<exists>e config. from_env env = Ok e \<and>
     or_defaults m (settings_or (settings_or (from_options opts) e) config) = Ok s \<and> validate_settings s = Ok ()"
  using assms by (auto simp: merge_settings_def ok_elims Let_def)

text \<open>C34: Settings that load without an error are complete: no reader of them panics. They are also
  consistent: credentials come in pairs, the two storage preferences are not both set, the configuration
  of ecash derived from them is valid, amounts and fees are not zero, and with ecash neither is the
  threshold.\<close>

theorem merged_settings_complete:
  assumes "load_settings m opts vars = Ok s"
  shows "complete s \<and> consistent s"
proof -
  from assms obtain env where "merge_settings m opts env = Ok s" by (auto simp: load_settings_def ok_elims)
  from merge_settings_Ok [OF this] show ?thesis
    using or_defaults_complete validate_settings_consistent by blast
qed

definition toy_machine :: machine where
  "toy_machine = \<lparr>home_dir = Some ''/h'', sys_data_dir = Some ''/s'', total_memory_bytes = 4000,
     file_exists = (\<lambda>p. False), read_config = (\<lambda>p. None)\<rparr>"

definition toy_options :: options where
  "toy_options = \<lparr>opt_bitcoin_data_dir = None, opt_bitcoin_rpc_password = None, opt_bitcoin_rpc_url = None,
     opt_bitcoin_rpc_username = None, opt_bitcoin_rpc_limit = None, opt_commit_interval = None,
     opt_savepoint_interval = None, opt_max_savepoints = None, opt_config = None, opt_config_dir = None,
     opt_cookie_file = None, opt_data_dir = Some ''/d'', opt_height_limit = None, opt_index = None,
     opt_index_addresses = False, opt_index_cache_size = None, opt_index_sats = True,
     opt_integration_test = False, opt_server_password = None, opt_server_username = None,
     opt_chain_argument = None, opt_regtest = False, opt_signet = True, opt_testnet = False, opt_testnet4 = False\<rparr>"

lemma from_env_empty: "from_env Map.empty = Ok default_settings"
  by (simp add: from_env_def get_parsed_def get_bool_def default_settings_def)

definition toy_merged :: settings where
  "toy_merged = default_settings\<lparr>cfg_bitcoin_data_dir := Some ''/h/.bitcoin'', cfg_bitcoin_rpc_limit := Some 12,
     cfg_bitcoin_rpc_url := Some (''127.0.0.1:'' @ show_word (38332 :: u16)), cfg_chain := Some Signet,
     cfg_commit_interval := Some 5000, cfg_cookie_file := Some ''/h/.bitcoin/signet/.cookie'',
     cfg_data_dir := Some ''/d/signet'', cfg_index := Some ''/d/signet/index'', cfg_index_cache_size := Some 1000,
     cfg_index_sats := True, cfg_max_savepoints := Some 2, cfg_savepoint_interval := Some 10\<rparr>"

lemma toy_merge: "load_settings toy_machine toy_options [(Some ''PATH'', Some ''/bin'')] = Ok toy_merged"
proof -
  have "or_defaults toy_machine (settings_or (settings_or (from_options toy_options) default_settings) default_settings) =
      Ok toy_merged"
    unfolding settings_or_default
    by (simp add: or_defaults_def Let_def bitcoin_dir_def from_options_def toy_options_def toy_machine_def then_some_def
        unwrap_or_def join_with_data_dir_def path_join_def chain_default_rpc_port_def toy_merged_def default_settings_def)
  moreover have "validate_settings toy_merged = Ok ()"
    by (simp add: validate_settings_def check_pair_def toy_merged_def default_settings_def validate_ecash_def
        settings_validate_mint_allowlist_def validate_settlement_pricing_def)
  moreover have "config_path toy_machine (settings_or (from_options toy_options) default_settings) = Ok None"
    unfolding settings_or_default
    by (simp add: config_path_def Let_def from_options_def toy_options_def toy_machine_def)
  ultimately show ?thesis
    by (simp add: load_settings_def merge_settings_def from_env_empty load_config_def strip_prefix_def starts_with_def)
qed

theorem merged_settings_complete_witness: "complete toy_merged \<and> consistent toy_merged"
  by (rule merged_settings_complete [OF toy_merge])

section \<open>Precedence\<close>

text \<open>A setting with a value is taken from the command line if it is given there, else from the
  environment, else from the file, else from the default; a switch is on as soon as one layer turns it on,
  so that none can turn it off.\<close>

theorem settings_precedence:
  assumes "from_env env = Ok e" and "config_path m (settings_or (from_options opts) e) = Ok path"
    and "load_config m path = Ok f" and "merge_settings m opts env = Ok s"
  shows "cfg_chain s = Some (unwrap_or (or_else (cfg_chain (from_options opts)) (or_else (cfg_chain e) (cfg_chain f))) Mainnet) \<and>
    cfg_bitcoin_rpc_limit s =
      Some (unwrap_or (or_else (opt_bitcoin_rpc_limit opts) (or_else (cfg_bitcoin_rpc_limit e) (cfg_bitcoin_rpc_limit f))) 12) \<and>
    cfg_savepoint_interval s =
      Some (unwrap_or (or_else (opt_savepoint_interval opts) (or_else (cfg_savepoint_interval e) (cfg_savepoint_interval f))) 10) \<and>
    cfg_max_savepoints s =
      Some (unwrap_or (or_else (opt_max_savepoints opts) (or_else (cfg_max_savepoints e) (cfg_max_savepoints f))) 2) \<and>
    cfg_commit_interval s =
      Some (unwrap_or (or_else (opt_commit_interval opts) (or_else (cfg_commit_interval e) (cfg_commit_interval f))) 5000) \<and>
    cfg_height_limit s = or_else (opt_height_limit opts) (or_else (cfg_height_limit e) (cfg_height_limit f)) \<and>
    cfg_http_port s = or_else (cfg_http_port e) (cfg_http_port f) \<and>
    (cfg_index_sats s \<longleftrightarrow> opt_index_sats opts \<or> cfg_index_sats e \<or> cfg_index_sats f) \<and>
    (cfg_ecash_enabled s \<longleftrightarrow> cfg_ecash_enabled e \<or> cfg_ecash_enabled f)"
proof -
  let ?l = "settings_or (settings_or (from_options opts) e) f"
  from assms have d: "or_defaults m ?l = Ok s" by (auto simp: merge_settings_def ok_elims Let_def)
  then have eq: "cfg_chain s = Some (unwrap_or (cfg_chain ?l) Mainnet)"
    "cfg_bitcoin_rpc_limit s = Some (unwrap_or (cfg_bitcoin_rpc_limit ?l) 12)"
    "cfg_savepoint_interval s = Some (unwrap_or (cfg_savepoint_interval ?l) 10)"
    "cfg_max_savepoints s = Some (unwrap_or (cfg_max_savepoints ?l) 2)"
    "cfg_commit_interval s = Some (unwrap_or (cfg_commit_interval ?l) 5000)"
    "cfg_height_limit s = cfg_height_limit ?l" "cfg_http_port s = cfg_http_port ?l"
    "cfg_index_sats s = cfg_index_sats ?l" "cfg_ecash_enabled s = cfg_ecash_enabled ?l"
    unfolding or_defaults_def by (auto simp: ok_elims Let_def)
  show ?thesis unfolding eq settings_or_assoc
    by (simp add: settings_or_def from_options_def)
qed

section \<open>The chain of a directory\<close>

lemma file_name_last:
  assumes "name \<noteq> []" "CHR ''/'' \<notin> set name"
  shows "path_file_name (path_join d name) = Some name"
proof -
  have trim: "trim_end_matches (CHR ''/'') (p @ name) = p @ name" for p
    using assms by (cases name rule: rev_cases) (simp_all add: trim_end_matches_def)
  have hit: "takeWhile (\<lambda>c. c \<noteq> CHR ''/'') (rev (p @ name)) = rev name" if "p = [] \<or> last p = CHR ''/''" for p
    using that assms(2) by (cases p rule: rev_cases) (auto simp: takeWhile_append)
  consider "path_join d name = name" | p where "path_join d name = p @ name" "p \<noteq> []" "last p = CHR ''/''"
    by (cases "d = []"; cases "last d = CHR ''/''") (auto simp: path_join_def)
  then show ?thesis
  proof cases
    case 1
    with trim [of "[]"] hit [of "[]"] assms show ?thesis
      by (simp add: path_file_name_def takeWhile_eq_all_conv [THEN iffD2])
  next
    case 2
    with trim [of p] hit [of p] assms(1) show ?thesis by (simp add: path_file_name_def Let_def)
  qed
qed

definition chain_names :: "string set" where
  "chain_names = {''regtest'', ''signet'', ''testnet3'', ''testnet4''}"

text \<open>The chain that the mempool and the calendar infer from the directory of the data is the
  configured one, except on mainnet with a directory that is named like another chain: there they use the
  profile of that chain.\<close>

theorem inferred_chain_exact:
  "from_chain_scoped_data_dir (path_file_name (join_with_data_dir c dir)) = c \<longleftrightarrow>
   (c = Mainnet \<longrightarrow> path_file_name dir \<notin> Some ` chain_names)"
  by (cases c) (auto simp: join_with_data_dir_def file_name_last from_chain_scoped_data_dir_def chain_names_def)

theorem inferred_chain_exact_witness:
  "from_chain_scoped_data_dir (path_file_name (join_with_data_dir Mainnet ''/data/signet'')) \<noteq> Mainnet"
  using inferred_chain_exact [of Mainnet "''/data/signet''"]
  by (simp add: path_file_name_def trim_end_matches_def chain_names_def)

section \<open>Settings and settlement\<close>

text \<open>From settings that load, with a running node of the same chain and a ledger that opens, the
  coordinator of settlements can be built exactly if the threshold between the rails is not zero. A
  threshold of zero is accepted as long as ecash is disabled, and then no contract can be settled.\<close>

theorem coordinator_from_settings:
  assumes load: "load_settings m opts vars = Ok s"
    and ctx: "settlement_chain_context m cookie s = Some (Ok chain)"
    and node: "ln_chain_data_dir node = cc_chain_data_dir chain" "ln_network node = cc_network chain"
  shows "is_ok (coordinator_for_chain_with_lightning socket hex api starts True outcome chain
           (settlement_settings_of s) (settlement_app_settings_of s) (Some node)) \<longleftrightarrow>
         settings_threshold_sats s \<noteq> 0"
proof -
  from load obtain env where "merge_settings m opts env = Ok s" by (auto simp: load_settings_def ok_elims)
  from merge_settings_Ok [OF this] have "consistent s" using validate_settings_consistent by blast
  then obtain config where "ecash_config_of s = Ok config" by (auto simp: consistent_def is_ok_iff)
  then show ?thesis
    by (auto simp: coordinator_for_chain_with_lightning_def chain_lightning_def node ecash_config_of_def
        settlement_settings_of_def settlement_app_settings_of_def new_coordinator_def)
qed

theorem coordinator_from_settings_witness:
  "let s = toy_merged;
       chain = \<lparr>cc_chain_data_dir = ''/d/signet'', cc_network = NetSignet,
         cc_bitcoin_rpc_url = ''127.0.0.1:'' @ show_word (38332 :: u16) @ ''/'', cc_lightning_listen = ''127.0.0.1:9735'',
         cc_bitcoin_cookie = Some (Some ''u:p''), cc_bitcoin_rpc_user = Some ''u'',
         cc_bitcoin_rpc_password = Some ''p''\<rparr>;
       node = toy_node\<lparr>ln_chain_data_dir := ''/d/signet'', ln_network := NetSignet\<rparr>
   in is_ok (coordinator_for_chain_with_lightning (\<lambda>a. None) (\<lambda>r. ''07'') toy_api False True None chain
        (settlement_settings_of s) (settlement_app_settings_of s) (Some node))"
proof -
  have ctx: "settlement_chain_context toy_machine (\<lambda>f. Some ''u:p'') toy_merged = Some (Ok
      \<lparr>cc_chain_data_dir = ''/d/signet'', cc_network = NetSignet,
         cc_bitcoin_rpc_url = ''127.0.0.1:'' @ show_word (38332 :: u16) @ ''/'', cc_lightning_listen = ''127.0.0.1:9735'',
         cc_bitcoin_cookie = Some (Some ''u:p''), cc_bitcoin_rpc_user = Some ''u'',
         cc_bitcoin_rpc_password = Some ''p''\<rparr>)"
    by (simp add: settlement_chain_context_def toy_merged_def default_settings_def settings_rpc_url_def
        bitcoin_credentials_def settings_cookie_file_def chain_network_def lightning_listen_of_def unwrap_or_def
        read_cookie_credentials_def trim_def is_blank_def starts_with_def Let_def)
  show ?thesis
    unfolding Let_def
    by (subst coordinator_from_settings [OF toy_merge ctx])
      (simp_all add: toy_merged_def default_settings_def settings_threshold_sats_def unwrap_or_def)
qed

text \<open>The default port of the endpoint is chosen in two places, which disagree on testnet4.\<close>

lemma default_ports_agree: "default_rpc_port (chain_network c) = chain_default_rpc_port c \<longleftrightarrow> c \<noteq> Testnet4"
  by (cases c) (simp_all add: default_rpc_port_def chain_network_def chain_default_rpc_port_def)

text \<open>An empty list of peers in the environment is a list with one empty peer, unlike the lists of mints.\<close>

lemma empty_peer_list:
  assumes "from_env [''P2P_BOOTSTRAP_PEERS'' \<mapsto> [], ''ECASH_MINT_URLS'' \<mapsto> []] = Ok s"
  shows "cfg_p2p_bootstrap_peers s = Some [[]] \<and> cfg_ecash_mint_urls s = Some []"
  using assms by (auto simp: from_env_def get_parsed_def trim_def)

end
