(* ===== verification/Archive.thy ===== *)
theory Archive
  imports Commit "HOL-Library.Char_ord"
begin

text \<open>
  The archives of Casey's \<open>filepack\<close> (\<open>lord-storage/src/filepack_cbor.rs\<close>): a tree of source
  files packed into blobs under their hashes, and its verification. The hash function, the
  CBOR codec and the bech32m encoder are third-party code, the record \<open>archive_env\<close>. The two
  recursions that follow hashes through an archive are partial: not returning is \<open>None\<close>.
\<close>

section \<open>Data\<close>

type_synonym ('k, 'v) btree = "('k \<times> 'v) list"

datatype entry_type = FileType | DirectoryType

datatype version = Zero

record entry =
  en_ty :: entry_type
  en_hash :: bytes
  en_size :: u64

record directory =
  dir_version :: version
  dir_entries :: "(string, entry) btree"

record archive =
  ar_version :: version
  ar_root :: bytes
  ar_files :: "(bytes, bytes) btree"

record carbonado_binding =
  bn_bao_root :: string
  bn_format :: u8
  bn_carbonado_path :: string

record source_file_entry =
  sf_hash :: bytes
  sf_size :: u64

record compat_manifest =
  cp_cbor :: bytes
  cp_fingerprint :: string
  cp_sidecar :: bytes

record casey_package_file =
  pf_path :: string
  pf_hash :: bytes
  pf_size :: u64

text \<open>A package tree is the map of its entries.\<close>

datatype package_tree_entry =
    PackageDirectory "(string, package_tree_entry) btree"
  | PackageFile source_file_entry

type_synonym package_tree = "(string, package_tree_entry) btree"

record archive_env =
  ae_hash :: "bytes \<Rightarrow> bytes"
  ae_write_dir :: "directory \<Rightarrow> bytes"
  ae_read_dir :: "bytes \<Rightarrow> directory option"
  ae_write_archive :: "archive \<Rightarrow> bytes"
  ae_read_archive :: "bytes \<Rightarrow> archive option"
  ae_write_sidecar :: "(string, carbonado_binding) btree \<Rightarrow> bytes"
  ae_read_sidecar :: "bytes \<Rightarrow> (string, carbonado_binding) btree option"
  ae_bech32 :: "bytes \<Rightarrow> string"

definition PACKAGE_COMPONENT :: string where "PACKAGE_COMPONENT = ''package''"

definition SIGNATURES_COMPONENT :: string where "SIGNATURES_COMPONENT = ''signatures''"

section \<open>Packing\<close>

text \<open>The walk down the components of a path.\<close>

fun insert_components ::
  "string \<Rightarrow> source_file_entry \<Rightarrow> string list \<Rightarrow> package_tree \<Rightarrow> (storage_error, package_tree) result" where
  "insert_components path f [] tree = Ok tree"
| "insert_components path f [component] tree =
     (if map_of tree component \<noteq> None then Err (DuplicatePath path)
      else Ok (btree_insert component (PackageFile f) tree))"
| "insert_components path f (component # components) tree =
     (case map_of tree component of
        Some (PackageFile _) \<Rightarrow> Err (FileInPath path)
      | Some (PackageDirectory sub) \<Rightarrow>
          and_then (insert_components path f components sub) (\<lambda>sub'.
          Ok (btree_insert component (PackageDirectory sub') tree))
      | None \<Rightarrow>
          and_then (insert_components path f components []) (\<lambda>sub'.
          Ok (btree_insert component (PackageDirectory sub') tree)))"

definition insert_file :: "string \<Rightarrow> source_file_entry \<Rightarrow> package_tree \<Rightarrow> (storage_error, package_tree) result" where
  "insert_file path f tree = insert_components path f (split_on CHR ''/'' path) tree"

fun insert_files :: "(string, source_file_entry) btree \<Rightarrow> package_tree \<Rightarrow> (storage_error, package_tree) result" where
  "insert_files [] tree = Ok tree"
| "insert_files ((path, f) # fs) tree = and_then (insert_file path f tree) (insert_files fs)"

text \<open>\<open>ArchiveBuilder::entry\<close>, on the blobs of the builder.\<close>

definition builder_entry ::
  "archive_env \<Rightarrow> entry_type \<Rightarrow> bytes \<Rightarrow> (bytes, bytes) btree \<Rightarrow> entry \<times> (bytes, bytes) btree" where
  "builder_entry env ty content files =
     (let hash = ae_hash env content
      in (\<lparr>en_ty = ty, en_hash = hash, en_size = word_of_nat (length content)\<rparr>, btree_insert hash content files))"

text \<open>\<open>ArchiveBuilder::directory\<close> and the match in its loop.\<close>

fun builder_directory ::
    "archive_env \<Rightarrow> package_tree \<Rightarrow> (bytes, bytes) btree \<Rightarrow> (string, entry) btree \<times> (bytes, bytes) btree"
  and builder_encoded ::
    "archive_env \<Rightarrow> package_tree_entry \<Rightarrow> (bytes, bytes) btree \<Rightarrow> entry \<times> (bytes, bytes) btree" where
  "builder_directory env [] files = ([], files)"
| "builder_directory env ((name, e) # tree) files =
     (let (encoded, files') = builder_encoded env e files;
          (entries, files'') = builder_directory env tree files'
      in ((name, encoded) # entries, files''))"
| "builder_encoded env (PackageFile f) files =
     (\<lparr>en_ty = FileType, en_hash = sf_hash f, en_size = sf_size f\<rparr>, files)"
| "builder_encoded env (PackageDirectory tree) files =
     (let (entries, files') = builder_directory env tree files
      in builder_entry env DirectoryType (ae_write_dir env \<lparr>dir_version = Zero, dir_entries = entries\<rparr>) files')"

definition build_package ::
  "archive_env \<Rightarrow> entry \<Rightarrow> entry list \<Rightarrow> (bytes, bytes) btree \<Rightarrow> archive" where
  "build_package env package signatures files =
     (let signatures_directory = \<lparr>dir_version = Zero,
            dir_entries = fold (\<lambda>(i, e). btree_insert (show_nat i) e) (enumerate 0 signatures) []\<rparr>;
          (signatures_entry, files') = builder_entry env DirectoryType (ae_write_dir env signatures_directory) files;
          root_directory = \<lparr>dir_version = Zero,
            dir_entries = btree_insert SIGNATURES_COMPONENT signatures_entry
              (btree_insert PACKAGE_COMPONENT package [])\<rparr>;
          (root_entry, files'') = builder_entry env DirectoryType (ae_write_dir env root_directory) files'
      in \<lparr>ar_version = Zero, ar_root = en_hash root_entry, ar_files = files''\<rparr>)"

definition read_directory :: "archive_env \<Rightarrow> archive \<Rightarrow> bytes \<Rightarrow> (storage_error, directory) result" where
  "read_directory env a hash =
     and_then (ok_or (map_of (ar_files a) hash) BlobMissing) (\<lambda>content.
     ok_or (ae_read_dir env content) ArchiveUnreadable)"

definition fingerprint_for_archive :: "archive_env \<Rightarrow> archive \<Rightarrow> (storage_error, string) result" where
  "fingerprint_for_archive env a =
     and_then (read_directory env a (ar_root a)) (\<lambda>root_directory.
     and_then (ok_or (map_of (dir_entries root_directory) PACKAGE_COMPONENT) (EntryMissing PACKAGE_COMPONENT)) (\<lambda>package.
     Ok (ae_bech32 env (en_hash package))))"

definition casey_archive_fingerprint :: "archive_env \<Rightarrow> bytes \<Rightarrow> (storage_error, string) result" where
  "casey_archive_fingerprint env cbor =
     and_then (ok_or (ae_read_archive env cbor) ArchiveUnreadable) (fingerprint_for_archive env)"

definition pack_compat_manifest ::
  "archive_env \<Rightarrow> (string, source_file_entry) btree \<Rightarrow> (string, carbonado_binding) btree \<Rightarrow>
   (storage_error, compat_manifest) result" where
  "pack_compat_manifest env source_files bindings =
     and_then (insert_files source_files []) (\<lambda>package.
     let (package_entry, files) = builder_encoded env (PackageDirectory package) [];
         a = build_package env package_entry [] files
     in and_then (fingerprint_for_archive env a) (\<lambda>fingerprint.
        Ok \<lparr>cp_cbor = ae_write_archive env a, cp_fingerprint = fingerprint,
          cp_sidecar = ae_write_sidecar env bindings\<rparr>))"

section \<open>Verifying\<close>

text \<open>Results of recursions that may not return.\<close>

definition try_then ::
  "('e, 'a) result option \<Rightarrow> ('a \<Rightarrow> ('e, 'b) result option) \<Rightarrow> ('e, 'b) result option" where
  "try_then r f = (case r of None \<Rightarrow> None | Some (Err e) \<Rightarrow> Some (Err e) | Some (Ok x) \<Rightarrow> f x)"

fun try_fold ::
  "('s \<Rightarrow> 'x \<Rightarrow> ('e, 's) result option) \<Rightarrow> 's \<Rightarrow> 'x list \<Rightarrow> ('e, 's) result option" where
  "try_fold f s [] = Some (Ok s)"
| "try_fold f s (x # xs) = try_then (f s x) (\<lambda>s'. try_fold f s' xs)"

lemma try_then_simps [simp]:
  "try_then None f = None" "try_then (Some (Err e)) f = Some (Err e)" "try_then (Some (Ok x)) f = f x"
  by (simp_all add: try_then_def)

lemma try_then_mono [partial_function_mono]:
  assumes "mono_option B" "\<And>x. mono_option (\<lambda>g. C x g)"
  shows "mono_option (\<lambda>g. try_then (B g) (\<lambda>x. C x g))"
proof (rule monotoneI)
  fix f g :: "'a \<Rightarrow> 'b option"
  assume fg: "fun_ord option_ord f g"
  have B: "B f = None \<or> B f = B g" and C: "C x f = None \<or> C x f = C x g" for x
    using assms fg by (auto simp: monotone_def flat_ord_def)
  show "option_ord (try_then (B f) (\<lambda>x. C x f)) (try_then (B g) (\<lambda>x. C x g))"
  proof (cases "B g")
    case (Some r)
    then show ?thesis using B C by (cases r) (force simp: flat_ord_def)+
  qed (use B in \<open>simp add: flat_ord_def\<close>)
qed

lemma try_fold_mono [partial_function_mono]:
  assumes "\<And>s x. mono_option (\<lambda>g. C s x g)"
  shows "mono_option (\<lambda>g. try_fold (\<lambda>s x. C s x g) s xs)"
proof (induction xs arbitrary: s)
  case (Cons x xs)
  show ?case unfolding try_fold.simps by (rule try_then_mono [OF assms Cons.IH])
qed (simp add: monotone_def flat_ord_def)

partial_function (option) absorb_referenced_hashes ::
  "archive_env \<Rightarrow> archive \<Rightarrow> bytes set \<Rightarrow> bytes \<Rightarrow> (storage_error, bytes set) result option" where
  "absorb_referenced_hashes env a loose hash =
     (case map_of (ar_files a) hash of
        None \<Rightarrow> Some (Ok (loose - {hash}))
      | Some content \<Rightarrow> (case ae_read_dir env content of
          None \<Rightarrow> Some (Err ArchiveUnreadable)
        | Some directory \<Rightarrow>
            try_fold (\<lambda>loose (name, e).
              case en_ty e of
                FileType \<Rightarrow> Some (Ok (if map_of (ar_files a) (en_hash e) \<noteq> None then loose - {en_hash e} else loose))
              | DirectoryType \<Rightarrow> absorb_referenced_hashes env a loose (en_hash e))
            (loose - {hash}) (dir_entries directory)))"

partial_function (option) collect_package_files ::
  "archive_env \<Rightarrow> archive \<Rightarrow> bytes \<Rightarrow> string \<Rightarrow> (storage_error, casey_package_file list) result option" where
  "collect_package_files env a hash prefix =
     (case read_directory env a hash of
        Err e \<Rightarrow> Some (Err e)
      | Ok directory \<Rightarrow>
          try_fold (\<lambda>files (name, e).
            let path = (if prefix = [] then name else prefix @ ''/'' @ name)
            in case en_ty e of
                FileType \<Rightarrow> Some (Ok (files @ [\<lparr>pf_path = path, pf_hash = en_hash e, pf_size = en_size e\<rparr>]))
              | DirectoryType \<Rightarrow> try_then (collect_package_files env a (en_hash e) path) (\<lambda>sub. Some (Ok (files @ sub))))
          [] (dir_entries directory))"

definition directory_entry :: "directory \<Rightarrow> string \<Rightarrow> (storage_error, entry) result" where
  "directory_entry directory name =
     and_then (ok_or (map_of (dir_entries directory) name) (EntryMissing name)) (\<lambda>e.
     and_then (ensure (en_ty e = DirectoryType) (EntryNotDirectory name)) (\<lambda>_. Ok e))"

text \<open>\<open>verify_casey_archive\<close> once the blobs have their hashes.\<close>

definition verify_structure ::
  "archive_env \<Rightarrow> archive \<Rightarrow> (storage_error, casey_package_file list) result option" where
  "verify_structure env a =
     try_then (Some (read_directory env a (ar_root a))) (\<lambda>root_directory.
     try_then (absorb_referenced_hashes env a (fst ` set (ar_files a)) (ar_root a)) (\<lambda>loose.
     try_then (Some (directory_entry root_directory PACKAGE_COMPONENT)) (\<lambda>package.
     try_then (Some (directory_entry root_directory SIGNATURES_COMPONENT)) (\<lambda>signatures.
     try_then (absorb_referenced_hashes env a loose (en_hash signatures)) (\<lambda>loose.
     try_then (collect_package_files env a (en_hash package) []) (\<lambda>package_files.
     Some (and_then (ensure (loose = {}) LooseFiles) (\<lambda>_. Ok package_files))))))))"

definition hashes_checked :: "archive_env \<Rightarrow> archive \<Rightarrow> bool" where
  "hashes_checked env a = list_all (\<lambda>(expected, content). ae_hash env content = expected) (ar_files a)"

definition verify_casey_archive ::
  "archive_env \<Rightarrow> bytes \<Rightarrow> (storage_error, casey_package_file list) result option" where
  "verify_casey_archive env cbor =
     try_then (Some (ok_or (ae_read_archive env cbor) ArchiveUnreadable)) (\<lambda>a.
     try_then (Some (ensure (hashes_checked env a) BlobHashMismatch)) (\<lambda>_.
     verify_structure env a))"

section \<open>Sidecars\<close>

definition encode_carbonado_sidecar :: "archive_env \<Rightarrow> (string, carbonado_binding) btree \<Rightarrow> bytes" where
  "encode_carbonado_sidecar env bindings = ae_write_sidecar env bindings"

definition decode_carbonado_sidecar ::
  "archive_env \<Rightarrow> bytes \<Rightarrow> (storage_error, (string, carbonado_binding) btree) result" where
  "decode_carbonado_sidecar env bs = ok_or (ae_read_sidecar env bs) ArchiveUnreadable"

fun check_all ::
  "('a \<Rightarrow> bool) \<Rightarrow> ('a \<Rightarrow> storage_error) \<Rightarrow> 'a list \<Rightarrow> (storage_error, unit) result" where
  "check_all ok e [] = Ok ()"
| "check_all ok e (x # xs) = and_then (ensure (ok x) (e x)) (\<lambda>_. check_all ok e xs)"

definition ensure_casey_bindings_match_sidecar ::
  "casey_package_file list \<Rightarrow> (string, carbonado_binding) btree \<Rightarrow> (storage_error, unit) result" where
  "ensure_casey_bindings_match_sidecar package_files bindings =
     and_then (ensure (length package_files = length bindings) BindingCountMismatch) (\<lambda>_.
     and_then (check_all (\<lambda>f. map_of bindings (pf_path f) \<noteq> None) (\<lambda>f. BindingMissing (pf_path f)) package_files) (\<lambda>_.
     check_all (\<lambda>path. path \<in> pf_path ` set package_files) PackageFileMissing (map fst bindings)))"

end
