(* ===== verification/Carbonado.thy ===== *)
theory Carbonado
  imports Commit
begin

text \<open>
  Encoding files into Carbonado containers and reading them back (\<open>lord-storage/src/encode.rs\<close>,
  \<open>verify.rs\<close>, \<open>decode.rs\<close>, \<open>master_key.rs\<close>, \<open>format.rs\<close>, \<open>paths.rs\<close>), on the data directory of
  \<open>Commit\<close>. The container format is a library: its encoder, decoder, header parser, header
  authentication and slice check are the record \<open>carbonado\<close>. The master key lies in a file of its own
  with its permissions; which writes of an operation succeed, the clock and the random numbers
  are given for each call. The temporary file inside \<open>atomic_write\<close> is not part of the model.
\<close>

section \<open>Formats and paths\<close>

definition parse_u8 :: "string \<Rightarrow> (parse_int_error, u8) result" where
  "parse_u8 s = (case parse_uint 255 s of Err e \<Rightarrow> Err e | Ok n \<Rightarrow> Ok (word_of_nat n))"

definition parse_format :: "string \<Rightarrow> u8 option" where
  "parse_format input =
     (let digits = (case strip_prefix ''c'' input of Some d \<Rightarrow> d | None \<Rightarrow> input)
      in case parse_u8 digits of Err _ \<Rightarrow> None | Ok format \<Rightarrow> if 15 < format then None else Some format)"

definition carbonado_relative_path :: "string \<Rightarrow> u8 \<Rightarrow> string" where
  "carbonado_relative_path bao_root_hex format = bao_root_hex @ ''.c'' @ show_word format"

definition carbonado_temp :: "string \<Rightarrow> string" where
  "carbonado_temp name = ''carbonado/.'' @ name @ ''.tmp''"

section \<open>The master key\<close>

record key_file =
  kf_bytes :: bytes
  kf_mode :: u32

text \<open>How the creation of the key file ends. The mode before \<open>chmod\<close> comes from the umask; another
  process may have created the file first.\<close>

datatype key_outcome =
    KeyCreated
  | KeyNotCreated
  | KeyWriteFailed bytes
  | KeyChmodFailed
  | KeyRaced key_file

record key_env =
  ke_unhex :: "string \<Rightarrow> bytes option"
  ke_outcome :: key_outcome
  ke_random :: bytes
  ke_default_mode :: u32

definition parse_master_key_bytes :: "bytes \<Rightarrow> (storage_error, bytes) result" where
  "parse_master_key_bytes bs = (if length bs = 32 then Ok bs else Err BadKeyLength)"

definition parse_master_key_hex :: "key_env \<Rightarrow> string \<Rightarrow> (storage_error, bytes) result" where
  "parse_master_key_hex ke hex = and_then (ok_or (ke_unhex ke hex) BadKeyHex) parse_master_key_bytes"

definition validate_master_key_permissions :: "key_file \<Rightarrow> (storage_error, unit) result" where
  "validate_master_key_permissions f = ensure (and (kf_mode f) 63 = 0) (KeyTooPermissive (kf_mode f))"

definition read_master_key_file :: "key_file \<Rightarrow> (storage_error, bytes) result" where
  "read_master_key_file f =
     and_then (validate_master_key_permissions f) (\<lambda>_. parse_master_key_bytes (kf_bytes f))"

definition load_or_create_master_key ::
  "key_env \<Rightarrow> string option \<Rightarrow> key_file option \<Rightarrow> key_file option \<times> (storage_error, bytes) result" where
  "load_or_create_master_key ke master_key_hex k =
     (case master_key_hex of
        Some hex \<Rightarrow> (k, parse_master_key_hex ke hex)
      | None \<Rightarrow> (case k of
          Some f \<Rightarrow> (k, read_master_key_file f)
        | None \<Rightarrow>
            (let key = ke_random ke in
             case ke_outcome ke of
               KeyCreated \<Rightarrow> (Some \<lparr>kf_bytes = key, kf_mode = 384\<rparr>, Ok key)
             | KeyNotCreated \<Rightarrow> (None, Err KeyNotWritten)
             | KeyWriteFailed written \<Rightarrow>
                 (Some \<lparr>kf_bytes = written, kf_mode = ke_default_mode ke\<rparr>, Err KeyNotWritten)
             | KeyChmodFailed \<Rightarrow> (Some \<lparr>kf_bytes = key, kf_mode = ke_default_mode ke\<rparr>, Err KeyNotWritten)
             | KeyRaced f \<Rightarrow> (Some f, read_master_key_file f))))"

definition public_master_key :: bytes where
  "public_master_key = replicate 32 0"

definition master_key_for_format ::
  "key_env \<Rightarrow> u8 \<Rightarrow> string option \<Rightarrow> key_file option \<Rightarrow> key_file option \<times> (storage_error, bytes) result" where
  "master_key_for_format ke format master_key_hex k =
     (if format mod 2 = 0 then (k, Ok public_master_key) else load_or_create_master_key ke master_key_hex k)"

definition load_master_key ::
  "key_env \<Rightarrow> string option \<Rightarrow> key_file option \<Rightarrow> (storage_error, bytes) result" where
  "load_master_key ke master_key_hex k =
     (case master_key_hex of
        Some hex \<Rightarrow> parse_master_key_hex ke hex
      | None \<Rightarrow> (case k of None \<Rightarrow> Err MissingKey | Some f \<Rightarrow> read_master_key_file f))"

definition master_key_for_verify ::
  "key_env \<Rightarrow> u8 \<Rightarrow> string option \<Rightarrow> key_file option \<Rightarrow> (storage_error, bytes) result" where
  "master_key_for_verify ke format master_key_hex k =
     (if format mod 2 = 0 then Ok public_master_key else load_master_key ke master_key_hex k)"

section \<open>Containers\<close>

text \<open>The fields of a header that are authenticated, integers as their little-endian bytes.\<close>

record header =
  hd_hash :: bytes
  hd_format :: u8
  hd_payload_nonce :: bytes
  hd_slh_public_key :: bytes
  hd_chunk_index :: bytes
  hd_encoded_len :: u32
  hd_padding_len :: bytes
  hd_metadata :: "bytes option"
  hd_mac :: bytes

record carbonado =
  cb_encode :: "bytes \<Rightarrow> bytes \<Rightarrow> u8 \<Rightarrow> bytes option"
  cb_decode :: "bytes \<Rightarrow> bytes \<Rightarrow> (header \<times> bytes) option"
  cb_header :: "bytes \<Rightarrow> header option"
  cb_header_len :: nat
  cb_magic :: bytes
  cb_mac :: "bytes \<Rightarrow> bytes \<Rightarrow> bytes option"
  cb_verifiable :: "u8 \<Rightarrow> bool"
  cb_slice_len :: u32
  cb_verify_slice :: "bytes \<Rightarrow> u32 \<Rightarrow> bytes \<Rightarrow> u8 \<Rightarrow> bool"

definition auth_data :: "carbonado \<Rightarrow> header \<Rightarrow> bytes" where
  "auth_data cb h =
     cb_magic cb @ hd_payload_nonce h @ hd_hash h @ hd_slh_public_key h @ [hd_format h] @ hd_chunk_index h @
     le_bytes 4 (unat (hd_encoded_len h)) @ hd_padding_len h @
     (case hd_metadata h of Some m \<Rightarrow> m | None \<Rightarrow> replicate 8 0)"

definition constant_time_eq :: "bytes \<Rightarrow> bytes \<Rightarrow> bool" where
  "constant_time_eq a b =
     (if length a \<noteq> length b then False
      else fold (\<lambda>(left, right) diff. or diff (xor left right)) (zip a b) 0 = 0)"

definition authenticate_header :: "carbonado \<Rightarrow> bytes \<Rightarrow> header \<Rightarrow> (storage_error, unit) result" where
  "authenticate_header cb master_key h =
     and_then (ok_or (cb_mac cb master_key (auth_data cb h)) MacFailed) (\<lambda>expected_mac.
     ensure (constant_time_eq expected_mac (hd_mac h)) HeaderAuthFailed)"

section \<open>Encoding\<close>

record encode_options =
  eo_format :: u8
  eo_layout :: layout
  eo_master_key_hex :: "string option"
  eo_plaintext :: "bytes option"

record encode_result =
  er_bao_root_hex :: string
  er_carbonado_path :: string
  er_format :: u8
  er_layout :: layout
  er_visibility :: visibility
  er_outboard_plaintext :: "string option"

record encode_io =
  ei_temp :: bool
  ei_temp_plain :: bool
  ei_clock :: "u64 option"
  ei_publish :: bool
  ei_publish_plain :: bool
  ei_commit :: bool

definition io_pure :: "'a \<Rightarrow> ('s, 'a) io" where
  "io_pure x s = (s, Ok x)"

definition rename_file :: "bool \<Rightarrow> string \<Rightarrow> string \<Rightarrow> (data_dir, unit) io" where
  "rename_file ok from to d =
     (case (ok, dd_files d from) of
        (True, Some contents) \<Rightarrow> (d\<lparr>dd_files := (dd_files d)(from := None, to \<mapsto> contents)\<rparr>, Ok ())
      | _ \<Rightarrow> (d, Err PublishFailed))"

definition outboard_plaintext_name :: "string \<Rightarrow> u8 \<Rightarrow> layout \<Rightarrow> string option" where
  "outboard_plaintext_name bao_root_hex format lay =
     (if visibility_from_format format = Public \<and> lay = Outboard then Some (bao_root_hex @ ''.plain'') else None)"

definition publish_encoded ::
  "commit_env \<Rightarrow> encode_io \<Rightarrow> u8 \<Rightarrow> layout \<Rightarrow> bytes \<Rightarrow> bytes \<Rightarrow> bytes \<Rightarrow> (data_dir, encode_result) io" where
  "publish_encoded env w format lay bao_root encoded plaintext =
     (let hex = env_hex env bao_root;
          relative_path = carbonado_relative_path hex format;
          path = ''carbonado/'' @ relative_path;
          plain = outboard_plaintext_name hex format lay
      in
      io_then (write_file (ei_temp w) (StorageError FileWriteFailed) (carbonado_temp relative_path) encoded) (\<lambda>_.
      io_then (case plain of None \<Rightarrow> io_pure ()
        | Some name \<Rightarrow> write_file (ei_temp_plain w) (StorageError FileWriteFailed) (carbonado_temp name) plaintext) (\<lambda>_.
      io_then (io_lift (\<lambda>_. ok_or (ei_clock w) (StorageError ClockBeforeEpoch))) (\<lambda>created_at.
      io_then (rename_file (ei_publish w) (carbonado_temp relative_path) path) (\<lambda>_.
      io_then (case plain of None \<Rightarrow> io_pure ()
        | Some name \<Rightarrow> rename_file (ei_publish_plain w) (carbonado_temp name) (''carbonado/'' @ name)) (\<lambda>_.
      io_then (transaction (ei_commit w) CommitFailed
        (\<lambda>st. Ok (put_commitment (env_codec env) (new_meta bao_root relative_path format lay created_at) st))) (\<lambda>_.
      io_pure \<lparr>er_bao_root_hex = hex, er_carbonado_path = relative_path, er_format = format, er_layout = lay,
        er_visibility = visibility_from_format format, er_outboard_plaintext = plain\<rparr>)))))))"

text \<open>The state is the data directory and the key file; \<open>input\<close> is what reading the file gives.\<close>

definition encode_file_with_store ::
  "commit_env \<Rightarrow> key_env \<Rightarrow> carbonado \<Rightarrow> encode_io \<Rightarrow> bytes option \<Rightarrow> encode_options \<Rightarrow>
   (data_dir \<times> key_file option, encode_result) io" where
  "encode_file_with_store env ke cb w input opts = (\<lambda>(d, k).
     if 15 < eo_format opts then ((d, k), Err (StorageError (InvalidFormat (eo_format opts))))
     else case (case eo_plaintext opts of Some bs \<Rightarrow> Some bs | None \<Rightarrow> input) of
         None \<Rightarrow> ((d, k), Err (StorageError InputUnreadable))
       | Some plaintext \<Rightarrow> (case master_key_for_format ke (eo_format opts) (eo_master_key_hex opts) k of
             (k', Err e) \<Rightarrow> ((d, k'), Err (StorageError e))
           | (k', Ok master_key) \<Rightarrow> (case cb_encode cb master_key plaintext (eo_format opts) of
                 None \<Rightarrow> ((d, k'), Err (StorageError EncodeRefused))
               | Some encoded \<Rightarrow> (case cb_header cb encoded of
                     None \<Rightarrow> ((d, k'), Err (StorageError BadHeader))
                   | Some h \<Rightarrow>
                       (case publish_encoded env w (eo_format opts) (eo_layout opts) (hd_hash h) encoded plaintext d of
                          (d', r) \<Rightarrow> ((d', k'), r))))))"

definition encode_file ::
  "commit_env \<Rightarrow> key_env \<Rightarrow> carbonado \<Rightarrow> encode_io \<Rightarrow> bytes option \<Rightarrow> encode_options \<Rightarrow>
   (data_dir \<times> key_file option, encode_result) io" where
  "encode_file env ke cb w input opts = (\<lambda>(d, k).
     case open_data_dir env d of
       (d', Err e) \<Rightarrow> ((d', k), Err e)
     | (d', Ok _) \<Rightarrow> encode_file_with_store env ke cb w input opts (d', k))"

section \<open>Verification\<close>

record verify_result =
  vr_bao_root :: string
  vr_slices_verified :: u32
  vr_total_slices :: u32

definition div_ceil :: "u32 \<Rightarrow> u32 \<Rightarrow> u32" where
  "div_ceil a b = a div b + (if a mod b = 0 then 0 else 1)"

definition verify_sampled_slice ::
  "carbonado \<Rightarrow> bytes \<Rightarrow> bytes \<Rightarrow> u32 \<Rightarrow> bytes \<Rightarrow> u8 \<Rightarrow> (storage_error, unit) result" where
  "verify_sampled_slice cb body decoded index bao_root format =
     (if length decoded \<le> unat index * unat (cb_slice_len cb) then Ok ()
      else ensure (cb_verify_slice cb body index bao_root format) (SliceRefused index))"

fun verify_slices ::
  "carbonado \<Rightarrow> bytes \<Rightarrow> bytes \<Rightarrow> bytes \<Rightarrow> u8 \<Rightarrow> u32 list \<Rightarrow> (storage_error, unit) result" where
  "verify_slices cb body decoded bao_root format [] = Ok ()"
| "verify_slices cb body decoded bao_root format (index # indices) =
     and_then (verify_sampled_slice cb body decoded index bao_root format) (\<lambda>_.
     verify_slices cb body decoded bao_root format indices)"

text \<open>The checks of the header that the verifications share.\<close>

definition check_header ::
  "key_env \<Rightarrow> carbonado \<Rightarrow> string option \<Rightarrow> key_file option \<Rightarrow> commitment_meta \<Rightarrow> bytes \<Rightarrow> bytes \<Rightarrow>
   (storage_error, header \<times> bytes) result" where
  "check_header ke cb master_key_hex k m bao_root encoded =
     and_then (ok_or (cb_header cb encoded) BadHeader) (\<lambda>h.
     and_then (ensure (hd_hash h = bao_root) HeaderHashMismatch) (\<lambda>_.
     and_then (ensure (hd_format h = cm_format m) (HeaderFormatMismatch (cm_format m) (hd_format h))) (\<lambda>_.
     and_then (master_key_for_verify ke (cm_format m) master_key_hex k) (\<lambda>master_key.
     and_then (authenticate_header cb master_key h) (\<lambda>_. Ok (h, master_key))))))"

definition read_container ::
  "commitment_meta \<Rightarrow> data_dir \<Rightarrow> (storage_error, bytes) result" where
  "read_container m d =
     and_then (ok_or (carbonado_file (cm_carbonado_path m)) UnsafePath) (\<lambda>path.
     ok_or (dd_files d path) (FileUnreadable path))"

text \<open>\<open>shuffle\<close> is the random order of the slices.\<close>

definition verify_container ::
  "key_env \<Rightarrow> carbonado \<Rightarrow> (u32 list \<Rightarrow> u32 list) \<Rightarrow> u32 \<Rightarrow> string option \<Rightarrow> key_file option \<Rightarrow>
   string \<Rightarrow> bytes \<Rightarrow> commitment_meta \<Rightarrow> bytes \<Rightarrow> (storage_error, verify_result) result" where
  "verify_container ke cb shuffle sample_rate master_key_hex k bao_root_hex bao_root m encoded =
     and_then (check_header ke cb master_key_hex k m bao_root encoded) (\<lambda>(h, master_key).
     and_then (ensure (cb_verifiable cb (cm_format m)) (NotVerifiable (cm_format m))) (\<lambda>_.
     let body = drop (cb_header_len cb) encoded;
         total_slices = div_ceil (hd_encoded_len h) (cb_slice_len cb)
     in if total_slices = 0
        then Ok \<lparr>vr_bao_root = bao_root_hex, vr_slices_verified = 0, vr_total_slices = 0\<rparr>
        else
          let samples = min sample_rate total_slices;
              indices = take (unat samples) (shuffle (map word_of_nat [0 ..< unat total_slices]))
          in and_then (ok_or (cb_decode cb master_key encoded) DecodeRefused) (\<lambda>(decoded_header, decoded).
             and_then (ensure (hd_hash decoded_header = bao_root) HeaderHashMismatch) (\<lambda>_.
             and_then (verify_slices cb body decoded bao_root (cm_format m) indices) (\<lambda>_.
             Ok \<lparr>vr_bao_root = bao_root_hex, vr_slices_verified = samples, vr_total_slices = total_slices\<rparr>)))))"

definition verify_commitment ::
  "commit_env \<Rightarrow> key_env \<Rightarrow> carbonado \<Rightarrow> (u32 list \<Rightarrow> u32 list) \<Rightarrow> u32 \<Rightarrow> string option \<Rightarrow> key_file option \<Rightarrow>
   string \<Rightarrow> (data_dir, verify_result) io" where
  "verify_commitment env ke cb shuffle sample_rate master_key_hex k bao_root_hex =
     io_then (io_lift (\<lambda>_. ensure (0 < sample_rate) (StorageError ZeroSampleRate))) (\<lambda>_.
     io_then (io_lift (\<lambda>_. parse_bao_root env bao_root_hex)) (\<lambda>bao_root.
     io_then (open_data_dir env) (\<lambda>_.
     io_then (io_lift (known_commitment env bao_root)) (\<lambda>m.
     io_then (io_lift (\<lambda>d. map_error StorageError (read_container m d))) (\<lambda>encoded.
     io_lift (\<lambda>_. map_error StorageError
       (verify_container ke cb shuffle sample_rate master_key_hex k bao_root_hex bao_root m encoded)))))))"

definition verify_carbonado_header_binding ::
  "key_env \<Rightarrow> carbonado \<Rightarrow> key_file option \<Rightarrow> commitment_meta \<Rightarrow> bytes \<Rightarrow> data_dir \<Rightarrow> (storage_error, unit) result" where
  "verify_carbonado_header_binding ke cb k m bao_root d =
     and_then (read_container m d) (\<lambda>encoded.
     and_then (check_header ke cb None k m bao_root encoded) (\<lambda>_. Ok ()))"

section \<open>Decoding public contents\<close>

definition max_encoded_bytes_for_decode :: "carbonado \<Rightarrow> u64 \<Rightarrow> u64" where
  "max_encoded_bytes_for_decode cb max_decoded_bytes =
     saturating_add (saturating_add (word_of_nat (cb_header_len cb)) (saturating_mul max_decoded_bytes 2)) (1024 * 1024)"

definition DEFAULT_MAX_DECODED_PAYLOAD_BYTES :: u64 where
  "DEFAULT_MAX_DECODED_PAYLOAD_BYTES = 32 * 1024 * 1024"

datatype decode_error =
    Oversized u64
  | EncodedFileTooLarge u64 u64
  | CarbonadoNotFound string
  | InvalidPath
  | PrivateFormat
  | InvalidHeader
  | HeaderNotAuthentic
  | HeaderBindingMismatch
  | FormatMismatch u8 u8
  | CorruptPayload
  | InternalError storage_error

text \<open>A file of the data directory that is there can be read, so that the error of an unreadable file
  (\<open>CarbonadoIo\<close>) does not occur.\<close>

definition read_carbonado_file :: "string \<Rightarrow> u64 \<Rightarrow> data_dir \<Rightarrow> (decode_error, bytes) result" where
  "read_carbonado_file path max_encoded_bytes d =
     and_then (ok_or (dd_files d path) (CarbonadoNotFound path)) (\<lambda>encoded.
     let size = word_of_nat (length encoded)
     in if max_encoded_bytes < size then Err (EncodedFileTooLarge size max_encoded_bytes) else Ok encoded)"

definition read_bao_content_len :: "bytes \<Rightarrow> u64 option" where
  "read_bao_content_len body =
     (if length body < 8 then None else Some (word_of_nat (le_val (take 8 body))))"

definition map_header_auth_error :: "storage_error \<Rightarrow> decode_error" where
  "map_header_auth_error e = (if e = HeaderAuthFailed then HeaderNotAuthentic else InternalError e)"

definition decode_public_commitment_content_with_encoded_cap ::
  "carbonado \<Rightarrow> commitment_meta \<Rightarrow> bytes \<Rightarrow> u64 \<Rightarrow> u64 \<Rightarrow> data_dir \<Rightarrow> (decode_error, bytes) result" where
  "decode_public_commitment_content_with_encoded_cap cb m bao_root max_decoded_bytes max_encoded_bytes d =
     and_then (ok_or (carbonado_file (cm_carbonado_path m)) InvalidPath) (\<lambda>path.
     and_then (ensure (cm_format m mod 2 = 0) PrivateFormat) (\<lambda>_.
     and_then (read_carbonado_file path max_encoded_bytes d) (\<lambda>encoded.
     and_then (ok_or (cb_header cb encoded) InvalidHeader) (\<lambda>h.
     and_then (ensure (hd_hash h = bao_root) HeaderBindingMismatch) (\<lambda>_.
     and_then (ensure (hd_format h = cm_format m) (FormatMismatch (cm_format m) (hd_format h))) (\<lambda>_.
     and_then (map_error map_header_auth_error (authenticate_header cb public_master_key h)) (\<lambda>_.
     and_then (ok_or (read_bao_content_len (drop (cb_header_len cb) encoded)) CorruptPayload) (\<lambda>content_len.
     and_then (ensure (content_len \<le> max_decoded_bytes) (Oversized max_decoded_bytes)) (\<lambda>_.
     and_then (ok_or (cb_decode cb public_master_key encoded) CorruptPayload) (\<lambda>(decoded_header, decoded).
     and_then (ensure (hd_hash decoded_header = bao_root) HeaderBindingMismatch) (\<lambda>_.
     and_then (ensure (word_of_nat (length decoded) \<le> max_decoded_bytes) (Oversized max_decoded_bytes)) (\<lambda>_.
     Ok decoded))))))))))))"

definition decode_public_commitment_content ::
  "carbonado \<Rightarrow> commitment_meta \<Rightarrow> bytes \<Rightarrow> u64 \<Rightarrow> data_dir \<Rightarrow> (decode_error, bytes) result" where
  "decode_public_commitment_content cb m bao_root max_decoded_bytes d =
     decode_public_commitment_content_with_encoded_cap cb m bao_root max_decoded_bytes
       (max_encoded_bytes_for_decode cb max_decoded_bytes) d"

text \<open>\<open>str::from_utf8\<close>, as the code points of the text.\<close>

definition cont :: "u8 \<Rightarrow> bool" where "cont b \<longleftrightarrow> 0x80 \<le> b \<and> b \<le> 0xBF"

definition low :: "u8 \<Rightarrow> nat" where "low b = unat b mod 64"

fun from_utf8 :: "bytes \<Rightarrow> nat list option" where
  "from_utf8 [] = Some []"
| "from_utf8 (a # bs) =
     (if a < 0x80 then map_option ((#) (unat a)) (from_utf8 bs)
      else if 0xC2 \<le> a \<and> a \<le> 0xDF then
        (case bs of
           b # bs' \<Rightarrow> if cont b then map_option ((#) (unat a mod 32 * 64 + low b)) (from_utf8 bs') else None
         | [] \<Rightarrow> None)
      else if 0xE0 \<le> a \<and> a \<le> 0xEF then
        (case bs of
           b # c # bs' \<Rightarrow>
             if cont b \<and> cont c \<and> (a = 0xE0 \<longrightarrow> 0xA0 \<le> b) \<and> (a = 0xED \<longrightarrow> b \<le> 0x9F)
             then map_option ((#) ((unat a mod 16 * 64 + low b) * 64 + low c)) (from_utf8 bs') else None
         | _ \<Rightarrow> None)
      else if 0xF0 \<le> a \<and> a \<le> 0xF4 then
        (case bs of
           b # c # d # bs' \<Rightarrow>
             if cont b \<and> cont c \<and> cont d \<and> (a = 0xF0 \<longrightarrow> 0x90 \<le> b) \<and> (a = 0xF4 \<longrightarrow> b \<le> 0x8F)
             then map_option ((#) (((unat a mod 8 * 64 + low b) * 64 + low c) * 64 + low d)) (from_utf8 bs') else None
         | _ \<Rightarrow> None)
      else None)"

definition is_control :: "nat \<Rightarrow> bool" where
  "is_control ch \<longleftrightarrow> ch < 32 \<or> 127 \<le> ch \<and> ch < 160"

definition is_likely_text :: "bytes \<Rightarrow> bool" where
  "is_likely_text payload =
     (payload \<noteq> [] \<and> (case from_utf8 payload of
        None \<Rightarrow> False
      | Some text \<Rightarrow> list_all (\<lambda>ch. \<not> is_control ch \<or> ch \<in> {10, 13, 9}) text))"

definition bytes_of_string :: "string \<Rightarrow> bytes" where
  "bytes_of_string s = map of_char s"

definition content_type_for_decoded_payload :: "bytes \<Rightarrow> string" where
  "content_type_for_decoded_payload payload =
     (let starts = (\<lambda>p. take (length p) payload = p) in
      if starts (0x89 # bytes_of_string ''PNG'' @ [13, 10, 26, 10]) then ''image/png''
      else if starts [0xFF, 0xD8, 0xFF] then ''image/jpeg''
      else if 12 \<le> length payload \<and> starts (bytes_of_string ''RIFF'') \<and>
          take 4 (drop 8 payload) = bytes_of_string ''WEBP'' then ''image/webp''
      else if starts (bytes_of_string ''GIF87a'') \<or> starts (bytes_of_string ''GIF89a'') then ''image/gif''
      else if starts (bytes_of_string ''%PDF'') then ''application/pdf''
      else if is_likely_text payload then ''text/plain; charset=utf-8''
      else ''application/octet-stream'')"

end
