(* ===== verification/Filepack.thy ===== *)
theory Filepack
  imports Archive Carbonado
begin

text \<open>
  Filepacks (\<open>lord-storage/src/filepack.rs\<close>): a directory encoded file by file, its manifest in
  JSON or as an archive with a sidecar, the binding of the records to the manifest, its rollback,
  and the verification of a pack. What the file system lists and reads is the record
  \<open>source_dir\<close>; names of files are UTF-8, fingerprints contain no separator, and the removal of a
  temporary file does not fail.
\<close>

section \<open>Data\<close>

text \<open>\<open>Untyped\<close> is an entry whose type cannot be read, \<open>Subdirectory None\<close> a directory that cannot.\<close>

datatype fs_node =
    RegularFile
  | Symlink
  | SpecialFile
  | Untyped
  | Subdirectory "(string \<times> fs_node) list option"

record source_dir =
  sd_listing :: "(string \<times> fs_node) list option"
  sd_read :: "string \<Rightarrow> bytes option"
  sd_name :: "string option"

record filepack_entry =
  fe_path :: string
  fe_size :: u64
  fe_bao_root :: string
  fe_format :: u8

record filepack_manifest =
  fm_version :: u32
  fm_fingerprint :: string
  fm_root :: string
  fm_entries :: "filepack_entry list"

record create_filepack_options =
  co_format :: u8
  co_layout :: layout
  co_master_key_hex :: "string option"
  co_filepack_compat :: bool

record filepack_env =
  fp_archive :: archive_env
  fp_json :: "filepack_manifest \<Rightarrow> bytes"
  fp_unjson :: "bytes \<Rightarrow> filepack_manifest option"

text \<open>Which writes succeed; \<open>fw_encode\<close> gives those of the encoding of each file.\<close>

record filepack_io =
  fw_encode :: "nat \<Rightarrow> encode_io"
  fw_manifest_temp :: bool
  fw_sidecar_temp :: bool
  fw_commit :: bool
  fw_publish_sidecar :: bool
  fw_publish_manifest :: bool
  fw_rollback :: bool

section \<open>Walking a directory\<close>

definition replace_backslashes :: "string \<Rightarrow> string" where
  "replace_backslashes s = map (\<lambda>c. if c = CHR 0x5C then CHR ''/'' else c) s"

definition relative_path :: "string \<Rightarrow> string \<Rightarrow> string" where
  "relative_path parent name = (if parent = [] then name else parent @ ''/'' @ name)"

fun walk_files :: "string \<Rightarrow> (string \<times> fs_node) list \<Rightarrow> (storage_error, string list) result"
  and walk_entry :: "string \<Rightarrow> fs_node \<Rightarrow> (storage_error, string list) result" where
  "walk_files parent [] = Ok []"
| "walk_files parent ((name, node) # listing) =
     and_then (walk_entry (relative_path parent name) node) (\<lambda>paths.
     and_then (walk_files parent listing) (\<lambda>paths'. Ok (paths @ paths')))"
| "walk_entry path RegularFile = Ok [replace_backslashes path]"
| "walk_entry path Symlink = Ok []"
| "walk_entry path SpecialFile = Ok []"
| "walk_entry path Untyped = Err (FileUnreadable path)"
| "walk_entry path (Subdirectory None) = Err (FileUnreadable path)"
| "walk_entry path (Subdirectory (Some listing)) = walk_files path listing"

section \<open>Fingerprints and paths\<close>

definition fingerprint_bytes :: "filepack_entry \<Rightarrow> bytes" where
  "fingerprint_bytes e = bytes_of_string (fe_path e) @ le_bytes 8 (unat (fe_size e)) @
     bytes_of_string (fe_bao_root e) @ [fe_format e]"

definition fingerprint_for_entries :: "commit_env \<Rightarrow> filepack_env \<Rightarrow> filepack_entry list \<Rightarrow> string" where
  "fingerprint_for_entries env fenv entries =
     env_hex env (ae_hash (fp_archive fenv) (concat (map fingerprint_bytes entries)))"

definition filepack_root :: "string \<Rightarrow> string" where
  "filepack_root fingerprint = ''filepack/'' @ fingerprint @ ''/''"

definition manifest_path :: "string \<Rightarrow> string" where
  "manifest_path fingerprint = filepack_root fingerprint @ ''manifest.filepack''"

definition manifest_temp :: "string \<Rightarrow> string" where
  "manifest_temp fingerprint = filepack_root fingerprint @ ''.manifest.filepack.tmp''"

definition sidecar_path :: "string \<Rightarrow> string" where
  "sidecar_path fingerprint = filepack_root fingerprint @ ''lord.carbonado.cbor''"

definition sidecar_temp :: "string \<Rightarrow> string" where
  "sidecar_temp fingerprint = filepack_root fingerprint @ ''.lord.carbonado.cbor.tmp''"

section \<open>Creation\<close>

text \<open>What the loop over the files collects.\<close>

record encoded_files =
  ef_entries :: "filepack_entry list"
  ef_sources :: "(string, source_file_entry) btree"
  ef_bindings :: "(string, carbonado_binding) btree"

definition encode_options_of :: "create_filepack_options \<Rightarrow> bytes \<Rightarrow> encode_options" where
  "encode_options_of opts bs = \<lparr>eo_format = co_format opts, eo_layout = co_layout opts,
     eo_master_key_hex = co_master_key_hex opts, eo_plaintext = Some bs\<rparr>"

definition add_encoded ::
  "filepack_env \<Rightarrow> bool \<Rightarrow> string \<Rightarrow> bytes \<Rightarrow> encode_result \<Rightarrow> encoded_files \<Rightarrow> encoded_files" where
  "add_encoded fenv casey path bs r acc =
     (let size = word_of_nat (length bs);
          entries = ef_entries acc @ [\<lparr>fe_path = path, fe_size = size, fe_bao_root = er_bao_root_hex r,
            fe_format = er_format r\<rparr>]
      in if casey
         then \<lparr>ef_entries = entries,
           ef_sources = btree_insert path \<lparr>sf_hash = ae_hash (fp_archive fenv) bs, sf_size = size\<rparr> (ef_sources acc),
           ef_bindings = btree_insert path \<lparr>bn_bao_root = er_bao_root_hex r, bn_format = er_format r,
             bn_carbonado_path = er_carbonado_path r\<rparr> (ef_bindings acc)\<rparr>
         else acc\<lparr>ef_entries := entries\<rparr>)"

fun encode_entries ::
  "commit_env \<Rightarrow> key_env \<Rightarrow> carbonado \<Rightarrow> filepack_env \<Rightarrow> (nat \<Rightarrow> encode_io) \<Rightarrow> source_dir \<Rightarrow>
   create_filepack_options \<Rightarrow> nat \<Rightarrow> string list \<Rightarrow> encoded_files \<Rightarrow>
   (data_dir \<times> key_file option, encoded_files) io" where
  "encode_entries env ke cb fenv ws src opts i [] acc = io_pure acc"
| "encode_entries env ke cb fenv ws src opts i (path # paths) acc =
     io_then (io_lift (\<lambda>_. ok_or (sd_read src path) (StorageError (FileUnreadable path)))) (\<lambda>bs.
     io_then (encode_file_with_store env ke cb (ws i) None (encode_options_of opts bs)) (\<lambda>r.
     encode_entries env ke cb fenv ws src opts (Suc i) paths
       (add_encoded fenv (co_filepack_compat opts) path bs r acc)))"

text \<open>The manifest, its bytes and those of the sidecar.\<close>

definition make_manifest ::
  "commit_env \<Rightarrow> filepack_env \<Rightarrow> bool \<Rightarrow> string \<Rightarrow> encoded_files \<Rightarrow>
   (storage_error, filepack_manifest \<times> bytes \<times> bytes option) result" where
  "make_manifest env fenv casey root acc =
     (if casey
      then and_then (pack_compat_manifest (fp_archive fenv) (ef_sources acc) (ef_bindings acc)) (\<lambda>c.
        Ok (\<lparr>fm_version = 2, fm_fingerprint = cp_fingerprint c, fm_root = root, fm_entries = ef_entries acc\<rparr>,
          cp_cbor c, Some (cp_sidecar c)))
      else
        let m = \<lparr>fm_version = 1, fm_fingerprint = fingerprint_for_entries env fenv (ef_entries acc),
          fm_root = root, fm_entries = ef_entries acc\<rparr>
        in Ok (m, fp_json fenv m, None))"

text \<open>The loop of \<open>commit_filepack_metadata\<close>: the previous bindings, and the store.\<close>

fun bind_entries ::
  "commit_env \<Rightarrow> string \<Rightarrow> filepack_entry list \<Rightarrow> commitment_store \<Rightarrow>
   (commit_error, (bytes \<times> string option) list \<times> commitment_store) result" where
  "bind_entries env fingerprint [] st = Ok ([], st)"
| "bind_entries env fingerprint (e # entries) st =
     and_then (parse_bao_root env (fe_bao_root e)) (\<lambda>bao_root.
     and_then (map_error StoreError (get_commitment (env_codec env) st bao_root)) (\<lambda>found.
     and_then (map_error StoreError (update_filepack_fp (env_codec env) bao_root fingerprint st)) (\<lambda>st'.
     and_then (bind_entries env fingerprint entries st') (\<lambda>(previous, st'').
     Ok ((bao_root, Option.bind found cm_filepack_fp) # previous, st'')))))"

definition commit_filepack_metadata ::
  "commit_env \<Rightarrow> bool \<Rightarrow> filepack_manifest \<Rightarrow> (data_dir, (bytes \<times> string option) list) io" where
  "commit_filepack_metadata env committed m d =
     (case bind_entries env (fm_fingerprint m) (fm_entries m) (dd_store d) of
        Err e \<Rightarrow> (d, Err e)
      | Ok (previous, st) \<Rightarrow> if committed then (d\<lparr>dd_store := st\<rparr>, Ok previous) else (d, Err CommitFailed))"

fun restore_fps ::
  "commit_env \<Rightarrow> (bytes \<times> string option) list \<Rightarrow> commitment_store \<Rightarrow> (store_error, commitment_store) result" where
  "restore_fps env [] st = Ok st"
| "restore_fps env ((bao_root, previous_fp) # previous) st =
     and_then (get_commitment (env_codec env) st bao_root) (\<lambda>found.
     restore_fps env previous (case found of
         None \<Rightarrow> st
       | Some m \<Rightarrow> put_commitment (env_codec env) (m\<lparr>cm_filepack_fp := previous_fp\<rparr>) st))"

definition rollback_filepack_metadata ::
  "commit_env \<Rightarrow> bool \<Rightarrow> (bytes \<times> string option) list \<Rightarrow> (data_dir, unit) io" where
  "rollback_filepack_metadata env committed previous = transaction committed RollbackFailed (restore_fps env previous)"

text \<open>A rename whose failure rolls the bindings back and removes files.\<close>

definition publish_or_rollback ::
  "commit_env \<Rightarrow> bool \<Rightarrow> bool \<Rightarrow> (bytes \<times> string option) list \<Rightarrow> string \<Rightarrow> string \<Rightarrow> string list \<Rightarrow> (data_dir, unit) io" where
  "publish_or_rollback env ok rolled_back previous from to cleanup d =
     (case rename_file ok from to d of
        (d', Ok _) \<Rightarrow> (d', Ok ())
      | (d', Err e) \<Rightarrow>
          io_then (rollback_filepack_metadata env rolled_back previous) (\<lambda>_ d. (fold remove_file cleanup d, Err e)) d')"

definition publish_filepack ::
  "commit_env \<Rightarrow> filepack_io \<Rightarrow> filepack_manifest \<Rightarrow> bytes \<Rightarrow> bytes option \<Rightarrow> (data_dir, filepack_manifest) io" where
  "publish_filepack env w m manifest_bytes sidecar_bytes =
     (let fp = fm_fingerprint m in
      io_then (write_file (fw_manifest_temp w) (StorageError FileWriteFailed) (manifest_temp fp) manifest_bytes) (\<lambda>_.
      io_then (case sidecar_bytes of None \<Rightarrow> io_pure ()
        | Some sidecar \<Rightarrow> write_file (fw_sidecar_temp w) (StorageError FileWriteFailed) (sidecar_temp fp) sidecar) (\<lambda>_.
      io_then (commit_filepack_metadata env (fw_commit w) m) (\<lambda>previous.
      io_then (case sidecar_bytes of None \<Rightarrow> io_pure ()
        | Some _ \<Rightarrow> publish_or_rollback env (fw_publish_sidecar w) (fw_rollback w) previous
            (sidecar_temp fp) (sidecar_path fp) [sidecar_temp fp, manifest_temp fp]) (\<lambda>_.
      io_then (publish_or_rollback env (fw_publish_manifest w) (fw_rollback w) previous
            (manifest_temp fp) (manifest_path fp)
            (manifest_temp fp # (case sidecar_bytes of None \<Rightarrow> [] | Some _ \<Rightarrow> [sidecar_path fp]))) (\<lambda>_.
      io_pure m))))))"

text \<open>An operation on the data directory, the key file aside.\<close>

definition on_dir :: "(data_dir, 'a) io \<Rightarrow> (data_dir \<times> key_file option, 'a) io" where
  "on_dir m = (\<lambda>(d, k). case m d of (d', r) \<Rightarrow> ((d', k), r))"

definition create_filepack ::
  "commit_env \<Rightarrow> key_env \<Rightarrow> carbonado \<Rightarrow> filepack_env \<Rightarrow> filepack_io \<Rightarrow> source_dir \<Rightarrow> create_filepack_options \<Rightarrow>
   (data_dir \<times> key_file option, filepack_manifest) io" where
  "create_filepack env ke cb fenv w src opts =
     io_then (io_lift (\<lambda>_. ok_or (sd_listing src) (StorageError NotADirectory))) (\<lambda>listing.
     io_then (io_lift (\<lambda>_. map_error StorageError (walk_files [] listing))) (\<lambda>paths.
     io_then (io_lift (\<lambda>_. ensure (paths \<noteq> []) (StorageError NoFiles))) (\<lambda>_.
     io_then (on_dir (open_data_dir env)) (\<lambda>_.
     io_then (encode_entries env ke cb fenv (fw_encode w) src opts 0 (sort paths)
       \<lparr>ef_entries = [], ef_sources = [], ef_bindings = []\<rparr>) (\<lambda>acc.
     io_then (io_lift (\<lambda>_. map_error StorageError
       (make_manifest env fenv (co_filepack_compat opts) (case sd_name src of Some n \<Rightarrow> n | None \<Rightarrow> ''.'') acc)))
       (\<lambda>(m, manifest_bytes, sidecar_bytes).
     on_dir (publish_filepack env w m manifest_bytes sidecar_bytes)))))))"

section \<open>Verification\<close>

record verify_filepack_result =
  vf_fingerprint :: string
  vf_version :: u32
  vf_entries :: nat
  vf_valid :: bool

definition ensure_manifest_fingerprint ::
  "commit_env \<Rightarrow> filepack_env \<Rightarrow> filepack_manifest \<Rightarrow> string \<Rightarrow> (storage_error, unit) result" where
  "ensure_manifest_fingerprint env fenv m fingerprint =
     and_then (ensure (fm_fingerprint m = fingerprint) FingerprintMismatch) (\<lambda>_.
     ensure (fingerprint_for_entries env fenv (fm_entries m) = fingerprint) FingerprintMismatch)"

definition entry_of_binding :: "string \<times> carbonado_binding \<Rightarrow> filepack_entry" where
  "entry_of_binding x = \<lparr>fe_path = fst x, fe_size = 0, fe_bao_root = bn_bao_root (snd x), fe_format = bn_format (snd x)\<rparr>"

definition manifest_from_compat_bindings :: "string \<Rightarrow> (string, carbonado_binding) btree \<Rightarrow> filepack_manifest" where
  "manifest_from_compat_bindings fingerprint bindings =
     \<lparr>fm_version = 2, fm_fingerprint = fingerprint, fm_root = ''.'',
      fm_entries = sort_key fe_path (map entry_of_binding bindings)\<rparr>"

text \<open>The manifest of a pack, checked on its own; following the hashes of an archive may not return.\<close>

definition verify_compat_manifest ::
  "archive_env \<Rightarrow> string \<Rightarrow> bytes \<Rightarrow> data_dir \<Rightarrow> (storage_error, filepack_manifest) result option" where
  "verify_compat_manifest aenv fingerprint bs d =
     try_then (verify_casey_archive aenv bs) (\<lambda>package_files. Some (
     and_then (casey_archive_fingerprint aenv bs) (\<lambda>archive_fp.
     and_then (ensure (archive_fp = fingerprint) FingerprintMismatch) (\<lambda>_.
     and_then (ok_or (dd_files d (sidecar_path fingerprint)) (FileUnreadable (sidecar_path fingerprint))) (\<lambda>sidecar.
     and_then (decode_carbonado_sidecar aenv sidecar) (\<lambda>bindings.
     and_then (ensure_casey_bindings_match_sidecar package_files bindings) (\<lambda>_.
     Ok (manifest_from_compat_bindings fingerprint bindings))))))))"

definition read_manifest ::
  "commit_env \<Rightarrow> filepack_env \<Rightarrow> bool \<Rightarrow> string \<Rightarrow> data_dir \<Rightarrow> (storage_error, filepack_manifest) result option" where
  "read_manifest env fenv casey fingerprint d =
     (case dd_files d (manifest_path fingerprint) of
        None \<Rightarrow> Some (Err (FileUnreadable (manifest_path fingerprint)))
      | Some bs \<Rightarrow>
          if bs \<noteq> [] \<and> hd bs = 0x7B then
            (if casey then Some (Err WrongManifestKind)
             else Some (and_then (ok_or (fp_unjson fenv bs) ManifestUnreadable) (\<lambda>m.
               and_then (ensure_manifest_fingerprint env fenv m fingerprint) (\<lambda>_. Ok m))))
          else if \<not> casey then Some (Err WrongManifestKind)
          else verify_compat_manifest (fp_archive fenv) fingerprint bs d)"

fun check_entries ::
  "commit_env \<Rightarrow> string \<Rightarrow> filepack_entry list \<Rightarrow> data_dir \<Rightarrow> (commit_error, unit) result" where
  "check_entries env fingerprint [] d = Ok ()"
| "check_entries env fingerprint (e # entries) d =
     and_then (parse_bao_root env (fe_bao_root e)) (\<lambda>bao_root.
     and_then (known_commitment env bao_root d) (\<lambda>m.
     and_then (ensure (cm_filepack_fp m = Some fingerprint) (StorageError (NotInPack bao_root))) (\<lambda>_.
     and_then (ensure (cm_format m = fe_format e) (StorageError (HeaderFormatMismatch (cm_format m) (fe_format e)))) (\<lambda>_.
     check_entries env fingerprint entries d))))"

definition verify_filepack ::
  "commit_env \<Rightarrow> filepack_env \<Rightarrow> bool \<Rightarrow> string \<Rightarrow> data_dir \<Rightarrow>
   (data_dir \<times> (commit_error, verify_filepack_result) result) option" where
  "verify_filepack env fenv casey fingerprint d =
     map_option (\<lambda>r. io_then (io_lift (\<lambda>_. map_error StorageError r)) (\<lambda>m.
       io_then (open_data_dir env) (\<lambda>_.
       io_then (io_lift (check_entries env fingerprint (fm_entries m))) (\<lambda>_.
       io_pure \<lparr>vf_fingerprint = fingerprint, vf_version = fm_version m, vf_entries = length (fm_entries m),
         vf_valid = True\<rparr>))) d)
     (read_manifest env fenv casey fingerprint d)"

end
