(* ===== verification/ByteCodec.thy ===== *)
theory ByteCodec
  imports Prelude
begin

text \<open>
  Codecs of lists, pairs, texts and words, each with the law that decoding gives the value and the rest
  back. They stand in for the codecs of third-party crates where a law about them is shown to hold.
\<close>

text \<open>A codec of lists with a mark before each element and one behind the last.\<close>

definition put_list :: "('a \<Rightarrow> bytes) \<Rightarrow> 'a list \<Rightarrow> bytes" where
  "put_list p xs = concat (map (\<lambda>x. 1 # p x) xs) @ [0]"

fun get_list :: "(bytes \<Rightarrow> ('a \<times> bytes) option) \<Rightarrow> nat \<Rightarrow> bytes \<Rightarrow> ('a list \<times> bytes) option" where
  "get_list g n [] = None"
| "get_list g n (b # r) =
     (if b = 0 then Some ([], r)
      else case n of 0 \<Rightarrow> None | Suc m \<Rightarrow> (case g r of
          None \<Rightarrow> None
        | Some (x, r') \<Rightarrow> map_option (apfst ((#) x)) (get_list g m r')))"

definition codec_inverse :: "('a \<Rightarrow> bytes) \<Rightarrow> (bytes \<Rightarrow> ('a \<times> bytes) option) \<Rightarrow> bool" where
  "codec_inverse p g \<longleftrightarrow> (\<forall>x r. g (p x @ r) = Some (x, r))"

lemma get_put_list: "codec_inverse p g \<Longrightarrow> length xs \<le> n \<Longrightarrow> get_list g n (put_list p xs @ r) = Some (xs, r)"
proof (induction xs arbitrary: n)
  case (Cons x xs)
  then obtain m where "n = Suc m" by (cases n) auto
  with Cons show ?case by (simp add: put_list_def codec_inverse_def)
qed (simp add: put_list_def)

lemma length_put_list: "length xs \<le> length (put_list p xs)"
  by (induction xs) (simp_all add: put_list_def)

definition get_all :: "(bytes \<Rightarrow> ('a \<times> bytes) option) \<Rightarrow> bytes \<Rightarrow> ('a list \<times> bytes) option" where
  "get_all g bs = get_list g (length bs) bs"

lemma codec_list: "codec_inverse p g \<Longrightarrow> codec_inverse (put_list p) (get_all g)"
  unfolding codec_inverse_def [of "put_list p"] get_all_def
  by (intro allI get_put_list) (auto intro: trans_le_add1 length_put_list)

definition put_byte :: "u8 \<Rightarrow> bytes" where "put_byte b = [b]"

fun get_byte :: "bytes \<Rightarrow> (u8 \<times> bytes) option" where
  "get_byte [] = None"
| "get_byte (b # r) = Some (b, r)"

definition put_pair :: "('a \<Rightarrow> bytes) \<Rightarrow> ('b \<Rightarrow> bytes) \<Rightarrow> 'a \<times> 'b \<Rightarrow> bytes" where
  "put_pair p q x = p (fst x) @ q (snd x)"

definition get_pair ::
  "(bytes \<Rightarrow> ('a \<times> bytes) option) \<Rightarrow> (bytes \<Rightarrow> ('b \<times> bytes) option) \<Rightarrow> bytes \<Rightarrow> (('a \<times> 'b) \<times> bytes) option" where
  "get_pair g h bs = Option.bind (g bs) (\<lambda>(x, r). Option.bind (h r) (\<lambda>(y, r'). Some ((x, y), r')))"

definition get_map :: "('a \<Rightarrow> 'b) \<Rightarrow> (bytes \<Rightarrow> ('a \<times> bytes) option) \<Rightarrow> bytes \<Rightarrow> ('b \<times> bytes) option" where
  "get_map f g bs = map_option (apfst f) (g bs)"

lemma codec_byte: "codec_inverse put_byte get_byte"
  by (simp add: codec_inverse_def put_byte_def)

lemma codec_pair: "codec_inverse p g \<Longrightarrow> codec_inverse q h \<Longrightarrow> codec_inverse (put_pair p q) (get_pair g h)"
  by (simp add: codec_inverse_def put_pair_def get_pair_def)

lemma codec_map: "codec_inverse p g \<Longrightarrow> (\<And>x. f (h x) = x) \<Longrightarrow> codec_inverse (\<lambda>x. p (h x)) (get_map f g)"
  by (simp add: codec_inverse_def get_map_def)

text \<open>Codecs of byte strings, texts, words and the records of an archive.\<close>

abbreviation put_bytes :: "bytes \<Rightarrow> bytes" where "put_bytes \<equiv> put_list put_byte"

abbreviation get_bytes :: "bytes \<Rightarrow> (bytes \<times> bytes) option" where "get_bytes \<equiv> get_all get_byte"

definition put_text :: "string \<Rightarrow> bytes" where "put_text s = put_bytes (map of_char s)"

definition get_text :: "bytes \<Rightarrow> (string \<times> bytes) option" where
  "get_text = get_map (map (\<lambda>b. char_of (unat b))) get_bytes"

definition put_u64 :: "u64 \<Rightarrow> bytes" where "put_u64 w = put_bytes (le_bytes 8 (unat w))"

definition get_u64 :: "bytes \<Rightarrow> (u64 \<times> bytes) option" where
  "get_u64 = get_map (\<lambda>bs. word_of_nat (le_val bs)) get_bytes"

lemma codec_bytes: "codec_inverse put_bytes get_bytes"
  by (rule codec_list [OF codec_byte])

lemma char_of_u8: "char_of (unat (of_char c :: u8)) = c"
proof -
  have "unat (of_char c :: u8) = of_char c" by (simp add: of_char_def unat_of_nat)
  then show ?thesis by simp
qed

lemma codec_text: "codec_inverse put_text get_text"
  unfolding put_text_def [abs_def] get_text_def
  by (rule codec_map [OF codec_bytes]) (simp add: comp_def char_of_u8)

lemma codec_u64: "codec_inverse put_u64 get_u64"
  unfolding put_u64_def [abs_def] get_u64_def
proof (rule codec_map [OF codec_bytes])
  fix w :: u64
  have "unat w < 256 ^ 8" using unsigned_less [of w] by simp
  then show "word_of_nat (le_val (le_bytes 8 (unat w))) = w" by (simp add: le_val_le_bytes)
qed

definition put_u32 :: "u32 \<Rightarrow> bytes" where "put_u32 w = put_bytes (le_bytes 4 (unat w))"

definition get_u32 :: "bytes \<Rightarrow> (u32 \<times> bytes) option" where
  "get_u32 = get_map (\<lambda>bs. word_of_nat (le_val bs)) get_bytes"

lemma codec_u32: "codec_inverse put_u32 get_u32"
  unfolding put_u32_def [abs_def] get_u32_def
proof (rule codec_map [OF codec_bytes])
  fix w :: u32
  have "unat w < 256 ^ 4" using unsigned_less [of w] by simp
  then show "word_of_nat (le_val (le_bytes 4 (unat w))) = w" by (simp add: le_val_le_bytes)
qed

definition put_option :: "('a \<Rightarrow> bytes) \<Rightarrow> 'a option \<Rightarrow> bytes" where
  "put_option p x = put_list p (case x of None \<Rightarrow> [] | Some y \<Rightarrow> [y])"

definition get_option :: "(bytes \<Rightarrow> ('a \<times> bytes) option) \<Rightarrow> bytes \<Rightarrow> ('a option \<times> bytes) option" where
  "get_option g = get_map (\<lambda>xs. case xs of [] \<Rightarrow> None | y # _ \<Rightarrow> Some y) (get_all g)"

lemma codec_option: "codec_inverse p g \<Longrightarrow> codec_inverse (put_option p) (get_option g)"
  unfolding put_option_def [abs_def] get_option_def
  by (rule codec_map [OF codec_list]) (auto split: option.splits)

lemma codec_inverseD: "codec_inverse p g \<Longrightarrow> g (p x) = Some (x, [])"
  unfolding codec_inverse_def by (metis append_Nil2)

end
