(* ===== verification/ArchiveSafety.thy ===== *)
theory ArchiveSafety
  imports Archive ByteCodec "HOL-Library.Multiset"
begin

text \<open>
  What packing and verifying an archive guarantee: verification returns on every archive in which no
  directory contains itself, what it accepts has no loose blob, and a packed archive verifies
  and lists exactly the files that were packed.
\<close>

section \<open>Verification returns\<close>

text \<open>A key of the archive refers to the keys of the directories that its blob lists.\<close>

definition archive_refers :: "archive_env \<Rightarrow> archive \<Rightarrow> (bytes \<times> bytes) set" where
  "archive_refers env a = {(h, en_hash e) |h content directory e.
     (h, content) \<in> set (ar_files a) \<and> ae_read_dir env content = Some directory \<and>
     e \<in> snd ` set (dir_entries directory) \<and> en_ty e = DirectoryType \<and> en_hash e \<in> fst ` set (ar_files a)}"

lemma try_then_returns: "\<exists>r. x = Some r \<Longrightarrow> (\<And>y. \<exists>r. f y = Some r) \<Longrightarrow> \<exists>r. try_then x f = Some r"
  by (auto simp: try_then_def split: result.splits)

lemma try_fold_returns: "(\<And>s x. x \<in> set xs \<Longrightarrow> \<exists>r. f s x = Some r) \<Longrightarrow> \<exists>r. try_fold f s xs = Some r"
  by (induction xs arbitrary: s) (auto intro!: try_then_returns)

lemma try_then_eq_Ok: "try_then x f = Some (Ok y) \<longleftrightarrow> (\<exists>z. x = Some (Ok z) \<and> f z = Some (Ok y))"
  by (auto simp: try_then_def split: option.splits result.splits)

text \<open>Directories of the archive, along their references, are well-founded.\<close>

lemma archive_refers_wf:
  assumes "acyclic (archive_refers env a)"
  shows "wf ((archive_refers env a)\<inverse>)"
proof (rule finite_acyclic_wf_converse [OF _ assms])
  have "archive_refers env a \<subseteq> fst ` set (ar_files a) \<times> fst ` set (ar_files a)"
    unfolding archive_refers_def by force
  then show "finite (archive_refers env a)" by (rule finite_subset) simp
qed

lemma refersI:
  assumes "map_of (ar_files a) h = Some content" "ae_read_dir env content = Some directory"
    and "(name, e) \<in> set (dir_entries directory)" "en_ty e = DirectoryType" "en_hash e \<in> fst ` set (ar_files a)"
  shows "(en_hash e, h) \<in> (archive_refers env a)\<inverse>"
proof -
  have "(h, content) \<in> set (ar_files a)" using assms(1) by (rule map_of_SomeD)
  moreover have "e \<in> snd ` set (dir_entries directory)" using assms(3) by (rule image_eqI [rotated]) simp
  ultimately show ?thesis unfolding archive_refers_def converse_iff using assms(2,4,5) by blast
qed

lemma absorb_returns:
  assumes "acyclic (archive_refers env a)"
  shows "\<exists>r. absorb_referenced_hashes env a loose h = Some r"
proof (induction h arbitrary: loose rule: wf_induct_rule [OF archive_refers_wf [OF assms]])
  case (1 h)
  have sub: "\<exists>r. absorb_referenced_hashes env a loose (en_hash e) = Some r"
    if "map_of (ar_files a) h = Some content" "ae_read_dir env content = Some directory"
      "(name, e) \<in> set (dir_entries directory)" "en_ty e = DirectoryType" for content directory name e loose
  proof (cases "en_hash e \<in> fst ` set (ar_files a)")
    case True
    show ?thesis by (rule 1) (rule refersI [OF that True])
  next
    case False
    then have "map_of (ar_files a) (en_hash e) = None" by (simp add: map_of_eq_None_iff)
    then show ?thesis by (simp add: absorb_referenced_hashes.simps [of env a _ "en_hash e"])
  qed
  show ?case
  proof (cases "map_of (ar_files a) h")
    case (Some content)
    show ?thesis
    proof (cases "ae_read_dir env content")
      case dir: (Some directory)
      have "\<exists>r. try_fold (\<lambda>loose (name, e). case en_ty e of
            FileType \<Rightarrow> Some (Ok (if map_of (ar_files a) (en_hash e) \<noteq> None then loose - {en_hash e} else loose))
          | DirectoryType \<Rightarrow> absorb_referenced_hashes env a loose (en_hash e)) (loose - {h}) (dir_entries directory) = Some r"
        by (rule try_fold_returns) (use sub [OF Some dir] in \<open>auto split: entry_type.splits\<close>)
      then show ?thesis by (simp add: absorb_referenced_hashes.simps [of env a _ h] Some dir)
    qed (simp add: absorb_referenced_hashes.simps [of env a _ h] Some)
  qed (simp add: absorb_referenced_hashes.simps [of env a _ h])
qed

lemma collect_returns:
  assumes "acyclic (archive_refers env a)"
  shows "\<exists>r. collect_package_files env a h prefix = Some r"
proof (induction h arbitrary: prefix rule: wf_induct_rule [OF archive_refers_wf [OF assms]])
  case (1 h)
  have sub: "\<exists>r. collect_package_files env a (en_hash e) path = Some r"
    if "map_of (ar_files a) h = Some content" "ae_read_dir env content = Some directory"
      "(name, e) \<in> set (dir_entries directory)" "en_ty e = DirectoryType" for content directory name e path
  proof (cases "en_hash e \<in> fst ` set (ar_files a)")
    case True
    show ?thesis by (rule 1) (rule refersI [OF that True])
  next
    case False
    then have "map_of (ar_files a) (en_hash e) = None" by (simp add: map_of_eq_None_iff)
    then show ?thesis by (simp add: collect_package_files.simps [of env a "en_hash e"] read_directory_def)
  qed
  show ?case
  proof (cases "read_directory env a h")
    case (Ok directory)
    then obtain content where c: "map_of (ar_files a) h = Some content" "ae_read_dir env content = Some directory"
      by (auto simp: read_directory_def ok_elims)
    have "\<exists>r. try_fold (\<lambda>files (name, e).
          let path = (if prefix = [] then name else prefix @ ''/'' @ name)
          in case en_ty e of
              FileType \<Rightarrow> Some (Ok (files @ [\<lparr>pf_path = path, pf_hash = en_hash e, pf_size = en_size e\<rparr>]))
            | DirectoryType \<Rightarrow> try_then (collect_package_files env a (en_hash e) path) (\<lambda>sub. Some (Ok (files @ sub))))
        [] (dir_entries directory) = Some r"
      by (rule try_fold_returns)
        (use sub [OF c] in \<open>auto simp: Let_def split: entry_type.splits intro!: try_then_returns\<close>)
    then show ?thesis by (simp add: collect_package_files.simps [of env a h] Ok)
  qed (simp add: collect_package_files.simps [of env a h])
qed

text \<open>C36: The verification of an archive returns, whatever the bytes: it accepts or reports an error,
  provided that, if the bytes are an archive whose blobs lie under their hashes, no directory of that archive
  contains itself, directly or through others. (An archive that is not so is refused before its directories
  are followed; a cycle takes blobs each of which contains the hash of the next.)\<close>

theorem verify_casey_archive_returns:
  assumes "\<forall>a. ae_read_archive env cbor = Some a \<and> hashes_checked env a \<longrightarrow> acyclic (archive_refers env a)"
  shows "\<exists>r. verify_casey_archive env cbor = Some r"
proof (cases "ae_read_archive env cbor")
  case (Some a)
  show ?thesis
  proof (cases "hashes_checked env a")
    case True
    with assms Some have ac: "acyclic (archive_refers env a)" by blast
    have "\<exists>r. verify_structure env a = Some r"
      unfolding verify_structure_def
      by (intro try_then_returns absorb_returns [OF ac] collect_returns [OF ac]) blast+
    with Some True show ?thesis by (simp add: verify_casey_archive_def ensure_def)
  qed (use Some in \<open>simp add: verify_casey_archive_def ensure_def\<close>)
qed (simp add: verify_casey_archive_def)


section \<open>What the builder builds\<close>

definition archive_codec_ok :: "archive_env \<Rightarrow> bool" where
  "archive_codec_ok env \<longleftrightarrow>
     (\<forall>directory. ae_read_dir env (ae_write_dir env directory) = Some directory) \<and>
     (\<forall>a. ae_read_archive env (ae_write_archive env a) = Some a) \<and>
     (\<forall>bindings. ae_read_sidecar env (ae_write_sidecar env bindings) = Some bindings)"

lemma archive_codec_okD:
  assumes "archive_codec_ok env"
  shows "ae_read_dir env (ae_write_dir env directory) = Some directory"
    "ae_read_archive env (ae_write_archive env a) = Some a"
    "ae_read_sidecar env (ae_write_sidecar env bindings) = Some bindings"
  using assms unfolding archive_codec_ok_def by blast+

abbreviation dir_blob :: "archive_env \<Rightarrow> (string, entry) btree \<Rightarrow> bytes" where
  "dir_blob env es \<equiv> ae_write_dir env \<lparr>dir_version = Zero, dir_entries = es\<rparr>"

definition blob_entry :: "archive_env \<Rightarrow> bytes \<Rightarrow> entry" where
  "blob_entry env content =
     \<lparr>en_ty = DirectoryType, en_hash = ae_hash env content, en_size = word_of_nat (length content)\<rparr>"

text \<open>The entries of a tree and its blobs, without the builder.\<close>

fun tree_entries :: "archive_env \<Rightarrow> package_tree \<Rightarrow> (string, entry) btree"
  and tree_entry :: "archive_env \<Rightarrow> package_tree_entry \<Rightarrow> entry" where
  "tree_entries env [] = []"
| "tree_entries env ((name, e) # tree) = (name, tree_entry env e) # tree_entries env tree"
| "tree_entry env (PackageFile f) = \<lparr>en_ty = FileType, en_hash = sf_hash f, en_size = sf_size f\<rparr>"
| "tree_entry env (PackageDirectory tree) = blob_entry env (dir_blob env (tree_entries env tree))"

fun tree_blobs :: "archive_env \<Rightarrow> package_tree \<Rightarrow> bytes list"
  and entry_blobs :: "archive_env \<Rightarrow> package_tree_entry \<Rightarrow> bytes list" where
  "tree_blobs env [] = []"
| "tree_blobs env ((name, e) # tree) = entry_blobs env e @ tree_blobs env tree"
| "entry_blobs env (PackageFile f) = []"
| "entry_blobs env (PackageDirectory tree) = tree_blobs env tree @ [dir_blob env (tree_entries env tree)]"

definition store_blobs :: "archive_env \<Rightarrow> bytes list \<Rightarrow> (bytes, bytes) btree \<Rightarrow> (bytes, bytes) btree" where
  "store_blobs env bs files = fold (\<lambda>b. btree_insert (ae_hash env b) b) bs files"

lemma store_blobs_simps [simp]:
  "store_blobs env [] files = files"
  "store_blobs env (bs @ bs') files = store_blobs env bs' (store_blobs env bs files)"
  "store_blobs env (b # bs) files = store_blobs env bs (btree_insert (ae_hash env b) b files)"
  by (simp_all add: store_blobs_def)

lemma builder_refines:
  "builder_directory env tree files = (tree_entries env tree, store_blobs env (tree_blobs env tree) files)"
  "builder_encoded env e files = (tree_entry env e, store_blobs env (entry_blobs env e) files)"
  by (induction env tree files and env e files rule: builder_directory_builder_encoded.induct)
    (simp_all add: builder_entry_def blob_entry_def Let_def)

lemma store_blobs_keys: "fst ` set (store_blobs env bs files) = fst ` set files \<union> ae_hash env ` set bs"
  by (induction bs arbitrary: files) auto

lemma store_blobs_get:
  "inj_on (ae_hash env) (set bs) \<Longrightarrow> b \<in> set bs \<Longrightarrow> map_of (store_blobs env bs files) (ae_hash env b) = Some b"
proof (induction bs rule: rev_induct)
  case (snoc c bs)
  show ?case
  proof (cases "b = c")
    case False
    with snoc.prems have "b \<in> set bs" "ae_hash env b \<noteq> ae_hash env c" "inj_on (ae_hash env) (set bs)"
      by (auto simp: inj_on_def)
    with snoc.IH show ?thesis by simp
  qed simp
qed simp

lemma store_blobs_ok: "btree_ok files \<Longrightarrow> btree_ok (store_blobs env bs files)"
  by (induction bs arbitrary: files) auto

text \<open>Every blob in such a map lies under its own hash.\<close>

lemma store_blobs_hashes:
  "(\<forall>(h, c) \<in> set files. ae_hash env c = h) \<Longrightarrow> \<forall>(h, c) \<in> set (store_blobs env bs files). ae_hash env c = h"
proof (induction bs arbitrary: files)
  case (Cons b bs)
  have "set (btree_insert k v m) \<subseteq> insert (k, v) (set m)" for k :: bytes and v :: bytes and m
    by (induction k v m rule: btree_insert.induct) auto
  with Cons.prems have "\<forall>(h, c) \<in> set (btree_insert (ae_hash env b) b files). ae_hash env c = h" by blast
  with Cons.IH show ?case by simp
qed simp

definition root_entries :: "archive_env \<Rightarrow> package_tree \<Rightarrow> (string, entry) btree" where
  "root_entries env tree = [(PACKAGE_COMPONENT, tree_entry env (PackageDirectory tree)),
     (SIGNATURES_COMPONENT, blob_entry env (dir_blob env []))]"

definition all_blobs :: "archive_env \<Rightarrow> package_tree \<Rightarrow> bytes list" where
  "all_blobs env tree = entry_blobs env (PackageDirectory tree) @ [dir_blob env [], dir_blob env (root_entries env tree)]"

definition packed_archive :: "archive_env \<Rightarrow> package_tree \<Rightarrow> archive" where
  "packed_archive env tree = \<lparr>ar_version = Zero, ar_root = ae_hash env (dir_blob env (root_entries env tree)),
     ar_files = store_blobs env (all_blobs env tree) []\<rparr>"

lemma component_order: "SIGNATURES_COMPONENT \<noteq> PACKAGE_COMPONENT" "\<not> SIGNATURES_COMPONENT < PACKAGE_COMPONENT"
  by (simp_all add: SIGNATURES_COMPONENT_def PACKAGE_COMPONENT_def less_char_def)

lemma build_package_packs:
  "build_package env (tree_entry env (PackageDirectory tree)) [] (store_blobs env (entry_blobs env (PackageDirectory tree)) [])
   = packed_archive env tree"
  by (simp add: build_package_def packed_archive_def all_blobs_def root_entries_def builder_entry_def Let_def
      component_order blob_entry_def)

text \<open>No two blobs of a package have the same hash.\<close>

definition no_collision :: "archive_env \<Rightarrow> (string, source_file_entry) btree \<Rightarrow> bool" where
  "no_collision env source_files =
     (case insert_files source_files [] of
        Err _ \<Rightarrow> True
      | Ok tree \<Rightarrow> inj_on (ae_hash env) (set (all_blobs env tree)))"

lemma read_packed:
  assumes "archive_codec_ok env" "\<forall>b \<in> set (all_blobs env tree). map_of (ar_files a) (ae_hash env b) = Some b"
    and "dir_blob env es \<in> set (all_blobs env tree)"
  shows "read_directory env a (ae_hash env (dir_blob env es)) = Ok \<lparr>dir_version = Zero, dir_entries = es\<rparr>"
  using assms archive_codec_okD(1) [OF assms(1)] by (simp add: read_directory_def)

lemma pack_Ok:
  assumes "pack_compat_manifest env source_files bindings = Ok m" "archive_codec_ok env" "no_collision env source_files"
  obtains tree where "insert_files source_files [] = Ok tree" "cp_cbor m = ae_write_archive env (packed_archive env tree)"
    "cp_sidecar m = ae_write_sidecar env bindings"
    "fingerprint_for_archive env (packed_archive env tree) = Ok (cp_fingerprint m)"
    "\<forall>b \<in> set (all_blobs env tree). map_of (ar_files (packed_archive env tree)) (ae_hash env b) = Some b"
proof -
  from assms(1) obtain tree where t: "insert_files source_files [] = Ok tree"
    by (auto simp: pack_compat_manifest_def ok_elims)
  have "inj_on (ae_hash env) (set (all_blobs env tree))" using assms(3) t by (simp add: no_collision_def)
  then have "\<forall>b \<in> set (all_blobs env tree). map_of (ar_files (packed_archive env tree)) (ae_hash env b) = Some b"
    using store_blobs_get by (simp add: packed_archive_def)
  with that t assms(1) show thesis
    by (auto simp: pack_compat_manifest_def builder_refines Let_def build_package_packs ok_elims
        simp del: tree_entry.simps entry_blobs.simps)
qed


lemma pack_succeeds:
  assumes "insert_files source_files [] = Ok tree" "archive_codec_ok env" "no_collision env source_files"
  shows "\<exists>m. pack_compat_manifest env source_files bindings = Ok m"
proof -
  have "inj_on (ae_hash env) (set (all_blobs env tree))" using assms(1,3) by (simp add: no_collision_def)
  then have "\<forall>b \<in> set (all_blobs env tree). map_of (ar_files (packed_archive env tree)) (ae_hash env b) = Some b"
    using store_blobs_get by (simp add: packed_archive_def)
  moreover have "dir_blob env (root_entries env tree) \<in> set (all_blobs env tree)" by (simp add: all_blobs_def)
  ultimately have "read_directory env (packed_archive env tree) (ar_root (packed_archive env tree)) =
      Ok \<lparr>dir_version = Zero, dir_entries = root_entries env tree\<rparr>"
    using read_packed [OF assms(2)] by (simp add: packed_archive_def)
  then have "\<exists>fp. fingerprint_for_archive env (packed_archive env tree) = Ok fp"
    by (simp add: fingerprint_for_archive_def root_entries_def)
  then show ?thesis
    using assms(1) by (auto simp: pack_compat_manifest_def builder_refines Let_def build_package_packs
        simp del: tree_entry.simps entry_blobs.simps)
qed

section \<open>Verifying what was packed\<close>

definition absorbs :: "archive_env \<Rightarrow> bytes set \<Rightarrow> bytes list \<Rightarrow> (storage_error, bytes set) result option \<Rightarrow> bool" where
  "absorbs env loose bs r \<longleftrightarrow> (\<exists>loose'. r = Some (Ok loose') \<and> loose' \<subseteq> loose \<and> loose' \<inter> ae_hash env ` set bs = {})"

abbreviation absorb_entry ::
  "archive_env \<Rightarrow> archive \<Rightarrow> bytes set \<Rightarrow> string \<times> entry \<Rightarrow> (storage_error, bytes set) result option" where
  "absorb_entry env a \<equiv> \<lambda>loose (name, e). case en_ty e of
      FileType \<Rightarrow> Some (Ok (if map_of (ar_files a) (en_hash e) \<noteq> None then loose - {en_hash e} else loose))
    | DirectoryType \<Rightarrow> absorb_referenced_hashes env a loose (en_hash e)"

lemma absorb_dir:
  assumes "map_of (ar_files a) (ae_hash env (dir_blob env es)) = Some (dir_blob env es)" "archive_codec_ok env"
  shows "absorb_referenced_hashes env a loose (ae_hash env (dir_blob env es)) =
    try_fold (absorb_entry env a) (loose - {ae_hash env (dir_blob env es)}) es"
  using assms by (simp add: absorb_referenced_hashes.simps [of env a _ "ae_hash env (dir_blob env es)"] archive_codec_okD(1))

lemma absorb_packed:
  shows "archive_codec_ok env \<Longrightarrow> \<forall>b \<in> set (tree_blobs env tree). map_of (ar_files a) (ae_hash env b) = Some b \<Longrightarrow>
      absorbs env loose (tree_blobs env tree) (try_fold (absorb_entry env a) loose (tree_entries env tree))"
    and "archive_codec_ok env \<Longrightarrow> \<forall>b \<in> set (entry_blobs env e). map_of (ar_files a) (ae_hash env b) = Some b \<Longrightarrow>
      absorbs env loose (entry_blobs env e) (absorb_entry env a loose (name, tree_entry env e))"
proof (induction env tree and env e arbitrary: loose and loose name rule: tree_blobs_entry_blobs.induct)
  case (2 env n e tree)
  from 2(1) [of loose n] 2(3,4) obtain loose1 where l1: "absorb_entry env a loose (n, tree_entry env e) = Some (Ok loose1)"
    "loose1 \<subseteq> loose" "loose1 \<inter> ae_hash env ` set (entry_blobs env e) = {}" by (auto simp: absorbs_def)
  from 2(2) [of loose1] 2(3,4) obtain loose2 where
    l2: "try_fold (absorb_entry env a) loose1 (tree_entries env tree) = Some (Ok loose2)"
    "loose2 \<subseteq> loose1" "loose2 \<inter> ae_hash env ` set (tree_blobs env tree) = {}" by (auto simp: absorbs_def)
  with l1 show ?case unfolding absorbs_def by (intro exI [of _ loose2]) auto
next
  case (4 env tree)
  let ?h = "ae_hash env (dir_blob env (tree_entries env tree))"
  from 4(1) [of "loose - {?h}"] 4(2,3) obtain loose1 where
    "try_fold (absorb_entry env a) (loose - {?h}) (tree_entries env tree) = Some (Ok loose1)"
    "loose1 \<subseteq> loose - {?h}" "loose1 \<inter> ae_hash env ` set (tree_blobs env tree) = {}" by (auto simp: absorbs_def)
  moreover have "absorb_referenced_hashes env a loose ?h =
      try_fold (absorb_entry env a) (loose - {?h}) (tree_entries env tree)"
    by (rule absorb_dir) (use 4(2,3) in auto)
  ultimately show ?case by (auto simp: absorbs_def blob_entry_def)
qed (auto simp: absorbs_def)

text \<open>The files of a tree with their paths, in the order of the tree.\<close>

definition path_in :: "string \<Rightarrow> string \<Rightarrow> string" where
  "path_in prefix name = (if prefix = [] then name else prefix @ ''/'' @ name)"

fun tree_listing :: "string \<Rightarrow> package_tree \<Rightarrow> casey_package_file list"
  and entry_listing :: "string \<Rightarrow> package_tree_entry \<Rightarrow> casey_package_file list" where
  "tree_listing prefix [] = []"
| "tree_listing prefix ((name, e) # tree) = entry_listing (path_in prefix name) e @ tree_listing prefix tree"
| "entry_listing path (PackageFile f) = [\<lparr>pf_path = path, pf_hash = sf_hash f, pf_size = sf_size f\<rparr>]"
| "entry_listing path (PackageDirectory tree) = tree_listing path tree"

abbreviation collect_entry ::
  "archive_env \<Rightarrow> archive \<Rightarrow> string \<Rightarrow> casey_package_file list \<Rightarrow> string \<times> entry \<Rightarrow>
   (storage_error, casey_package_file list) result option" where
  "collect_entry env a prefix \<equiv> \<lambda>files (name, e).
     let path = (if prefix = [] then name else prefix @ ''/'' @ name)
     in case en_ty e of
         FileType \<Rightarrow> Some (Ok (files @ [\<lparr>pf_path = path, pf_hash = en_hash e, pf_size = en_size e\<rparr>]))
       | DirectoryType \<Rightarrow> try_then (collect_package_files env a (en_hash e) path) (\<lambda>sub. Some (Ok (files @ sub)))"

lemma collect_dir:
  assumes "read_directory env a h = Ok \<lparr>dir_version = Zero, dir_entries = es\<rparr>"
  shows "collect_package_files env a h prefix = try_fold (collect_entry env a prefix) [] es"
  using assms by (simp add: collect_package_files.simps [of env a h])

lemma collect_packed:
  shows "archive_codec_ok env \<Longrightarrow> \<forall>b \<in> set (tree_blobs env tree). map_of (ar_files a) (ae_hash env b) = Some b \<Longrightarrow>
      try_fold (collect_entry env a prefix) files (tree_entries env tree) = Some (Ok (files @ tree_listing prefix tree))"
    and "archive_codec_ok env \<Longrightarrow> \<forall>b \<in> set (entry_blobs env e). map_of (ar_files a) (ae_hash env b) = Some b \<Longrightarrow>
      collect_entry env a prefix files (name, tree_entry env e) = Some (Ok (files @ entry_listing (path_in prefix name) e))"
proof (induction env tree and env e arbitrary: prefix files and prefix files name rule: tree_blobs_entry_blobs.induct)
  case (2 env n e tree)
  then show ?case by simp
next
  case (4 env tree)
  let ?h = "ae_hash env (dir_blob env (tree_entries env tree))"
  have "read_directory env a ?h = Ok \<lparr>dir_version = Zero, dir_entries = tree_entries env tree\<rparr>"
    using 4(3) archive_codec_okD(1) [OF 4(2)] by (simp add: read_directory_def)
  note dir = collect_dir [OF this, of "path_in prefix name"]
  show ?case using 4 by (simp add: blob_entry_def dir [unfolded path_in_def] path_in_def Let_def)
qed (simp_all add: path_in_def Let_def)


section \<open>The files of a tree\<close>

fun tree_paths :: "package_tree \<Rightarrow> (string list \<times> source_file_entry) list"
  and entry_paths :: "package_tree_entry \<Rightarrow> (string list \<times> source_file_entry) list" where
  "tree_paths [] = []"
| "tree_paths ((name, e) # tree) = map (\<lambda>(cs, f). (name # cs, f)) (entry_paths e) @ tree_paths tree"
| "entry_paths (PackageFile f) = [([], f)]"
| "entry_paths (PackageDirectory tree) = tree_paths tree"

fun tree_ok :: "package_tree \<Rightarrow> bool" and entry_ok :: "package_tree_entry \<Rightarrow> bool" where
  "tree_ok [] = True"
| "tree_ok ((name, e) # tree) = ((\<forall>k \<in> fst ` set tree. name < k) \<and> entry_ok e \<and> tree_ok tree)"
| "entry_ok (PackageFile f) = True"
| "entry_ok (PackageDirectory tree) = tree_ok tree"

lemma tree_ok_btree: "tree_ok tree \<Longrightarrow> btree_ok tree"
  by (induction tree rule: list.induct) auto

lemma tree_ok_get: "tree_ok tree \<Longrightarrow> map_of tree name = Some e \<Longrightarrow> entry_ok e"
  by (induction tree rule: list.induct) (auto split: if_splits)

lemma tree_ok_insert: "tree_ok tree \<Longrightarrow> entry_ok e \<Longrightarrow> tree_ok (btree_insert name e tree)"
proof (induction tree rule: list.induct)
  case (Cons x tree)
  then show ?case by (cases x) (auto intro: less_trans)
qed simp

lemma mset_btree_insert_new: "map_of m k = None \<Longrightarrow> mset (btree_insert k v m) = add_mset (k, v) (mset m)"
  by (induction k v m rule: btree_insert.induct) (auto split: if_splits)

lemma mset_btree_insert_old:
  "btree_ok m \<Longrightarrow> map_of m k = Some v0 \<Longrightarrow> add_mset (k, v0) (mset (btree_insert k v m)) = add_mset (k, v) (mset m)"
proof (induction k v m rule: btree_insert.induct)
  case (2 k v k' v' m)
  show ?case
  proof (cases "k < k'")
    case True
    have "k \<in> fst ` set m" if "k \<noteq> k'"
      using 2(3) that by (auto simp: domI simp flip: dom_map_of_conv_image_fst)
    with True 2(2) have "k = k'" by force
    with 2(3) show ?thesis by simp
  next
    case False
    with 2 show ?thesis by (cases "k = k'") (auto simp: add_mset_commute)
  qed
qed simp

abbreviation under :: "string \<Rightarrow> package_tree_entry \<Rightarrow> (string list \<times> source_file_entry) multiset" where
  "under name e \<equiv> image_mset (\<lambda>(cs, f). (name # cs, f)) (mset (entry_paths e))"

lemma mset_tree_paths: "mset (tree_paths tree) = (\<Sum>(name, e) \<in># mset tree. under name e)"
  by (induction tree rule: list.induct) auto

lemma paths_insert_new:
  "map_of tree name = None \<Longrightarrow> mset (tree_paths (btree_insert name e tree)) = under name e + mset (tree_paths tree)"
  by (simp add: mset_tree_paths mset_btree_insert_new)

lemma paths_insert_old:
  assumes "tree_ok tree" "map_of tree name = Some e0"
  shows "under name e0 + mset (tree_paths (btree_insert name e tree)) = under name e + mset (tree_paths tree)"
proof -
  have "(\<Sum>(n, e) \<in># add_mset (name, e0) (mset (btree_insert name e tree)). under n e) =
      (\<Sum>(n, e) \<in># add_mset (name, e) (mset tree). under n e)"
    using mset_btree_insert_old [OF tree_ok_btree [OF assms(1)] assms(2), of e] by simp
  then show ?thesis by (simp add: mset_tree_paths)
qed

lemma insert_components_paths:
  assumes "insert_components path f cs tree = Ok tree'" "cs \<noteq> []" "tree_ok tree"
  shows "tree_ok tree' \<and> mset (tree_paths tree') = add_mset (cs, f) (mset (tree_paths tree))"
  using assms
proof (induction path f cs tree arbitrary: tree' rule: insert_components.induct)
  case (2 path f c tree)
  then show ?case by (auto simp: paths_insert_new tree_ok_insert split: if_splits)
next
  case (3 path f c d cs tree)
  show ?case
  proof (cases "map_of tree c")
    case None
    with 3(3) obtain sub where s: "insert_components path f (d # cs) [] = Ok sub"
      "tree' = btree_insert c (PackageDirectory sub) tree"
      by (auto simp: ok_elims)
    with 3(1) [OF None s(1)] show ?thesis using 3(5) None
      by (simp add: paths_insert_new tree_ok_insert)
  next
    case (Some e0)
    with 3(3) obtain sub0 sub where s: "e0 = PackageDirectory sub0" "insert_components path f (d # cs) sub0 = Ok sub"
      "tree' = btree_insert c (PackageDirectory sub) tree"
      by (auto simp: ok_elims split: package_tree_entry.splits)
    have ok0: "tree_ok sub0" using tree_ok_get [OF 3(5) Some] s(1) by simp
    from 3(2) [OF Some s(1,2) _ ok0] have sub: "tree_ok sub" "mset (tree_paths sub) = add_mset (d # cs, f) (mset (tree_paths sub0))"
      by simp_all
    from paths_insert_old [OF 3(5) Some, of "PackageDirectory sub"] s(1) sub(2)
    have "mset (tree_paths tree') = add_mset (c # d # cs, f) (mset (tree_paths tree))" by (simp add: s(3))
    with s(3) sub(1) 3(5) show ?thesis by (simp add: tree_ok_insert)
  qed
qed simp

lemma insert_files_paths:
  "insert_files fs tree = Ok tree' \<Longrightarrow> tree_ok tree \<Longrightarrow>
   mset (tree_paths tree') = mset (map (\<lambda>(p, f). (split_on CHR ''/'' p, f)) fs) + mset (tree_paths tree)"
proof (induction fs tree rule: insert_files.induct)
  case (2 path f fs tree)
  from 2(2) obtain t1 where t: "insert_file path f tree = Ok t1" "insert_files fs t1 = Ok tree'"
    by (auto simp: ok_elims)
  from insert_components_paths [OF t(1) [unfolded insert_file_def] _ 2(3)] have
    "tree_ok t1" "mset (tree_paths t1) = add_mset (split_on CHR ''/'' path, f) (mset (tree_paths tree))" by simp_all
  with 2(1) [OF t(2)] show ?case by simp
qed simp

lemma tree_listing_paths:
  "tree_listing prefix tree = map (\<lambda>(cs, f). \<lparr>pf_path = foldl path_in prefix cs, pf_hash = sf_hash f, pf_size = sf_size f\<rparr>) (tree_paths tree)"
  "entry_listing path e = map (\<lambda>(cs, f). \<lparr>pf_path = foldl path_in path cs, pf_hash = sf_hash f, pf_size = sf_size f\<rparr>) (entry_paths e)"
  by (induction prefix tree and path e rule: tree_listing_entry_listing.induct) (auto simp: split_def)

lemma foldl_path_in: "p \<noteq> [] \<Longrightarrow> foldl path_in p ws = join_on CHR ''/'' (p # ws)"
proof (induction ws arbitrary: p)
  case (Cons w ws)
  have "foldl path_in p (w # ws) = join_on CHR ''/'' ((p @ ''/'' @ w) # ws)"
    using Cons.prems Cons.IH [of "p @ ''/'' @ w"] path_in_def [of p w] by simp
  also have "\<dots> = join_on CHR ''/'' (p # w # ws)" by (cases ws) simp_all
  finally show ?case .
qed simp

lemma path_of_components:
  assumes "\<not> starts_with ''/'' path"
  shows "foldl path_in [] (split_on CHR ''/'' path) = path"
proof (cases "split_on CHR ''/'' path")
  case (Cons w ws)
  have join: "join_on CHR ''/'' (w # ws) = path" using join_split_on [of "CHR ''/''" path] Cons by simp
  show ?thesis
  proof (cases "w = []")
    case True
    with join assms have "ws = []" by (cases ws) (auto simp: starts_with_def)
    with join True Cons show ?thesis by (simp add: path_in_def)
  next
    case False
    with join Cons foldl_path_in [OF False] show ?thesis by (simp add: path_in_def)
  qed
qed simp


definition package_file_of :: "string \<times> source_file_entry \<Rightarrow> casey_package_file" where
  "package_file_of x = \<lparr>pf_path = fst x, pf_hash = sf_hash (snd x), pf_size = sf_size (snd x)\<rparr>"

lemma packed_listing:
  assumes "insert_files source_files [] = Ok tree" "\<forall>x \<in> set source_files. \<not> starts_with ''/'' (fst x)"
  shows "mset (tree_listing [] tree) = mset (map package_file_of source_files)"
proof -
  have "mset (tree_listing [] tree) =
      mset (map (\<lambda>(p, f). package_file_of (foldl path_in [] (split_on CHR ''/'' p), f)) source_files)"
    using insert_files_paths [OF assms(1)]
    by (simp add: tree_listing_paths package_file_of_def case_prod_unfold multiset.map_comp comp_def)
  also have "map (\<lambda>(p, f). package_file_of (foldl path_in [] (split_on CHR ''/'' p), f)) source_files =
      map package_file_of source_files"
    by (rule map_cong) (use assms(2) path_of_components in auto)
  finally show ?thesis .
qed

lemma verify_packed:
  assumes laws: "archive_codec_ok env"
    and held: "\<forall>b \<in> set (all_blobs env tree). map_of (ar_files (packed_archive env tree)) (ae_hash env b) = Some b"
  shows "verify_casey_archive env (ae_write_archive env (packed_archive env tree)) = Some (Ok (tree_listing [] tree))"
proof -
  let ?a = "packed_archive env tree" and ?pkg = "entry_blobs env (PackageDirectory tree)"
  let ?e = "tree_entry env (PackageDirectory tree)" and ?s = "blob_entry env (dir_blob env [])"
  have keys: "fst ` set (ar_files ?a) = ae_hash env ` set (all_blobs env tree)"
    by (simp add: packed_archive_def store_blobs_keys)
  have checked: "hashes_checked env ?a"
    using store_blobs_hashes [of "[]" env] by (simp add: packed_archive_def hashes_checked_def list_all_iff)
  have pkg: "\<forall>b \<in> set ?pkg. map_of (ar_files ?a) (ae_hash env b) = Some b"
    using held by (simp add: all_blobs_def)
  have in_all: "dir_blob env [] \<in> set (all_blobs env tree)" "dir_blob env (root_entries env tree) \<in> set (all_blobs env tree)"
    "dir_blob env (tree_entries env tree) \<in> set (all_blobs env tree)"
    by (simp_all add: all_blobs_def)
  note read = read_packed [OF laws held]
  have root: "read_directory env ?a (ar_root ?a) = Ok \<lparr>dir_version = Zero, dir_entries = root_entries env tree\<rparr>"
    using read [OF in_all(2)] by (simp add: packed_archive_def)
  note absorb = absorb_dir [OF held [rule_format] laws]
  obtain loose where l: "absorb_referenced_hashes env ?a (fst ` set (ar_files ?a)) (ar_root ?a) = Some (Ok loose)" "loose = {}"
  proof -
    define l0 where "l0 = fst ` set (ar_files ?a) - {ar_root ?a}"
    from absorb_packed(2) [OF laws pkg, of l0 PACKAGE_COMPONENT] obtain l1 where
      l1: "absorb_entry env ?a l0 (PACKAGE_COMPONENT, ?e) = Some (Ok l1)" "l1 \<subseteq> l0" "l1 \<inter> ae_hash env ` set ?pkg = {}"
      by (auto simp: absorbs_def)
    have "absorb_referenced_hashes env ?a (fst ` set (ar_files ?a)) (ar_root ?a) =
        try_fold (absorb_entry env ?a) l0 (root_entries env tree)"
      using absorb [OF in_all(2)] by (simp add: l0_def packed_archive_def)
    also have "\<dots> = Some (Ok (l1 - {ae_hash env (dir_blob env [])}))"
      using l1(1) absorb [OF in_all(1), of l1] by (simp add: root_entries_def blob_entry_def)
    finally have "absorb_referenced_hashes env ?a (fst ` set (ar_files ?a)) (ar_root ?a) =
        Some (Ok (l1 - {ae_hash env (dir_blob env [])}))" .
    moreover have "l1 - {ae_hash env (dir_blob env [])} = {}"
      using l1(2,3) unfolding l0_def keys by (auto simp: all_blobs_def packed_archive_def)
    ultimately show thesis using that by simp
  qed
  have signatures: "absorb_referenced_hashes env ?a {} (en_hash ?s) = Some (Ok {})"
    using absorb [OF in_all(1), of "{}"] by (simp add: blob_entry_def)
  have "read_directory env ?a (en_hash ?e) = Ok \<lparr>dir_version = Zero, dir_entries = tree_entries env tree\<rparr>"
    using read [OF in_all(3)] by (simp add: blob_entry_def)
  moreover have "\<forall>b \<in> set (tree_blobs env tree). map_of (ar_files ?a) (ae_hash env b) = Some b" using pkg by simp
  ultimately have collect: "collect_package_files env ?a (en_hash ?e) [] = Some (Ok (tree_listing [] tree))"
    using collect_dir collect_packed(1) [OF laws, of tree ?a "[]" "[]"] by simp
  have entries: "directory_entry \<lparr>dir_version = Zero, dir_entries = root_entries env tree\<rparr> PACKAGE_COMPONENT = Ok ?e"
    "directory_entry \<lparr>dir_version = Zero, dir_entries = root_entries env tree\<rparr> SIGNATURES_COMPONENT = Ok ?s"
    by (simp_all add: directory_entry_def root_entries_def component_order blob_entry_def)
  have "verify_structure env ?a = Some (Ok (tree_listing [] tree))"
    unfolding verify_structure_def
    by (simp add: root l entries signatures collect del: tree_entry.simps)
  then show ?thesis by (simp add: verify_casey_archive_def archive_codec_okD(2) [OF laws] checked)
qed

lemma pack_then_verify_files:
  assumes "pack_compat_manifest env source_files bindings = Ok m" "archive_codec_ok env" "no_collision env source_files"
    and "\<forall>x \<in> set source_files. \<not> starts_with ''/'' (fst x)"
  shows "\<exists>files. verify_casey_archive env (cp_cbor m) = Some (Ok files) \<and>
    mset files = mset (map package_file_of source_files) \<and>
    casey_archive_fingerprint env (cp_cbor m) = Ok (cp_fingerprint m) \<and>
    decode_carbonado_sidecar env (cp_sidecar m) = Ok bindings"
proof (rule pack_Ok [OF assms(1-3)])
  fix tree
  assume t: "insert_files source_files [] = Ok tree" "cp_cbor m = ae_write_archive env (packed_archive env tree)"
    "cp_sidecar m = ae_write_sidecar env bindings"
    "fingerprint_for_archive env (packed_archive env tree) = Ok (cp_fingerprint m)"
    "\<forall>b \<in> set (all_blobs env tree). map_of (ar_files (packed_archive env tree)) (ae_hash env b) = Some b"
  from verify_packed [OF assms(2) t(5)] packed_listing [OF t(1) assms(4)] t(2-4) archive_codec_okD(2,3) [OF assms(2)]
  show ?thesis by (simp add: casey_archive_fingerprint_def decode_carbonado_sidecar_def)
qed

text \<open>C16: An archive that was packed verifies: its verification returns, accepts it and lists exactly the
  files that were packed, each once with its path, hash and size, and the fingerprint of the archive is the one
  that packing has reported. The conditions: no path of the files begins with a slash (one that does is packed too,
  but is listed without it), the files are in the order of a map, no two different blobs of the package
  have the same hash, and the codec of the archives reads back what it wrote.\<close>

theorem pack_then_verify:
  assumes "pack_compat_manifest env source_files bindings = Ok m" "archive_codec_ok env" "no_collision env source_files"
    and "\<forall>x \<in> set source_files. \<not> starts_with ''/'' (fst x)" "btree_ok source_files"
  shows "\<exists>files. verify_casey_archive env (cp_cbor m) = Some (Ok files) \<and>
    set files = package_file_of ` set source_files \<and> distinct (map pf_path files) \<and>
    casey_archive_fingerprint env (cp_cbor m) = Ok (cp_fingerprint m) \<and>
    decode_carbonado_sidecar env (cp_sidecar m) = Ok bindings"
proof -
  from pack_then_verify_files [OF assms(1-4)] obtain files where v: "verify_casey_archive env (cp_cbor m) = Some (Ok files)"
    "mset files = mset (map package_file_of source_files)" "casey_archive_fingerprint env (cp_cbor m) = Ok (cp_fingerprint m)"
    "decode_carbonado_sidecar env (cp_sidecar m) = Ok bindings" by blast
  have "mset (map pf_path files) = mset (map pf_path (map package_file_of source_files))"
    using v(2) by (simp only: mset_map)
  also have "map pf_path (map package_file_of source_files) = map fst source_files" by (simp add: package_file_of_def)
  finally have "distinct (map pf_path files)"
    using btree_ok_distinct [OF assms(5)] by (metis mset_eq_imp_distinct_iff)
  with v mset_eq_setD [OF v(2)] show ?thesis by simp
qed

section \<open>What an accepted archive contains\<close>

text \<open>The hashes that a directory reaches: its own, those of its files, and those its directories reach.\<close>

inductive reaches :: "archive_env \<Rightarrow> archive \<Rightarrow> bytes \<Rightarrow> bytes \<Rightarrow> bool" for env a where
  self: "reaches env a h h"
| lists_file: "read_directory env a h = Ok directory \<Longrightarrow> e \<in> snd ` set (dir_entries directory) \<Longrightarrow>
    en_ty e = FileType \<Longrightarrow> reaches env a h (en_hash e)"
| lists_directory: "read_directory env a h = Ok directory \<Longrightarrow> e \<in> snd ` set (dir_entries directory) \<Longrightarrow>
    en_ty e = DirectoryType \<Longrightarrow> reaches env a (en_hash e) h' \<Longrightarrow> reaches env a h h'"

lemma try_fold_removes:
  assumes "try_fold f s xs = Some (Ok s')" "\<And>s x s'. x \<in> set xs \<Longrightarrow> f s x = Some (Ok s') \<Longrightarrow> s - s' \<subseteq> R"
  shows "s - s' \<subseteq> R"
  using assms
proof (induction xs arbitrary: s)
  case (Cons x xs)
  from Cons.prems(1) obtain s1 where s1: "f s x = Some (Ok s1)" "try_fold f s1 xs = Some (Ok s')"
    by (auto simp: try_then_eq_Ok)
  have "s - s1 \<subseteq> R" by (rule Cons.prems(2) [OF _ s1(1)]) simp
  moreover have "s1 - s' \<subseteq> R"
  proof (rule Cons.IH [OF s1(2)])
    fix t y t'
    assume "y \<in> set xs" "f t y = Some (Ok t')"
    then show "t - t' \<subseteq> R" using Cons.prems(2) [of y t t'] by simp
  qed
  ultimately show ?case by blast
qed simp

lemma absorb_reaches:
  assumes "absorb_referenced_hashes env a loose h = Some (Ok loose')"
  shows "loose - loose' \<subseteq> {h'. reaches env a h h'}"
proof -
  have "\<forall>loose'. r = Ok loose' \<longrightarrow> loose - loose' \<subseteq> {h'. reaches env a h h'}"
    if "absorb_referenced_hashes env a loose h = Some r" for env a loose h and r :: "(storage_error, bytes set) result"
  proof (rule absorb_referenced_hashes.raw_induct
      [where P = "\<lambda>env a loose h r. \<forall>loose'. r = Ok loose' \<longrightarrow> loose - loose' \<subseteq> {h'. reaches env a h h'}", OF _ that])
    fix absorb env a loose h and r :: "(storage_error, bytes set) result"
    assume IH: "\<And>env a loose h r. absorb env a loose h = Some r \<Longrightarrow>
        \<forall>loose'. r = Ok loose' \<longrightarrow> loose - loose' \<subseteq> {h'. reaches env a h h'}"
      and run: "(case map_of (ar_files a) h of
          None \<Rightarrow> Some (Ok (loose - {h}))
        | Some content \<Rightarrow> (case ae_read_dir env content of
            None \<Rightarrow> Some (Err ArchiveUnreadable)
          | Some directory \<Rightarrow>
              try_fold (\<lambda>loose (name, e).
                case en_ty e of
                  FileType \<Rightarrow> Some (Ok (if map_of (ar_files a) (en_hash e) \<noteq> None then loose - {en_hash e} else loose))
                | DirectoryType \<Rightarrow> absorb env a loose (en_hash e))
              (loose - {h}) (dir_entries directory))) = Some r"
    show "\<forall>loose'. r = Ok loose' \<longrightarrow> loose - loose' \<subseteq> {h'. reaches env a h h'}"
    proof (intro allI impI)
      fix loose'
      assume r: "r = Ok loose'"
      show "loose - loose' \<subseteq> {h'. reaches env a h h'}"
      proof (cases "map_of (ar_files a) h")
        case None
        with run r show ?thesis by (auto intro: reaches.self)
      next
        case content: (Some content)
        with run r obtain directory where d: "ae_read_dir env content = Some directory"
          by (auto split: option.splits)
        have read: "read_directory env a h = Ok directory" using content d by (simp add: read_directory_def)
        have "(loose - {h}) - loose' \<subseteq> {h'. reaches env a h h'}"
        proof (rule try_fold_removes)
          show "try_fold (\<lambda>loose (name, e).
                case en_ty e of
                  FileType \<Rightarrow> Some (Ok (if map_of (ar_files a) (en_hash e) \<noteq> None then loose - {en_hash e} else loose))
                | DirectoryType \<Rightarrow> absorb env a loose (en_hash e)) (loose - {h}) (dir_entries directory) = Some (Ok loose')"
            using run content d r by simp
          fix s s' :: "bytes set" and x
          assume x: "x \<in> set (dir_entries directory)" and step: "(\<lambda>(name, e).
                case en_ty e of
                  FileType \<Rightarrow> Some (Ok (if map_of (ar_files a) (en_hash e) \<noteq> None then s - {en_hash e} else s))
                | DirectoryType \<Rightarrow> absorb env a s (en_hash e)) x = Some (Ok s')"
          obtain name e where [simp]: "x = (name, e)" by fastforce
          have e: "e \<in> snd ` set (dir_entries directory)" using x by force
          show "s - s' \<subseteq> {h'. reaches env a h h'}"
          proof (cases "en_ty e")
            case FileType
            then have "reaches env a h (en_hash e)" by (rule lists_file [OF read e])
            with step FileType show ?thesis by (auto split: if_splits)
          next
            case DirectoryType
            with step IH have "s - s' \<subseteq> {h'. reaches env a (en_hash e) h'}" by simp
            then show ?thesis using lists_directory [OF read e DirectoryType] by blast
          qed
        qed
        then show ?thesis by (auto intro: reaches.self)
      qed
    qed
  qed
  then show ?thesis using assms by blast
qed

text \<open>C37: An archive that verifies is sound: each of its blobs lies under its hash, and none is loose, that
  is, every blob is reached from the root through directories of the archive.\<close>

theorem verify_casey_archive_sound:
  assumes "verify_casey_archive env cbor = Some (Ok files)"
  shows "\<exists>a. ae_read_archive env cbor = Some a \<and> hashes_checked env a \<and>
    fst ` set (ar_files a) \<subseteq> {h. reaches env a (ar_root a) h}"
proof -
  from assms obtain a where a: "ae_read_archive env cbor = Some a" "hashes_checked env a"
    "verify_structure env a = Some (Ok files)"
    by (auto simp: verify_casey_archive_def try_then_eq_Ok ok_elims)
  then obtain root_directory loose signatures where v:
    "read_directory env a (ar_root a) = Ok root_directory"
    "absorb_referenced_hashes env a (fst ` set (ar_files a)) (ar_root a) = Some (Ok loose)"
    "directory_entry root_directory SIGNATURES_COMPONENT = Ok signatures"
    "absorb_referenced_hashes env a loose (en_hash signatures) = Some (Ok {})"
    by (auto simp: verify_structure_def try_then_eq_Ok ok_elims)
  have "(SIGNATURES_COMPONENT, signatures) \<in> set (dir_entries root_directory)"
    using v(3) by (auto simp: directory_entry_def ok_elims dest!: map_of_SomeD)
  then have s: "signatures \<in> snd ` set (dir_entries root_directory)" "en_ty signatures = DirectoryType"
    using image_eqI [of signatures snd "(SIGNATURES_COMPONENT, signatures)"] v(3)
    by (auto simp: directory_entry_def ok_elims)
  have "loose \<subseteq> {h. reaches env a (ar_root a) h}"
    using absorb_reaches [OF v(4)] lists_directory [OF v(1) s] by blast
  with absorb_reaches [OF v(2)] have "fst ` set (ar_files a) \<subseteq> {h. reaches env a (ar_root a) h}" by blast
  with a show ?thesis by blast
qed


section \<open>Shared directories\<close>

text \<open>A directory listed twice is stored once but listed twice, so that the listing of a small archive may
  be exponentially long.\<close>

fun doubled :: "source_file_entry \<Rightarrow> nat \<Rightarrow> package_tree" where
  "doubled f 0 = [(''a'', PackageFile f)]"
| "doubled f (Suc n) = [(''a'', PackageDirectory (doubled f n)), (''b'', PackageDirectory (doubled f n))]"

lemma length_tree_listing: "length (tree_listing prefix tree) = length (tree_paths tree)"
  by (simp add: tree_listing_paths)

lemma doubled_paths: "length (tree_paths (doubled f n)) = 2 ^ n"
  by (induction n) simp_all

lemma doubled_blobs: "card (set (entry_blobs env (PackageDirectory (doubled f n)))) \<le> n + 1"
proof (induction n)
  case (Suc n)
  have "set (entry_blobs env (PackageDirectory (doubled f (Suc n)))) =
      insert (dir_blob env (tree_entries env (doubled f (Suc n)))) (set (entry_blobs env (PackageDirectory (doubled f n))))"
    by auto
  then have "card (set (entry_blobs env (PackageDirectory (doubled f (Suc n))))) \<le>
      Suc (card (set (entry_blobs env (PackageDirectory (doubled f n)))))"
    by (simp only: card_insert_if finite_set) simp
  with Suc show ?case by simp
qed simp

lemma doubled_listing_long:
  assumes "archive_codec_ok env" "inj_on (ae_hash env) (set (all_blobs env (doubled f n)))"
  shows "\<exists>files. verify_casey_archive env (ae_write_archive env (packed_archive env (doubled f n))) = Some (Ok files) \<and>
    length files = 2 ^ n"
    and "card (set (all_blobs env (doubled f n))) \<le> n + 3"
proof -
  have "\<forall>b \<in> set (all_blobs env (doubled f n)).
      map_of (ar_files (packed_archive env (doubled f n))) (ae_hash env b) = Some b"
    using store_blobs_get [OF assms(2)] by (simp add: packed_archive_def)
  from verify_packed [OF assms(1) this]
  show "\<exists>files. verify_casey_archive env (ae_write_archive env (packed_archive env (doubled f n))) = Some (Ok files) \<and>
      length files = 2 ^ n"
    by (simp add: length_tree_listing doubled_paths)
  have "card (set (all_blobs env (doubled f n))) \<le> card (set (entry_blobs env (PackageDirectory (doubled f n)))) +
      card (set [dir_blob env [], dir_blob env (root_entries env (doubled f n))])"
    unfolding all_blobs_def set_append by (rule card_Un_le)
  also have "\<dots> \<le> (n + 1) + 2"
    by (intro add_mono doubled_blobs) (rule order_trans [OF card_length], simp)
  finally show "card (set (all_blobs env (doubled f n))) \<le> n + 3" by simp
qed


section \<open>The laws hold\<close>

definition put_entry :: "entry \<Rightarrow> bytes" where
  "put_entry e = put_pair put_byte (put_pair put_bytes put_u64)
     (if en_ty e = FileType then 0 else 1, en_hash e, en_size e)"

definition get_entry :: "bytes \<Rightarrow> (entry \<times> bytes) option" where
  "get_entry = get_map (\<lambda>(t, h, n). \<lparr>en_ty = (if t = 0 then FileType else DirectoryType), en_hash = h, en_size = n\<rparr>)
     (get_pair get_byte (get_pair get_bytes get_u64))"

lemma codec_entry: "codec_inverse put_entry get_entry"
  unfolding put_entry_def [abs_def] get_entry_def
  by (rule codec_map [OF codec_pair [OF codec_byte codec_pair [OF codec_bytes codec_u64]]])
    (auto intro: entry_type.exhaust)

definition put_dir :: "(string, entry) btree \<Rightarrow> bytes" where "put_dir = put_list (put_pair put_text put_entry)"

definition get_dir :: "bytes \<Rightarrow> ((string, entry) btree \<times> bytes) option" where
  "get_dir = get_all (get_pair get_text get_entry)"

lemma codec_dir: "codec_inverse put_dir get_dir"
  unfolding put_dir_def get_dir_def by (intro codec_list codec_pair codec_text codec_entry)

definition put_binding :: "carbonado_binding \<Rightarrow> bytes" where
  "put_binding b = put_pair put_text (put_pair put_byte put_text) (bn_bao_root b, bn_format b, bn_carbonado_path b)"

definition get_binding :: "bytes \<Rightarrow> (carbonado_binding \<times> bytes) option" where
  "get_binding = get_map (\<lambda>(r, f, c). \<lparr>bn_bao_root = r, bn_format = f, bn_carbonado_path = c\<rparr>)
     (get_pair get_text (get_pair get_byte get_text))"

lemma codec_binding: "codec_inverse put_binding get_binding"
  unfolding put_binding_def [abs_def] get_binding_def
  by (rule codec_map [OF codec_pair [OF codec_text codec_pair [OF codec_byte codec_text]]]) simp

text \<open>With the identity as the hash function; only the bytes that a directory is written as are read.\<close>

definition toy_archive_env :: archive_env where
  "toy_archive_env = \<lparr>ae_hash = (\<lambda>b. b),
     ae_write_dir = (\<lambda>directory. put_dir (dir_entries directory)),
     ae_read_dir = (\<lambda>bs. case get_dir bs of
         Some (es, []) \<Rightarrow> if put_dir es = bs then Some \<lparr>dir_version = Zero, dir_entries = es\<rparr> else None
       | _ \<Rightarrow> None),
     ae_write_archive = (\<lambda>a. put_pair put_bytes (put_list (put_pair put_bytes put_bytes)) (ar_root a, ar_files a)),
     ae_read_archive = (\<lambda>bs. map_option (\<lambda>((r, fs), rest). \<lparr>ar_version = Zero, ar_root = r, ar_files = fs\<rparr>)
       (get_pair get_bytes (get_all (get_pair get_bytes get_bytes)) bs)),
     ae_write_sidecar = put_list (put_pair put_text put_binding),
     ae_read_sidecar = (\<lambda>bs. map_option fst (get_all (get_pair get_text get_binding) bs)),
     ae_bech32 = (\<lambda>h. map (\<lambda>b. char_of (unat b)) h)\<rparr>"

lemma toy_codec_laws: "archive_codec_ok (toy_archive_env\<lparr>ae_hash := hash\<rparr>)"
proof -
  have "codec_inverse (put_pair put_bytes (put_list (put_pair put_bytes put_bytes)))
      (get_pair get_bytes (get_all (get_pair get_bytes get_bytes)))"
    by (intro codec_pair codec_list codec_bytes)
  moreover have "codec_inverse (put_list (put_pair put_text put_binding)) (get_all (get_pair get_text get_binding))"
    by (intro codec_pair codec_list codec_text codec_binding)
  moreover have "\<lparr>dir_version = Zero, dir_entries = dir_entries d\<rparr> = d" for d :: directory
    by (cases d; cases "dir_version d") simp
  moreover have "\<lparr>ar_version = Zero, ar_root = ar_root a, ar_files = ar_files a\<rparr> = a" for a :: archive
    by (cases a; cases "ar_version a") simp
  ultimately show ?thesis
    by (simp add: archive_codec_ok_def toy_archive_env_def codec_inverseD [OF codec_dir] codec_inverseD)
qed

lemma toy_archive_laws: "archive_codec_ok toy_archive_env"
  using toy_codec_laws [of "ae_hash toy_archive_env"] by simp

lemma toy_hash: "ae_hash toy_archive_env = (\<lambda>b. b)"
  by (simp add: toy_archive_env_def)

text \<open>With a hash of one byte, an archive of a root directory whose two components are the empty directory.\<close>

definition short_archive_env :: archive_env where
  "short_archive_env = toy_archive_env\<lparr>ae_hash := (\<lambda>b. [word_of_nat (length b)])\<rparr>"

definition nested_archive :: archive where
  "nested_archive = (let env = short_archive_env; empty_dir = dir_blob env []; root = dir_blob env (root_entries env []) in
     \<lparr>ar_version = Zero, ar_root = ae_hash env root,
      ar_files = [(ae_hash env empty_dir, empty_dir), (ae_hash env root, root)]\<rparr>)"

lemma nested_archive_acyclic:
  "hashes_checked short_archive_env nested_archive" "acyclic (archive_refers short_archive_env nested_archive)"
proof -
  let ?env = short_archive_env
  let ?D0 = "dir_blob ?env []" and ?D1 = "dir_blob ?env (root_entries ?env [])"
  show "hashes_checked ?env nested_archive"
    by (simp add: nested_archive_def hashes_checked_def Let_def)
  have read: "ae_read_dir ?env (ae_write_dir ?env directory) = Some directory" for directory
    using archive_codec_okD(1) [OF toy_codec_laws] unfolding short_archive_env_def .
  have different: "ae_hash ?env ?D0 \<noteq> ae_hash ?env ?D1"
    by (simp add: short_archive_env_def toy_archive_env_def put_dir_def put_list_def root_entries_def blob_entry_def
        put_pair_def put_entry_def put_byte_def put_u64_def PACKAGE_COMPONENT_def SIGNATURES_COMPONENT_def
        put_text_def length_concat comp_def sum_list_triv)
  have "archive_refers ?env nested_archive \<subseteq> {(ae_hash ?env ?D1, ae_hash ?env ?D0)}"
    by (auto simp: archive_refers_def nested_archive_def Let_def read root_entries_def blob_entry_def)
  moreover have "acyclic {(ae_hash ?env ?D1, ae_hash ?env ?D0)}"
    using different by (simp add: wf_acyclic wf_on_def)
  ultimately show "acyclic (archive_refers ?env nested_archive)" by (rule acyclic_subset [rotated])
qed

definition toy_sources :: "(string, source_file_entry) btree" where
  "toy_sources = [(''a-b'', \<lparr>sf_hash = [1], sf_size = 1\<rparr>), (''a/c'', \<lparr>sf_hash = [2], sf_size = 2\<rparr>)]"

lemma toy_pack:
  "\<exists>m. pack_compat_manifest toy_archive_env toy_sources [] = Ok m" "no_collision toy_archive_env source_files"
proof -
  show collision: "no_collision toy_archive_env source_files" for source_files
    by (simp add: no_collision_def toy_hash split: result.splits)
  have "\<exists>tree. insert_files toy_sources [] = Ok tree"
    by (simp add: toy_sources_def insert_file_def)
  then obtain tree where "insert_files toy_sources [] = Ok tree" by blast
  then show "\<exists>m. pack_compat_manifest toy_archive_env toy_sources [] = Ok m"
    by (rule pack_succeeds [OF _ toy_archive_laws collision])
qed

lemma verify_casey_archive_returns_witness:
  "hashes_checked short_archive_env nested_archive \<and>
   (\<exists>r. verify_casey_archive short_archive_env (ae_write_archive short_archive_env nested_archive) = Some r)"
proof -
  have "ae_read_archive short_archive_env (ae_write_archive short_archive_env nested_archive) = Some nested_archive"
    using archive_codec_okD(2) [OF toy_codec_laws] unfolding short_archive_env_def .
  then have "\<forall>a. ae_read_archive short_archive_env (ae_write_archive short_archive_env nested_archive) = Some a \<and>
      hashes_checked short_archive_env a \<longrightarrow> acyclic (archive_refers short_archive_env a)"
    using nested_archive_acyclic(2) by simp
  from verify_casey_archive_returns [OF this] nested_archive_acyclic(1) show ?thesis by blast
qed

lemma pack_then_verify_witness:
  "\<exists>m files. pack_compat_manifest toy_archive_env toy_sources [] = Ok m \<and>
     verify_casey_archive toy_archive_env (cp_cbor m) = Some (Ok files) \<and>
     set files = {\<lparr>pf_path = ''a-b'', pf_hash = [1], pf_size = 1\<rparr>, \<lparr>pf_path = ''a/c'', pf_hash = [2], pf_size = 2\<rparr>}"
proof -
  from toy_pack(1) obtain m where m: "pack_compat_manifest toy_archive_env toy_sources [] = Ok m" by blast
  have paths: "\<forall>x \<in> set toy_sources. \<not> starts_with ''/'' (fst x)" by (simp add: toy_sources_def starts_with_def)
  have ok: "btree_ok toy_sources" by (simp add: toy_sources_def less_char_def)
  from pack_then_verify [OF m toy_archive_laws toy_pack(2) paths ok] obtain files where
    v: "verify_casey_archive toy_archive_env (cp_cbor m) = Some (Ok files)"
    "set files = package_file_of ` set toy_sources" by blast
  with m show ?thesis by (auto simp: toy_sources_def package_file_of_def)
qed

lemma verify_casey_archive_sound_witness:
  "\<exists>a. ae_read_archive toy_archive_env (ae_write_archive toy_archive_env (packed_archive toy_archive_env [])) = Some a \<and>
     hashes_checked toy_archive_env a \<and> fst ` set (ar_files a) \<subseteq> {h. reaches toy_archive_env a (ar_root a) h}"
proof (rule verify_casey_archive_sound)
  have "inj_on (ae_hash toy_archive_env) (set (all_blobs toy_archive_env []))" by (simp add: toy_hash)
  from store_blobs_get [OF this] have "\<forall>b \<in> set (all_blobs toy_archive_env []).
      map_of (ar_files (packed_archive toy_archive_env [])) (ae_hash toy_archive_env b) = Some b"
    by (simp add: packed_archive_def)
  from verify_packed [OF toy_archive_laws this]
  show "verify_casey_archive toy_archive_env (ae_write_archive toy_archive_env (packed_archive toy_archive_env [])) =
      Some (Ok (tree_listing [] []))" .
qed

end
