(* ===== verification/CarbonadoSafety.thy ===== *)
theory CarbonadoSafety
  imports Carbonado CommitSafety
begin

text \<open>
  What encoding, verifying and decoding guarantee together: an encoded file verifies and
  decodes to its contents, whichever write fails no record is left without its container, the master
  key is stable once it is readable; and what encoding the same contents again destroys.
\<close>

section \<open>What the libraries promise\<close>

text \<open>The container format: an encoded container has a header with a digest as its hash, the format and a
  valid authentication code, and it decodes to its contents. In a format with verification each slice that
  begins within the contents checks.\<close>

definition carbonado_ok :: "carbonado \<Rightarrow> bool" where
  "carbonado_ok cb \<longleftrightarrow> (\<forall>key plaintext format encoded.
     cb_encode cb key plaintext format = Some encoded \<longrightarrow>
     (\<exists>h. cb_header cb encoded = Some h \<and> length (hd_hash h) = 32 \<and> hd_format h = format \<and>
        cb_mac cb key (auth_data cb h) = Some (hd_mac h) \<and> cb_decode cb key encoded = Some (h, plaintext) \<and>
        (cb_verifiable cb format \<longrightarrow> (\<forall>i. unat i * unat (cb_slice_len cb) < length plaintext \<longrightarrow>
           cb_verify_slice cb (drop (cb_header_len cb) encoded) i (hd_hash h) format))))"

definition hex_ok :: "commit_env \<Rightarrow> bool" where
  "hex_ok env \<longleftrightarrow> (\<forall>root. length root = 32 \<longrightarrow> env_unhex env (env_hex env root) = Some root \<and>
     env_hex env root \<noteq> [] \<and> set (env_hex env root) \<subseteq> set ''0123456789abcdef'')"

text \<open>The codec reads back the records of a format and layout as they are first written.\<close>

definition reads_new :: "commit_env \<Rightarrow> u8 \<Rightarrow> layout \<Rightarrow> bool" where
  "reads_new env format lay \<longleftrightarrow> (\<forall>root now.
     let m = new_meta root (carbonado_relative_path (env_hex env root) format) format lay now
     in read_meta (env_codec env) (write_meta (env_codec env) m) = Some m)"

lemma carbonado_okD:
  assumes "carbonado_ok cb" "cb_encode cb key plaintext format = Some encoded" "cb_header cb encoded = Some h"
  shows "length (hd_hash h) = 32" "hd_format h = format" "cb_mac cb key (auth_data cb h) = Some (hd_mac h)"
    "cb_decode cb key encoded = Some (h, plaintext)"
    "cb_verifiable cb format \<Longrightarrow> unat i * unat (cb_slice_len cb) < length plaintext \<Longrightarrow>
      cb_verify_slice cb (drop (cb_header_len cb) encoded) i (hd_hash h) format"
  using assms unfolding carbonado_ok_def by fastforce+

section \<open>Comparing codes\<close>

lemma xor_eq_0: "xor a b = (0 :: u8) \<longleftrightarrow> a = b"
  by (auto simp: bit_eq_iff bit_simps)

lemma fold_diff_0:
  "length a = length b \<Longrightarrow>
   fold (\<lambda>(left, right) diff. or diff (xor left right)) (zip a b) d = (0 :: u8) \<longleftrightarrow> d = 0 \<and> a = b"
proof (induction a b arbitrary: d rule: list_induct2)
  case (Cons x xs y ys)
  show ?case by (simp add: Cons.IH or_eq_0_iff xor_eq_0)
qed simp

lemma constant_time_eq_iff: "constant_time_eq a b \<longleftrightarrow> a = b"
  by (auto simp: constant_time_eq_def fold_diff_0)

section \<open>The master key\<close>

lemma read_key_mode:
  "read_master_key_file f = Ok key \<longleftrightarrow> and (kf_mode f) 63 = 0 \<and> length (kf_bytes f) = 32 \<and> key = kf_bytes f"
  by (auto simp: read_master_key_file_def validate_master_key_permissions_def parse_master_key_bytes_def ok_elims)

text \<open>After the key has been loaded or created it loads again as it is, for both operations, and is
  not changed by them.\<close>

lemma master_key_stable:
  assumes "load_or_create_master_key ke None k = (k', Ok key)" "length (ke_random ke) = 32"
  shows "load_master_key ke' None k' = Ok key \<and> load_or_create_master_key ke' None k' = (k', Ok key)"
proof -
  have mode: "and (384 :: u32) 63 = 0" by simp
  have "\<exists>f. k' = Some f \<and> read_master_key_file f = Ok key"
    using mode assms
    by (auto simp: load_or_create_master_key_def Let_def read_key_mode split: option.splits key_outcome.splits)
  then obtain f where "k' = Some f" "read_master_key_file f = Ok key" by blast
  then show ?thesis by (simp add: load_master_key_def load_or_create_master_key_def)
qed

text \<open>A creation that is interrupted after the file exists leaves a key that no operation reads or
  replaces any more.\<close>

lemma broken_key_stays:
  assumes "load_or_create_master_key ke None None = (k', Err e)" "k' \<noteq> None"
    and "\<forall>f. ke_outcome ke \<noteq> KeyRaced f" "and (ke_default_mode ke) 63 \<noteq> 0"
  shows "\<exists>e'. load_or_create_master_key ke' None k' = (k', Err e') \<and> load_master_key ke' None k' = Err e'"
proof -
  from assms obtain f where f: "k' = Some f" "kf_mode f = ke_default_mode ke"
    by (auto simp: load_or_create_master_key_def Let_def split: key_outcome.splits)
  then have "\<exists>e'. read_master_key_file f = Err e'"
    using assms(4) by (auto simp: read_master_key_file_def validate_master_key_permissions_def)
  with f(1) show ?thesis by (auto simp: load_or_create_master_key_def load_master_key_def)
qed

lemma key_for_verify:
  assumes "master_key_for_format ke format hex k = (k', Ok key)" "length (ke_random ke) = 32"
  shows "master_key_for_verify ke format hex k' = Ok key"
proof (cases "format mod 2 = 0")
  case False
  show ?thesis
  proof (cases hex)
    case None
    with assms False master_key_stable [of ke k k' key ke] show ?thesis
      by (auto simp: master_key_for_format_def master_key_for_verify_def)
  next
    case (Some h)
    with assms False show ?thesis
      by (auto simp: master_key_for_format_def master_key_for_verify_def load_or_create_master_key_def load_master_key_def)
  qed
qed (use assms in \<open>auto simp: master_key_for_format_def master_key_for_verify_def\<close>)

section \<open>Publishing a container\<close>

lemma io_then_pure [io_simps]: "io_then (io_pure x) f = f x"
  by (simp add: io_then_def io_pure_def fun_eq_iff)

lemma io_then_rename [io_simps]:
  "io_then (rename_file ok from to) f d =
   (case (ok, dd_files d from) of
      (True, Some contents) \<Rightarrow> f () (d\<lparr>dd_files := (dd_files d)(from := None, to \<mapsto> contents)\<rparr>)
    | _ \<Rightarrow> (d, Err PublishFailed))"
  by (auto simp: io_then_def rename_file_def split: option.splits bool.splits)

lemma io_then_transaction [io_simps]:
  "io_then (transaction committed e (\<lambda>st. Ok (g st))) f d =
   (if committed then f () (d\<lparr>dd_store := g (dd_store d)\<rparr>) else (d, Err e))"
  by (simp add: io_then_def transaction_def)

lemma hex_okD:
  assumes "hex_ok env" "length root = 32"
  shows "env_unhex env (env_hex env root) = Some root" "env_hex env root \<noteq> []"
    "CHR ''.'' \<notin> set (env_hex env root)" "CHR ''/'' \<notin> set (env_hex env root)"
    "CHR 0x5C \<notin> set (env_hex env root)"
  using assms unfolding hex_ok_def by force+

lemma show_word_chars_not:
  "CHR ''.'' \<notin> set (show_word w)" "CHR ''/'' \<notin> set (show_word w)" "CHR 0x5C \<notin> set (show_word w)"
  by (auto simp: show_word_def not_digit_not_in_show digit_of_def)

lemma relative_path_valid:
  assumes "hex_ok env" "length root = 32"
  shows "validate_carbonado_relative_path (carbonado_relative_path (env_hex env root) format)"
proof -
  note H = hex_okD [OF assms]
  let ?p = "carbonado_relative_path (env_hex env root) format"
  have "split_once ''..'' ?p = None"
    using H(3) show_word_chars_not(1) [of format] unfolding carbonado_relative_path_def
    by (simp add: split_once_skip split_once_absent starts_with_Cons)
  then show ?thesis
    using H show_word_chars_not [of format]
    by (auto simp: validate_carbonado_relative_path_def carbonado_relative_path_def contains_def)
qed

lemma temp_not_final:
  assumes "hex_ok env" "length root = 32"
  shows "carbonado_temp x \<noteq> ''carbonado/'' @ env_hex env root @ y"
  using hex_okD(2,3) [OF assms] by (cases "env_hex env root") (auto simp: carbonado_temp_def)

lemma published_paths:
  assumes "hex_ok env" "length root = 32"
  shows "carbonado_temp x \<noteq> ''carbonado/'' @ carbonado_relative_path (env_hex env root) format"
    "carbonado_temp x \<noteq> ''carbonado/'' @ env_hex env root @ ''.plain''"
    "carbonado_temp (carbonado_relative_path (env_hex env root) format) \<noteq> carbonado_temp (env_hex env root @ ''.plain'')"
    "env_hex env root @ ''.plain'' \<noteq> carbonado_relative_path (env_hex env root) format"
  using temp_not_final [OF assms, of x "''.c'' @ show_word format"] temp_not_final [OF assms, of x "''.plain''"]
  by (auto simp: carbonado_relative_path_def carbonado_temp_def)

text \<open>Publishing that succeeds: the container lies under its name and a fresh record in the database.\<close>

definition published :: "commit_env \<Rightarrow> u8 \<Rightarrow> layout \<Rightarrow> bytes \<Rightarrow> bytes \<Rightarrow> u64 \<Rightarrow> data_dir \<Rightarrow> data_dir \<Rightarrow> bool" where
  "published env format lay root encoded now d d' \<longleftrightarrow>
     dd_store d' = put_commitment (env_codec env)
       (new_meta root (carbonado_relative_path (env_hex env root) format) format lay now) (dd_store d) \<and>
     dd_files d' (''carbonado/'' @ carbonado_relative_path (env_hex env root) format) = Some encoded \<and>
     dd_existing d' = dd_existing d"

lemma publish_Ok:
  assumes run: "publish_encoded env w format lay root encoded plaintext d = (d', Ok r)"
    and "hex_ok env" "length root = 32"
  shows "\<exists>now. ei_clock w = Some now \<and> published env format lay root encoded now d d' \<and>
    r = \<lparr>er_bao_root_hex = env_hex env root, er_carbonado_path = carbonado_relative_path (env_hex env root) format,
      er_format = format, er_layout = lay, er_visibility = visibility_from_format format,
      er_outboard_plaintext = outboard_plaintext_name (env_hex env root) format lay\<rparr>"
proof -
  note P = published_paths [OF assms(2,3)]
  note run' = run [unfolded publish_encoded_def Let_def]
  show ?thesis
  proof (cases "outboard_plaintext_name (env_hex env root) format lay")
    case None
    note r = run' [unfolded None option.case io_simps]
    from r have flags: "ei_temp w" by (cases "ei_temp w") simp_all
    from r flags obtain now where now: "ei_clock w = Some now" by (cases "ei_clock w") simp_all
    from r flags now have "ei_publish w" "ei_commit w" by (cases "ei_publish w"; cases "ei_commit w"; simp)+
    with r flags now None show ?thesis by (auto simp: io_pure_def published_def)
  next
    case (Some name)
    then have name: "name = env_hex env root @ ''.plain''" by (simp add: outboard_plaintext_name_def split: if_splits)
    let ?rel = "carbonado_relative_path (env_hex env root) format"
    note r = run' [unfolded Some option.case io_simps]
    from r have flags: "ei_temp w" "ei_temp_plain w" by (cases "ei_temp w"; cases "ei_temp_plain w"; simp)+
    from r flags obtain now where now: "ei_clock w = Some now" by (cases "ei_clock w") simp_all
    have P': "carbonado_temp ?rel \<noteq> carbonado_temp name" "''carbonado/'' @ ?rel \<noteq> carbonado_temp name"
      "''carbonado/'' @ ?rel \<noteq> ''carbonado/'' @ name"
      using P(1) [of "name"] P(3,4) unfolding name by (metis same_append_eq)+
    note simps = flags now P' P' [symmetric]
    have p1: "ei_publish w" using r by (cases "ei_publish w") (simp_all add: simps del: append_Cons append_Nil same_append_eq)
    have p2: "ei_publish_plain w"
      using r p1 by (cases "ei_publish_plain w") (simp_all add: simps del: append_Cons append_Nil same_append_eq)
    have p3: "ei_commit w"
      using r p1 p2 by (cases "ei_commit w") (simp_all add: simps del: append_Cons append_Nil same_append_eq)
    show ?thesis
      using r flags now p1 p2 p3
      by (auto simp: P' P' [symmetric] Some io_pure_def published_def simp del: append_Cons append_Nil same_append_eq)
  qed
qed

section \<open>Encoding, then verifying and decoding\<close>

text \<open>What a successful encoding leaves, by the laws of the container.\<close>

lemma encode_Ok:
  assumes "encode_file_with_store env ke cb w input opts (d, k) = ((d', k'), Ok r)"
    and "carbonado_ok cb" "hex_ok env"
  obtains plaintext key h encoded now where
    "(case eo_plaintext opts of Some bs \<Rightarrow> Some bs | None \<Rightarrow> input) = Some plaintext"
    "master_key_for_format ke (eo_format opts) (eo_master_key_hex opts) k = (k', Ok key)"
    "cb_encode cb key plaintext (eo_format opts) = Some encoded" "cb_header cb encoded = Some h"
    "length (hd_hash h) = 32" "er_bao_root_hex r = env_hex env (hd_hash h)"
    "published env (eo_format opts) (eo_layout opts) (hd_hash h) encoded now d d'" "er_format r = eo_format opts"
proof -
  from assms(1) obtain plaintext where p: "(case eo_plaintext opts of Some bs \<Rightarrow> Some bs | None \<Rightarrow> input) = Some plaintext"
    by (auto simp: encode_file_with_store_def split: if_splits option.splits)
  obtain k1 rk where mk: "master_key_for_format ke (eo_format opts) (eo_master_key_hex opts) k = (k1, rk)" by fastforce
  note run = assms(1) [unfolded encode_file_with_store_def prod.case p option.case mk]
  from run obtain key where key: "rk = Ok key" by (cases rk) (auto split: if_splits)
  from run key obtain encoded where e: "cb_encode cb key plaintext (eo_format opts) = Some encoded"
    by (cases "cb_encode cb key plaintext (eo_format opts)") (auto split: if_splits)
  from run key e obtain h where h: "cb_header cb encoded = Some h"
    by (cases "cb_header cb encoded") (auto split: if_splits)
  note C = carbonado_okD [OF assms(2) e h]
  from run key e h have pub: "publish_encoded env w (eo_format opts) (eo_layout opts) (hd_hash h) encoded plaintext d = (d', Ok r)"
    and k': "k' = k1"
    by (auto split: if_splits prod.splits)
  from publish_Ok [OF pub assms(3) C(1)] obtain now where
    "published env (eo_format opts) (eo_layout opts) (hd_hash h) encoded now d d'" "er_bao_root_hex r = env_hex env (hd_hash h)"
    "er_format r = eo_format opts"
    by auto
  with that p mk key e h C(1) k' show thesis by blast
qed

text \<open>The record that a published container is found under.\<close>

lemma published_known:
  assumes "published env format lay root encoded now d d'" "reads_new env format lay" "current d"
  defines "m \<equiv> new_meta root (carbonado_relative_path (env_hex env root) format) format lay now"
  shows "known_commitment env root d' = Ok m" "current d'"
proof -
  have rb: "read_meta (env_codec env) (write_meta (env_codec env) m) = Some m"
    using assms(2) unfolding reads_new_def m_def Let_def by blast
  have st: "dd_store d' = put_commitment (env_codec env) m (dd_store d)" "dd_existing d' = dd_existing d"
    using assms(1) by (simp_all add: published_def m_def)
  have "cm_bao_root m = root" by (simp add: m_def new_meta_def)
  with get_put_commitment [OF rb] show "known_commitment env root d' = Ok m"
    by (simp add: known_commitment_def st)
  show "current d'" using assms(3) by (simp add: current_def st statistic_def put_commitment_def)
qed

lemma published_container:
  assumes "published env format lay root encoded now d d'" "hex_ok env" "length root = 32"
    and "cm_carbonado_path m = carbonado_relative_path (env_hex env root) format"
  shows "carbonado_file (cm_carbonado_path m) = Some (''carbonado/'' @ carbonado_relative_path (env_hex env root) format)"
    "read_container m d' = Ok encoded"
  using assms relative_path_valid [OF assms(2,3)]
  by (simp_all add: read_container_def carbonado_file_def published_def)

lemma verify_slices_all:
  assumes "\<And>i. unat i * unat (cb_slice_len cb) < length decoded \<Longrightarrow> cb_verify_slice cb body i root format"
  shows "verify_slices cb body decoded root format is = Ok ()"
  using assms by (induction "is") (simp_all add: verify_sampled_slice_def)

text \<open>C12: A file that was encoded in a format with verification verifies: whatever slices are sampled,
  \<open>verify\<close> finds the record and the container by the root that \<open>encode\<close> has returned, authenticates the
  header with the same key, decodes the container and accepts every slice. In a format without
  verification it ends with the error that says so. The container library is assumed to do what it
  documents (\<open>carbonado_ok\<close>), and the codec of records to read back what it wrote.\<close>

theorem encode_then_verify:
  assumes run: "encode_file_with_store env ke cb w input opts (d, k) = ((d', k'), Ok r)"
    and laws: "carbonado_ok cb" "hex_ok env" "reads_new env (eo_format opts) (eo_layout opts)"
    and "current d" "length (ke_random ke) = 32" "0 < n"
  shows "if cb_verifiable cb (eo_format opts)
    then \<exists>v. verify_commitment env ke cb shuffle n (eo_master_key_hex opts) k' (er_bao_root_hex r) d' = (d', Ok v) \<and>
      vr_slices_verified v = min n (vr_total_slices v)
    else verify_commitment env ke cb shuffle n (eo_master_key_hex opts) k' (er_bao_root_hex r) d'
      = (d', Err (StorageError (NotVerifiable (eo_format opts))))"
proof -
  from encode_Ok [OF run laws(1,2)] obtain plaintext key h encoded now where
    e: "master_key_for_format ke (eo_format opts) (eo_master_key_hex opts) k = (k', Ok key)"
    "cb_encode cb key plaintext (eo_format opts) = Some encoded" "cb_header cb encoded = Some h"
    "length (hd_hash h) = 32" "er_bao_root_hex r = env_hex env (hd_hash h)"
    "published env (eo_format opts) (eo_layout opts) (hd_hash h) encoded now d d'"
    by metis
  note C = carbonado_okD [OF laws(1) e(2,3)]
  note K = published_known [OF e(6) laws(3) \<open>current d\<close>]
  note R = published_container [OF e(6) laws(2) e(4)]
  let ?m = "new_meta (hd_hash h) (carbonado_relative_path (env_hex env (hd_hash h)) (eo_format opts)) (eo_format opts)
    (eo_layout opts) now"
  have m: "cm_carbonado_path ?m = carbonado_relative_path (env_hex env (hd_hash h)) (eo_format opts)"
    "cm_format ?m = eo_format opts" by (simp_all add: new_meta_def)
  have root: "parse_bao_root env (er_bao_root_hex r) = Ok (hd_hash h)"
    using e(4,5) hex_okD(1) [OF laws(2) e(4)] by (simp add: parse_bao_root_def)
  have header: "check_header ke cb (eo_master_key_hex opts) k' ?m (hd_hash h) encoded = Ok (h, key)"
    using e(3) C(2,3) key_for_verify [OF e(1) assms(6)]
    by (simp add: check_header_def m authenticate_header_def constant_time_eq_iff)
  let ?v = "verify_container ke cb shuffle n (eo_master_key_hex opts) k' (er_bao_root_hex r) (hd_hash h) ?m encoded"
  have "\<exists>v. ?v = Ok v \<and> vr_slices_verified v = min n (vr_total_slices v)" if "cb_verifiable cb (eo_format opts)"
    using that assms(7) C(2,4) verify_slices_all [of cb, OF C(5) [OF that]]
    by (simp add: verify_container_def header m Let_def)
  moreover have "?v = Err (NotVerifiable (eo_format opts))" if "\<not> cb_verifiable cb (eo_format opts)"
    using that by (simp add: verify_container_def header m)
  moreover have "verify_commitment env ke cb shuffle n (eo_master_key_hex opts) k' (er_bao_root_hex r) d' =
      (d', map_error StorageError ?v)"
    using assms(7) root K R(2) [OF m(1)]
    by (simp add: verify_commitment_def io_simps)
  ultimately show ?thesis by auto
qed

section \<open>Whatever fails\<close>

text \<open>A triple of an operation: what holds after a success, and what after a failure.\<close>

definition triple :: "('s \<Rightarrow> bool) \<Rightarrow> ('s, 'a) io \<Rightarrow> ('a \<Rightarrow> 's \<Rightarrow> bool) \<Rightarrow> ('s \<Rightarrow> bool) \<Rightarrow> bool" where
  "triple P m Q E \<longleftrightarrow>
     (\<forall>s s' r. P s \<longrightarrow> m s = (s', r) \<longrightarrow> (case r of Ok x \<Rightarrow> Q x s' | Err _ \<Rightarrow> E s'))"

lemma tripleD: "triple P m Q E \<Longrightarrow> P s \<Longrightarrow> m s = (s', r) \<Longrightarrow> (case r of Ok x \<Rightarrow> Q x s' | Err _ \<Rightarrow> E s')"
  unfolding triple_def by blast

lemma triple_then:
  assumes "triple P m Q E" "\<And>x. triple (Q x) (f x) R E"
  shows "triple P (io_then m f) R E"
  unfolding triple_def
proof (intro allI impI)
  fix s s' r
  assume "P s" "io_then m f s = (s', r)"
  from this(2) show "case r of Ok x \<Rightarrow> R x s' | Err _ \<Rightarrow> E s'"
  proof (cases rule: io_then_cases)
    case (err e)
    with tripleD [OF assms(1) \<open>P s\<close>] show ?thesis by fastforce
  next
    case (ok s1 x)
    with tripleD [OF assms(1) \<open>P s\<close>] have "Q x s1" by fastforce
    from tripleD [OF assms(2) this ok(2)] show ?thesis .
  qed
qed

lemma triple_pure: "(\<And>s. P s \<Longrightarrow> Q x s) \<Longrightarrow> triple P (io_pure x) Q E"
  by (auto simp: triple_def io_pure_def)

lemma triple_lift: "(\<And>s. P s \<Longrightarrow> E s) \<Longrightarrow> triple P (io_lift f) (\<lambda>_. P) E"
  by (auto simp: triple_def io_lift_def split: result.splits)

lemma triple_write:
  "(\<And>d. P d \<Longrightarrow> E d \<and> Q (d\<lparr>dd_files := (dd_files d)(path \<mapsto> contents)\<rparr>)) \<Longrightarrow>
   triple P (write_file ok e path contents) (\<lambda>_. Q) E"
  by (auto simp: triple_def write_file_def)

lemma triple_rename:
  "(\<And>d contents. P d \<Longrightarrow> dd_files d from = Some contents \<Longrightarrow>
      Q (d\<lparr>dd_files := (dd_files d)(from := None, to \<mapsto> contents)\<rparr>)) \<Longrightarrow> (\<And>d. P d \<Longrightarrow> E d) \<Longrightarrow>
   triple P (rename_file ok from to) (\<lambda>_. Q) E"
  unfolding triple_def rename_file_def by (auto split: option.splits bool.splits result.splits)

lemma triple_transaction:
  "(\<And>d. P d \<Longrightarrow> E d \<and> Q (d\<lparr>dd_store := g (dd_store d)\<rparr>)) \<Longrightarrow>
   triple P (transaction committed e (\<lambda>st. Ok (g st))) (\<lambda>_. Q) E"
  by (auto simp: triple_def transaction_def)

text \<open>The container of a commitment.\<close>

definition container_path :: "commit_env \<Rightarrow> bytes \<Rightarrow> u8 \<Rightarrow> string" where
  "container_path env root format = ''carbonado/'' @ carbonado_relative_path (env_hex env root) format"

lemma parse_u8_show: "parse_u8 (show_word w) = Ok w"
proof -
  have "unat w \<le> 255" using unat_u8_less [of w] by linarith
  then show ?thesis by (simp add: parse_u8_def show_word_def parse_uint_show)
qed

lemma container_path_inject:
  assumes "hex_ok env" "length root = 32" "length root' = 32"
  shows "container_path env root format = container_path env root' format' \<longleftrightarrow> root = root' \<and> format = format'"
proof
  assume "container_path env root format = container_path env root' format'"
  then have eq: "env_hex env root @ ''.c'' @ show_word format = env_hex env root' @ ''.c'' @ show_word format'"
    by (simp add: container_path_def carbonado_relative_path_def)
  have split: "split_once ''.'' (env_hex env r @ ''.c'' @ show_word f) = Some (env_hex env r, ''c'' @ show_word f)"
    if "length r = 32" for r f
    using split_once_found [of "CHR ''.''" "env_hex env r" "[]" "''c'' @ show_word f"] hex_okD(3) [OF assms(1) that] by simp
  from eq split [OF assms(2), of format] split [OF assms(3), of format']
  have "env_hex env root = env_hex env root'" "show_word format = show_word format'" by auto
  then show "root = root' \<and> format = format'"
    using hex_okD(1) [OF assms(1,2)] hex_okD(1) [OF assms(1,3)] parse_u8_show [of format] parse_u8_show [of format']
    by (metis option.inject result.inject(2))
qed simp

text \<open>Every record has its container, with the root and the format of the record in its header.\<close>

definition containers_ok :: "commit_env \<Rightarrow> carbonado \<Rightarrow> data_dir \<Rightarrow> bool" where
  "containers_ok env cb d \<longleftrightarrow>
     (\<forall>root m. known_commitment env root d = Ok m \<longrightarrow>
        length root = 32 \<and> cm_carbonado_path m = carbonado_relative_path (env_hex env root) (cm_format m) \<and>
        (\<exists>blob h. dd_files d (container_path env root (cm_format m)) = Some blob \<and> cb_header cb blob = Some h \<and>
           hd_hash h = root \<and> hd_format h = cm_format m))"

text \<open>Publishing, whatever fails: the database is as before or has the new record beside its container, and
  every other container is untouched.\<close>

definition others_kept :: "commit_env \<Rightarrow> bytes \<Rightarrow> u8 \<Rightarrow> bytes \<Rightarrow> data_dir \<Rightarrow> data_dir \<Rightarrow> bool" where
  "others_kept env root format encoded d d' \<longleftrightarrow>
     (\<forall>root' format'. length root' = 32 \<longrightarrow>
        dd_files d' (container_path env root' format') = dd_files d (container_path env root' format') \<or>
        root' = root \<and> format' = format \<and> dd_files d' (container_path env root' format') = Some encoded)"

definition publish_post ::
  "commit_env \<Rightarrow> u8 \<Rightarrow> layout \<Rightarrow> bytes \<Rightarrow> bytes \<Rightarrow> data_dir \<Rightarrow> data_dir \<Rightarrow> bool" where
  "publish_post env format lay root encoded d d' \<longleftrightarrow>
     others_kept env root format encoded d d' \<and>
     (dd_store d' = dd_store d \<or> (\<exists>now. published env format lay root encoded now d d'))"

lemma temp_not_container:
  "hex_ok env \<Longrightarrow> length root = 32 \<Longrightarrow> carbonado_temp x \<noteq> container_path env root format"
  using published_paths(1) by (simp add: container_path_def)

lemma plain_not_container:
  assumes "hex_ok env" "length root = 32" "length root' = 32"
  shows "''carbonado/'' @ env_hex env root @ ''.plain'' \<noteq> container_path env root' format"
proof
  assume "''carbonado/'' @ env_hex env root @ ''.plain'' = container_path env root' format"
  then have eq: "env_hex env root @ ''.plain'' = env_hex env root' @ ''.c'' @ show_word format"
    by (simp add: container_path_def carbonado_relative_path_def)
  have split: "split_once ''.'' (env_hex env r @ ''.'' @ s) = Some (env_hex env r, s)" if "length r = 32" for r s
    using split_once_found [of "CHR ''.''" "env_hex env r" "[]" s] hex_okD(3) [OF assms(1) that] by simp
  from split [OF assms(2), of "''plain''"] split [OF assms(3), of "''c'' @ show_word format"] eq show False by simp
qed

definition unrecorded :: "commit_env \<Rightarrow> bytes \<Rightarrow> u8 \<Rightarrow> bytes \<Rightarrow> data_dir \<Rightarrow> data_dir \<Rightarrow> bool" where
  "unrecorded env root format encoded d d' \<longleftrightarrow>
     others_kept env root format encoded d d' \<and> dd_store d' = dd_store d \<and> dd_existing d' = dd_existing d"

lemma unrecorded_files:
  assumes "unrecorded env root format encoded d d'"
    and "\<And>r f. length r = 32 \<Longrightarrow> g (container_path env r f) = dd_files d' (container_path env r f)"
  shows "unrecorded env root format encoded d (d'\<lparr>dd_files := g\<rparr>)"
  using assms by (auto simp: unrecorded_def others_kept_def)

lemma publish_triple:
  assumes "hex_ok env" "length root = 32"
  shows "triple (\<lambda>d'. d' = d) (publish_encoded env w format lay root encoded plaintext)
    (\<lambda>_. publish_post env format lay root encoded d) (publish_post env format lay root encoded d)"
proof -
  let ?rel = "carbonado_relative_path (env_hex env root) format"
  let ?plain = "outboard_plaintext_name (env_hex env root) format lay"
  let ?U = "unrecorded env root format encoded d"
  define T where "T d' \<longleftrightarrow> ?U d' \<and> dd_files d' (carbonado_temp ?rel) = Some encoded" for d'
  define F where "F d' \<longleftrightarrow> ?U d' \<and> dd_files d' (container_path env root format) = Some encoded" for d'
  have E: "publish_post env format lay root encoded d d'" if "?U d'" for d'
    using that by (simp add: unrecorded_def publish_post_def)
  have ET: "publish_post env format lay root encoded d d'" if "T d'" for d' using that E by (simp add: T_def)
  have EF: "publish_post env format lay root encoded d d'" if "F d'" for d' using that E by (simp add: F_def)
  have U: "?U d" by (simp add: unrecorded_def others_kept_def)
  note paths = temp_not_container [OF assms(1)] temp_not_container [OF assms(1), symmetric]
    plain_not_container [OF assms(1,2)] plain_not_container [OF assms(1,2), symmetric]
  have name: "name = env_hex env root @ ''.plain''" if "?plain = Some name" for name
    using that by (simp add: outboard_plaintext_name_def split: if_splits)
  have other_temp: "carbonado_temp name \<noteq> carbonado_temp ?rel" if "?plain = Some name" for name
    using name [OF that] published_paths(3) [OF assms(1,2), of format] by auto
  have t1: "triple (\<lambda>d'. d' = d) (write_file (ei_temp w) (StorageError FileWriteFailed) (carbonado_temp ?rel) encoded)
      (\<lambda>_. T) (publish_post env format lay root encoded d)"
    by (rule triple_write) (use U E [OF U] paths in \<open>auto simp: T_def intro!: unrecorded_files\<close>)
  have t2: "triple T (case ?plain of None \<Rightarrow> io_pure ()
      | Some n \<Rightarrow> write_file (ei_temp_plain w) (StorageError FileWriteFailed) (carbonado_temp n) plaintext)
      (\<lambda>_. T) (publish_post env format lay root encoded d)"
    using ET other_temp paths
    by (auto split: option.splits intro!: triple_pure triple_write unrecorded_files simp: T_def)
  have t3: "triple T (rename_file (ei_publish w) (carbonado_temp ?rel) (container_path env root format))
      (\<lambda>_. F) (publish_post env format lay root encoded d)"
  proof (rule triple_rename)
    fix d' contents
    assume "T d'" "dd_files d' (carbonado_temp ?rel) = Some contents"
    then show "F (d'\<lparr>dd_files := (dd_files d')(carbonado_temp ?rel := None, container_path env root format \<mapsto> contents)\<rparr>)"
      using paths container_path_inject [OF assms(1,2)] container_path_inject [OF assms(1) _ assms(2)]
      by (auto simp: T_def F_def unrecorded_def others_kept_def)
  qed (rule ET)
  have t4: "triple F (case ?plain of None \<Rightarrow> io_pure ()
      | Some n \<Rightarrow> rename_file (ei_publish_plain w) (carbonado_temp n) (''carbonado/'' @ n))
      (\<lambda>_. F) (publish_post env format lay root encoded d)"
    using EF name paths assms(2)
    by (auto split: option.splits intro!: triple_pure triple_rename unrecorded_files simp: F_def)
  have t5: "triple F (transaction (ei_commit w) CommitFailed (\<lambda>st. Ok (put_commitment (env_codec env)
        (new_meta root ?rel format lay created_at) st)))
      (\<lambda>_. publish_post env format lay root encoded d) (publish_post env format lay root encoded d)" for created_at
    by (rule triple_transaction)
      (use EF in \<open>auto simp: F_def publish_post_def published_def unrecorded_def others_kept_def container_path_def\<close>)
  show ?thesis
    unfolding publish_encoded_def Let_def container_path_def [symmetric]
    by (intro triple_then [OF t1] triple_then [OF t2] triple_then [OF triple_lift] triple_then [OF t3]
        triple_then [OF t4] triple_then [OF t5] triple_pure) (auto intro: ET)
qed

lemma encode_cases:
  assumes "encode_file_with_store env ke cb w input opts (d, k) = ((d', k'), r)" "carbonado_ok cb" "hex_ok env"
  obtains "d' = d"
  | plaintext encoded h where "cb_header cb encoded = Some h" "length (hd_hash h) = 32" "hd_format h = eo_format opts"
      "publish_encoded env w (eo_format opts) (eo_layout opts) (hd_hash h) encoded plaintext d = (d', r)"
proof -
  consider "d' = d" | plaintext key encoded h where
      "cb_encode cb key plaintext (eo_format opts) = Some encoded" "cb_header cb encoded = Some h"
      "publish_encoded env w (eo_format opts) (eo_layout opts) (hd_hash h) encoded plaintext d = (d', r)"
    using assms(1) by (auto simp: encode_file_with_store_def split: if_splits option.splits prod.splits result.splits)
  then show thesis
  proof cases
    case (2 plaintext key encoded h)
    with carbonado_okD(1,2) [OF assms(2) 2(1,2)] that(2) show thesis by blast
  qed (rule that(1))
qed

text \<open>The container of one record.\<close>

definition container_held :: "commit_env \<Rightarrow> carbonado \<Rightarrow> data_dir \<Rightarrow> bytes \<Rightarrow> commitment_meta \<Rightarrow> bool" where
  "container_held env cb d root m \<longleftrightarrow>
     length root = 32 \<and> cm_carbonado_path m = carbonado_relative_path (env_hex env root) (cm_format m) \<and>
     (\<exists>blob h. dd_files d (container_path env root (cm_format m)) = Some blob \<and> cb_header cb blob = Some h \<and>
        hd_hash h = root \<and> hd_format h = cm_format m)"

lemma containers_ok_held:
  "containers_ok env cb d \<longleftrightarrow> (\<forall>root m. known_commitment env root d = Ok m \<longrightarrow> container_held env cb d root m)"
  by (simp add: containers_ok_def container_held_def)

lemma container_held_kept:
  assumes "container_held env cb d root m" "others_kept env (hd_hash h) format encoded d d'"
    and "cb_header cb encoded = Some h" "hd_format h = format"
  shows "container_held env cb d' root m"
proof -
  from assms(1) obtain blob h' where i: "length root = 32"
    "cm_carbonado_path m = carbonado_relative_path (env_hex env root) (cm_format m)"
    "dd_files d (container_path env root (cm_format m)) = Some blob" "cb_header cb blob = Some h'"
    "hd_hash h' = root" "hd_format h' = cm_format m"
    unfolding container_held_def by blast
  from assms(2) i(1) consider "dd_files d' (container_path env root (cm_format m)) = dd_files d (container_path env root (cm_format m))"
    | "root = hd_hash h" "cm_format m = format" "dd_files d' (container_path env root (cm_format m)) = Some encoded"
    unfolding others_kept_def by blast
  then show ?thesis using i assms(3,4) by cases (auto simp: container_held_def)
qed

lemma published_others:
  assumes "published env format lay root encoded now d d'" "root' \<noteq> root"
  shows "known_commitment env root' d' = known_commitment env root' d"
  using assms by (simp add: known_commitment_def published_def put_commitment_def get_commitment_def new_meta_def)

text \<open>C13: Whichever write of an encoding fails, every record of the database has its container: under
  its path lies a container whose header carries the root and the format of the record.\<close>

theorem encode_keeps_containers:
  assumes inv: "containers_ok env cb d"
    and run: "encode_file_with_store env ke cb w input opts (d, k) = ((d', k'), r)"
    and laws: "carbonado_ok cb" "hex_ok env" "reads_new env (eo_format opts) (eo_layout opts)" and "current d"
  shows "containers_ok env cb d'"
proof (rule encode_cases [OF run laws(1,2)])
  assume "d' = d"
  with inv show ?thesis by simp
next
  fix plaintext encoded h
  assume 2: "cb_header cb encoded = Some h" "length (hd_hash h) = 32" "hd_format h = eo_format opts"
    "publish_encoded env w (eo_format opts) (eo_layout opts) (hd_hash h) encoded plaintext d = (d', r)"
  let ?root = "hd_hash h" and ?f = "eo_format opts"
  have post: "publish_post env ?f (eo_layout opts) ?root encoded d d'"
    using tripleD [OF publish_triple [OF laws(2) 2(2)] refl 2(4)] by (cases r) simp_all
  then have kept: "others_kept env ?root ?f encoded d d'" by (simp add: publish_post_def)
  have old: "container_held env cb d' root m" if "known_commitment env root d = Ok m" for root m
    using container_held_kept [OF _ kept 2(1,3)] inv that by (simp add: containers_ok_held)
  show ?thesis
  proof (cases "dd_store d' = dd_store d")
    case True
    then have "known_commitment env root d' = known_commitment env root d" for root by (simp add: known_commitment_def)
    with old show ?thesis unfolding containers_ok_held by simp
  next
    case False
    with post obtain now where pub: "published env ?f (eo_layout opts) ?root encoded now d d'"
      by (auto simp: publish_post_def)
    have "container_held env cb d' ?root (new_meta ?root (carbonado_relative_path (env_hex env ?root) ?f) ?f (eo_layout opts) now)"
      using pub 2(1-3) by (simp add: container_held_def new_meta_def published_def container_path_def)
    with published_known(1) [OF pub laws(3) \<open>current d\<close>] published_others [OF pub] old show ?thesis
      unfolding containers_ok_held by (metis result.inject(2))
  qed
qed

text \<open>Encoding contents that are already stored replaces their record by a fresh one: the timestamp and the
  filepack of the commitment are forgotten, although the order of the commitments still lists it, and its cross-store
  verification fails from then on.\<close>

theorem reencode_drops_timestamp:
  assumes run: "encode_file_with_store env ke cb w input opts (d, k) = ((d', k'), Ok r)"
    and laws: "carbonado_ok cb" "hex_ok env" "reads_new env (eo_format opts) (eo_layout opts)" and "current d"
    and root: "er_bao_root_hex r = env_hex env root" "length root = 32"
  shows "\<exists>m'. known_commitment env root d' = Ok m' \<and> \<not> is_timestamped m' \<and> cm_filepack_fp m' = None \<and>
    sto_order (dd_store d') = sto_order (dd_store d) \<and>
    \<not> cs_valid (verify_cross_store env binding root m' proof_bytes d')"
proof (rule encode_Ok [OF run laws(1,2)])
  fix plaintext key h encoded now
  assume e: "length (hd_hash h) = 32" "er_bao_root_hex r = env_hex env (hd_hash h)"
    "published env (eo_format opts) (eo_layout opts) (hd_hash h) encoded now d d'"
  have "hd_hash h = root"
    using e(1,2) root hex_okD(1) [OF laws(2)] by (metis option.inject)
  with published_known(1) [OF e(3) laws(3) \<open>current d\<close>] e(3) show ?thesis
    by (auto simp: new_meta_def is_timestamped_def published_def put_commitment_def verify_cross_store_def Let_def)
qed


section \<open>Reading public contents back\<close>

text \<open>C35: Decoding a public file after it was encoded: its contents come back exactly when the container
  keeps below the cap on its size and both the length in front of its body and the length of the contents
  keep below the limit; the length in front of the body is that of the encoded body, so contents within the
  limit may be refused.\<close>

theorem encode_then_decode:
  assumes run: "encode_file_with_store env ke cb w input opts (d, k) = ((d', k'), Ok r)"
    and laws: "carbonado_ok cb" "hex_ok env" "reads_new env (eo_format opts) (eo_layout opts)" and "current d"
    and "eo_format opts mod 2 = 0" "eo_plaintext opts = Some plaintext"
  shows "\<exists>root m encoded. env_unhex env (er_bao_root_hex r) = Some root \<and> known_commitment env root d' = Ok m \<and>
    cb_encode cb public_master_key plaintext (eo_format opts) = Some encoded \<and>
    decode_public_commitment_content cb m root limit d' =
      (if max_encoded_bytes_for_decode cb limit < word_of_nat (length encoded)
       then Err (EncodedFileTooLarge (word_of_nat (length encoded)) (max_encoded_bytes_for_decode cb limit))
       else case read_bao_content_len (drop (cb_header_len cb) encoded) of
           None \<Rightarrow> Err CorruptPayload
         | Some body_len \<Rightarrow> if limit < body_len \<or> limit < word_of_nat (length plaintext) then Err (Oversized limit)
             else Ok plaintext)"
proof (rule encode_Ok [OF run laws(1,2)])
  fix pt key h encoded now
  assume pt: "(case eo_plaintext opts of Some bs \<Rightarrow> Some bs | None \<Rightarrow> input) = Some pt"
    and mk: "master_key_for_format ke (eo_format opts) (eo_master_key_hex opts) k = (k', Ok key)"
    and e: "cb_encode cb key pt (eo_format opts) = Some encoded" "cb_header cb encoded = Some h"
    "length (hd_hash h) = 32" "er_bao_root_hex r = env_hex env (hd_hash h)"
    "published env (eo_format opts) (eo_layout opts) (hd_hash h) encoded now d d'"
  have [simp]: "pt = plaintext" "key = public_master_key" using assms(6,7) pt mk by (simp_all add: master_key_for_format_def)
  note C = carbonado_okD [OF laws(1) e(1,2)]
  note K = published_known(1) [OF e(5) laws(3) \<open>current d\<close>]
  let ?m = "new_meta (hd_hash h) (carbonado_relative_path (env_hex env (hd_hash h)) (eo_format opts)) (eo_format opts)
    (eo_layout opts) now"
  have m: "cm_carbonado_path ?m = carbonado_relative_path (env_hex env (hd_hash h)) (eo_format opts)"
    "cm_format ?m = eo_format opts" by (simp_all add: new_meta_def)
  note R = published_container(1) [OF e(5) laws(2) e(3) m(1)]
  have lies: "dd_files d' (''carbonado/'' @ carbonado_relative_path (env_hex env (hd_hash h)) (eo_format opts)) = Some encoded"
    using e(5) by (simp add: published_def)
  have auth: "authenticate_header cb public_master_key h = Ok ()"
    using C(3) by (simp add: authenticate_header_def constant_time_eq_iff)
  let ?cap = "max_encoded_bytes_for_decode cb limit"
  have dec: "cb_decode cb public_master_key encoded = Some (h, plaintext)" using C(4) by simp
  have "decode_public_commitment_content cb ?m (hd_hash h) limit d' =
      (if ?cap < word_of_nat (length encoded) then Err (EncodedFileTooLarge (word_of_nat (length encoded)) ?cap)
       else case read_bao_content_len (drop (cb_header_len cb) encoded) of
           None \<Rightarrow> Err CorruptPayload
         | Some body_len \<Rightarrow> if limit < body_len \<or> limit < word_of_nat (length plaintext) then Err (Oversized limit)
             else Ok plaintext)"
    unfolding decode_public_commitment_content_def decode_public_commitment_content_with_encoded_cap_def
    using assms(6) e(2) C(2) auth dec
    by (cases "?cap < word_of_nat (length encoded)"; cases "read_bao_content_len (drop (cb_header_len cb) encoded)")
      (auto simp: R [unfolded m(1)] m lies read_carbonado_file_def Let_def map_header_auth_error_def
        ensure_def not_less dest: leD simp del: append_Cons append_Nil)
  with K e(1,4) hex_okD(1) [OF laws(2) e(3)] show ?thesis by (intro exI [of _ "hd_hash h"] exI [of _ ?m] exI [of _ encoded]) simp
qed


section \<open>The laws hold\<close>

text \<open>Lower-case hexadecimal.\<close>

definition hex_digit :: "nat \<Rightarrow> char" where
  "hex_digit n = ''0123456789abcdef'' ! n"

definition hex_value :: "char \<Rightarrow> nat option" where
  "hex_value c = (let n = of_char c :: nat in
     if 48 \<le> n \<and> n \<le> 57 then Some (n - 48) else if 97 \<le> n \<and> n \<le> 102 then Some (n - 87) else None)"

fun hex_encode :: "bytes \<Rightarrow> string" where
  "hex_encode [] = []"
| "hex_encode (b # bs) = hex_digit (unat b div 16) # hex_digit (unat b mod 16) # hex_encode bs"

fun hex_decode :: "string \<Rightarrow> bytes option" where
  "hex_decode [] = Some []"
| "hex_decode (a # b # s) = (case (hex_value a, hex_value b, hex_decode s) of
     (Some x, Some y, Some bs) \<Rightarrow> Some (word_of_nat (x * 16 + y) # bs) | _ \<Rightarrow> None)"
| "hex_decode _ = None"

lemma less_16: "n < 16 \<longleftrightarrow> n \<in> {0, 1, 2, 3, 4, 5, 6, 7, 8, 9, 10, 11, 12, 13, 14, 15 :: nat}"
  by (auto simp: numeral_eq_Suc less_Suc_eq)

lemma hex_digit_value: "n < 16 \<Longrightarrow> hex_value (hex_digit n) = Some n" "n < 16 \<Longrightarrow> hex_digit n \<in> set ''0123456789abcdef''"
  unfolding less_16 by (auto simp: hex_value_def hex_digit_def Let_def)

lemma u8_nibbles: "unat (b :: u8) div 16 < 16" "unat (b :: u8) mod 16 < 16"
  using unat_u8_less [of b] by linarith+

lemma hex_decode_encode: "hex_decode (hex_encode bs) = Some bs"
proof (induction bs)
  case (Cons b bs)
  have "word_of_nat (unat b div 16 * 16 + unat b mod 16) = b" by simp
  with Cons show ?case by (simp add: hex_digit_value u8_nibbles)
qed simp

lemma hex_encode_in: "(\<And>n. n < 16 \<Longrightarrow> hex_digit n \<in> H) \<Longrightarrow> set (hex_encode bs) \<subseteq> H"
  by (induction bs) (simp_all add: u8_nibbles)

lemma hex_encode_chars: "set (hex_encode bs) \<subseteq> set ''0123456789abcdef''"
  by (rule hex_encode_in) (rule hex_digit_value(2))

text \<open>A container that holds the contents after the format and their length.\<close>

definition toy_header :: "u8 \<Rightarrow> header" where
  "toy_header format = \<lparr>hd_hash = replicate 32 9, hd_format = format, hd_payload_nonce = [], hd_slh_public_key = [],
     hd_chunk_index = [], hd_encoded_len = 1, hd_padding_len = [], hd_metadata = None, hd_mac = []\<rparr>"

definition toy_carbonado :: carbonado where
  "toy_carbonado = \<lparr>
     cb_encode = (\<lambda>key plaintext format. Some (format # le_bytes 8 (length plaintext) @ plaintext)),
     cb_decode = (\<lambda>key blob. Some (toy_header (hd blob), drop 9 blob)),
     cb_header = (\<lambda>blob. Some (toy_header (hd blob))), cb_header_len = 1, cb_magic = [],
     cb_mac = (\<lambda>key msg. Some []), cb_verifiable = (\<lambda>format. True), cb_slice_len = 1,
     cb_verify_slice = (\<lambda>body i root format. unat i + 8 < length body)\<rparr>"

text \<open>A codec of public, inboard records: the creation time, and the root; a timestamped record is longer.\<close>

definition toy_public :: "bytes \<Rightarrow> u64 \<Rightarrow> commitment_meta" where
  "toy_public root now = new_meta root (carbonado_relative_path (hex_encode root) 0) 0 Inboard now"

definition toy_henv :: commit_env where
  "toy_henv = toy_cenv\<lparr>
     env_codec := \<lparr>read_v1 = (\<lambda>b. None), read_v2 = (\<lambda>b. None),
       read_meta = (\<lambda>b. case b of
           [] \<Rightarrow> None
         | t # b' \<Rightarrow> let m = toy_public (drop 8 b') (word_of_nat (le_val (take 8 b')))
             in Some (if t = 0 then m else timestamped_meta m [] [] 5)),
       write_meta = (\<lambda>m. (if cm_timestamped_at m = None then 0 else 1) # le_bytes 8 (unat (cm_created_at m)) @ cm_bao_root m)\<rparr>,
     env_hex := hex_encode, env_unhex := hex_decode\<rparr>"

lemma toy_laws:
  "carbonado_ok toy_carbonado" "hex_ok toy_henv" "reads_new toy_henv 0 Inboard"
proof -
  show "carbonado_ok toy_carbonado"
    by (auto simp: carbonado_ok_def toy_carbonado_def toy_header_def auth_data_def)
  show "hex_ok toy_henv"
    unfolding hex_ok_def toy_henv_def
  proof (intro allI impI conjI)
    fix root :: bytes
    assume "length root = 32"
    then show "env_hex (toy_cenv\<lparr>env_codec := c, env_hex := hex_encode, env_unhex := hex_decode\<rparr>) root \<noteq> []" for c
      by (cases root) auto
  qed (use hex_decode_encode hex_encode_chars in auto)
  have "unat now < 256 ^ 8" for now :: u64 using unsigned_less [of now] by simp
  then show "reads_new toy_henv 0 Inboard"
    by (simp add: reads_new_def toy_henv_def Let_def new_meta_def toy_public_def le_val_le_bytes)
qed

definition toy_opts :: encode_options where
  "toy_opts = \<lparr>eo_format = 0, eo_layout = Inboard, eo_master_key_hex = None, eo_plaintext = Some [1, 2, 3]\<rparr>"

definition toy_eio :: encode_io where
  "toy_eio = \<lparr>ei_temp = True, ei_temp_plain = True, ei_clock = Some 5, ei_publish = True,
     ei_publish_plain = True, ei_commit = True\<rparr>"

definition toy_kenv :: key_env where
  "toy_kenv = \<lparr>ke_unhex = hex_decode, ke_outcome = KeyCreated, ke_random = replicate 32 7, ke_default_mode = 420\<rparr>"

text \<open>A directory where the contents are already stored and timestamped.\<close>

definition toy_stored_dir :: data_dir where
  "toy_stored_dir = toy_dir\<lparr>
     dd_store := \<lparr>sto_meta = [(replicate 32 9, 1 # replicate 8 0 @ replicate 32 9)], sto_order = [([], replicate 32 9)],
       sto_schema = Some 4\<rparr>,
     dd_files := [container_path toy_henv (replicate 32 9) 0 \<mapsto> 0 # replicate 8 0]\<rparr>"

lemma toy_stored:
  "current toy_stored_dir"
  "known_commitment toy_henv (replicate 32 9) toy_stored_dir = Ok (timestamped_meta (toy_public (replicate 32 9) 0) [] [] 5)"
proof -
  show "current toy_stored_dir"
    by (simp add: current_def toy_stored_dir_def toy_dir_def statistic_def SCHEMA_VERSION_def)
  have "le_val (replicate 8 (0 :: u8)) = 0" by (simp add: numeral_eq_Suc)
  then show "known_commitment toy_henv (replicate 32 9) toy_stored_dir =
      Ok (timestamped_meta (toy_public (replicate 32 9) 0) [] [] 5)"
    by (simp add: known_commitment_def get_commitment_def toy_stored_dir_def toy_henv_def Let_def)
qed

lemma toy_encode:
  "\<exists>d' r. encode_file_with_store toy_henv toy_kenv toy_carbonado toy_eio None toy_opts (toy_stored_dir, None) =
     ((d', None), Ok r) \<and> er_bao_root_hex r = env_hex toy_henv (replicate 32 9)"
  by (simp add: encode_file_with_store_def toy_opts_def toy_carbonado_def toy_header_def master_key_for_format_def
      publish_encoded_def Let_def outboard_plaintext_name_def io_simps toy_eio_def io_pure_def)


lemma toy_requirements:
  "eo_format toy_opts = 0" "eo_layout toy_opts = Inboard" "eo_plaintext toy_opts = Some [1, 2, 3]"
  "eo_master_key_hex toy_opts = None" "length (ke_random toy_kenv) = 32"
  "cb_verifiable toy_carbonado (eo_format toy_opts)" "cb_header_len toy_carbonado = 1"
  "cb_encode toy_carbonado key plaintext format = Some (format # le_bytes 8 (length plaintext) @ plaintext)"
  by (simp_all add: toy_opts_def toy_kenv_def toy_carbonado_def)

lemma encode_then_verify_witness:
  "\<exists>d' v. verify_commitment toy_henv toy_kenv toy_carbonado rev 10 None None (env_hex toy_henv (replicate 32 9)) d' =
     (d', Ok v) \<and> vr_slices_verified v = min 10 (vr_total_slices v)"
proof -
  from toy_encode obtain d' r where
    run: "encode_file_with_store toy_henv toy_kenv toy_carbonado toy_eio None toy_opts (toy_stored_dir, None) = ((d', None), Ok r)"
    and r: "er_bao_root_hex r = env_hex toy_henv (replicate 32 9)"
    by blast
  show ?thesis
    using encode_then_verify [OF run toy_laws(1,2) _ toy_stored(1), where n = 10 and shuffle = rev]
      toy_laws(3) toy_requirements r by auto
qed

lemma encode_then_decode_witness:
  "\<exists>d' root m. decode_public_commitment_content toy_carbonado m root 3 d' = Ok [1, 2, 3] \<and>
     decode_public_commitment_content toy_carbonado m root 3 toy_dir \<noteq> Ok [1, 2, 3]"
proof -
  from toy_encode obtain d' r where
    run: "encode_file_with_store toy_henv toy_kenv toy_carbonado toy_eio None toy_opts (toy_stored_dir, None) = ((d', None), Ok r)"
    by blast
  have cap: "max_encoded_bytes_for_decode toy_carbonado 3 = 1048583"
    by (simp add: max_encoded_bytes_for_decode_def toy_requirements saturating_add_def saturating_mul_def)
  have len: "read_bao_content_len (le_bytes 8 (Suc (Suc (Suc 0))) @ [1, 2, 3]) = Some 3"
    by (simp add: read_bao_content_len_def le_val_le_bytes del: le_bytes.simps flip: numeral_3_eq_3)
  have fresh: "decode_public_commitment_content toy_carbonado m root 3 toy_dir \<noteq> Ok [1, 2, 3]" for m root
    by (auto simp: decode_public_commitment_content_def decode_public_commitment_content_with_encoded_cap_def
        read_carbonado_file_def toy_dir_def and_then_def split: result.splits)
  show ?thesis
    using encode_then_decode [OF run toy_laws(1,2) _ toy_stored(1) _ toy_requirements(3), where limit = 3]
      toy_laws(3) len fresh by (auto simp: toy_requirements cap split: if_splits)
qed

lemma encode_keeps_containers_witness:
  "containers_ok toy_henv toy_carbonado
     (fst (fst (encode_file_with_store toy_henv toy_kenv toy_carbonado (toy_eio\<lparr>ei_commit := False\<rparr>) None toy_opts
       (toy_stored_dir, None))))"
proof -
  have inv: "containers_ok toy_henv toy_carbonado toy_stored_dir"
    unfolding containers_ok_def
  proof (intro allI impI)
    fix root m
    assume known: "known_commitment toy_henv root toy_stored_dir = Ok m"
    then have "root = replicate 32 9"
      by (auto simp: known_commitment_def get_commitment_def toy_stored_dir_def split: if_splits)
    with known toy_stored(2) have [simp]: "root = replicate 32 9" "m = timestamped_meta (toy_public (replicate 32 9) 0) [] [] 5"
      by simp_all
    show "length root = 32 \<and> cm_carbonado_path m = carbonado_relative_path (env_hex toy_henv root) (cm_format m) \<and>
        (\<exists>blob h. dd_files toy_stored_dir (container_path toy_henv root (cm_format m)) = Some blob \<and>
           cb_header toy_carbonado blob = Some h \<and> hd_hash h = root \<and> hd_format h = cm_format m)"
      by (simp add: timestamped_meta_def toy_public_def new_meta_def toy_henv_def toy_stored_dir_def
          toy_carbonado_def toy_header_def container_path_def)
  qed
  obtain d' k' r where
    run: "encode_file_with_store toy_henv toy_kenv toy_carbonado (toy_eio\<lparr>ei_commit := False\<rparr>) None toy_opts
      (toy_stored_dir, None) = ((d', k'), r)"
    by (metis surj_pair)
  show ?thesis
    using encode_keeps_containers [OF inv run toy_laws(1,2) _ toy_stored(1)] toy_laws(3) toy_requirements run by simp
qed

lemma reencode_drops_timestamp_witness:
  "is_timestamped (timestamped_meta (toy_public (replicate 32 9) 0) [] [] 5) \<and>
   known_commitment toy_henv (replicate 32 9) toy_stored_dir = Ok (timestamped_meta (toy_public (replicate 32 9) 0) [] [] 5) \<and>
   (\<exists>d' m'. known_commitment toy_henv (replicate 32 9) d' = Ok m' \<and> \<not> is_timestamped m' \<and>
      sto_order (dd_store d') = [([], replicate 32 9)])"
proof -
  from toy_encode obtain d' r where
    run: "encode_file_with_store toy_henv toy_kenv toy_carbonado toy_eio None toy_opts (toy_stored_dir, None) = ((d', None), Ok r)"
    and r: "er_bao_root_hex r = env_hex toy_henv (replicate 32 9)"
    by blast
  have "is_timestamped (timestamped_meta (toy_public (replicate 32 9) 0) [] [] 5)"
    "sto_order (dd_store toy_stored_dir) = [([], replicate 32 9)]"
    by (simp_all add: is_timestamped_def timestamped_meta_def toy_stored_dir_def)
  then show ?thesis
    using reencode_drops_timestamp [OF run toy_laws(1,2) _ toy_stored(1) r, where binding = "\<lambda>b m r. True" and proof_bytes = "[]"]
      toy_laws(3) toy_requirements toy_stored(2) by auto
qed

end
