(* ===== verification/FilepackSafety.thy ===== *)
theory FilepackSafety
  imports Filepack ArchiveSafety CarbonadoSafety
begin

text \<open>
  What packing a directory guarantees: a pack that was created verifies under its fingerprint, in
  both kinds of manifest; and what a failed creation leaves of the bindings of its records.
\<close>

section \<open>Records of a pack\<close>

text \<open>The record of an entry, with a property of its binding.\<close>

definition bound ::
  "commit_env \<Rightarrow> u8 \<Rightarrow> (string option \<Rightarrow> bool) \<Rightarrow> commitment_store \<Rightarrow> filepack_entry \<Rightarrow> bool" where
  "bound env format P st e \<longleftrightarrow> fe_format e = format \<and>
     (\<exists>root m. fe_bao_root e = env_hex env root \<and> length root = 32 \<and>
        get_commitment (env_codec env) st root = Ok (Some m) \<and> cm_bao_root m = root \<and> cm_format m = format \<and>
        P (cm_filepack_fp m))"

lemma bound_mono: "bound env format P st e \<Longrightarrow> (\<And>fp. P fp \<Longrightarrow> Q fp) \<Longrightarrow> bound env format Q st e"
  unfolding bound_def by blast

lemma get_put:
  assumes "codec_ok (env_codec env)"
  shows "get_commitment (env_codec env) (put_commitment (env_codec env) m st) root =
    (if root = cm_bao_root m then Ok (Some m) else get_commitment (env_codec env) st root)"
  using assms by (simp add: get_commitment_def put_commitment_def codec_ok_def)

lemma codec_ok_reads_new: "codec_ok (env_codec env) \<Longrightarrow> reads_new env format lay"
  by (simp add: codec_ok_def reads_new_def Let_def)

lemma bound_put:
  assumes "codec_ok (env_codec env)" "bound env format P st e" "cm_format m = format" "P (cm_filepack_fp m)"
  shows "bound env format P (put_commitment (env_codec env) m st) e"
proof -
  from assms(2) obtain root m0 where r: "fe_format e = format" "fe_bao_root e = env_hex env root" "length root = 32"
    "get_commitment (env_codec env) st root = Ok (Some m0)" "cm_bao_root m0 = root" "cm_format m0 = format"
    "P (cm_filepack_fp m0)"
    unfolding bound_def by blast
  show ?thesis
  proof (cases "root = cm_bao_root m")
    case True
    with r(1-3) assms(3,4) get_put [OF assms(1), of m st root] show ?thesis unfolding bound_def by auto
  next
    case False
    with r get_put [OF assms(1), of m st root] show ?thesis unfolding bound_def by auto
  qed
qed

lemma published_bound:
  assumes "published env format lay root encoded now d d'" "codec_ok (env_codec env)" "P None"
  shows "bound env format P (dd_store d) e \<Longrightarrow> bound env format P (dd_store d') e"
    and "length root = 32 \<Longrightarrow> fe_format e = format \<Longrightarrow> fe_bao_root e = env_hex env root \<Longrightarrow>
      bound env format P (dd_store d') e"
proof -
  let ?m = "new_meta root (carbonado_relative_path (env_hex env root) format) format lay now"
  have st: "dd_store d' = put_commitment (env_codec env) ?m (dd_store d)" using assms(1) by (simp add: published_def)
  have m: "cm_bao_root ?m = root" "cm_format ?m = format" "cm_filepack_fp ?m = None" by (simp_all add: new_meta_def)
  show "bound env format P (dd_store d) e \<Longrightarrow> bound env format P (dd_store d') e"
    unfolding st by (rule bound_put [OF assms(2)]) (simp_all add: m assms(3))
  show "bound env format P (dd_store d') e"
    if "length root = 32" "fe_format e = format" "fe_bao_root e = env_hex env root"
    using that m assms(3) get_put [OF assms(2), of ?m "dd_store d" root] unfolding bound_def st by auto
qed

text \<open>A step of the loop.\<close>

lemma encode_step:
  assumes run: "encode_file_with_store env ke cb w None (encode_options_of opts bs) (d, k) = ((d', k'), Ok r)"
    and laws: "carbonado_ok cb" "hex_ok env" "codec_ok (env_codec env)" and "current d" "P None"
  shows "current d'" "er_format r = co_format opts"
    "bound env (co_format opts) P (dd_store d) e \<Longrightarrow> bound env (co_format opts) P (dd_store d') e"
    "fe_format e = co_format opts \<Longrightarrow> fe_bao_root e = er_bao_root_hex r \<Longrightarrow> bound env (co_format opts) P (dd_store d') e"
proof (rule_tac [!] encode_Ok [OF run laws(1,2)], goal_cases)
  case (1 plaintext key h encoded now)
  from published_known(2) [OF 1(7) codec_ok_reads_new [OF laws(3)] \<open>current d\<close>] show ?case .
next
  case (2 plaintext key h encoded now)
  then show ?case by (simp add: encode_options_of_def)
next
  case (3 plaintext key h encoded now)
  from published_bound(1) [where P = P, OF 3(8) laws(3) \<open>P None\<close>] 3(1) show ?case by (simp add: encode_options_of_def)
next
  case (4 plaintext key h encoded now)
  from published_bound(2) [where P = P, OF 4(9) laws(3) \<open>P None\<close>] 4(1,2,7,8) show ?case by (simp add: encode_options_of_def)
qed


section \<open>The loop over the files\<close>

text \<open>What the loop has collected: entries of records that are not in a pack, and for the archive the
  sources and bindings of the same paths.\<close>

definition collected :: "commit_env \<Rightarrow> u8 \<Rightarrow> encoded_files \<Rightarrow> data_dir \<Rightarrow> bool" where
  "collected env format acc d \<longleftrightarrow> current d \<and>
     (\<forall>e \<in> set (ef_entries acc). bound env format (\<lambda>fp. fp = None) (dd_store d) e) \<and>
     btree_ok (ef_sources acc) \<and> btree_ok (ef_bindings acc) \<and>
     fst ` set (ef_sources acc) = fst ` set (ef_bindings acc) \<and>
     (\<forall>x \<in> set (ef_bindings acc). \<exists>e \<in> set (ef_entries acc).
        fe_bao_root e = bn_bao_root (snd x) \<and> fe_format e = bn_format (snd x))"

lemma btree_insert_subset: "set (btree_insert k v m) \<subseteq> insert (k, v) (set m)"
  by (induction k v m rule: btree_insert.induct) auto

lemma collected_step:
  assumes "collected env (co_format opts) acc d"
    and run: "encode_file_with_store env ke cb w None (encode_options_of opts bs) (d, k) = ((d', k'), Ok r)"
    and laws: "carbonado_ok cb" "hex_ok env" "codec_ok (env_codec env)"
  shows "collected env (co_format opts) (add_encoded fenv casey path bs r acc) d'"
proof -
  let ?e = "\<lparr>fe_path = path, fe_size = word_of_nat (length bs), fe_bao_root = er_bao_root_hex r, fe_format = er_format r\<rparr>"
  have cur: "current d" using assms(1) by (simp add: collected_def)
  note step = encode_step [where P = "\<lambda>fp. fp = None", OF run laws cur refl]
  have entries: "ef_entries (add_encoded fenv casey path bs r acc) = ef_entries acc @ [?e]"
    by (simp add: add_encoded_def Let_def)
  have "bound env (co_format opts) (\<lambda>fp. fp = None) (dd_store d') e" if "e \<in> set (ef_entries acc @ [?e])" for e
    using that step(2,3,4) assms(1) by (auto simp: collected_def)
  moreover have "\<exists>e \<in> set (ef_entries acc @ [?e]). fe_bao_root e = bn_bao_root (snd x) \<and> fe_format e = bn_format (snd x)"
    if "x \<in> set (ef_bindings (add_encoded fenv casey path bs r acc))" for x
  proof (cases "x \<in> set (ef_bindings acc)")
    case True
    with assms(1) show ?thesis unfolding collected_def by auto
  next
    case False
    with that btree_insert_subset have "bn_bao_root (snd x) = er_bao_root_hex r \<and> bn_format (snd x) = er_format r"
      by (fastforce simp: add_encoded_def Let_def split: if_splits)
    then show ?thesis by simp
  qed
  moreover have "btree_ok (ef_sources (add_encoded fenv casey path bs r acc)) \<and>
      btree_ok (ef_bindings (add_encoded fenv casey path bs r acc)) \<and>
      fst ` set (ef_sources (add_encoded fenv casey path bs r acc)) = fst ` set (ef_bindings (add_encoded fenv casey path bs r acc))"
    using assms(1) unfolding collected_def by (cases casey) (simp_all add: add_encoded_def Let_def)
  ultimately show ?thesis
    unfolding collected_def entries using step(1) by (intro conjI ballI) simp_all
qed

lemma io_then_prod_cases:
  assumes "io_then m f s = (s', Ok y)"
  obtains s1 x where "m s = (s1, Ok x)" "f x s1 = (s', Ok y)"
  using assms by (cases rule: io_then_cases) auto

definition source_entry :: "filepack_env \<Rightarrow> bytes \<Rightarrow> source_file_entry" where
  "source_entry fenv bs = \<lparr>sf_hash = ae_hash (fp_archive fenv) bs, sf_size = word_of_nat (length bs)\<rparr>"

fun add_sources ::
  "filepack_env \<Rightarrow> source_dir \<Rightarrow> string list \<Rightarrow> (string, source_file_entry) btree \<Rightarrow> (string, source_file_entry) btree" where
  "add_sources fenv src [] sources = sources"
| "add_sources fenv src (path # paths) sources = add_sources fenv src paths
     (case sd_read src path of None \<Rightarrow> sources | Some bs \<Rightarrow> btree_insert path (source_entry fenv bs) sources)"

lemma add_sources_keys: "fst ` set (add_sources fenv src paths sources) \<subseteq> fst ` set sources \<union> set paths"
proof (induction paths arbitrary: sources)
  case (Cons path paths)
  show ?case
  proof (cases "sd_read src path")
    case None
    then show ?thesis using Cons [of sources] by auto
  next
    case (Some bs)
    then show ?thesis using Cons [of "btree_insert path (source_entry fenv bs) sources"] by auto
  qed
qed simp

lemma encode_entries_collects:
  assumes "encode_entries env ke cb fenv ws src opts i paths acc (d, k) = ((d', k'), Ok acc')"
    and "collected env (co_format opts) acc d" "carbonado_ok cb" "hex_ok env" "codec_ok (env_codec env)"
  shows "collected env (co_format opts) acc' d' \<and>
    (co_filepack_compat opts \<longrightarrow> ef_sources acc' = add_sources fenv src paths (ef_sources acc))"
  using assms(1,2)
proof (induction paths arbitrary: i acc d k)
  case Nil
  then show ?case by (simp add: io_pure_def)
next
  case (Cons path paths)
  from Cons.prems(1) obtain bs where bs: "sd_read src path = Some bs"
    by (cases "sd_read src path") (auto simp: io_then_def io_lift_def)
  with Cons.prems(1) have "io_then (encode_file_with_store env ke cb (ws i) None (encode_options_of opts bs)) (\<lambda>r.
      encode_entries env ke cb fenv ws src opts (Suc i) paths
        (add_encoded fenv (co_filepack_compat opts) path bs r acc)) (d, k) = ((d', k'), Ok acc')"
    by (simp add: io_then_def [of "io_lift f" for f] io_lift_def)
  then obtain s1 r where r: "encode_file_with_store env ke cb (ws i) None (encode_options_of opts bs) (d, k) = (s1, Ok r)"
    "encode_entries env ke cb fenv ws src opts (Suc i) paths
        (add_encoded fenv (co_filepack_compat opts) path bs r acc) s1 = ((d', k'), Ok acc')"
    by (rule io_then_prod_cases)
  obtain d1 k1 where s1: "s1 = (d1, k1)" by fastforce
  note step = collected_step [OF Cons.prems(2) r(1) [unfolded s1] assms(3-5), of fenv "co_filepack_compat opts" path]
  from Cons.IH [OF r(2) [unfolded s1] step] bs show ?case
    by (auto simp: add_encoded_def Let_def source_entry_def)
qed

section \<open>Binding and rolling back\<close>

lemma update_filepack_fp_Ok:
  assumes "update_filepack_fp (env_codec env) root F st = Ok st'"
  obtains m where "get_commitment (env_codec env) st root = Ok (Some m)"
    "st' = put_commitment (env_codec env) (m\<lparr>cm_filepack_fp := Some F\<rparr>) st"
  using assms by (auto simp: update_filepack_fp_def ok_elims)

lemma map_error_eq_Ok [simp]: "map_error f r = Ok x \<longleftrightarrow> r = Ok x"
  by (rule map_error_Ok)

lemma bind_entries_Cons:
  assumes "bind_entries env F (e # es) st = Ok (prev, st'')"
  obtains root m st' prev' where "parse_bao_root env (fe_bao_root e) = Ok root"
    "get_commitment (env_codec env) st root = Ok (Some m)"
    "st' = put_commitment (env_codec env) (m\<lparr>cm_filepack_fp := Some F\<rparr>) st"
    "bind_entries env F es st' = Ok (prev', st'')" "prev = (root, cm_filepack_fp m) # prev'"
  using assms by (auto simp: ok_elims elim!: update_filepack_fp_Ok)

text \<open>A binding to the pack keeps what is known of an entry.\<close>

lemma bound_update:
  assumes "codec_ok (env_codec env)" "bound env format P st e" "P (Some F)"
    and "get_commitment (env_codec env) st root = Ok (Some m)" "cm_bao_root m = root"
  shows "bound env format P (put_commitment (env_codec env) (m\<lparr>cm_filepack_fp := Some F\<rparr>) st) e"
proof -
  from assms(2) obtain root0 m0 where r: "fe_format e = format" "fe_bao_root e = env_hex env root0" "length root0 = 32"
    "get_commitment (env_codec env) st root0 = Ok (Some m0)" "cm_bao_root m0 = root0" "cm_format m0 = format"
    "P (cm_filepack_fp m0)"
    unfolding bound_def by blast
  show ?thesis
    using r assms(3-5) get_put [OF assms(1), of "m\<lparr>cm_filepack_fp := Some F\<rparr>" st root0]
    unfolding bound_def by (cases "root0 = root") auto
qed

lemma bound_root:
  assumes "bound env format P st e" "hex_ok env" "parse_bao_root env (fe_bao_root e) = Ok root"
  shows "fe_bao_root e = env_hex env root" "length root = 32" "fe_format e = format"
    "\<exists>m. get_commitment (env_codec env) st root = Ok (Some m) \<and> cm_bao_root m = root \<and> cm_format m = format \<and>
      P (cm_filepack_fp m)"
proof -
  from assms(1) obtain root0 where r: "fe_bao_root e = env_hex env root0" "length root0 = 32" "fe_format e = format"
    "\<exists>m. get_commitment (env_codec env) st root0 = Ok (Some m) \<and> cm_bao_root m = root0 \<and> cm_format m = format \<and>
      P (cm_filepack_fp m)" unfolding bound_def by blast
  have "root0 = root" using assms(3) hex_okD(1) [OF assms(2) r(2)] r(1,2) by (simp add: parse_bao_root_def)
  with r show "fe_bao_root e = env_hex env root" "length root = 32" "fe_format e = format"
    "\<exists>m. get_commitment (env_codec env) st root = Ok (Some m) \<and> cm_bao_root m = root \<and> cm_format m = format \<and>
      P (cm_filepack_fp m)" by simp_all
qed

lemma bound_parse:
  assumes "bound env format P st e" "hex_ok env"
  obtains root m where "parse_bao_root env (fe_bao_root e) = Ok root" "fe_bao_root e = env_hex env root" "length root = 32"
    "get_commitment (env_codec env) st root = Ok (Some m)" "cm_bao_root m = root" "cm_format m = format" "P (cm_filepack_fp m)"
proof -
  from assms(1) obtain root m where r: "fe_bao_root e = env_hex env root" "length root = 32"
    "get_commitment (env_codec env) st root = Ok (Some m)" "cm_bao_root m = root" "cm_format m = format"
    "P (cm_filepack_fp m)" unfolding bound_def by blast
  moreover have "parse_bao_root env (fe_bao_root e) = Ok root"
    using r(1,2) hex_okD(1) [OF assms(2) r(2)] by (simp add: parse_bao_root_def)
  ultimately show thesis using that by blast
qed

lemma bind_entries_bound:
  assumes "bind_entries env F es st = Ok (prev, st')" "codec_ok (env_codec env)" "hex_ok env"
    and "\<forall>e \<in> set es. bound env format (\<lambda>_. True) st e"
  shows "bound env format P st e \<Longrightarrow> P (Some F) \<Longrightarrow> bound env format P st' e"
    and "e \<in> set es \<Longrightarrow> bound env format (\<lambda>fp. fp = Some F) st' e"
    and "sto_schema st' = sto_schema st"
proof -
  have keep: "bound env format P st' e" if "bound env format P st e" "P (Some F)"
    "bind_entries env F es st = Ok (prev, st')" "\<forall>e \<in> set es. bound env format (\<lambda>_. True) st e" for P es st prev e
    using that(1,3,4)
  proof (induction es arbitrary: st prev)
    case (Cons x es)
    from Cons.prems(2) obtain root m st1 prev' where x: "parse_bao_root env (fe_bao_root x) = Ok root"
      "get_commitment (env_codec env) st root = Ok (Some m)"
      "st1 = put_commitment (env_codec env) (m\<lparr>cm_filepack_fp := Some F\<rparr>) st"
      "bind_entries env F es st1 = Ok (prev', st')" by (rule bind_entries_Cons)
    have xb: "bound env format (\<lambda>_. True) st x" using Cons.prems(3) by simp
    have root: "cm_bao_root m = root" using bound_root(4) [OF xb assms(3) x(1)] x(2) by simp
    show ?case
    proof (rule Cons.IH [OF _ x(4)])
      show "bound env format P st1 e" unfolding x(3) by (rule bound_update [OF assms(2) Cons.prems(1) that(2) x(2) root])
      show "\<forall>e \<in> set es. bound env format (\<lambda>_. True) st1 e"
        unfolding x(3) using Cons.prems(3) bound_update [OF assms(2) _ _ x(2) root] by simp
    qed
  qed simp
  show "bound env format P st e \<Longrightarrow> P (Some F) \<Longrightarrow> bound env format P st' e" by (rule keep [OF _ _ assms(1,4)])
  show "bound env format (\<lambda>fp. fp = Some F) st' e" if "e \<in> set es"
    using assms(1,4) that
  proof (induction es arbitrary: st prev)
    case (Cons x es)
    from Cons.prems(1) obtain root m st1 prev' where x: "parse_bao_root env (fe_bao_root x) = Ok root"
      "get_commitment (env_codec env) st root = Ok (Some m)"
      "st1 = put_commitment (env_codec env) (m\<lparr>cm_filepack_fp := Some F\<rparr>) st"
      "bind_entries env F es st1 = Ok (prev', st')" by (rule bind_entries_Cons)
    have xb: "bound env format (\<lambda>_. True) st x" using Cons.prems(2) by simp
    note b = bound_root [OF xb assms(3) x(1)]
    have root: "cm_bao_root m = root" "cm_format m = format" using b(4) x(2) by simp_all
    have later: "\<forall>e \<in> set es. bound env format (\<lambda>_. True) st1 e"
      unfolding x(3) using Cons.prems(2) bound_update [OF assms(2) _ _ x(2) root(1)] by simp
    show ?case
    proof (cases "e \<in> set es")
      case False
      with Cons.prems(3) have "e = x" by simp
      have "bound env format (\<lambda>fp. fp = Some F) st1 x"
        using b(1-3) root get_put [OF assms(2), of "m\<lparr>cm_filepack_fp := Some F\<rparr>" st root]
        unfolding bound_def x(3) by auto
      from keep [where P = "\<lambda>fp. fp = Some F", OF this refl x(4) later] \<open>e = x\<close> show ?thesis by simp
    qed (rule Cons.IH [OF x(4) later])
  qed simp
  show "sto_schema st' = sto_schema st"
    using assms(1)
  proof (induction es arbitrary: st prev)
    case (Cons x es)
    from Cons.prems obtain root m st1 prev' where "st1 = put_commitment (env_codec env) (m\<lparr>cm_filepack_fp := Some F\<rparr>) st"
      "bind_entries env F es st1 = Ok (prev', st')" by (rule bind_entries_Cons)
    with Cons.IH [of st1 prev'] show ?case by (simp add: put_commitment_def)
  qed simp
qed


section \<open>A failed creation\<close>

definition fp_of :: "commit_env \<Rightarrow> commitment_store \<Rightarrow> bytes \<Rightarrow> string option" where
  "fp_of env st root = (case get_commitment (env_codec env) st root of Ok (Some m) \<Rightarrow> cm_filepack_fp m | _ \<Rightarrow> None)"

text \<open>The binding that is saved last for a root: the one from before, if the root is saved once.\<close>

lemma parse_bao_root_length: "parse_bao_root env hex = Ok root \<Longrightarrow> length root = 32"
  by (auto simp: parse_bao_root_def split: option.splits if_splits)

lemma bind_entries_saved:
  assumes "bind_entries env F es st = Ok (prev, st')" "codec_ok (env_codec env)" "hex_ok env"
    and "\<forall>e \<in> set es. bound env format (\<lambda>_. True) st e"
  shows "map fe_bao_root es = map (env_hex env) (map fst prev) \<and> (\<forall>q \<in> fst ` set prev. length q = 32) \<and>
    map_of (rev prev) root =
      (if count_list (map fst prev) root = 0 then None
       else Some (if count_list (map fst prev) root = 1 then fp_of env st root else Some F))"
  using assms(1,4)
proof (induction es arbitrary: st prev)
  case (Cons x es)
  from Cons.prems(1) obtain rx m st1 prev' where x: "parse_bao_root env (fe_bao_root x) = Ok rx"
    "get_commitment (env_codec env) st rx = Ok (Some m)"
    "st1 = put_commitment (env_codec env) (m\<lparr>cm_filepack_fp := Some F\<rparr>) st"
    "bind_entries env F es st1 = Ok (prev', st')" "prev = (rx, cm_filepack_fp m) # prev'" by (rule bind_entries_Cons)
  have xb: "bound env format (\<lambda>_. True) st x" using Cons.prems(2) by simp
  note b = bound_root [OF xb assms(3) x(1)]
  have root: "cm_bao_root m = rx" using b(4) x(2) by simp
  have later: "\<forall>e \<in> set es. bound env format (\<lambda>_. True) st1 e"
    unfolding x(3) using Cons.prems(2) bound_update [OF assms(2) _ _ x(2) root] by simp
  have fp: "fp_of env st1 root = (if root = rx then Some F else fp_of env st root)"
    using get_put [OF assms(2), of "m\<lparr>cm_filepack_fp := Some F\<rparr>" st root] root by (simp add: fp_of_def x(3))
  have fpx: "fp_of env st rx = cm_filepack_fp m" by (simp add: fp_of_def x(2))
  show ?case
    using Cons.IH [OF x(4) later] b(1,2) fp fpx by (cases "root = rx") (simp_all add: x(5) map_add_def)
qed simp

lemma restore_fps_Ok:
  assumes "restore_fps env prev st = Ok st'" "codec_ok (env_codec env)"
    and "\<forall>r \<in> fst ` set prev. \<exists>m. get_commitment (env_codec env) st r = Ok (Some m) \<and> cm_bao_root m = r"
    and "get_commitment (env_codec env) st root = Ok (Some m)" "cm_bao_root m = root"
  shows "get_commitment (env_codec env) st' root =
    Ok (Some (case map_of (rev prev) root of None \<Rightarrow> m | Some v \<Rightarrow> m\<lparr>cm_filepack_fp := v\<rparr>))"
  using assms(1,3-5)
proof (induction prev arbitrary: st m)
  case (Cons x prev)
  obtain r v where [simp]: "x = (r, v)" by fastforce
  from Cons.prems(2) obtain mr where mr: "get_commitment (env_codec env) st r = Ok (Some mr)" "cm_bao_root mr = r" by auto
  define st1 where "st1 = put_commitment (env_codec env) (mr\<lparr>cm_filepack_fp := v\<rparr>) st"
  have run: "restore_fps env prev st1 = Ok st'" using Cons.prems(1) mr by (simp add: st1_def)
  have get: "get_commitment (env_codec env) st1 q =
      (if q = r then Ok (Some (mr\<lparr>cm_filepack_fp := v\<rparr>)) else get_commitment (env_codec env) st q)" for q
    using get_put [OF assms(2), of "mr\<lparr>cm_filepack_fp := v\<rparr>" st q] mr(2) by (simp add: st1_def)
  have known: "\<forall>q \<in> fst ` set prev. \<exists>m. get_commitment (env_codec env) st1 q = Ok (Some m) \<and> cm_bao_root m = q"
    using Cons.prems(2) mr by (auto simp: get)
  show ?case
  proof (cases "root = r")
    case True
    with mr Cons.prems(3) have "m = mr" by simp
    with Cons.IH [OF run known, of "mr\<lparr>cm_filepack_fp := v\<rparr>"] get [of root] True mr show ?thesis
      by (auto simp: map_add_def split: option.splits)
  next
    case False
    with Cons.IH [OF run known, of m] get [of root] Cons.prems(3,4) show ?thesis
      by (auto simp: map_add_def split: option.splits)
  qed
qed simp

lemma restore_fps_total:
  assumes "codec_ok (env_codec env)"
    and "\<forall>r \<in> fst ` set prev. \<exists>m. get_commitment (env_codec env) st r = Ok (Some m) \<and> cm_bao_root m = r"
  shows "\<exists>st'. restore_fps env prev st = Ok st'"
  using assms(2)
proof (induction prev arbitrary: st)
  case (Cons x prev)
  obtain r v where [simp]: "x = (r, v)" by fastforce
  from Cons.prems obtain mr where mr: "get_commitment (env_codec env) st r = Ok (Some mr)" "cm_bao_root mr = r" by auto
  have "\<forall>q \<in> fst ` set prev. \<exists>m. get_commitment (env_codec env)
      (put_commitment (env_codec env) (mr\<lparr>cm_filepack_fp := v\<rparr>) st) q = Ok (Some m) \<and> cm_bao_root m = q"
    using Cons.prems mr by (auto simp: get_put [OF assms(1)])
  from Cons.IH [OF this] mr show ?case by simp
qed simp

lemma bound_True: "bound env format P st e \<Longrightarrow> bound env format (\<lambda>_. True) st e"
  unfolding bound_def by blast

lemma store_remove_files: "dd_store (fold remove_file cleanup d) = dd_store d"
  by (induction cleanup arbitrary: d) (simp_all add: remove_file_def)

text \<open>What is saved, for entries that are in no pack.\<close>

lemma saved_roots:
  assumes b: "bind_entries env F es st = Ok (previous, st')" and laws: "codec_ok (env_codec env)" "hex_ok env"
    and bT: "\<forall>e \<in> set es. bound env format (\<lambda>_. True) st e"
  shows "\<forall>q \<in> fst ` set previous. \<exists>m. get_commitment (env_codec env) st' q = Ok (Some m) \<and> cm_bao_root m = q"
proof
  fix q
  assume q: "q \<in> fst ` set previous"
  have names: "map fe_bao_root es = map (env_hex env) (map fst previous)" and len: "\<forall>q \<in> fst ` set previous. length q = 32"
    using bind_entries_saved [OF b laws bT] by blast+
  have "env_hex env q \<in> set (map (env_hex env) (map fst previous))" using q by auto
  then obtain e where e: "e \<in> set es" "fe_bao_root e = env_hex env q"
    unfolding names [symmetric] by auto
  have parsed: "parse_bao_root env (fe_bao_root e) = Ok q"
    using bspec [OF len q] hex_okD(1) [OF laws(2), of q] by (simp add: e(2) parse_bao_root_def)
  have "bound env format (\<lambda>_. True) st' e"
    by (rule bind_entries_bound(1) [OF b laws bT]) (use bT e(1) in auto)
  from bound_root(4) [OF this laws(2) parsed]
  show "\<exists>m. get_commitment (env_codec env) st' q = Ok (Some m) \<and> cm_bao_root m = q" by blast
qed

lemma last_saved:
  assumes b: "bind_entries env F es st = Ok (previous, st')" and laws: "codec_ok (env_codec env)" "hex_ok env"
    and b0: "\<forall>e \<in> set es. bound env format (\<lambda>fp. fp = None) st e" and "e \<in> set es"
    and root: "parse_bao_root env (fe_bao_root e) = Ok root" "fe_bao_root e = env_hex env root" "length root = 32"
  shows "map_of (rev previous) root =
    Some (if count_list (map fe_bao_root es) (fe_bao_root e) = 1 then None else Some F)"
proof -
  have bT: "\<forall>e \<in> set es. bound env format (\<lambda>_. True) st e"
    using b0 bound_True [where P = "\<lambda>fp. fp = None"] by simp
  note saved = bind_entries_saved [OF b laws bT]
  have names: "map fe_bao_root es = map (env_hex env) (map fst previous)" and len: "\<forall>q \<in> fst ` set previous. length q = 32"
    using saved by blast+
  have fp0: "fp_of env st root = None"
    using b0 \<open>e \<in> set es\<close> bound_root(4) [OF _ laws(2) root(1)] by (force simp: fp_of_def)
  have inj: "inj_on (env_hex env) {q. length q = 32}"
    using hex_okD(1) [OF laws(2)] by (intro inj_onI) (metis mem_Collect_eq option.inject)
  have "fe_bao_root e \<in> set (map (env_hex env) (map fst previous))"
    unfolding names [symmetric] using \<open>e \<in> set es\<close> by simp
  then have "root \<in> set (map fst previous)"
    using inj len root(2,3) by (auto simp: inj_on_def)
  moreover have "inj_on (env_hex env) (set (map fst previous))"
    by (rule inj_on_subset [OF inj]) (use len in auto)
  ultimately have "count_list (map fe_bao_root es) (fe_bao_root e) = count_list (map fst previous) root"
    using count_list_inj_map [of "env_hex env" "map fst previous" root] unfolding names by (simp add: root(2))
  moreover have "count_list (map fe_bao_root es) (fe_bao_root e) \<noteq> 0"
    using \<open>e \<in> set es\<close> by (simp add: count_list_0_iff)
  ultimately show ?thesis using saved [of root] fp0 by simp
qed

lemma failed_publish_restores:
  assumes "publish_or_rollback env False True previous from to cleanup d = (d', r)"
    and "restore_fps env previous (dd_store d) = Ok st"
  shows "dd_store d' = st"
  using assms by (auto simp: publish_or_rollback_def rename_file_def rollback_filepack_metadata_def
      transaction_def io_then_def store_remove_files split: option.splits)

text \<open>C38: When a pack cannot be published, the bindings of its records are rolled back, but not to what they
  were: a record whose contents are listed once is left without a binding, although it may have been in another
  pack, and one whose contents are listed twice stays bound to the pack that does not exist.\<close>

theorem failed_pack_bindings:
  assumes run: "encode_entries env ke cb fenv ws src opts 0 paths
      \<lparr>ef_entries = [], ef_sources = [], ef_bindings = []\<rparr> (d, k) = ((d1, k1), Ok acc)"
    and bind: "commit_filepack_metadata env c m d1 = (d2, Ok previous)" "fm_entries m = ef_entries acc"
    and failed: "publish_or_rollback env False True previous from to cleanup d2' = (d3, r)" "dd_store d2' = dd_store d2"
    and laws: "carbonado_ok cb" "hex_ok env" "codec_ok (env_codec env)" and "current d" "e \<in> set (fm_entries m)"
  shows "\<exists>root m'. env_unhex env (fe_bao_root e) = Some root \<and> known_commitment env root d3 = Ok m' \<and>
    cm_filepack_fp m' =
      (if count_list (map fe_bao_root (fm_entries m)) (fe_bao_root e) = 1 then None else Some (fm_fingerprint m))"
proof -
  let ?F = "fm_fingerprint m" and ?es = "fm_entries m"
  have "collected env (co_format opts) acc d1"
    using encode_entries_collects [OF run _ laws] \<open>current d\<close> by (simp add: collected_def)
  then have b0: "\<forall>e \<in> set ?es. bound env (co_format opts) (\<lambda>fp. fp = None) (dd_store d1) e"
    using bind(2) by (simp add: collected_def)
  then have bT: "\<forall>e \<in> set ?es. bound env (co_format opts) (\<lambda>_. True) (dd_store d1) e"
    using bound_True [where P = "\<lambda>fp. fp = None"] by simp
  from bind(1) have b: "bind_entries env ?F ?es (dd_store d1) = Ok (previous, dd_store d2)"
    by (auto simp: commit_filepack_metadata_def split: result.splits if_splits)
  note known = saved_roots [OF b laws(3,2) bT]
  from bT \<open>e \<in> set ?es\<close> have "bound env (co_format opts) (\<lambda>_. True) (dd_store d1) e" by blast
  then obtain root where root: "parse_bao_root env (fe_bao_root e) = Ok root" "fe_bao_root e = env_hex env root"
    "length root = 32" by (rule bound_parse [OF _ laws(2)])
  have "bound env (co_format opts) (\<lambda>_. True) (dd_store d2) e"
    by (rule bind_entries_bound(1) [OF b laws(3,2) bT]) (use bT \<open>e \<in> set ?es\<close> in auto)
  from bound_root(4) [OF this laws(2) root(1)] obtain m2 where
    m2: "get_commitment (env_codec env) (dd_store d2) root = Ok (Some m2)" "cm_bao_root m2 = root" by blast
  from restore_fps_total [OF laws(3) known] obtain st where st: "restore_fps env previous (dd_store d2) = Ok st" by blast
  have "dd_store d3 = st" by (rule failed_publish_restores [OF failed(1)]) (simp add: failed(2) st)
  with restore_fps_Ok [OF st laws(3) known m2] last_saved [OF b laws(3,2) b0 \<open>e \<in> set ?es\<close> root]
  have "get_commitment (env_codec env) (dd_store d3) root = Ok (Some (m2\<lparr>cm_filepack_fp :=
      (if count_list (map fe_bao_root ?es) (fe_bao_root e) = 1 then None else Some ?F)\<rparr>))" by simp
  then show ?thesis
    using hex_okD(1) [OF laws(2) root(3)] by (simp add: root(2) known_commitment_def)
qed

section \<open>A created pack verifies\<close>

text \<open>The JSON of a manifest begins with a brace, and an archive does not.\<close>

definition filepack_codec_ok :: "filepack_env \<Rightarrow> bool" where
  "filepack_codec_ok fenv \<longleftrightarrow> archive_codec_ok (fp_archive fenv) \<and>
     (\<forall>m. fp_unjson fenv (fp_json fenv m) = Some m \<and> fp_json fenv m \<noteq> [] \<and> hd (fp_json fenv m) = 0x7B) \<and>
     (\<forall>a. ae_write_archive (fp_archive fenv) a = [] \<or> hd (ae_write_archive (fp_archive fenv) a) \<noteq> 0x7B)"

text \<open>File names as they are on most machines.\<close>

fun plain_listing :: "(string \<times> fs_node) list \<Rightarrow> bool" and plain_node :: "fs_node \<Rightarrow> bool" where
  "plain_listing [] = True"
| "plain_listing ((name, node) # listing) =
     (name \<noteq> [] \<and> CHR ''/'' \<notin> set name \<and> CHR 0x5C \<notin> set name \<and> plain_node node \<and> plain_listing listing)"
| "plain_node (Subdirectory (Some listing)) = plain_listing listing"
| "plain_node node = True"

definition inner :: "string \<Rightarrow> bool" where
  "inner path \<longleftrightarrow> path \<noteq> [] \<and> hd path \<notin> {CHR ''/'', CHR 0x5C}"

lemma walk_inner:
  "walk_files parent listing = Ok paths \<Longrightarrow> plain_listing listing \<Longrightarrow> parent = [] \<or> inner parent \<Longrightarrow>
     \<forall>p \<in> set paths. \<not> starts_with ''/'' p"
  "walk_entry path node = Ok paths' \<Longrightarrow> plain_node node \<Longrightarrow> inner path \<Longrightarrow> \<forall>p \<in> set paths'. \<not> starts_with ''/'' p"
proof (induction parent listing and path node arbitrary: paths and paths' rule: walk_files_walk_entry.induct)
  case (2 parent name node listing)
  from 2(3) obtain ps qs where w: "walk_entry (relative_path parent name) node = Ok ps"
    "walk_files parent listing = Ok qs" "paths = ps @ qs" by (auto simp: ok_elims)
  have "inner (relative_path parent name)"
    using 2(4,5) by (cases name) (auto simp: inner_def relative_path_def)
  with 2(1) [OF w(1)] 2(2) [OF w(2)] 2(4,5) w(3) show ?case by auto
next
  case (3 path)
  then show ?case by (cases path) (auto simp: inner_def replace_backslashes_def starts_with_def)
qed auto

lemma check_entries_Ok:
  assumes "\<forall>e \<in> set es. bound env format (\<lambda>fp. fp = Some F) (dd_store d) e" "hex_ok env"
  shows "check_entries env F es d = Ok ()"
  using assms(1)
proof (induction es)
  case (Cons e es)
  then have "bound env format (\<lambda>fp. fp = Some F) (dd_store d) e" by simp
  then obtain root m where "parse_bao_root env (fe_bao_root e) = Ok root"
    "get_commitment (env_codec env) (dd_store d) root = Ok (Some m)" "cm_format m = format" "cm_filepack_fp m = Some F"
    by (rule bound_parse [OF _ assms(2)])
  moreover have "fe_format e = format" using Cons.prems by (simp add: bound_def)
  ultimately show ?case using Cons by (simp add: known_commitment_def)
qed simp

lemma bound_cong:
  "bound env format P st e \<Longrightarrow> fe_bao_root e' = fe_bao_root e \<Longrightarrow> fe_format e' = fe_format e \<Longrightarrow> bound env format P st e'"
  by (simp add: bound_def)

lemma check_all_Ok: "check_all ok e xs = Ok () \<longleftrightarrow> (\<forall>x \<in> set xs. ok x)"
  by (induction xs) (auto simp: ok_elims)

lemma bindings_match:
  assumes "mset files = mset (map package_file_of sources)" "btree_ok sources" "btree_ok bindings"
    and "fst ` set sources = fst ` set bindings"
  shows "ensure_casey_bindings_match_sidecar files bindings = Ok ()"
proof -
  have "map fst sources = map fst bindings"
    by (rule sorted_distinct_set_unique) (use assms(2-4) in \<open>simp_all add: btree_ok_def strict_sorted_iff\<close>)
  then have "length sources = length bindings" by (metis length_map)
  moreover have "length files = length sources" using mset_eq_length [OF assms(1)] by simp
  moreover have "pf_path ` set files = fst ` set bindings"
  proof -
    have "set files = package_file_of ` set sources" using mset_eq_setD [OF assms(1)] by simp
    then have "pf_path ` set files = (\<lambda>x. pf_path (package_file_of x)) ` set sources" by (simp add: image_image)
    also have "\<dots> = fst ` set sources" by (simp add: package_file_of_def)
    finally show ?thesis using assms(4) by simp
  qed
  note paths = this
  have "check_all (\<lambda>f. map_of bindings (pf_path f) \<noteq> None) (\<lambda>f. BindingMissing (pf_path f)) files = Ok ()"
    unfolding check_all_Ok map_of_eq_None_iff using paths by auto
  moreover have "check_all (\<lambda>path. path \<in> pf_path ` set files) PackageFileMissing (map fst bindings) = Ok ()"
    unfolding check_all_Ok using paths by auto
  ultimately show ?thesis by (simp add: ensure_casey_bindings_match_sidecar_def)
qed

lemma publish_or_rollback_Ok:
  assumes "publish_or_rollback env ok rb previous from to cleanup d = (d', Ok x)"
  obtains contents where "dd_files d from = Some contents"
    "d' = d\<lparr>dd_files := (dd_files d)(from := None, to \<mapsto> contents)\<rparr>"
  using assms by (auto simp: publish_or_rollback_def rename_file_def io_then_def
      split: option.splits bool.splits prod.splits result.splits)

lemma filepack_paths:
  "manifest_temp fp \<noteq> sidecar_temp fp" "manifest_temp fp \<noteq> sidecar_path fp" "manifest_path fp \<noteq> sidecar_path fp"
  "manifest_temp fp \<noteq> manifest_path fp" "sidecar_temp fp \<noteq> sidecar_path fp" "sidecar_temp fp \<noteq> manifest_path fp"
  by (simp_all add: manifest_temp_def sidecar_temp_def sidecar_path_def manifest_path_def)

lemma publish_filepack_Ok:
  assumes "publish_filepack env w m bs side d = (d', Ok r)"
  shows "r = m \<and> dd_existing d' = dd_existing d \<and> dd_files d' (manifest_path (fm_fingerprint m)) = Some bs \<and>
    (\<forall>s. side = Some s \<longrightarrow> dd_files d' (sidecar_path (fm_fingerprint m)) = Some s) \<and>
    (\<exists>previous. bind_entries env (fm_fingerprint m) (fm_entries m) (dd_store d) = Ok (previous, dd_store d'))"
proof -
  let ?fp = "fm_fingerprint m"
  note P = filepack_paths [of ?fp] filepack_paths [of ?fp, symmetric]
  obtain d1 d2 d3 d4 d5 u1 u2 previous u4 u5 where s:
    "write_file (fw_manifest_temp w) (StorageError FileWriteFailed) (manifest_temp ?fp) bs d = (d1, Ok u1)"
    "(case side of None \<Rightarrow> io_pure ()
      | Some sidecar \<Rightarrow> write_file (fw_sidecar_temp w) (StorageError FileWriteFailed) (sidecar_temp ?fp) sidecar) d1 = (d2, Ok u2)"
    "commit_filepack_metadata env (fw_commit w) m d2 = (d3, Ok previous)"
    "(case side of None \<Rightarrow> io_pure ()
      | Some _ \<Rightarrow> publish_or_rollback env (fw_publish_sidecar w) (fw_rollback w) previous
          (sidecar_temp ?fp) (sidecar_path ?fp) [sidecar_temp ?fp, manifest_temp ?fp]) d3 = (d4, Ok u4)"
    "publish_or_rollback env (fw_publish_manifest w) (fw_rollback w) previous (manifest_temp ?fp) (manifest_path ?fp)
      (manifest_temp ?fp # (case side of None \<Rightarrow> [] | Some _ \<Rightarrow> [sidecar_path ?fp])) d4 = (d5, Ok u5)"
    "d5 = d'" "m = r"
    by (insert assms, unfold publish_filepack_def Let_def, elim io_then_prod_cases,
        unfold io_pure_def [of m] prod.inject result.inject, elim conjE, rule that, assumption+)
  from s(1) have d1: "d1 = d\<lparr>dd_files := (dd_files d)(manifest_temp ?fp \<mapsto> bs)\<rparr>"
    by (auto simp: write_file_def split: if_splits)
  from s(3) obtain st where d3: "bind_entries env ?fp (fm_entries m) (dd_store d2) = Ok (previous, st)" "d3 = d2\<lparr>dd_store := st\<rparr>"
    by (auto simp: commit_filepack_metadata_def split: result.splits if_splits)
  from s(5) obtain c5 where d5: "dd_files d4 (manifest_temp ?fp) = Some c5"
    "d5 = d4\<lparr>dd_files := (dd_files d4)(manifest_temp ?fp := None, manifest_path ?fp \<mapsto> c5)\<rparr>"
    by (rule publish_or_rollback_Ok)
  show ?thesis
  proof (cases side)
    case None
    with s(2,4) have "d2 = d1" "d4 = d3" by (simp_all add: io_pure_def)
    with d1 d3 d5 s(6,7) None show ?thesis by auto
  next
    case (Some sidecar)
    with s(2) have d2: "d2 = d1\<lparr>dd_files := (dd_files d1)(sidecar_temp ?fp \<mapsto> sidecar)\<rparr>"
      by (auto simp: write_file_def split: if_splits)
    from s(4) Some obtain c4 where d4: "dd_files d3 (sidecar_temp ?fp) = Some c4"
      "d4 = d3\<lparr>dd_files := (dd_files d3)(sidecar_temp ?fp := None, sidecar_path ?fp \<mapsto> c4)\<rparr>"
      by (auto elim: publish_or_rollback_Ok)
    from d1 d2 d3 d4 d5 s(6,7) Some P show ?thesis by auto
  qed
qed


lemma create_filepack_Ok:
  assumes "create_filepack env ke cb fenv w src opts (d, k) = ((d', k'), Ok m)" "current d"
  obtains listing paths acc d1 bs side where "sd_listing src = Some listing" "walk_files [] listing = Ok paths"
    "encode_entries env ke cb fenv (fw_encode w) src opts 0 (sort paths)
      \<lparr>ef_entries = [], ef_sources = [], ef_bindings = []\<rparr> (d, k) = ((d1, k'), Ok acc)"
    "make_manifest env fenv (co_filepack_compat opts) (case sd_name src of Some n \<Rightarrow> n | None \<Rightarrow> ''.'') acc = Ok (m, bs, side)"
    "publish_filepack env w m bs side d1 = (d', Ok m)"
proof -
  note run = assms(1) [unfolded create_filepack_def]
  from run obtain listing where l: "sd_listing src = Some listing"
    by (cases "sd_listing src") (simp_all add: io_then_def io_lift_def)
  from run l obtain paths where p: "walk_files [] listing = Ok paths"
    by (cases "walk_files [] listing") (simp_all add: io_then_def io_lift_def)
  from run l p have ne: "paths \<noteq> []" by (cases "paths = []") (simp_all add: io_then_def io_lift_def)
  have opened: "on_dir (open_data_dir env) (d, k) = ((d, k), Ok (dd_store d))"
    using open_current [OF assms(2)] by (simp add: on_dir_def)
  have "io_then (encode_entries env ke cb fenv (fw_encode w) src opts 0 (sort paths)
       \<lparr>ef_entries = [], ef_sources = [], ef_bindings = []\<rparr>) (\<lambda>acc.
     io_then (io_lift (\<lambda>_. map_error StorageError
       (make_manifest env fenv (co_filepack_compat opts) (case sd_name src of Some n \<Rightarrow> n | None \<Rightarrow> ''.'') acc)))
       (\<lambda>(m, manifest_bytes, sidecar_bytes).
     on_dir (publish_filepack env w m manifest_bytes sidecar_bytes))) (d, k) = ((d', k'), Ok m)"
    using run l p ne by (simp add: io_then_Ok [where m = "on_dir (open_data_dir env)", OF opened] io_then_def [of "io_lift f" for f] io_lift_def)
  then obtain s1 acc where s1: "encode_entries env ke cb fenv (fw_encode w) src opts 0 (sort paths)
       \<lparr>ef_entries = [], ef_sources = [], ef_bindings = []\<rparr> (d, k) = (s1, Ok acc)"
    and rest: "io_then (io_lift (\<lambda>_. map_error StorageError
       (make_manifest env fenv (co_filepack_compat opts) (case sd_name src of Some n \<Rightarrow> n | None \<Rightarrow> ''.'') acc)))
       (\<lambda>(m, manifest_bytes, sidecar_bytes).
     on_dir (publish_filepack env w m manifest_bytes sidecar_bytes)) s1 = ((d', k'), Ok m)"
    by (rule io_then_prod_cases)
  obtain d1 k1 where s1p: "s1 = (d1, k1)" by fastforce
  from rest obtain m0 bs side where mk: "make_manifest env fenv (co_filepack_compat opts)
      (case sd_name src of Some n \<Rightarrow> n | None \<Rightarrow> ''.'') acc = Ok (m0, bs, side)"
    by (cases "make_manifest env fenv (co_filepack_compat opts) (case sd_name src of Some n \<Rightarrow> n | None \<Rightarrow> ''.'') acc")
      (auto simp: io_then_def io_lift_def)
  with rest s1p have pub: "publish_filepack env w m0 bs side d1 = (d', Ok m)" "k1 = k'"
    by (auto simp: io_then_def io_lift_def on_dir_def split: prod.splits)
  with publish_filepack_Ok [OF pub(1)] have "m = m0" by simp
  with that l p s1 s1p mk pub show thesis by simp
qed

text \<open>What a creation leaves: the collected files and the manifest made from them, the published
  files, and the records bound to the pack.\<close>

lemma created_state:
  assumes run: "create_filepack env ke cb fenv w src opts (d, k) = ((d', k'), Ok m)" "current d"
    and laws: "carbonado_ok cb" "hex_ok env" "codec_ok (env_codec env)"
  obtains listing paths acc d1 bs side where "sd_listing src = Some listing" "walk_files [] listing = Ok paths"
    "make_manifest env fenv (co_filepack_compat opts) (case sd_name src of Some n \<Rightarrow> n | None \<Rightarrow> ''.'') acc = Ok (m, bs, side)"
    "dd_files d' (manifest_path (fm_fingerprint m)) = Some bs"
    "\<forall>s. side = Some s \<longrightarrow> dd_files d' (sidecar_path (fm_fingerprint m)) = Some s"
    "current d'" "collected env (co_format opts) acc d1"
    "co_filepack_compat opts \<Longrightarrow> ef_sources acc = add_sources fenv src (sort paths) []"
    "\<forall>e \<in> set (ef_entries acc). bound env (co_format opts) (\<lambda>fp. fp = Some (fm_fingerprint m)) (dd_store d') e"
proof (rule create_filepack_Ok [OF run])
  fix listing paths acc d1 bs side
  assume c: "sd_listing src = Some listing" "walk_files [] listing = Ok paths"
    "encode_entries env ke cb fenv (fw_encode w) src opts 0 (sort paths)
      \<lparr>ef_entries = [], ef_sources = [], ef_bindings = []\<rparr> (d, k) = ((d1, k'), Ok acc)"
    "make_manifest env fenv (co_filepack_compat opts) (case sd_name src of Some n \<Rightarrow> n | None \<Rightarrow> ''.'') acc = Ok (m, bs, side)"
    "publish_filepack env w m bs side d1 = (d', Ok m)"
  let ?F = "fm_fingerprint m" and ?f = "co_format opts"
  have start: "collected env ?f \<lparr>ef_entries = [], ef_sources = [], ef_bindings = []\<rparr> d"
    using \<open>current d\<close> by (simp add: collected_def)
  from encode_entries_collects [OF c(3) start laws] have col: "collected env ?f acc d1"
    and sources: "co_filepack_compat opts \<Longrightarrow> ef_sources acc = add_sources fenv src (sort paths) []" by simp_all
  note pub = publish_filepack_Ok [OF c(5)]
  then obtain previous where bind: "bind_entries env ?F (fm_entries m) (dd_store d1) = Ok (previous, dd_store d')" by blast
  have entries: "fm_entries m = ef_entries acc"
    using c(4) by (auto simp: make_manifest_def Let_def ok_elims split: if_splits)
  have "\<forall>e \<in> set (fm_entries m). bound env ?f (\<lambda>_. True) (dd_store d1) e"
    using col bound_True [where P = "\<lambda>fp. fp = None"] by (simp add: entries collected_def)
  note after = bind_entries_bound [OF bind laws(3,2) this]
  have "current d'" using col pub after(3) by (simp add: collected_def current_def statistic_def)
  moreover have "\<forall>e \<in> set (ef_entries acc). bound env ?f (\<lambda>fp. fp = Some ?F) (dd_store d') e"
    using after(2) by (simp add: entries)
  ultimately show thesis using that [OF c(1,2,4)] col sources pub by blast
qed

text \<open>The manifest of a pack reads back, from JSON or from the archive and its sidecar.\<close>

lemma json_manifest_reads:
  assumes "make_manifest env fenv False root acc = Ok (m, bs, side)" "filepack_codec_ok fenv"
    and "dd_files d (manifest_path (fm_fingerprint m)) = Some bs"
  shows "read_manifest env fenv False (fm_fingerprint m) d = Some (Ok m)" "fm_entries m = ef_entries acc"
  using assms by (auto simp: make_manifest_def Let_def read_manifest_def ensure_manifest_fingerprint_def filepack_codec_ok_def)

lemma casey_manifest_reads:
  assumes "make_manifest env fenv True root acc = Ok (m, bs, side)" "filepack_codec_ok fenv"
    and files: "dd_files d (manifest_path (fm_fingerprint m)) = Some bs"
      "\<forall>s. side = Some s \<longrightarrow> dd_files d (sidecar_path (fm_fingerprint m)) = Some s"
    and "no_collision (fp_archive fenv) (ef_sources acc)" "\<forall>x \<in> set (ef_sources acc). \<not> starts_with ''/'' (fst x)"
    and col: "collected env format acc d1"
  shows "read_manifest env fenv True (fm_fingerprint m) d =
      Some (Ok (manifest_from_compat_bindings (fm_fingerprint m) (ef_bindings acc)))" "fm_version m = 2"
proof -
  let ?F = "fm_fingerprint m"
  have archive: "archive_codec_ok (fp_archive fenv)" using assms(2) by (simp add: filepack_codec_ok_def)
  from assms(1) obtain cm where cm: "pack_compat_manifest (fp_archive fenv) (ef_sources acc) (ef_bindings acc) = Ok cm"
    "?F = cp_fingerprint cm" "bs = cp_cbor cm" "side = Some (cp_sidecar cm)" "fm_version m = 2"
    by (auto simp: make_manifest_def ok_elims)
  from pack_then_verify_files [OF cm(1) archive assms(5,6)] obtain files where v:
    "verify_casey_archive (fp_archive fenv) bs = Some (Ok files)"
    "mset files = mset (map package_file_of (ef_sources acc))"
    "casey_archive_fingerprint (fp_archive fenv) bs = Ok ?F"
    "decode_carbonado_sidecar (fp_archive fenv) (cp_sidecar cm) = Ok (ef_bindings acc)"
    unfolding cm(2,3) by blast
  have match: "ensure_casey_bindings_match_sidecar files (ef_bindings acc) = Ok ()"
    by (rule bindings_match [OF v(2)]) (use col in \<open>simp_all add: collected_def\<close>)
  have "\<exists>a. bs = ae_write_archive (fp_archive fenv) a"
    by (rule pack_Ok [OF cm(1) archive assms(5)]) (auto simp: cm(3))
  then have "\<not> (bs \<noteq> [] \<and> hd bs = 0x7B)" using assms(2) by (auto simp: filepack_codec_ok_def)
  then show "read_manifest env fenv True ?F d = Some (Ok (manifest_from_compat_bindings ?F (ef_bindings acc)))"
    using files cm(4) v match by (auto simp: read_manifest_def verify_compat_manifest_def)
  show "fm_version m = 2" by (rule cm(5))
qed

lemma compat_entries_bound:
  assumes "collected env format acc d1" "\<forall>e \<in> set (ef_entries acc). bound env format P st e"
  shows "\<forall>e \<in> set (fm_entries (manifest_from_compat_bindings F (ef_bindings acc))). bound env format P st e"
proof
  fix e
  assume "e \<in> set (fm_entries (manifest_from_compat_bindings F (ef_bindings acc)))"
  then obtain x where x: "x \<in> set (ef_bindings acc)" "e = entry_of_binding x"
    by (auto simp: manifest_from_compat_bindings_def)
  with assms(1) obtain e0 where "e0 \<in> set (ef_entries acc)" "fe_bao_root e0 = bn_bao_root (snd x)"
    "fe_format e0 = bn_format (snd x)" unfolding collected_def by blast
  with assms(2) x(2) show "bound env format P st e" by (auto simp: entry_of_binding_def intro: bound_cong)
qed

lemma sources_relative:
  assumes "walk_files [] listing = Ok paths" "plain_listing listing"
  shows "\<forall>x \<in> set (add_sources fenv src (sort paths) []). \<not> starts_with ''/'' (fst x)"
  using walk_inner(1) [OF assms] add_sources_keys [of fenv src "sort paths" "[]"] by auto

text \<open>C14: A pack that was created verifies: with the same kind of manifest, verification under the returned
  fingerprint returns, finds the manifest and for an archive its sidecar, and every record of its entries, in
  the pack and of its format. The conditions: the data directory is current, hexadecimal digits and
  the codecs of records, manifests and archives read back what they wrote (and a JSON manifest begins with a brace, an
  archive does not), and the container library reads back what it encoded; and for a pack with an archive, no name of the source is empty or
  has a slash or a backslash (a name that begins with a backslash is packed under an absolute path and does not
  verify), and no two different blobs of the archive have the same hash. A pack without an archive needs neither.\<close>

theorem created_filepack_verifies:
  assumes run: "create_filepack env ke cb fenv w src opts (d, k) = ((d', k'), Ok m)"
    and laws: "carbonado_ok cb" "hex_ok env" "codec_ok (env_codec env)" "filepack_codec_ok fenv" and "current d"
    and plain: "\<forall>listing. co_filepack_compat opts \<and> sd_listing src = Some listing \<longrightarrow> plain_listing listing"
    and distinct_blobs: "\<forall>listing paths. co_filepack_compat opts \<and> sd_listing src = Some listing \<and>
      walk_files [] listing = Ok paths \<longrightarrow> no_collision (fp_archive fenv) (add_sources fenv src (sort paths) [])"
  shows "\<exists>v. verify_filepack env fenv (co_filepack_compat opts) (fm_fingerprint m) d' = Some (d', Ok v) \<and>
    vf_valid v \<and> vf_version v = fm_version m"
proof (rule created_state [OF run \<open>current d\<close> laws(1-3)])
  fix listing paths acc d1 bs side
  assume c: "sd_listing src = Some listing" "walk_files [] listing = Ok paths"
    "make_manifest env fenv (co_filepack_compat opts) (case sd_name src of Some n \<Rightarrow> n | None \<Rightarrow> ''.'') acc = Ok (m, bs, side)"
    "dd_files d' (manifest_path (fm_fingerprint m)) = Some bs"
    "\<forall>s. side = Some s \<longrightarrow> dd_files d' (sidecar_path (fm_fingerprint m)) = Some s"
    "current d'" "collected env (co_format opts) acc d1"
    "co_filepack_compat opts \<Longrightarrow> ef_sources acc = add_sources fenv src (sort paths) []"
    "\<forall>e \<in> set (ef_entries acc). bound env (co_format opts) (\<lambda>fp. fp = Some (fm_fingerprint m)) (dd_store d') e"
  let ?casey = "co_filepack_compat opts" and ?F = "fm_fingerprint m"
  have "\<exists>es. read_manifest env fenv ?casey ?F d' = Some (Ok es) \<and> fm_version es = fm_version m \<and>
    (\<forall>e \<in> set (fm_entries es). bound env (co_format opts) (\<lambda>fp. fp = Some ?F) (dd_store d') e)"
  proof (cases ?casey)
    case False
    then have "co_filepack_compat opts = False" by simp
    from json_manifest_reads [OF c(3) [unfolded this] laws(4) c(4)] c(9) False show ?thesis by auto
  next
    case True
    have "no_collision (fp_archive fenv) (ef_sources acc)" using distinct_blobs True c(1,2) c(8) [OF True] by simp
    moreover have "\<forall>x \<in> set (ef_sources acc). \<not> starts_with ''/'' (fst x)"
      unfolding c(8) [OF True] by (rule sources_relative [OF c(2)]) (use plain True c(1) in simp)
    moreover have "co_filepack_compat opts = True" using True by simp
    ultimately show ?thesis
      using casey_manifest_reads [OF c(3) [unfolded \<open>co_filepack_compat opts = True\<close>] laws(4) c(4,5) _ _ c(7)]
        compat_entries_bound [OF c(7,9), of ?F] by (simp add: manifest_from_compat_bindings_def)
  qed
  then obtain es where es: "read_manifest env fenv ?casey ?F d' = Some (Ok es)" "fm_version es = fm_version m"
    "\<forall>e \<in> set (fm_entries es). bound env (co_format opts) (\<lambda>fp. fp = Some ?F) (dd_store d') e" by blast
  show ?thesis
    using es(1,2) check_entries_Ok [OF es(3) laws(2)] open_current [OF c(6), of env]
    by (simp add: verify_filepack_def io_then_def io_lift_def io_pure_def)
qed

lemma bind_entries_total:
  assumes "codec_ok (env_codec env)" "hex_ok env" "\<forall>e \<in> set es. bound env format (\<lambda>_. True) st e"
  shows "\<exists>previous st'. bind_entries env F es st = Ok (previous, st')"
  using assms(3)
proof (induction es arbitrary: st)
  case (Cons e es)
  then have "bound env format (\<lambda>_. True) st e" by simp
  then obtain root m where x: "parse_bao_root env (fe_bao_root e) = Ok root"
    "get_commitment (env_codec env) st root = Ok (Some m)" "cm_bao_root m = root"
    by (rule bound_parse [OF _ assms(2)])
  let ?st = "put_commitment (env_codec env) (m\<lparr>cm_filepack_fp := Some F\<rparr>) st"
  have "\<forall>e \<in> set es. bound env format (\<lambda>_. True) ?st e"
    using Cons.prems bound_update [OF assms(1) _ _ x(2,3)] by simp
  from Cons.IH [OF this] x(1,2) show ?case by (auto simp: update_filepack_fp_def)
qed simp

section \<open>Names and fingerprints\<close>

text \<open>A file whose name begins with a backslash is listed under an absolute path.\<close>

lemma backslash_escapes:
  "walk_files [] [(CHR 0x5C # name, RegularFile)] = Ok [CHR ''/'' # replace_backslashes name]"
  by (simp add: relative_path_def replace_backslashes_def)

text \<open>The fingerprint does not say where an entry ends: two entries have that of one with a longer path.\<close>

lemma fingerprint_ambiguous:
  assumes "bytes_of_string p = fingerprint_bytes e1 @ bytes_of_string (fe_path e2)"
  shows "fingerprint_for_entries env fenv [e1, e2] = fingerprint_for_entries env fenv [e2\<lparr>fe_path := p\<rparr>]"
  using assms by (simp add: fingerprint_for_entries_def fingerprint_bytes_def)

text \<open>Packing a record again takes it out of its pack: verification of any other pack that lists it fails.\<close>

lemma repacked_entry_fails:
  assumes "bound env format (\<lambda>fp. fp = Some F) (dd_store d) e" "hex_ok env" "e \<in> set es" "F' \<noteq> F"
  shows "check_entries env F' es d \<noteq> Ok ()"
  using assms(3)
proof (induction es)
  case (Cons x es)
  show ?case
  proof (cases "e = x")
    case True
    from assms(1) obtain root m where "parse_bao_root env (fe_bao_root e) = Ok root"
      "get_commitment (env_codec env) (dd_store d) root = Ok (Some m)" "cm_filepack_fp m = Some F"
      by (rule bound_parse [OF _ assms(2)])
    with True assms(4) show ?thesis by (simp add: known_commitment_def)
  next
    case False
    with Cons show ?thesis by (auto simp: ok_elims)
  qed
qed simp

section \<open>The laws hold\<close>

lemma not_public: "v \<noteq> Public \<longleftrightarrow> v = Private" by (cases v) simp_all

lemma not_inboard: "l \<noteq> Inboard \<longleftrightarrow> l = Outboard" by (cases l) simp_all

definition put_meta :: "commitment_meta \<Rightarrow> bytes" where
  "put_meta m = put_pair put_bytes (put_pair put_text (put_pair put_byte (put_pair put_byte (put_pair put_byte
     (put_pair (put_option put_text) (put_pair put_u64 (put_pair (put_option put_text)
     (put_pair (put_option put_bytes) (put_option put_u64)))))))))
     (cm_bao_root m, cm_carbonado_path m, cm_format m, if cm_visibility m = Public then 0 else 1,
      if cm_layout m = Inboard then 0 else 1, cm_filepack_fp m, cm_created_at m, cm_ots_proof_path m,
      cm_ots_order_key m, cm_timestamped_at m)"

definition get_meta :: "bytes \<Rightarrow> (commitment_meta \<times> bytes) option" where
  "get_meta = get_map (\<lambda>(root, path, format, vis, lay, fp, created, ots, key, t).
     \<lparr>cm_bao_root = root, cm_carbonado_path = path, cm_format = format,
      cm_visibility = (if vis = 0 then Public else Private), cm_layout = (if lay = 0 then Inboard else Outboard),
      cm_filepack_fp = fp, cm_created_at = created, cm_ots_proof_path = ots, cm_ots_order_key = key,
      cm_timestamped_at = t\<rparr>)
     (get_pair get_bytes (get_pair get_text (get_pair get_byte (get_pair get_byte (get_pair get_byte
     (get_pair (get_option get_text) (get_pair get_u64 (get_pair (get_option get_text)
     (get_pair (get_option get_bytes) (get_option get_u64))))))))))"

lemma codec_meta: "codec_inverse put_meta get_meta"
  unfolding put_meta_def [abs_def] get_meta_def
proof (rule codec_map)
  show "codec_inverse (put_pair put_bytes (put_pair put_text (put_pair put_byte (put_pair put_byte (put_pair put_byte
     (put_pair (put_option put_text) (put_pair put_u64 (put_pair (put_option put_text)
     (put_pair (put_option put_bytes) (put_option put_u64))))))))))
     (get_pair get_bytes (get_pair get_text (get_pair get_byte (get_pair get_byte (get_pair get_byte
     (get_pair (get_option get_text) (get_pair get_u64 (get_pair (get_option get_text)
     (get_pair (get_option get_bytes) (get_option get_u64))))))))))"
    by (intro codec_pair codec_option codec_bytes codec_text codec_byte codec_u64)
qed (auto intro!: commitment_meta.equality simp: not_public not_inboard)

definition toy_penv :: commit_env where
  "toy_penv = toy_henv\<lparr>env_codec := \<lparr>read_v1 = (\<lambda>b. None), read_v2 = (\<lambda>b. None),
     read_meta = (\<lambda>b. map_option fst (get_meta b)), write_meta = put_meta\<rparr>\<rparr>"

definition put_filepack_entry :: "filepack_entry \<Rightarrow> bytes" where
  "put_filepack_entry e = put_pair put_text (put_pair put_u64 (put_pair put_text put_byte))
     (fe_path e, fe_size e, fe_bao_root e, fe_format e)"

definition get_filepack_entry :: "bytes \<Rightarrow> (filepack_entry \<times> bytes) option" where
  "get_filepack_entry = get_map (\<lambda>(p, n, r, f). \<lparr>fe_path = p, fe_size = n, fe_bao_root = r, fe_format = f\<rparr>)
     (get_pair get_text (get_pair get_u64 (get_pair get_text get_byte)))"

lemma codec_filepack_entry: "codec_inverse put_filepack_entry get_filepack_entry"
  unfolding put_filepack_entry_def [abs_def] get_filepack_entry_def
  by (rule codec_map [OF codec_pair [OF codec_text codec_pair [OF codec_u64 codec_pair [OF codec_text codec_byte]]]]) simp

definition put_manifest :: "filepack_manifest \<Rightarrow> bytes" where
  "put_manifest m = put_pair put_u32 (put_pair put_text (put_pair put_text (put_list put_filepack_entry)))
     (fm_version m, fm_fingerprint m, fm_root m, fm_entries m)"

definition get_manifest :: "bytes \<Rightarrow> (filepack_manifest \<times> bytes) option" where
  "get_manifest = get_map (\<lambda>(v, f, r, es). \<lparr>fm_version = v, fm_fingerprint = f, fm_root = r, fm_entries = es\<rparr>)
     (get_pair get_u32 (get_pair get_text (get_pair get_text (get_all get_filepack_entry))))"

lemma codec_manifest: "codec_inverse put_manifest get_manifest"
  unfolding put_manifest_def [abs_def] get_manifest_def
  by (rule codec_map [OF codec_pair [OF codec_u32 codec_pair [OF codec_text codec_pair [OF codec_text
    codec_list [OF codec_filepack_entry]]]]]) simp

definition toy_fenv :: filepack_env where
  "toy_fenv = \<lparr>fp_archive = toy_archive_env, fp_json = (\<lambda>m. 0x7B # put_manifest m),
     fp_unjson = (\<lambda>b. map_option fst (get_manifest (tl b)))\<rparr>"

lemma put_list_hd: "put_list p xs \<noteq> [] \<and> hd (put_list p xs) \<in> {0, 1}"
  by (cases xs) (simp_all add: put_list_def)

lemma toy_pack_laws: "codec_ok (env_codec toy_penv)" "hex_ok toy_penv" "filepack_codec_ok toy_fenv"
proof -
  show "codec_ok (env_codec toy_penv)" by (simp add: codec_ok_def toy_penv_def codec_inverseD [OF codec_meta])
  show "hex_ok toy_penv" using toy_laws(2) by (simp add: hex_ok_def toy_penv_def)
  have first: "hd (ae_write_archive toy_archive_env a) \<in> {0, 1}" for a
    using put_list_hd [of put_byte "ar_root a"] by (simp add: toy_archive_env_def put_pair_def hd_append)
  have "hd (ae_write_archive toy_archive_env a) \<noteq> 0x7B" for a using first [of a] by auto
  then show "filepack_codec_ok toy_fenv"
    using toy_archive_laws by (simp add: filepack_codec_ok_def toy_fenv_def codec_inverseD [OF codec_manifest])
qed


definition toy_src :: source_dir where
  "toy_src = \<lparr>sd_listing = Some [(''a'', RegularFile), (''b'', RegularFile)], sd_read = (\<lambda>p. Some [1, 2, 3]),
     sd_name = None\<rparr>"

definition toy_copts :: "bool \<Rightarrow> create_filepack_options" where
  "toy_copts casey = \<lparr>co_format = 0, co_layout = Inboard, co_master_key_hex = None, co_filepack_compat = casey\<rparr>"

definition toy_pack_io :: filepack_io where
  "toy_pack_io = \<lparr>fw_encode = (\<lambda>i. toy_eio), fw_manifest_temp = True, fw_sidecar_temp = True, fw_commit = True,
     fw_publish_sidecar = True, fw_publish_manifest = True, fw_rollback = True\<rparr>"

lemma toy_pack_encode:
  "\<exists>d' r. encode_file_with_store toy_penv toy_kenv toy_carbonado toy_eio None (encode_options_of (toy_copts casey) bs) (d, None) =
     ((d', None), Ok r) \<and> er_bao_root_hex r = env_hex toy_penv (replicate 32 9)"
  by (simp add: encode_file_with_store_def encode_options_of_def toy_copts_def toy_carbonado_def toy_header_def
      master_key_for_format_def publish_encoded_def Let_def outboard_plaintext_name_def io_simps toy_eio_def io_pure_def)

abbreviation no_files :: encoded_files where
  "no_files \<equiv> \<lparr>ef_entries = [], ef_sources = [], ef_bindings = []\<rparr>"

lemma toy_encode_entries:
  "\<exists>d' r r'. encode_entries toy_penv toy_kenv toy_carbonado toy_fenv (\<lambda>i. toy_eio) toy_src (toy_copts casey) 0 [''a'', ''b'']
     no_files (d, None) = ((d', None), Ok (add_encoded toy_fenv casey ''b'' [1, 2, 3] r'
       (add_encoded toy_fenv casey ''a'' [1, 2, 3] r no_files))) \<and>
     er_bao_root_hex r = er_bao_root_hex r'"
proof -
  from toy_pack_encode [of casey "[1, 2, 3]" d] obtain d1 r1 where
    s1: "encode_file_with_store toy_penv toy_kenv toy_carbonado toy_eio None (encode_options_of (toy_copts casey) [1, 2, 3]) (d, None) =
      ((d1, None), Ok r1)" "er_bao_root_hex r1 = env_hex toy_penv (replicate 32 9)" by blast
  from toy_pack_encode [of casey "[1, 2, 3]" d1] obtain d2 r2 where
    s2: "encode_file_with_store toy_penv toy_kenv toy_carbonado toy_eio None (encode_options_of (toy_copts casey) [1, 2, 3]) (d1, None) =
      ((d2, None), Ok r2)" "er_bao_root_hex r2 = env_hex toy_penv (replicate 32 9)" by blast
  have casey: "co_filepack_compat (toy_copts casey) = casey" by (simp add: toy_copts_def)
  from s1 s2 show ?thesis
    by (intro exI [of _ d2] exI [of _ r1] exI [of _ r2]) (simp add: toy_src_def io_then_def io_lift_def io_pure_def casey)
qed

lemma publish_succeeds:
  assumes "\<exists>previous st'. bind_entries env (fm_fingerprint m) (fm_entries m) (dd_store d) = Ok (previous, st')"
  shows "\<exists>d'. publish_filepack env toy_pack_io m bs side d = (d', Ok m)"
proof -
  note P = filepack_paths [of "fm_fingerprint m"] filepack_paths [of "fm_fingerprint m", symmetric]
  from assms P show ?thesis
    by (cases side) (auto simp: publish_filepack_def Let_def toy_pack_io_def io_then_def write_file_def io_pure_def
        commit_filepack_metadata_def publish_or_rollback_def rename_file_def)
qed


lemma toy_collected:
  assumes "encode_entries toy_penv toy_kenv toy_carbonado toy_fenv (\<lambda>i. toy_eio) toy_src (toy_copts casey) 0 paths
      no_files (toy_stored_dir, None) = ((d', None), Ok acc)"
  shows "collected toy_penv 0 acc d'" "casey \<Longrightarrow> ef_sources acc = add_sources toy_fenv toy_src paths []"
proof -
  have opts: "co_format (toy_copts casey) = 0" "co_filepack_compat (toy_copts casey) = casey" by (simp_all add: toy_copts_def)
  have "collected toy_penv (co_format (toy_copts casey)) no_files toy_stored_dir"
    using toy_stored(1) by (simp add: collected_def)
  from encode_entries_collects [OF assms this toy_laws(1) toy_pack_laws(2,1)] opts
  show "collected toy_penv 0 acc d'" "casey \<Longrightarrow> ef_sources acc = add_sources toy_fenv toy_src paths []" by simp_all
qed

lemma toy_bind:
  assumes "collected toy_penv 0 acc d"
  shows "\<exists>previous st'. bind_entries toy_penv F (ef_entries acc) (dd_store d) = Ok (previous, st')"
proof -
  have "\<forall>e \<in> set (ef_entries acc). bound toy_penv 0 (\<lambda>_. True) (dd_store d) e"
    using assms bound_True [where P = "\<lambda>fp. fp = None"] by (simp add: collected_def)
  then show ?thesis by (rule bind_entries_total [OF toy_pack_laws(1,2)])
qed

lemma toy_create:
  "\<exists>d' m. create_filepack toy_penv toy_kenv toy_carbonado toy_fenv toy_pack_io toy_src (toy_copts True) (toy_stored_dir, None) =
     ((d', None), Ok m)"
proof -
  from toy_encode_entries [of True toy_stored_dir] obtain d1 acc where
    enc: "encode_entries toy_penv toy_kenv toy_carbonado toy_fenv (\<lambda>i. toy_eio) toy_src (toy_copts True) 0 [''a'', ''b'']
      no_files (toy_stored_dir, None) = ((d1, None), Ok acc)" by blast
  note col = toy_collected [OF enc]
  have "\<exists>tree. insert_files (ef_sources acc) [] = Ok tree"
    using col(2) by (simp add: toy_src_def insert_file_def less_char_def)
  then obtain tree where "insert_files (ef_sources acc) [] = Ok tree" by blast
  from pack_succeeds [OF this toy_archive_laws toy_pack(2)] obtain c where
    "pack_compat_manifest toy_archive_env (ef_sources acc) (ef_bindings acc) = Ok c" by blast
  then obtain m bs side where mk: "make_manifest toy_penv toy_fenv True ''.'' acc = Ok (m, bs, side)" "fm_entries m = ef_entries acc"
    by (auto simp: make_manifest_def toy_fenv_def)
  from publish_succeeds [of toy_penv m d1 bs side] toy_bind [OF col(1)] mk(2) obtain d' where
    pub: "publish_filepack toy_penv toy_pack_io m bs side d1 = (d', Ok m)" by auto
  have walked: "walk_files [] [(''a'', RegularFile), (''b'', RegularFile)] = Ok [''a'', ''b'']"
    by (simp add: relative_path_def replace_backslashes_def)
  have sorted: "sort [''a'', ''b''] = [''a'', ''b'']" by (simp add: less_char_def)
  have src: "sd_listing toy_src = Some [(''a'', RegularFile), (''b'', RegularFile)]" "sd_name toy_src = None"
    "co_filepack_compat (toy_copts True)" "fw_encode toy_pack_io = (\<lambda>i. toy_eio)"
    by (simp_all add: toy_src_def toy_copts_def toy_pack_io_def)
  have opened: "on_dir (open_data_dir toy_penv) (toy_stored_dir, None) = ((toy_stored_dir, None), Ok (dd_store toy_stored_dir))"
    using open_current [OF toy_stored(1)] by (simp add: on_dir_def)
  have published: "on_dir (publish_filepack toy_penv toy_pack_io m bs side) (d1, None) = ((d', None), Ok m)"
    using pub by (simp add: on_dir_def)
  show ?thesis
    by (simp add: create_filepack_def src walked sorted io_then_def io_lift_def opened enc mk(1) published
        del: encode_entries.simps walk_files.simps sort_key_simps)
qed

lemma created_filepack_verifies_witness:
  "\<exists>d' m v. create_filepack toy_penv toy_kenv toy_carbonado toy_fenv toy_pack_io toy_src (toy_copts True) (toy_stored_dir, None) =
     ((d', None), Ok m) \<and> verify_filepack toy_penv toy_fenv True (fm_fingerprint m) d' = Some (d', Ok v) \<and> vf_valid v"
proof -
  from toy_create obtain d' m where
    run: "create_filepack toy_penv toy_kenv toy_carbonado toy_fenv toy_pack_io toy_src (toy_copts True) (toy_stored_dir, None) =
      ((d', None), Ok m)" by blast
  have "co_filepack_compat (toy_copts True) = True" "fp_archive toy_fenv = toy_archive_env"
    by (simp_all add: toy_copts_def toy_fenv_def)
  with created_filepack_verifies [OF run toy_laws(1) toy_pack_laws(2,1,3) toy_stored(1)] toy_pack(2) run
  show ?thesis by (auto simp: toy_src_def)
qed

text \<open>Two files with the same contents: their record stays bound to the pack that was not published.\<close>

lemma failed_pack_bindings_witness:
  "\<exists>previous d2 d3 r root m'. publish_or_rollback toy_penv False True previous ''x'' ''y'' [] d2 = (d3, r) \<and>
     known_commitment toy_penv root d3 = Ok m' \<and> cm_filepack_fp m' = Some ''f''"
proof -
  from toy_encode_entries [of False toy_stored_dir] obtain d1 r r' where
    enc: "encode_entries toy_penv toy_kenv toy_carbonado toy_fenv (\<lambda>i. toy_eio) toy_src (toy_copts False) 0 [''a'', ''b'']
      no_files (toy_stored_dir, None) = ((d1, None), Ok (add_encoded toy_fenv False ''b'' [1, 2, 3] r'
        (add_encoded toy_fenv False ''a'' [1, 2, 3] r no_files)))" and eq: "er_bao_root_hex r = er_bao_root_hex r'" by blast
  let ?acc = "add_encoded toy_fenv False ''b'' [1, 2, 3] r' (add_encoded toy_fenv False ''a'' [1, 2, 3] r no_files)"
  let ?m = "\<lparr>fm_version = 1, fm_fingerprint = ''f'', fm_root = ''.'', fm_entries = ef_entries ?acc\<rparr>"
  from toy_bind [OF toy_collected(1) [OF enc], of "''f''"] obtain previous st where
    "bind_entries toy_penv ''f'' (ef_entries ?acc) (dd_store d1) = Ok (previous, st)" by blast
  then have bind: "commit_filepack_metadata toy_penv True ?m d1 = (d1\<lparr>dd_store := st\<rparr>, Ok previous)"
    by (simp add: commit_filepack_metadata_def)
  obtain d3 res where failed: "publish_or_rollback toy_penv False True previous ''x'' ''y'' [] (d1\<lparr>dd_store := st\<rparr>) = (d3, res)"
    by fastforce
  let ?e = "hd (ef_entries ?acc)"
  have e: "?e \<in> set (fm_entries ?m)" "count_list (map fe_bao_root (fm_entries ?m)) (fe_bao_root ?e) = 2"
    using eq by (simp_all add: add_encoded_def Let_def)
  from failed_pack_bindings [OF enc bind _ failed refl toy_laws(1) toy_pack_laws(2,1) toy_stored(1) e(1)] e(2)
  obtain root m' where "known_commitment toy_penv root d3 = Ok m'" "cm_filepack_fp m' = Some ''f''" by auto
  with failed show ?thesis by blast
qed

end
