(* ===== verification/Spec2Isabelle.thy ===== *)
theory Spec2Isabelle
  imports IndexUpdate Reorg TxBuilder SatText Rarity Calendar CommitSafety Settings FilepackSafety
begin

text \<open>
  A verification development for \<open>lord\<close>, a fork of the \<open>ord\<close> index and wallet with the crates
  of a commitment service: OpenTimestamps proofs, an embedded calendar that anchors digests
  in Bitcoin transactions, a store of commitments, and a market for datums.

  \<^bold>\<open>The program and the theories.\<close>

  \<^item> \<open>Prelude\<close>, \<open>Text\<close>: Rust's integers, \<open>Result\<close>, checked and saturating arithmetic,
    little-endian bytes, and the string routines of the standard library.
  \<^item> \<open>Varint\<close> (\<open>crates/ordinals/src/varint.rs\<close>): the LEB128 codec. \<open>Sat\<close>, \<open>Rarity\<close>,
    \<open>SatText\<close> (\<open>crates/ordinals/src\<close>): heights, epochs, degrees and decimals of a sat, its
    rarity and charms, and the notations it is parsed from and printed in.
  \<^item> \<open>Utxo\<close> (\<open>src/index/utxo_entry.rs\<close>, \<open>entry.rs\<close>): the byte format of an unspent output in
    the index. \<open>SatIndex\<close>, \<open>BlockIndex\<close> (\<open>src/index/updater.rs\<close>): the hand-over of sats from
    inputs to outputs, the cache of outputs of a batch of blocks and its commit. \<open>Reorg\<close>
    (\<open>src/index/reorg.rs\<close>, \<open>store.rs\<close>): detection of a reorganisation and recovery from a
    savepoint.
  \<^item> \<open>TxBuilder\<close> (\<open>src/wallet/transaction_builder.rs\<close>): the construction of a transaction that
    sends a sat, one definition per method of the builder.
  \<^item> \<open>OtsProof\<close> (\<open>crates/lord-storage/src/ots_order.rs\<close>, \<open>lord-commit/src/ots_attest.rs\<close>): proof
    trees, their order keys and the verification of their attestations. \<open>Merkle\<close>,
    \<open>CalendarProof\<close>, \<open>Calendar\<close> (\<open>crates/lord-calendar/src\<close>): Merkle trees and the proofs over
    them, the queue, the store, the requests of clients and the anchoring worker, first as
    functions and then as a step relation with restarts and failing writes.
  \<^item> \<open>Rpc\<close>: the errors of a node's client. \<open>BlockSats\<close>, \<open>IndexRun\<close> (\<open>src/index/updater.rs\<close>):
    the sats that a block mines, moves and loses, and the index as a state machine of blocks, commits,
    savepoints and restorations. \<open>IndexQuery\<close> (\<open>src/index.rs\<close>, \<open>txindex.rs\<close>): opening the index
    and its queries. \<open>IndexUpdate\<close> (\<open>src/index/updater.rs\<close>, \<open>reorg.rs\<close>): the driver of an update
    with its commits, savepoints and recoveries.
  \<^item> \<open>Btree\<close>: ordered maps as sorted association lists, the interface \<open>kv_store\<close> of the stores.
    \<open>CommitmentStore\<close> (\<open>crates/lord-storage/src/store.rs\<close>, \<open>meta.rs\<close>): the databases of
    commitments, the encoding of order keys, and the migrations of the schema.
  \<^item> \<open>Ltp\<close>, \<open>Mempool\<close> (\<open>crates/lord-ltp/src\<close>): frames and their validation, the staging files,
    and the mempool as a state machine with failing writes and restarts.
  \<^item> \<open>Breccia\<close> (\<open>crates/lord-commit/src/breccia_log.rs\<close>, \<open>entry.rs\<close>,
    \<open>lord-storage/src/breccia_timestamps.rs\<close>): the append-only log, byte by byte, with torn
    appends. \<open>Commit\<close> (\<open>lord-commit/src/ots.rs\<close>): timestamping, upgrading, verifying, listing
    and importing commitments over a data directory that holds the databases, the proof files,
    the log and the mempool; \<open>CommitSafety\<close>: what these operations do to the stores together.
  \<^item> \<open>Payments\<close> (\<open>crates/lord-payments/src\<close>, \<open>lord-ecash/src\<close>, \<open>lord-lightning/src/payments.rs\<close>):
    the coordinator that routes a payment to Lightning or ecash, and the providers behind it;
    the interface \<open>micro_payments\<close> is what the coordinator relies on. \<open>Market\<close>
    (\<open>crates/lord-market/src\<close>): contracts, offers, challenges and settlement; \<open>MarketSafety\<close>: the
    market as a state machine, its invariant, and what a settlement has checked.
  \<^item> \<open>Settings\<close> (\<open>src/settings.rs\<close>, \<open>src/chain.rs\<close>, \<open>src/options.rs\<close>): the four layers of the
    settings, their defaults, checks and readers, down to the coordinator of the settlement.
  \<^item> \<open>Carbonado\<close> (\<open>crates/lord-storage/src/encode.rs\<close>, \<open>verify.rs\<close>, \<open>decode.rs\<close>,
    \<open>master_key.rs\<close>): files encoded into containers beside their records, verified and decoded;
    \<open>CarbonadoSafety\<close>: round trips, and the invariant that every record has its container.
  \<^item> \<open>Archive\<close> (\<open>crates/lord-storage/src/filepack_cbor.rs\<close>): packing a tree of files into an
    archive of hashed blobs, and its verification, with partial recursions; \<open>ArchiveSafety\<close>: it
    returns, what it accepts is sound, and what was packed verifies. \<open>Filepack\<close>
    (\<open>crates/lord-storage/src/filepack.rs\<close>): packs of a directory over the data directory;
    \<open>FilepackSafety\<close>: a created pack verifies, and what a failed one leaves. \<open>ByteCodec\<close> holds
    the codecs with which the laws about third-party codecs are shown to hold.
  \<^bold>\<open>Conventions.\<close> Words are words of the width of the source and wrap around as in the release
  profile; a panic is \<open>None\<close> or an error constructor of its own; \<open>Result\<close> is the datatype
  \<open>result\<close> and \<open>?\<close> is \<open>and_then\<close>; strings are their bytes; a database is a map from keys to
  values and a transaction on it is a function that returns the new map. What the sources
  call but do not contain is a parameter: hash functions and the execution of proof
  operations (\<open>executor\<close>, with \<open>ops_documented\<close> as the documented behaviour of append and
  prepend), parsers and serializers of third-party crates, the answers of a node
  (\<open>rpc\<close>, \<open>header_source\<close>), clocks, and the success of reads and writes.

  \<^bold>\<open>What the lemmas show.\<close> Codecs round-trip, in both directions where the format is canonical.
  The index moves every sat exactly once and in order, finds the rare ones, and its commit
  does not depend on the order of a hash map; it holds each mined sat exactly once as long as no
  block repeats the id of a transaction whose outputs it still has. The first recovery from a
  reorganisation restores only blocks of the best chain; later ones may not, and an index
  without a savepoint below the fork never recovers. A built transaction balances, pays no dust, sends the sat asked for and spends
  nothing it must not. Attestations are confirmed exactly when a path of executed operations
  reaches a block root. The calendar loses no acknowledged digest but one acknowledged while its
  worker reloads the snapshot. Each theorem names its conditions in the text before it. Where the code
  falls short of what it means to do, a theorem says how: they are the findings of the
  manifest.
  The order database lists commitments in the order of their keys, those below the sentinel. The log refines a list of
  blobs, and the mempool keeps its bounds, whatever fails in between. A failed timestamp
  restores the databases, the files and the mempool if its order key was free and the rollback can
  be written; a first successful one leaves all stores consistent, up to the entry that only an
  upgrade writes; importing received tails is idempotent.
  A contract settles when its challenge was passed and its amount was received or recorded; the market keeps
  its records consistent in every reachable state.
  Settings that load are complete. An encoded file of a verifiable format verifies, one within the limits decodes, and no record is left
  without its container, whichever write fails.
  Verification of an archive without cycles returns, and what was packed under plain names verifies
  and lists what was packed.
  \<^bold>\<open>Loops and fuel.\<close> All recursions are structural or have a termination proof; the measures
  are lengths of lists, weights of trees (\<open>step_weight\<close>), and values of words that shrink.
  Where the code counts itself, over blocks, heights or retries, the count is an argument that
  the recursion descends on, with the bound of the code; \<open>chunks_exact_fuel\<close> counts the chunks of a
  list, of which there are as many as \<open>chunks_exact\<close> gives it. The recursions through an archive and the
  loop of an update over reorganisations are partial, with \<open>None\<close> for not returning.

  \<^bold>\<open>Not modelled.\<close> The removal of a file always succeeds in the model (the code ignores its
  failure), and a file that is there can be read. Network services and their routes (\<open>src/subcommand/server.rs\<close>, iroh and LTP
  transports), the dispatch of the command line, templates, the rendering of media, the mock
  node, test drivers and audit tools; third-party code as said above; and the
  Lightning node and the ecash wallet, which are libraries. The manifest lists every
  part with its reason.
\<close>

end
